(* ===== verification/Prelude.thy ===== *)
theory Prelude
  imports Main "HOL-Library.Word" "HOL-Library.Monad_Syntax"
begin

text \<open>
  Shared vocabulary of the development: the machine types of the ESP8266 port
  (FreeRTOS/Source/portable/esp8266/portmacro.h), the constants of projdefs.h, the collections
  of rewrite rules the component proofs use, and generic facts on lists, options and words.
\<close>

unbundle bit_operations_syntax

section \<open>Machine types and constants\<close>

type_synonym u8 = "8 word"
type_synonym u16 = "16 word"
type_synonym u32 = "32 word"

text \<open>\<open>portTickType\<close> and \<open>unsigned portBASE_TYPE\<close> are 32-bit unsigned integers.\<close>

type_synonym portTickType = u32
type_synonym uBaseType = u32

definition portMAX_DELAY :: portTickType where
  "portMAX_DELAY = 0xffffffff"

section \<open>Rule collections\<close>

named_theorems list_api \<open>effect of the list operations on the abstract view\<close>
named_theorems frame \<open>fields an operation leaves alone\<close>
named_theorems kernel_defs \<open>definitions unfolded in the kernel proofs\<close>

section \<open>Lists\<close>

lemma sorted_wrt_snoc:
  "sorted_wrt P (xs @ [x]) \<longleftrightarrow> sorted_wrt P xs \<and> (\<forall>y\<in>set xs. P y x)"
  by (simp add: sorted_wrt_append)

lemma in_butlast_neq_last: "distinct xs \<Longrightarrow> x \<in> set (butlast xs) \<Longrightarrow> x \<noteq> last xs"
  by (induction xs) (auto split: if_splits)

lemma takeWhile_split:
  "x \<notin> set xs \<Longrightarrow> takeWhile (\<lambda>y. y \<noteq> x) (xs @ x # ys) = xs"
  "x \<notin> set xs \<Longrightarrow> dropWhile (\<lambda>y. y \<noteq> x) (xs @ x # ys) = x # ys"
  by (induction xs) auto

lemma remove1_split:
  "x \<notin> set xs \<Longrightarrow> remove1 x (xs @ x # ys) = xs @ ys"
  by (induction xs) auto

lemma filter_neq_split:
  "x \<notin> set xs \<Longrightarrow> x \<notin> set ys \<Longrightarrow> filter (\<lambda>y. y \<noteq> x) (xs @ x # ys) = xs @ ys"
  by (induction xs) (auto simp: filter_id_conv)

lemma sorted_wrt_remove1: "sorted_wrt P xs \<Longrightarrow> sorted_wrt P (remove1 x xs)"
  by (induction xs) (auto dest: notin_set_remove1)

section \<open>Words\<close>

lemma max_delay_top [simp]: "(v::u32) \<le> portMAX_DELAY"
proof -
  have "portMAX_DELAY = - 1" by (simp add: portMAX_DELAY_def)
  then show ?thesis by (metis word_order.extremum)
qed

lemma less_max_delay_iff: "v < portMAX_DELAY \<longleftrightarrow> v \<noteq> portMAX_DELAY"
  using max_delay_top [of v] by (auto simp: less_le)

lemma unat_of_nat_u32: "n < 2 ^ 32 \<Longrightarrow> unat (of_nat n :: u32) = n"
  by (simp add: unat_of_nat take_bit_nat_eq_self)

lemma unat_Suc_word:
  fixes w :: u32
  assumes "unat w = n" and "Suc n < 2 ^ 32"
  shows "unat (w + 1) = Suc n"
  using assms by (simp add: unat_word_ariths)

lemma unat_pred_word:
  fixes w :: u32
  assumes "unat w = Suc n"
  shows "unat (w - 1) = n"
  using assms by (metis Suc_neq_Zero diff_Suc_1 unat_0 unat_minus_one)

lemma uint_u32: "0 \<le> uint (v::u32)" "uint (v::u32) < 4294967296"
  using uint_bounded [of v] by simp_all

lemma u32_unfold:
  fixes v w :: u32
  shows "uint (v - w) = (if uint w \<le> uint v then uint v - uint w else uint v - uint w + 4294967296)"
    and "uint (v + w) = (if uint v + uint w < 4294967296 then uint v + uint w else uint v + uint w - 4294967296)"
  by (simp_all add: uint_sub_if' uint_plus_if')

lemma u32_one_ahead:
  fixes v t :: u32
  shows "t \<le> v \<Longrightarrow> t + 1 \<noteq> 0 \<Longrightarrow> v - t \<le> 1 \<longleftrightarrow> v \<le> t + 1"
    and "v < t \<Longrightarrow> t + 1 \<noteq> 0 \<Longrightarrow> \<not> v - t \<le> 1"
    and "t + 1 = 0 \<Longrightarrow> v < t \<Longrightarrow> v - t \<le> 1 \<longleftrightarrow> v = 0"
  using uint_u32 [of v] uint_u32 [of t]
  by (auto simp: word_le_def word_less_def u32_unfold word_uint_eq_iff split: if_splits)
    (use uint_u32 [of v] uint_u32 [of t] in linarith)+

lemma u32_suc_le:
  fixes t :: u32
  shows "t + 1 \<noteq> 0 \<Longrightarrow> t \<le> t + 1" and "t + 1 = 0 \<longleftrightarrow> t = portMAX_DELAY"
  using uint_u32 [of t]
  by (auto simp: word_le_def u32_unfold word_uint_eq_iff portMAX_DELAY_def split: if_splits)
    (use uint_u32 [of t] in linarith)

lemma u32_pred:
  fixes p x :: u32
  assumes "p \<noteq> 0"
  shows "x \<le> p \<longleftrightarrow> x = p \<or> x \<le> p - 1" and "p - 1 < p"
  using assms uint_u32 [of p] uint_u32 [of x]
  by (auto simp: word_le_def word_less_def word_uint_eq_iff u32_unfold split: if_splits)
    (use uint_u32 [of p] uint_u32 [of x] assms in linarith)+

end
