(* ===== verification/Kernel_List.thy ===== *)
theory Kernel_List
  imports Prelude
begin

text \<open>
  The doubly linked lists of the kernel (FreeRTOS/Source/list.c and include/list.h), modelled on
  an explicit pointer store. A node address is either the \<open>xListEnd\<close> marker embedded in a list
  or a list item; the members of \<open>xListItem\<close>, \<open>xMiniListItem\<close> and \<open>xList\<close> are maps from
  addresses. A \<open>NULL\<close> container is \<open>None\<close>. An operation that would dereference a \<open>NULL\<close>
  container, or whose loop would not end, has the result \<open>None\<close>.

  The second half relates the store to plain lists: \<open>list_items\<close> reads a list off the store,
  \<open>heap_wf\<close> is the well-formedness every operation keeps, and each operation is characterised
  by its effect on the abstract view. The locale \<open>kernel_lists\<close> is the interface the scheduler
  and the queues rely on.
\<close>

section \<open>The list structures and operations\<close>

datatype ('l, 'i) node = ListEnd 'l | ListItem 'i

record ('l, 'i, 'o) list_heap =
  xItemValue :: "('l, 'i) node \<Rightarrow> portTickType"
  pxNext :: "('l, 'i) node \<Rightarrow> ('l, 'i) node"
  pxPrevious :: "('l, 'i) node \<Rightarrow> ('l, 'i) node"
  pvOwner :: "'i \<Rightarrow> 'o"
  pvContainer :: "'i \<Rightarrow> 'l option"
  uxNumberOfItems :: "'l \<Rightarrow> uBaseType"
  pxIndex :: "'l \<Rightarrow> ('l, 'i) node"

definition listSET_LIST_ITEM_OWNER ::
    "'i \<Rightarrow> 'o \<Rightarrow> ('l, 'i, 'o) list_heap \<Rightarrow> ('l, 'i, 'o) list_heap" where
  "listSET_LIST_ITEM_OWNER i ow h = h\<lparr>pvOwner := (pvOwner h)(i := ow)\<rparr>"

definition listSET_LIST_ITEM_VALUE ::
    "'i \<Rightarrow> portTickType \<Rightarrow> ('l, 'i, 'o) list_heap \<Rightarrow> ('l, 'i, 'o) list_heap" where
  "listSET_LIST_ITEM_VALUE i v h = h\<lparr>xItemValue := (xItemValue h)(ListItem i := v)\<rparr>"

definition listGET_LIST_ITEM_VALUE :: "'i \<Rightarrow> ('l, 'i, 'o) list_heap \<Rightarrow> portTickType" where
  "listGET_LIST_ITEM_VALUE i h = xItemValue h (ListItem i)"

definition listGET_ITEM_VALUE_OF_HEAD_ENTRY :: "'l \<Rightarrow> ('l, 'i, 'o) list_heap \<Rightarrow> portTickType" where
  "listGET_ITEM_VALUE_OF_HEAD_ENTRY l h = xItemValue h (pxNext h (ListEnd l))"

definition listLIST_IS_EMPTY :: "'l \<Rightarrow> ('l, 'i, 'o) list_heap \<Rightarrow> bool" where
  "listLIST_IS_EMPTY l h \<longleftrightarrow> uxNumberOfItems h l = 0"

definition listCURRENT_LIST_LENGTH :: "'l \<Rightarrow> ('l, 'i, 'o) list_heap \<Rightarrow> uBaseType" where
  "listCURRENT_LIST_LENGTH l h = uxNumberOfItems h l"

text \<open>The owner of a node; reading the owner of an \<open>xListEnd\<close> marker is out of bounds.\<close>

fun node_owner :: "('l, 'i, 'o) list_heap \<Rightarrow> ('l, 'i) node \<Rightarrow> 'o option" where
  "node_owner h (ListItem i) = Some (pvOwner h i)"
| "node_owner h (ListEnd l) = None"

definition listGET_OWNER_OF_NEXT_ENTRY ::
    "'l \<Rightarrow> ('l, 'i, 'o) list_heap \<Rightarrow> ('o \<times> ('l, 'i, 'o) list_heap) option" where
  "listGET_OWNER_OF_NEXT_ENTRY l h =
     (let h1 = h\<lparr>pxIndex := (pxIndex h)(l := pxNext h (pxIndex h l))\<rparr>;
          h2 = (if pxIndex h1 l = ListEnd l
                then h1\<lparr>pxIndex := (pxIndex h1)(l := pxNext h1 (pxIndex h1 l))\<rparr> else h1)
      in map_option (\<lambda>ow. (ow, h2)) (node_owner h2 (pxIndex h2 l)))"

definition listGET_OWNER_OF_HEAD_ENTRY :: "'l \<Rightarrow> ('l, 'i, 'o) list_heap \<Rightarrow> 'o option" where
  "listGET_OWNER_OF_HEAD_ENTRY l h = node_owner h (pxNext h (ListEnd l))"

definition listIS_CONTAINED_WITHIN :: "'l option \<Rightarrow> 'i \<Rightarrow> ('l, 'i, 'o) list_heap \<Rightarrow> bool" where
  "listIS_CONTAINED_WITHIN l i h \<longleftrightarrow> pvContainer h i = l"

definition listLIST_ITEM_CONTAINER :: "'i \<Rightarrow> ('l, 'i, 'o) list_heap \<Rightarrow> 'l option" where
  "listLIST_ITEM_CONTAINER i h = pvContainer h i"

definition listLIST_IS_INITIALISED :: "'l \<Rightarrow> ('l, 'i, 'o) list_heap \<Rightarrow> bool" where
  "listLIST_IS_INITIALISED l h \<longleftrightarrow> xItemValue h (ListEnd l) = portMAX_DELAY"

definition vListInitialise :: "'l \<Rightarrow> ('l, 'i, 'o) list_heap \<Rightarrow> ('l, 'i, 'o) list_heap" where
  "vListInitialise l h =
     h\<lparr>pxIndex := (pxIndex h)(l := ListEnd l),
       xItemValue := (xItemValue h)(ListEnd l := portMAX_DELAY),
       pxNext := (pxNext h)(ListEnd l := ListEnd l),
       pxPrevious := (pxPrevious h)(ListEnd l := ListEnd l),
       uxNumberOfItems := (uxNumberOfItems h)(l := 0)\<rparr>"

definition vListInitialiseItem :: "'i \<Rightarrow> ('l, 'i, 'o) list_heap \<Rightarrow> ('l, 'i, 'o) list_heap" where
  "vListInitialiseItem i h = h\<lparr>pvContainer := (pvContainer h)(i := None)\<rparr>"

definition vListInsertEnd ::
    "'l \<Rightarrow> 'i \<Rightarrow> ('l, 'i, 'o) list_heap \<Rightarrow> ('l, 'i, 'o) list_heap" where
  "vListInsertEnd l i h =
     (let idx = pxIndex h l;
          h1 = h\<lparr>pxNext := (pxNext h)(ListItem i := idx)\<rparr>;
          h2 = h1\<lparr>pxPrevious := (pxPrevious h1)(ListItem i := pxPrevious h1 idx)\<rparr>;
          h3 = h2\<lparr>pxNext := (pxNext h2)(pxPrevious h2 idx := ListItem i)\<rparr>;
          h4 = h3\<lparr>pxPrevious := (pxPrevious h3)(idx := ListItem i)\<rparr>;
          h5 = h4\<lparr>pvContainer := (pvContainer h4)(i := Some l)\<rparr>
      in h5\<lparr>uxNumberOfItems := (uxNumberOfItems h5)(l := uxNumberOfItems h5 l + 1)\<rparr>)"

text \<open>The search loop of \<open>vListInsert\<close>; \<open>None\<close> is a loop that does not end.\<close>

partial_function (option) insert_iterate ::
    "('l, 'i, 'o) list_heap \<Rightarrow> portTickType \<Rightarrow> ('l, 'i) node \<Rightarrow> ('l, 'i) node option" where
  "insert_iterate h v it =
     (if xItemValue h (pxNext h it) \<le> v then insert_iterate h v (pxNext h it) else Some it)"

definition insert_after ::
    "'l \<Rightarrow> 'i \<Rightarrow> ('l, 'i) node \<Rightarrow> ('l, 'i, 'o) list_heap \<Rightarrow> ('l, 'i, 'o) list_heap" where
  "insert_after l i it h =
     (let h1 = h\<lparr>pxNext := (pxNext h)(ListItem i := pxNext h it)\<rparr>;
          h2 = h1\<lparr>pxPrevious := (pxPrevious h1)(pxNext h1 (ListItem i) := ListItem i)\<rparr>;
          h3 = h2\<lparr>pxPrevious := (pxPrevious h2)(ListItem i := it)\<rparr>;
          h4 = h3\<lparr>pxNext := (pxNext h3)(it := ListItem i)\<rparr>;
          h5 = h4\<lparr>pvContainer := (pvContainer h4)(i := Some l)\<rparr>
      in h5\<lparr>uxNumberOfItems := (uxNumberOfItems h5)(l := uxNumberOfItems h5 l + 1)\<rparr>)"

definition vListInsert ::
    "'l \<Rightarrow> 'i \<Rightarrow> ('l, 'i, 'o) list_heap \<Rightarrow> ('l, 'i, 'o) list_heap option" where
  "vListInsert l i h =
     (let v = xItemValue h (ListItem i)
      in map_option (\<lambda>it. insert_after l i it h)
           (if v = portMAX_DELAY then Some (pxPrevious h (ListEnd l))
            else insert_iterate h v (ListEnd l)))"

definition uxListRemove ::
    "'i \<Rightarrow> ('l, 'i, 'o) list_heap \<Rightarrow> (uBaseType \<times> ('l, 'i, 'o) list_heap) option" where
  "uxListRemove i h =
     (let h1 = h\<lparr>pxPrevious := (pxPrevious h)(pxNext h (ListItem i) := pxPrevious h (ListItem i))\<rparr>;
          h2 = h1\<lparr>pxNext := (pxNext h1)(pxPrevious h1 (ListItem i) := pxNext h1 (ListItem i))\<rparr>
      in case pvContainer h2 i of
           None \<Rightarrow> None
         | Some l \<Rightarrow>
             (let h3 = (if pxIndex h2 l = ListItem i
                        then h2\<lparr>pxIndex := (pxIndex h2)(l := pxPrevious h2 (ListItem i))\<rparr> else h2);
                  h4 = h3\<lparr>pvContainer := (pvContainer h3)(i := None)\<rparr>;
                  h5 = h4\<lparr>uxNumberOfItems := (uxNumberOfItems h4)(l := uxNumberOfItems h4 l - 1)\<rparr>
              in Some (uxNumberOfItems h5 l, h5)))"

section \<open>The abstract view\<close>

text \<open>Follow \<open>pxNext\<close> from a node, collecting items, for at most \<open>n\<close> nodes.\<close>

fun walk_items :: "('l, 'i, 'o) list_heap \<Rightarrow> nat \<Rightarrow> ('l, 'i) node \<Rightarrow> 'i list" where
  "walk_items h 0 x = []"
| "walk_items h (Suc n) (ListEnd l) = []"
| "walk_items h (Suc n) (ListItem i) = i # walk_items h n (pxNext h (ListItem i))"

definition list_items :: "('l, 'i, 'o) list_heap \<Rightarrow> 'l \<Rightarrow> 'i list" where
  "list_items h l =
     (if listLIST_IS_INITIALISED l h
      then walk_items h (unat (uxNumberOfItems h l)) (pxNext h (ListEnd l)) else [])"

definition item_value :: "('l, 'i, 'o) list_heap \<Rightarrow> 'i \<Rightarrow> portTickType" where
  "item_value h i = xItemValue h (ListItem i)"

text \<open>A doubly linked segment from node \<open>a\<close> through the items \<open>xs\<close> to node \<open>b\<close>.\<close>

fun dlseg :: "('l, 'i, 'o) list_heap \<Rightarrow> ('l, 'i) node \<Rightarrow> 'i list \<Rightarrow> ('l, 'i) node \<Rightarrow> bool" where
  "dlseg h a [] b \<longleftrightarrow> pxNext h a = b \<and> pxPrevious h b = a"
| "dlseg h a (x # xs) b \<longleftrightarrow>
     pxNext h a = ListItem x \<and> pxPrevious h (ListItem x) = a \<and> dlseg h (ListItem x) xs b"

definition ring :: "('l, 'i, 'o) list_heap \<Rightarrow> 'l \<Rightarrow> 'i list \<Rightarrow> bool" where
  "ring h l xs \<longleftrightarrow>
     dlseg h (ListEnd l) xs (ListEnd l) \<and> distinct xs \<and>
     uxNumberOfItems h l = of_nat (length xs) \<and> length xs < 2 ^ 32 \<and>
     (\<forall>i \<in> set xs. pvContainer h i = Some l) \<and>
     (pxIndex h l = ListEnd l \<or> (\<exists>i \<in> set xs. pxIndex h l = ListItem i))"

definition heap_wf :: "('l, 'i, 'o) list_heap \<Rightarrow> bool" where
  "heap_wf h \<longleftrightarrow>
     (\<forall>l. listLIST_IS_INITIALISED l h \<longrightarrow> ring h l (list_items h l)) \<and>
     (\<forall>i l. pvContainer h i = Some l \<longrightarrow>
        listLIST_IS_INITIALISED l h \<and> i \<in> set (list_items h l))"

section \<open>Segments and rings\<close>

abbreviation last_node :: "('l, 'i) node \<Rightarrow> 'i list \<Rightarrow> ('l, 'i) node" where
  "last_node a xs \<equiv> last (a # map ListItem xs)"

abbreviation first_node :: "'i list \<Rightarrow> ('l, 'i) node \<Rightarrow> ('l, 'i) node" where
  "first_node ys b \<equiv> hd (map ListItem ys @ [b])"

lemma last_node_neq: "i \<notin> set xs \<Longrightarrow> a \<noteq> ListItem i \<Longrightarrow> last_node a xs \<noteq> ListItem i"
  using last_in_set [of xs] by (auto simp: last_map split: if_splits)

lemma first_node_neq: "i \<notin> set xs \<Longrightarrow> b \<noteq> ListItem i \<Longrightarrow> first_node xs b \<noteq> ListItem i"
  by (cases xs) auto

lemma dlseg_snoc_node:
  "dlseg h a (xs @ y # ys) b \<longleftrightarrow> dlseg h a xs (ListItem y) \<and> dlseg h (ListItem y) ys b"
  by (induction xs arbitrary: a) auto

lemma dlseg_cut:
  "dlseg h a (xs @ ys) b \<Longrightarrow>
     dlseg h a xs (first_node ys b) \<and> dlseg h (last_node a xs) ys b"
  by (cases ys; induction xs arbitrary: a) (auto simp: dlseg_snoc_node)

lemma dlseg_ends:
  "dlseg h a xs b \<Longrightarrow> pxNext h a = first_node xs b"
  "dlseg h a xs b \<Longrightarrow> pxPrevious h b = last_node a xs"
  by (induction xs arbitrary: a) auto

lemma dlseg_frame:
  assumes "\<And>n. n = a \<or> n \<in> ListItem ` set xs \<Longrightarrow> pxNext h' n = pxNext h n"
    and "\<And>n. n = b \<or> n \<in> ListItem ` set xs \<Longrightarrow> pxPrevious h' n = pxPrevious h n"
  shows "dlseg h' a xs b \<longleftrightarrow> dlseg h a xs b"
  using assms by (induction xs arbitrary: a) auto

lemma dlseg_retarget:
  assumes "dlseg h a xs b" and "distinct (a # map ListItem xs)"
    and "\<And>n. n \<in> set (butlast (a # map ListItem xs)) \<Longrightarrow> pxNext h' n = pxNext h n"
    and "\<And>n. n \<in> ListItem ` set xs \<Longrightarrow> pxPrevious h' n = pxPrevious h n"
    and "pxNext h' (last_node a xs) = c" and "pxPrevious h' c = last_node a xs"
  shows "dlseg h' a xs c"
  using assms by (induction xs arbitrary: a) auto

lemma dlseg_resource:
  assumes "dlseg h a ys b" 
    and "\<And>n. n \<in> ListItem ` set ys \<Longrightarrow> pxNext h' n = pxNext h n"
    and "\<And>n. n \<in> set (tl (map ListItem ys @ [b])) \<Longrightarrow> pxPrevious h' n = pxPrevious h n"
    and "pxNext h' c = first_node ys b" and "pxPrevious h' (first_node ys b) = c"
  shows "dlseg h' c ys b"
proof (cases ys)
  case Nil
  then show ?thesis using assms by simp
next
  case (Cons y zs)
  have "dlseg h' (ListItem y) zs b \<longleftrightarrow> dlseg h (ListItem y) zs b"
    using assms(2,3) Cons by (intro dlseg_frame) auto
  then show ?thesis using assms Cons by auto
qed

lemma walk_dlseg: "dlseg h a xs (ListEnd l) \<Longrightarrow> walk_items h (length xs) (pxNext h a) = xs"
  by (induction xs arbitrary: a) auto

lemma ring_items:
  assumes "listLIST_IS_INITIALISED l h" and "ring h l xs"
  shows "list_items h l = xs"
  using assms walk_dlseg [of h "ListEnd l" xs l]
  by (simp add: ring_def list_items_def unat_of_nat_u32)

lemma heap_wf_ring: "heap_wf h \<Longrightarrow> listLIST_IS_INITIALISED l h \<Longrightarrow> ring h l (list_items h l)"
  by (simp add: heap_wf_def)

lemma heap_wf_container:
  assumes "heap_wf h"
  shows "pvContainer h i = Some l \<longleftrightarrow> i \<in> set (list_items h l)"
proof
  show "pvContainer h i = Some l \<Longrightarrow> i \<in> set (list_items h l)"
    using assms by (simp add: heap_wf_def)
next
  assume i: "i \<in> set (list_items h l)"
  then have "listLIST_IS_INITIALISED l h" by (auto simp: list_items_def split: if_splits)
  with assms have "ring h l (list_items h l)" by (rule heap_wf_ring)
  with i show "pvContainer h i = Some l" by (simp add: ring_def)
qed

lemma heap_wfI:
  assumes "\<And>l. listLIST_IS_INITIALISED l h \<Longrightarrow> ring h l (xs l)"
    and "\<And>l. \<not> listLIST_IS_INITIALISED l h \<Longrightarrow> xs l = []"
    and "\<And>i l. pvContainer h i = Some l \<Longrightarrow> i \<in> set (xs l)"
  shows "heap_wf h \<and> list_items h = xs"
proof -
  have items: "list_items h l = xs l" for l
    using assms(1,2) ring_items [of l h] by (cases "listLIST_IS_INITIALISED l h") (simp_all add: list_items_def)
  moreover have "pvContainer h i = Some l \<Longrightarrow> listLIST_IS_INITIALISED l h" for i l
    using assms(2,3) by (metis empty_iff list.set(1))
  ultimately have "heap_wf h" using assms by (auto simp: heap_wf_def)
  with items show ?thesis by auto
qed


text \<open>Linking an item between two neighbouring nodes: the effect shared by both insertions.\<close>

definition linked ::
    "'l \<Rightarrow> 'i \<Rightarrow> ('l, 'i) node \<Rightarrow> ('l, 'i) node \<Rightarrow> ('l, 'i, 'o) list_heap \<Rightarrow> ('l, 'i, 'o) list_heap" where
  "linked l i p n h =
     h\<lparr>pxNext := (pxNext h)(ListItem i := n, p := ListItem i),
       pxPrevious := (pxPrevious h)(n := ListItem i, ListItem i := p),
       pvContainer := (pvContainer h)(i := Some l),
       uxNumberOfItems := (uxNumberOfItems h)(l := uxNumberOfItems h l + 1)\<rparr>"

lemma linked_frame [frame]:
  "xItemValue (linked l i p n h) = xItemValue h" "pvOwner (linked l i p n h) = pvOwner h"
  "pxIndex (linked l i p n h) = pxIndex h"
  "pvContainer (linked l i p n h) = (pvContainer h)(i := Some l)"
  by (simp_all add: linked_def)

lemma insert_after_linked:
  "it \<noteq> ListItem i \<Longrightarrow> pxNext h it \<noteq> ListItem i \<Longrightarrow>
     insert_after l i it h = linked l i it (pxNext h it) h"
  by (simp add: insert_after_def linked_def Let_def fun_upd_twist)

lemma vListInsertEnd_linked:
  "pxIndex h l \<noteq> ListItem i \<Longrightarrow> pxPrevious h (pxIndex h l) \<noteq> ListItem i \<Longrightarrow>
     vListInsertEnd l i h = linked l i (pxPrevious h (pxIndex h l)) (pxIndex h l) h"
  by (simp add: vListInsertEnd_def linked_def Let_def fun_upd_twist)

lemma ring_linked:
  assumes r: "ring h l (xs @ ys)" and i: "i \<notin> set (xs @ ys)"
    and room: "length (xs @ ys) + 1 < 2 ^ 32"
    and p: "p = last_node (ListEnd l) xs" and n: "n = first_node ys (ListEnd l)"
  shows "ring (linked l i p n h) l (xs @ i # ys)"
proof -
  let ?h = "linked l i p n h" and ?e = "ListEnd l"
  have d: "dlseg h ?e (xs @ ys) ?e" and dist: "distinct (xs @ ys)"
    using r by (auto simp: ring_def)
  have cut: "dlseg h ?e xs n" "dlseg h p ys ?e"
    using dlseg_cut [OF d] p n by auto
  have nx: "pxNext ?h = (pxNext h)(ListItem i := n, p := ListItem i)"
    and pv: "pxPrevious ?h = (pxPrevious h)(n := ListItem i, ListItem i := p)"
    by (simp_all add: linked_def)
  have pi: "p \<noteq> ListItem i" unfolding p using i by (intro last_node_neq) auto
  have ni: "n \<noteq> ListItem i" unfolding n using i by (intro first_node_neq) auto
  have left: "dlseg ?h ?e xs (ListItem i)"
  proof (rule dlseg_retarget [OF cut(1)])
    show "distinct (?e # map ListItem xs)" using dist by (auto simp: distinct_map inj_on_def)
    show "pxNext ?h m = pxNext h m" if "m \<in> set (butlast (?e # map ListItem xs))" for m
    proof -
      have "distinct (?e # map ListItem xs)" using dist by (auto simp: distinct_map inj_on_def)
      then have "m \<noteq> p" unfolding p using that by (rule in_butlast_neq_last)
      moreover have "m \<noteq> ListItem i" using in_set_butlastD [OF that] i by auto
      ultimately show ?thesis by (simp add: nx)
    qed
    show "pxPrevious ?h m = pxPrevious h m" if m: "m \<in> ListItem ` set xs" for m
    proof -
      obtain x where x: "m = ListItem x" "x \<in> set xs" "x \<notin> set ys" using m dist by auto
      have "n \<noteq> m" unfolding n x(1) by (rule first_node_neq) (use x in simp_all)
      moreover have "m \<noteq> ListItem i" using x i by auto
      ultimately show ?thesis unfolding pv by simp
    qed
    show "pxNext ?h (last_node ?e xs) = ListItem i" "pxPrevious ?h (ListItem i) = last_node ?e xs"
      unfolding p [symmetric] nx pv by simp_all
  qed
  have right: "dlseg ?h (ListItem i) ys ?e"
  proof (rule dlseg_resource [OF cut(2)])
    show "pxNext ?h m = pxNext h m" if m: "m \<in> ListItem ` set ys" for m
    proof -
      obtain y where y: "m = ListItem y" "y \<in> set ys" "y \<notin> set xs" using m dist by auto
      have "p \<noteq> m" unfolding p y(1) by (rule last_node_neq) (use y in simp_all)
      moreover have "m \<noteq> ListItem i" using y i by auto
      ultimately show ?thesis unfolding nx by simp
    qed
    show "pxPrevious ?h m = pxPrevious h m" if "m \<in> set (tl (map ListItem ys @ [?e]))" for m
      using that dist i n unfolding pv by (cases ys) auto
    show "pxNext ?h (ListItem i) = first_node ys ?e" "pxPrevious ?h (first_node ys ?e) = ListItem i"
      unfolding n [symmetric] nx pv using pi ni by simp_all
  qed
  have "dlseg ?h ?e (xs @ i # ys) ?e" using left right by (simp add: dlseg_snoc_node)
  moreover have "uxNumberOfItems ?h l = of_nat (length (xs @ i # ys))"
    using r by (simp add: ring_def linked_def)
  ultimately show ?thesis using r i room by (auto simp: ring_def linked_def)
qed


lemma ring_frame:
  assumes "ring h l xs"
    and "\<And>n. n = ListEnd l \<or> n \<in> ListItem ` set xs \<Longrightarrow> pxNext h' n = pxNext h n"
    and "\<And>n. n = ListEnd l \<or> n \<in> ListItem ` set xs \<Longrightarrow> pxPrevious h' n = pxPrevious h n"
    and "\<And>i. i \<in> set xs \<Longrightarrow> pvContainer h' i = pvContainer h i"
    and "uxNumberOfItems h' l = uxNumberOfItems h l" and "pxIndex h' l = pxIndex h l"
  shows "ring h' l xs"
  using assms dlseg_frame [of "ListEnd l" xs h' h "ListEnd l"] by (simp add: ring_def)

lemma heap_wf_disjoint:
  assumes "heap_wf h" and "i \<in> set (list_items h l)" and "l \<noteq> m"
  shows "i \<notin> set (list_items h m)"
  using assms heap_wf_container [of h i] by (metis option.inject)

lemma heap_wf_linked:
  assumes wf: "heap_wf h" and init: "listLIST_IS_INITIALISED l h"
    and split: "list_items h l = xs @ ys" and free: "pvContainer h i = None"
    and room: "length (xs @ ys) + 1 < 2 ^ 32"
    and p: "p = last_node (ListEnd l) xs" and n: "n = first_node ys (ListEnd l)"
  shows "heap_wf (linked l i p n h) \<and>
    list_items (linked l i p n h) = (list_items h)(l := xs @ i # ys)"
proof (rule heap_wfI)
  let ?h = "linked l i p n h"
  have in_init: "listLIST_IS_INITIALISED m ?h = listLIST_IS_INITIALISED m h" for m
    by (simp add: linked_def listLIST_IS_INITIALISED_def)
  have notin: "i \<notin> set (list_items h m)" for m
    using heap_wf_container [OF wf, of i m] free by auto
  fix m
  show "\<not> listLIST_IS_INITIALISED m ?h \<Longrightarrow> ((list_items h)(l := xs @ i # ys)) m = []"
    using init in_init by (auto simp: list_items_def)
  show "pvContainer ?h j = Some m \<Longrightarrow> j \<in> set (((list_items h)(l := xs @ i # ys)) m)" for j
    using heap_wf_container [OF wf] split by (fastforce simp: linked_def split: if_splits)
  assume m: "listLIST_IS_INITIALISED m ?h"
  show "ring ?h m (((list_items h)(l := xs @ i # ys)) m)"
  proof (cases "m = l")
    case True
    then show ?thesis
      using ring_linked [of h l xs ys i p n] heap_wf_ring [OF wf init] split notin [of l] room p n
      by simp
  next
    case False
    have r: "ring h m (list_items h m)" using heap_wf_ring [OF wf] m in_init by simp
    have pn: "q \<noteq> p \<and> q \<noteq> n \<and> q \<noteq> ListItem i"
      if "q = ListEnd m \<or> q \<in> ListItem ` set (list_items h m)" for q
    proof -
      have "j \<notin> set (list_items h m)" if "j \<in> set (xs @ ys)" for j
        using heap_wf_disjoint [OF wf, of j l m] that False split by simp
      then show ?thesis using that p n False notin
        by (cases ys) (auto simp: last_map split: if_splits)
    qed
    have "ring ?h m (list_items h m)"
      using pn False notin by (intro ring_frame [OF r]) (auto simp: linked_def)
    with False show ?thesis by simp
  qed
qed

section \<open>The operations on the abstract view\<close>

lemma insert_init:
  "vListInsert l i h = Some h' \<Longrightarrow> listLIST_IS_INITIALISED m h' = listLIST_IS_INITIALISED m h"
  by (auto simp: vListInsert_def Let_def insert_after_def listLIST_IS_INITIALISED_def)

lemma remove_init:
  "uxListRemove i h = Some (n, h') \<Longrightarrow> listLIST_IS_INITIALISED m h' = listLIST_IS_INITIALISED m h"
  by (auto simp: uxListRemove_def Let_def listLIST_IS_INITIALISED_def split: option.splits if_splits)

text \<open>Where \<open>vListInsert\<close> puts an item: behind every item whose value is not larger.\<close>

fun insert_by :: "('i \<Rightarrow> portTickType) \<Rightarrow> portTickType \<Rightarrow> 'i \<Rightarrow> 'i list \<Rightarrow> 'i list" where
  "insert_by f v i [] = [i]"
| "insert_by f v i (x # xs) = (if f x \<le> v then x # insert_by f v i xs else i # x # xs)"

text \<open>Where \<open>vListInsertEnd\<close> puts an item: in front of the index.\<close>

fun insert_before :: "('l, 'i) node \<Rightarrow> 'i \<Rightarrow> 'i list \<Rightarrow> 'i list" where
  "insert_before (ListEnd l) i xs = xs @ [i]"
| "insert_before (ListItem j) i xs = takeWhile (\<lambda>x. x \<noteq> j) xs @ i # dropWhile (\<lambda>x. x \<noteq> j) xs"

lemma insert_by_split:
  "insert_by f v i xs = takeWhile (\<lambda>x. f x \<le> v) xs @ i # dropWhile (\<lambda>x. f x \<le> v) xs"
  by (induction xs) auto

lemma insert_by_set [simp]: "set (insert_by f v i xs) = insert i (set xs)"
  by (induction xs) auto

lemma insert_by_length [simp]: "length (insert_by f v i xs) = Suc (length xs)"
  by (induction xs) auto

lemma insert_by_sorted:
  "sorted (map f xs) \<Longrightarrow> v = f i \<Longrightarrow> sorted (map f (insert_by f v i xs))"
  by (induction xs) auto

lemma sorted_dropWhile_above:
  "sorted (map f xs) \<Longrightarrow> \<forall>x\<in>set (dropWhile (\<lambda>x. f x \<le> v) xs). v < f x"
  by (induction xs) (auto simp: not_le)

lemma insert_iterate_dlseg:
  assumes "dlseg h a xs b" and "\<not> xItemValue h b \<le> v"
  shows "insert_iterate h v a = Some (last_node a (takeWhile (\<lambda>x. item_value h x \<le> v) xs))"
  using assms
proof (induction xs arbitrary: a)
  case Nil
  then show ?case by (simp add: insert_iterate.simps)
next
  case (Cons x xs)
  then show ?case by (subst insert_iterate.simps) (simp add: item_value_def)
qed

lemma takeWhile_all: "(\<And>x. x \<in> set xs \<Longrightarrow> P x) \<Longrightarrow> takeWhile P xs = xs \<and> dropWhile P xs = []"
  by (induction xs) auto

text \<open>Termination and effect of \<open>vListInsert\<close> on a well-formed store.\<close>

lemma vListInsert_effect:
  assumes wf: "heap_wf h" and init: "listLIST_IS_INITIALISED l h"
    and free: "pvContainer h i = None" and room: "length (list_items h l) + 1 < 2 ^ 32"
  obtains h' where "vListInsert l i h = Some h'" "heap_wf h'"
    "list_items h' = (list_items h)(l := insert_by (item_value h) (item_value h i) i (list_items h l))"
    "xItemValue h' = xItemValue h" "pvOwner h' = pvOwner h" "pxIndex h' = pxIndex h"
    "pvContainer h' = (pvContainer h)(i := Some l)"
proof -
  let ?xs = "list_items h l" and ?v = "item_value h i" and ?e = "ListEnd l"
  let ?as = "takeWhile (\<lambda>x. item_value h x \<le> ?v) ?xs"
  let ?bs = "dropWhile (\<lambda>x. item_value h x \<le> ?v) ?xs"
  let ?it = "last_node ?e ?as"
  have d: "dlseg h ?e ?xs ?e" using heap_wf_ring [OF wf init] by (simp add: ring_def)
  have notin: "i \<notin> set ?xs" using heap_wf_container [OF wf, of i l] free by auto
  have "vListInsert l i h = Some (insert_after l i ?it h)"
  proof (cases "?v = portMAX_DELAY")
    case True
    then have "?as = ?xs" using takeWhile_all [of ?xs "\<lambda>x. item_value h x \<le> ?v"] by simp
    then have "pxPrevious h ?e = ?it" using dlseg_ends(2) [OF d] by (simp only:)
    then show ?thesis using True unfolding vListInsert_def Let_def item_value_def [symmetric]
      by (simp only: if_True option.map simp_thms)
  next
    case False
    then have "insert_iterate h ?v ?e = Some ?it"
      using insert_iterate_dlseg [OF d] init less_max_delay_iff [of ?v]
      by (simp add: listLIST_IS_INITIALISED_def not_le)
    with False show ?thesis unfolding vListInsert_def Let_def item_value_def [symmetric]
      by (simp only: if_False option.map)
  qed
  moreover have nx: "pxNext h ?it = first_node ?bs ?e"
    using dlseg_cut [of h ?e ?as ?bs ?e] dlseg_ends(1) d by auto
  moreover have "?it \<noteq> ListItem i"
    using notin by (intro last_node_neq) (auto dest: set_takeWhileD)
  moreover have "pxNext h ?it \<noteq> ListItem i"
    unfolding nx using notin by (intro first_node_neq) (auto dest: set_dropWhileD)
  ultimately have eq: "vListInsert l i h = Some (linked l i ?it (first_node ?bs ?e) h)"
    by (simp add: insert_after_linked)
  have "heap_wf (linked l i ?it (first_node ?bs ?e) h) \<and>
      list_items (linked l i ?it (first_node ?bs ?e) h) = (list_items h)(l := ?as @ i # ?bs)"
    by (rule heap_wf_linked [OF wf init _ free]) (use room in simp_all)
  then show ?thesis by (intro that [OF eq]) (simp_all add: frame insert_by_split)
qed


lemma ring_index_split:
  assumes "ring h l xs"
  obtains as bs where "xs = as @ bs" "pxIndex h l = first_node bs (ListEnd l)"
    "insert_before (pxIndex h l) i xs = as @ i # bs"
proof (cases "pxIndex h l")
  case (ListEnd m)
  then have "pxIndex h l = ListEnd l" using assms by (auto simp: ring_def)
  then show ?thesis by (intro that [of xs "[]"]) auto
next
  case (ListItem j)
  then have "j \<in> set xs" using assms by (auto simp: ring_def)
  then obtain as bs where xs: "xs = as @ j # bs" and "j \<notin> set as"
    by (meson split_list_first)
  then show ?thesis using ListItem
    by (intro that [of as "j # bs"]) (simp_all add: takeWhile_split)
qed

lemma vListInsertEnd_effect:
  assumes wf: "heap_wf h" and init: "listLIST_IS_INITIALISED l h"
    and free: "pvContainer h i = None" and room: "length (list_items h l) + 1 < 2 ^ 32"
  shows "heap_wf (vListInsertEnd l i h)"
    and "list_items (vListInsertEnd l i h) =
      (list_items h)(l := insert_before (pxIndex h l) i (list_items h l))"
proof -
  let ?e = "ListEnd l" and ?xs = "list_items h l"
  have r: "ring h l ?xs" using heap_wf_ring [OF wf init] .
  then have d: "dlseg h ?e ?xs ?e" by (simp add: ring_def)
  obtain as bs where xs: "?xs = as @ bs" and idx: "pxIndex h l = first_node bs ?e"
    and ins: "insert_before (pxIndex h l) i ?xs = as @ i # bs"
    using ring_index_split [OF r] by blast
  have notin: "i \<notin> set ?xs" using heap_wf_container [OF wf, of i l] free by auto
  have pv: "pxPrevious h (pxIndex h l) = last_node ?e as"
    using dlseg_cut [of h ?e as bs ?e] dlseg_ends(2) [of h ?e as] d xs idx by auto
  have "pxIndex h l \<noteq> ListItem i" using notin idx xs by (cases bs) auto
  moreover have "pxPrevious h (pxIndex h l) \<noteq> ListItem i"
    using notin pv xs by (auto simp: last_map split: if_splits)
  ultimately have eq: "vListInsertEnd l i h = linked l i (last_node ?e as) (first_node bs ?e) h"
    using pv idx by (simp add: vListInsertEnd_linked)
  have "heap_wf (linked l i (last_node ?e as) (first_node bs ?e) h) \<and>
      list_items (linked l i (last_node ?e as) (first_node bs ?e) h) = (list_items h)(l := as @ i # bs)"
    by (rule heap_wf_linked [OF wf init xs free]) (use room xs in simp_all)
  then show "heap_wf (vListInsertEnd l i h)"
    and "list_items (vListInsertEnd l i h) =
      (list_items h)(l := insert_before (pxIndex h l) i ?xs)"
    using eq ins by auto
qed

lemma vListInsertEnd_frame [frame]:
  "xItemValue (vListInsertEnd l i h) = xItemValue h"
  "pvOwner (vListInsertEnd l i h) = pvOwner h"
  "pxIndex (vListInsertEnd l i h) = pxIndex h"
  "pvContainer (vListInsertEnd l i h) = (pvContainer h)(i := Some l)"
  by (simp_all add: vListInsertEnd_def Let_def)

text \<open>Unlinking an item.\<close>

lemma dlseg_unlink:
  assumes d: "dlseg h a (xs @ i # ys) b" and dist: "distinct (a # map ListItem (xs @ i # ys))"
    and b: "b = a \<or> b \<notin> ListItem ` set (xs @ i # ys)"
    and nx: "pxNext h' = (pxNext h)(last_node a xs := first_node ys b)"
    and pv: "pxPrevious h' = (pxPrevious h)(first_node ys b := last_node a xs)"
  shows "dlseg h' a (xs @ ys) b"
proof -
  have l: "dlseg h a xs (ListItem i)" and r: "dlseg h (ListItem i) ys b"
    using d by (auto simp: dlseg_snoc_node)
  have da: "distinct (a # map ListItem xs)" using dist by auto
  have left: "dlseg h' a xs (first_node ys b)"
  proof (rule dlseg_retarget [OF l da])
    show "pxNext h' m = pxNext h m" if "m \<in> set (butlast (a # map ListItem xs))" for m
      using in_butlast_neq_last [OF da that] by (simp add: nx)
    show "pxPrevious h' m = pxPrevious h m" if "m \<in> ListItem ` set xs" for m
      using that dist b by (cases ys) (auto simp: pv)
  qed (simp_all add: nx pv)
  show ?thesis
  proof (cases ys)
    case Nil
    with left show ?thesis by simp
  next
    case (Cons y zs)
    have "dlseg h' (ListItem y) zs b \<longleftrightarrow> dlseg h (ListItem y) zs b"
    proof (rule dlseg_frame)
      show "pxNext h' m = pxNext h m" if "m = ListItem y \<or> m \<in> ListItem ` set zs" for m
      proof -
        obtain z where z: "m = ListItem z" "z \<in> set ys" using \<open>m = _ \<or> _\<close> Cons by auto
        have "last_node a xs \<noteq> ListItem z" by (rule last_node_neq) (use dist z in auto)
        then show ?thesis unfolding nx z(1) by (metis fun_upd_other)
      qed
      show "pxPrevious h' m = pxPrevious h m" if "m = b \<or> m \<in> ListItem ` set zs" for m
        using that dist b Cons by (auto simp: pv)
    qed
    moreover have "dlseg h (ListItem y) zs b" using r Cons by simp
    ultimately have "dlseg h' (ListItem y) zs b" by simp
    with left Cons show ?thesis by (simp add: dlseg_snoc_node)
  qed
qed


text \<open>The index after a removal: the predecessor when the removed item was the index.\<close>

definition unlinked ::
    "'l \<Rightarrow> 'i \<Rightarrow> ('l, 'i) node \<Rightarrow> ('l, 'i) node \<Rightarrow> ('l, 'i, 'o) list_heap \<Rightarrow> ('l, 'i, 'o) list_heap" where
  "unlinked l i p n h =
     h\<lparr>pxNext := (pxNext h)(p := n), pxPrevious := (pxPrevious h)(n := p),
       pxIndex := (pxIndex h)(l := if pxIndex h l = ListItem i then p else pxIndex h l),
       pvContainer := (pvContainer h)(i := None),
       uxNumberOfItems := (uxNumberOfItems h)(l := uxNumberOfItems h l - 1)\<rparr>"

lemma unlinked_frame [frame]:
  "xItemValue (unlinked l i p n h) = xItemValue h" "pvOwner (unlinked l i p n h) = pvOwner h"
  "pvContainer (unlinked l i p n h) = (pvContainer h)(i := None)"
  "pxIndex (unlinked l i p n h) =
     (pxIndex h)(l := if pxIndex h l = ListItem i then p else pxIndex h l)"
  by (simp_all add: unlinked_def)

lemma uxListRemove_unlinked:
  assumes "pvContainer h i = Some l"
    and "pxNext h (ListItem i) \<noteq> ListItem i" and "pxPrevious h (ListItem i) \<noteq> ListItem i"
  shows "uxListRemove i h =
    Some (uxNumberOfItems h l - 1,
      unlinked l i (pxPrevious h (ListItem i)) (pxNext h (ListItem i)) h)"
  using assms by (simp add: uxListRemove_def unlinked_def Let_def)

lemma ring_unlinked:
  assumes r: "ring h l (xs @ i # ys)"
    and p: "p = last_node (ListEnd l) xs" and n: "n = first_node ys (ListEnd l)"
  shows "ring (unlinked l i p n h) l (xs @ ys)"
proof -
  let ?h = "unlinked l i p n h"
  have d: "dlseg ?h (ListEnd l) (xs @ ys) (ListEnd l)"
    using r p n
    by (intro dlseg_unlink [of h _ xs i ys])
      (auto simp: ring_def unlinked_def distinct_map inj_on_def)
  have "pxIndex ?h l = ListEnd l \<or> (\<exists>j \<in> set (xs @ ys). pxIndex ?h l = ListItem j)"
    using r p last_in_set [of xs] by (auto simp: ring_def unlinked_def last_map)
  with d r show ?thesis by (auto simp: ring_def unlinked_def)
qed

lemma heap_wf_unlinked:
  assumes wf: "heap_wf h" and split: "list_items h l = xs @ i # ys"
    and p: "p = last_node (ListEnd l) xs" and n: "n = first_node ys (ListEnd l)"
  shows "heap_wf (unlinked l i p n h) \<and>
    list_items (unlinked l i p n h) = (list_items h)(l := xs @ ys)"
proof (rule heap_wfI)
  let ?h = "unlinked l i p n h"
  have init: "listLIST_IS_INITIALISED l h" using split by (auto simp: list_items_def split: if_splits)
  have r: "ring h l (xs @ i # ys)" using heap_wf_ring [OF wf init] split by simp
  have in_init: "listLIST_IS_INITIALISED m ?h = listLIST_IS_INITIALISED m h" for m
    by (simp add: unlinked_def listLIST_IS_INITIALISED_def)
  fix m
  show "\<not> listLIST_IS_INITIALISED m ?h \<Longrightarrow> ((list_items h)(l := xs @ ys)) m = []"
    using init in_init by (auto simp: list_items_def)
  show "pvContainer ?h j = Some m \<Longrightarrow> j \<in> set (((list_items h)(l := xs @ ys)) m)" for j
    using heap_wf_container [OF wf] split by (fastforce simp: unlinked_def split: if_splits)
  assume m: "listLIST_IS_INITIALISED m ?h"
  show "ring ?h m (((list_items h)(l := xs @ ys)) m)"
  proof (cases "m = l")
    case True
    with ring_unlinked [OF r p n] show ?thesis by simp
  next
    case False
    have rm: "ring h m (list_items h m)" using heap_wf_ring [OF wf] m in_init by simp
    have out: "j \<notin> set (list_items h m)" if "j \<in> set (xs @ i # ys)" for j
      using heap_wf_disjoint [OF wf, of j l m] that False split by simp
    then have "q \<noteq> p \<and> q \<noteq> n" if "q = ListEnd m \<or> q \<in> ListItem ` set (list_items h m)" for q
      using that p n False last_in_set [of xs]
      by (cases ys) (auto simp: last_map split: if_splits)
    then have "ring ?h m (list_items h m)"
      using out False by (intro ring_frame [OF rm]) (auto simp: unlinked_def)
    with False show ?thesis by simp
  qed
qed

lemma uxListRemove_effect:
  assumes wf: "heap_wf h" and c: "pvContainer h i = Some l"
  obtains h' where "uxListRemove i h = Some (of_nat (length (list_items h l) - 1), h')" "heap_wf h'"
    "list_items h' = (list_items h)(l := remove1 i (list_items h l))"
    "xItemValue h' = xItemValue h" "pvOwner h' = pvOwner h"
    "pvContainer h' = (pvContainer h)(i := None)"
    "\<And>m. m \<noteq> l \<Longrightarrow> pxIndex h' m = pxIndex h m"
    "pxIndex h l \<noteq> ListItem i \<Longrightarrow> pxIndex h' l = pxIndex h l"
proof -
  let ?e = "ListEnd l"
  have i: "i \<in> set (list_items h l)" and init: "listLIST_IS_INITIALISED l h"
    using wf c by (auto simp: heap_wf_def)
  then obtain xs ys where xs: "list_items h l = xs @ i # ys" and nxs: "i \<notin> set xs"
    by (meson split_list_first)
  have r: "ring h l (xs @ i # ys)" using heap_wf_ring [OF wf init] xs by simp
  then have d: "dlseg h ?e xs (ListItem i)" "dlseg h (ListItem i) ys ?e" and "i \<notin> set ys"
    by (auto simp: ring_def dlseg_snoc_node)
  have pv: "pxPrevious h (ListItem i) = last_node ?e xs"
    and nx: "pxNext h (ListItem i) = first_node ys ?e"
    using dlseg_ends(2) [OF d(1)] dlseg_ends(1) [OF d(2)] by simp_all
  have "pxPrevious h (ListItem i) \<noteq> ListItem i" unfolding pv using nxs by (rule last_node_neq) simp
  moreover have "pxNext h (ListItem i) \<noteq> ListItem i"
    unfolding nx using \<open>i \<notin> set ys\<close> by (rule first_node_neq) simp
  ultimately have eq: "uxListRemove i h = Some (uxNumberOfItems h l - 1,
      unlinked l i (last_node ?e xs) (first_node ys ?e) h)"
    using uxListRemove_unlinked [OF c] pv nx by simp
  have num: "uxNumberOfItems h l - 1 = of_nat (length (list_items h l) - 1)"
    using r xs by (simp add: ring_def)
  have "heap_wf (unlinked l i (last_node ?e xs) (first_node ys ?e) h) \<and>
      list_items (unlinked l i (last_node ?e xs) (first_node ys ?e) h) = (list_items h)(l := xs @ ys)"
    by (rule heap_wf_unlinked [OF wf xs]) simp_all
  then show ?thesis using xs nxs
    by (intro that [OF eq [unfolded num]]) (simp_all add: frame remove1_split)
qed

section \<open>Walking the index\<close>

lemma dlseg_next_nth:
  assumes "dlseg h a xs (ListEnd l)" and "p < length xs"
  shows "pxNext h (ListItem (xs ! p)) =
    (if Suc p < length xs then ListItem (xs ! Suc p) else ListEnd l)"
proof -
  have "xs = take p xs @ xs ! p # drop (Suc p) xs" using assms(2) by (simp add: id_take_nth_drop)
  then have "dlseg h (ListItem (xs ! p)) (drop (Suc p) xs) (ListEnd l)"
    using assms(1) dlseg_snoc_node by metis
  then show ?thesis using dlseg_ends(1) [of h "ListItem (xs ! p)"] assms(2)
    by (cases "Suc p < length xs") (simp_all flip: Cons_nth_drop_Suc)
qed

text \<open>The position of the index; the marker counts as the last position.\<close>

definition index_at :: "('l, 'i, 'o) list_heap \<Rightarrow> 'l \<Rightarrow> nat \<Rightarrow> bool" where
  "index_at h l p \<longleftrightarrow> p < length (list_items h l) \<and>
     (pxIndex h l = ListItem (list_items h l ! p) \<or>
      pxIndex h l = ListEnd l \<and> Suc p = length (list_items h l))"

lemma items_initialised: "list_items h l \<noteq> [] \<Longrightarrow> listLIST_IS_INITIALISED l h"
  by (simp add: list_items_def split: if_splits)

lemma index_at_exists:
  assumes "heap_wf h" and "list_items h l \<noteq> []"
  shows "\<exists>p. index_at h l p"
proof -
  have "ring h l (list_items h l)"
    using heap_wf_ring [OF assms(1) items_initialised [OF assms(2)]] .
  then consider "pxIndex h l = ListEnd l" | i where "i \<in> set (list_items h l)" "pxIndex h l = ListItem i"
    by (auto simp: ring_def)
  then show ?thesis
  proof cases
    case 1
    then show ?thesis using assms(2) by (intro exI [of _ "length (list_items h l) - 1"]) (simp add: index_at_def)
  next
    case 2
    then show ?thesis by (auto simp: index_at_def in_set_conv_nth)
  qed
qed

lemma heap_wf_index_upd:
  assumes "heap_wf h" and "i \<in> set (list_items h l)"
  shows "heap_wf (h\<lparr>pxIndex := (pxIndex h)(l := ListItem i)\<rparr>)"
    and "list_items (h\<lparr>pxIndex := (pxIndex h)(l := ListItem i)\<rparr>) = list_items h"
proof -
  let ?h = "h\<lparr>pxIndex := (pxIndex h)(l := ListItem i)\<rparr>"
  have init: "listLIST_IS_INITIALISED m ?h = listLIST_IS_INITIALISED m h" for m
    by (simp add: listLIST_IS_INITIALISED_def)
  have "heap_wf ?h \<and> list_items ?h = list_items h"
  proof (rule heap_wfI)
    fix m j
    show "\<not> listLIST_IS_INITIALISED m ?h \<Longrightarrow> list_items h m = []"
      unfolding init by (simp add: list_items_def)
    show "pvContainer ?h j = Some m \<Longrightarrow> j \<in> set (list_items h m)"
      using heap_wf_container [OF assms(1)] by simp
    assume "listLIST_IS_INITIALISED m ?h"
    then have r: "ring h m (list_items h m)"
      unfolding init by (rule heap_wf_ring [OF assms(1)])
    have "dlseg ?h a xs b \<longleftrightarrow> dlseg h a xs b" for a xs b by (rule dlseg_frame) simp_all
    with r show "ring ?h m (list_items h m)" using assms(2) by (simp add: ring_def)
  qed
  then show "heap_wf ?h" "list_items ?h = list_items h" by auto
qed

lemma next_entry_effect:
  assumes wf: "heap_wf h" and p: "index_at h l p"
  defines "q \<equiv> Suc p mod length (list_items h l)"
  defines "i \<equiv> list_items h l ! q"
  shows "listGET_OWNER_OF_NEXT_ENTRY l h =
      Some (pvOwner h i, h\<lparr>pxIndex := (pxIndex h)(l := ListItem i)\<rparr>)"
    and "i \<in> set (list_items h l)" and "index_at (h\<lparr>pxIndex := (pxIndex h)(l := ListItem i)\<rparr>) l q"
proof -
  let ?xs = "list_items h l"
  have pl: "p < length ?xs" using p by (simp add: index_at_def)
  then have ql: "q < length ?xs" unfolding q_def by (metis gr_implies_not0 mod_less_divisor neq0_conv)
  then show iin: "i \<in> set ?xs" by (simp add: i_def)
  then show "index_at (h\<lparr>pxIndex := (pxIndex h)(l := ListItem i)\<rparr>) l q"
    using heap_wf_index_upd(2) [OF wf] ql by (simp add: index_at_def i_def)
  have "?xs \<noteq> []" using iin by auto
  then have d: "dlseg h (ListEnd l) ?xs (ListEnd l)"
    using heap_wf_ring [OF wf items_initialised] by (simp add: ring_def)
  have first: "pxNext h (ListEnd l) = ListItem (?xs ! 0)"
    using dlseg_ends(1) [OF d] pl by (cases ?xs) auto
  consider "pxIndex h l = ListItem (?xs ! p)" "Suc p < length ?xs"
    | "pxIndex h l = ListItem (?xs ! p)" "Suc p = length ?xs"
    | "pxIndex h l = ListEnd l" "Suc p = length ?xs"
    using p pl by (metis Suc_lessI index_at_def)
  then show "listGET_OWNER_OF_NEXT_ENTRY l h =
      Some (pvOwner h i, h\<lparr>pxIndex := (pxIndex h)(l := ListItem i)\<rparr>)"
    by cases (use first pl dlseg_next_nth [OF d pl] in
      \<open>simp_all add: listGET_OWNER_OF_NEXT_ENTRY_def Let_def i_def q_def\<close>)
qed

text \<open>Calling \<open>listGET_OWNER_OF_NEXT_ENTRY\<close> \<open>n\<close> times.\<close>

fun next_entries :: "nat \<Rightarrow> 'l \<Rightarrow> ('l, 'i, 'o) list_heap \<Rightarrow> ('o list \<times> ('l, 'i, 'o) list_heap) option" where
  "next_entries 0 l h = Some ([], h)"
| "next_entries (Suc n) l h = do {
     (ow, h1) \<leftarrow> listGET_OWNER_OF_NEXT_ENTRY l h;
     (ows, h2) \<leftarrow> next_entries n l h1;
     Some (ow # ows, h2)
   }"

lemma next_entries_effect:
  assumes "heap_wf h" and "index_at h l p"
  shows "\<exists>h'. next_entries n l h =
      Some (map (\<lambda>j. pvOwner h (list_items h l ! ((Suc p + j) mod length (list_items h l)))) [0..<n], h') \<and>
    heap_wf h' \<and> list_items h' = list_items h"
  using assms
proof (induction n arbitrary: h p)
  case 0
  then show ?case by simp
next
  case (Suc n)
  let ?xs = "list_items h l"
  let ?q = "Suc p mod length ?xs"
  let ?h = "h\<lparr>pxIndex := (pxIndex h)(l := ListItem (?xs ! ?q))\<rparr>"
  note st = next_entry_effect [OF Suc.prems]
  note up = heap_wf_index_upd [OF Suc.prems(1) st(2)]
  have "map (\<lambda>j. pvOwner h (?xs ! ((Suc ?q + j) mod length ?xs))) [0..<n] =
      map (\<lambda>j. pvOwner h (?xs ! ((Suc p + Suc j) mod length ?xs))) [0..<n]"
    by (rule map_cong) (simp_all, metis add_Suc mod_Suc_eq mod_add_left_eq)
  then show ?case
    using Suc.IH [OF up(1) st(3)] st(1) up(2)
    by (auto simp: upt_conv_Cons map_Suc_upt [symmetric] comp_def simp del: upt_Suc)
qed

section \<open>Initialisation and the value and owner members\<close>

lemma list_items_cong:
  assumes "\<And>l. xItemValue h' (ListEnd l) = xItemValue h (ListEnd l)"
    and "pxNext h' = pxNext h" and "uxNumberOfItems h' = uxNumberOfItems h"
  shows "list_items h' = list_items h"
proof -
  have w: "walk_items h' n x = walk_items h n x" for n x
    using assms(2) by (induction h n x rule: walk_items.induct) simp_all
  show ?thesis
    by (rule ext) (simp add: list_items_def w listLIST_IS_INITIALISED_def assms)
qed

lemma heap_wf_cong:
  assumes "heap_wf h" and "\<And>l. xItemValue h' (ListEnd l) = xItemValue h (ListEnd l)"
    and "pxNext h' = pxNext h" and "uxNumberOfItems h' = uxNumberOfItems h"
    and "pxPrevious h' = pxPrevious h" "pvContainer h' = pvContainer h" "pxIndex h' = pxIndex h"
  shows "heap_wf h'"
proof -
  have items: "list_items h' = list_items h" by (rule list_items_cong) (use assms in simp_all)
  have init: "listLIST_IS_INITIALISED l h' \<longleftrightarrow> listLIST_IS_INITIALISED l h" for l
    by (simp add: listLIST_IS_INITIALISED_def assms(2))
  have "ring h' l xs" if "ring h l xs" for l xs
    using that by (rule ring_frame) (use assms(3-) in simp_all)
  then show ?thesis using assms(1) unfolding heap_wf_def items init assms(6) by blast
qed

lemma set_value_effect [simp]:
  "heap_wf h \<Longrightarrow> heap_wf (listSET_LIST_ITEM_VALUE i v h)"
  "list_items (listSET_LIST_ITEM_VALUE i v h) = list_items h"
  "item_value (listSET_LIST_ITEM_VALUE i v h) = (item_value h)(i := v)"
  "pvContainer (listSET_LIST_ITEM_VALUE i v h) = pvContainer h"
  "pvOwner (listSET_LIST_ITEM_VALUE i v h) = pvOwner h"
  "pxIndex (listSET_LIST_ITEM_VALUE i v h) = pxIndex h"
  "listLIST_IS_INITIALISED l (listSET_LIST_ITEM_VALUE i v h) = listLIST_IS_INITIALISED l h"
  by (auto simp: listSET_LIST_ITEM_VALUE_def item_value_def listLIST_IS_INITIALISED_def fun_eq_iff
      elim: heap_wf_cong intro!: list_items_cong [THEN fun_cong])

lemma set_owner_effect [simp]:
  "heap_wf h \<Longrightarrow> heap_wf (listSET_LIST_ITEM_OWNER i ow h)"
  "list_items (listSET_LIST_ITEM_OWNER i ow h) = list_items h"
  "item_value (listSET_LIST_ITEM_OWNER i ow h) = item_value h"
  "pvContainer (listSET_LIST_ITEM_OWNER i ow h) = pvContainer h"
  "pvOwner (listSET_LIST_ITEM_OWNER i ow h) = (pvOwner h)(i := ow)"
  "pxIndex (listSET_LIST_ITEM_OWNER i ow h) = pxIndex h"
  "listLIST_IS_INITIALISED l (listSET_LIST_ITEM_OWNER i ow h) = listLIST_IS_INITIALISED l h"
  by (auto simp: listSET_LIST_ITEM_OWNER_def item_value_def listLIST_IS_INITIALISED_def fun_eq_iff
      elim: heap_wf_cong intro!: list_items_cong [THEN fun_cong])

lemma initialise_item_effect:
  assumes "heap_wf h" and "pvContainer h i = None"
  shows "vListInitialiseItem i h = h"
  using assms(2) by (simp add: vListInitialiseItem_def fun_upd_idem)

text \<open>Initialising a list that holds no item leaves every other list as it is.\<close>

lemma vListInitialise_effect:
  assumes wf: "heap_wf h" and e: "list_items h l = []"
  shows "heap_wf (vListInitialise l h)" and "list_items (vListInitialise l h) = list_items h"
proof -
  let ?h = "vListInitialise l h"
  have init: "listLIST_IS_INITIALISED m ?h \<longleftrightarrow> m = l \<or> listLIST_IS_INITIALISED m h" for m
    by (simp add: vListInitialise_def listLIST_IS_INITIALISED_def)
  have "heap_wf ?h \<and> list_items ?h = list_items h"
  proof (rule heap_wfI)
    fix m j
    show "\<not> listLIST_IS_INITIALISED m ?h \<Longrightarrow> list_items h m = []"
      using init by (simp add: list_items_def)
    show "pvContainer ?h j = Some m \<Longrightarrow> j \<in> set (list_items h m)"
      using heap_wf_container [OF wf] by (simp add: vListInitialise_def)
    assume m: "listLIST_IS_INITIALISED m ?h"
    show "ring ?h m (list_items h m)"
    proof (cases "m = l")
      case True
      then show ?thesis using e by (simp add: ring_def vListInitialise_def)
    next
      case False
      then have "ring h m (list_items h m)" using m init heap_wf_ring [OF wf] by simp
      then show ?thesis
        by (rule ring_frame) (use False in \<open>auto simp: vListInitialise_def\<close>)
    qed
  qed
  then show "heap_wf ?h" "list_items ?h = list_items h" by auto
qed

lemma vListInitialise_frame [simp]:
  "listLIST_IS_INITIALISED m (vListInitialise l h) \<longleftrightarrow> m = l \<or> listLIST_IS_INITIALISED m h"
  "item_value (vListInitialise l h) = item_value h"
  "pvContainer (vListInitialise l h) = pvContainer h"
  "pvOwner (vListInitialise l h) = pvOwner h"
  by (auto simp: vListInitialise_def listLIST_IS_INITIALISED_def item_value_def)

text \<open>The reads of list.h on the abstract view.\<close>

lemma is_empty_items:
  assumes "heap_wf h" and "listLIST_IS_INITIALISED l h"
  shows "listLIST_IS_EMPTY l h \<longleftrightarrow> list_items h l = []"
    and "unat (listCURRENT_LIST_LENGTH l h) = length (list_items h l)"
proof -
  have r: "ring h l (list_items h l)" by (rule heap_wf_ring [OF assms])
  then show "unat (listCURRENT_LIST_LENGTH l h) = length (list_items h l)"
    by (simp add: ring_def listCURRENT_LIST_LENGTH_def unat_of_nat_u32)
  then show "listLIST_IS_EMPTY l h \<longleftrightarrow> list_items h l = []"
    by (simp add: listCURRENT_LIST_LENGTH_def listLIST_IS_EMPTY_def unat_eq_0 [symmetric])
qed

lemma head_entry:
  assumes "heap_wf h" and "list_items h l = i # xs"
  shows "listGET_OWNER_OF_HEAD_ENTRY l h = Some (pvOwner h i)"
    and "listGET_ITEM_VALUE_OF_HEAD_ENTRY l h = item_value h i"
proof -
  have "list_items h l \<noteq> []" using assms(2) by simp
  then have "ring h l (list_items h l)" by (rule heap_wf_ring [OF assms(1) items_initialised])
  then have "pxNext h (ListEnd l) = ListItem i" using assms(2) by (simp add: ring_def)
  then show "listGET_OWNER_OF_HEAD_ENTRY l h = Some (pvOwner h i)"
    and "listGET_ITEM_VALUE_OF_HEAD_ENTRY l h = item_value h i"
    by (simp_all add: listGET_OWNER_OF_HEAD_ENTRY_def listGET_ITEM_VALUE_OF_HEAD_ENTRY_def item_value_def)
qed

lemma container_initialised:
  "heap_wf h \<Longrightarrow> pvContainer h i = Some l \<Longrightarrow> listLIST_IS_INITIALISED l h"
  by (simp add: heap_wf_def)

lemma heap_wf_distinct: "heap_wf h \<Longrightarrow> distinct (list_items h l)"
  using heap_wf_ring [of h l] items_initialised [of h l] by (cases "list_items h l") (auto simp: ring_def)

section \<open>The interface of the lists\<close>

text \<open>
  What the scheduler, the queues and the timers rely on. \<open>items\<close> is the abstract view, \<open>container\<close>
  says in which list an item is, \<open>val\<close> is the value an ordered insertion sorts by. A list counts
  its items in 32 bits, so an insertion needs room for one more.
\<close>

locale kernel_lists =
  fixes wf :: "'h \<Rightarrow> bool" and items :: "'h \<Rightarrow> 'l \<Rightarrow> 'i list" and init :: "'l \<Rightarrow> 'h \<Rightarrow> bool"
    and container :: "'h \<Rightarrow> 'i \<Rightarrow> 'l option" and val :: "'h \<Rightarrow> 'i \<Rightarrow> portTickType"
    and ins :: "'l \<Rightarrow> 'i \<Rightarrow> 'h \<Rightarrow> 'h option" and ins_end :: "'l \<Rightarrow> 'i \<Rightarrow> 'h \<Rightarrow> 'h"
    and rem :: "'i \<Rightarrow> 'h \<Rightarrow> (uBaseType \<times> 'h) option"
  assumes container_iff: "wf h \<Longrightarrow> container h i = Some l \<longleftrightarrow> i \<in> set (items h l)"
    and items_distinct: "wf h \<Longrightarrow> distinct (items h l)"
    and container_init: "wf h \<Longrightarrow> container h i = Some l \<Longrightarrow> init l h"
    and ins_law: "wf h \<Longrightarrow> init l h \<Longrightarrow> container h i = None \<Longrightarrow> length (items h l) + 1 < 2 ^ 32 \<Longrightarrow>
      \<exists>h'. ins l i h = Some h' \<and> wf h' \<and>
        items h' = (items h)(l := insert_by (val h) (val h i) i (items h l)) \<and>
        container h' = (container h)(i := Some l) \<and> val h' = val h \<and> (\<forall>m. init m h' = init m h)"
    and ins_end_law: "wf h \<Longrightarrow> init l h \<Longrightarrow> container h i = None \<Longrightarrow> length (items h l) + 1 < 2 ^ 32 \<Longrightarrow>
      wf (ins_end l i h) \<and>
        (\<exists>as bs. items h l = as @ bs \<and> items (ins_end l i h) = (items h)(l := as @ i # bs)) \<and>
        container (ins_end l i h) = (container h)(i := Some l) \<and> val (ins_end l i h) = val h \<and>
        (\<forall>m. init m (ins_end l i h) = init m h)"
    and rem_law: "wf h \<Longrightarrow> container h i = Some l \<Longrightarrow>
      \<exists>h'. rem i h = Some (of_nat (length (items h l) - 1), h') \<and> wf h' \<and>
        items h' = (items h)(l := remove1 i (items h l)) \<and>
        container h' = (container h)(i := None) \<and> val h' = val h \<and> (\<forall>m. init m h' = init m h)"
begin

lemma disjoint_lists:
  "wf h \<Longrightarrow> i \<in> set (items h l) \<Longrightarrow> i \<in> set (items h m) \<Longrightarrow> l = m"
  by (metis container_iff option.inject)

lemma removed_items:
  assumes "wf h" and "container h i = Some l" and "rem i h = Some (n, h')"
  shows "i \<notin> set (items h' m)" and "set (items h' m) = set (items h m) - {i}"
proof -
  have w: "wf h'" "container h' i = None" "items h' = (items h)(l := remove1 i (items h l))"
    using rem_law [OF assms(1,2)] assms(3) by auto
  then show "i \<notin> set (items h' m)" using container_iff [of h' i m] by simp
  then show "set (items h' m) = set (items h m) - {i}"
    using w(3) items_distinct [OF assms(1)] container_iff [OF assms(1), of i m] assms(2)
    by (auto simp: set_remove1_eq split: if_splits)
qed

text \<open>Removing an item and appending it elsewhere: how a task is moved to a ready list.\<close>

lemma move_end:
  assumes wf: "wf h" and c: "container h i = Some l" and m: "init m h"
    and room: "length (items h m) + 1 < 2 ^ 32"
  shows "\<exists>n h1. rem i h = Some (n, h1) \<and> wf (ins_end m i h1) \<and>
    container (ins_end m i h1) = (container h)(i := Some m) \<and> val (ins_end m i h1) = val h \<and>
    (\<forall>k. set (items (ins_end m i h1) k) = (if k = m then insert i (set (items h k)) else set (items h k) - {i}))"
proof -
  obtain h1 where r: "rem i h = Some (of_nat (length (items h l) - 1), h1)" "wf h1"
    "items h1 = (items h)(l := remove1 i (items h l))"
    "container h1 = (container h)(i := None)" "val h1 = val h" "\<forall>m. init m h1 = init m h"
    using rem_law [OF wf c] by blast
  have "length (items h1 m) + 1 < 2 ^ 32"
    using room r(3) length_remove1 [of i "items h m"] by (auto split: if_splits)
  then have e: "wf (ins_end m i h1)"
    "\<exists>as bs. items h1 m = as @ bs \<and> items (ins_end m i h1) = (items h1)(m := as @ i # bs)"
    "container (ins_end m i h1) = (container h1)(i := Some m)" "val (ins_end m i h1) = val h1"
    using ins_end_law [OF r(2), of m i] m r(4,6) by simp_all
  have "set (items (ins_end m i h1) k) = (if k = m then insert i (set (items h k)) else set (items h k) - {i})" for k
  proof -
    obtain as bs where "items h1 m = as @ bs" "items (ins_end m i h1) = (items h1)(m := as @ i # bs)"
      using e(2) by blast
    then have "set (items (ins_end m i h1) k) = (if k = m then insert i (set (items h1 k)) else set (items h1 k))"
      by auto
    then show ?thesis using removed_items(2) [OF wf c r(1), of k] by auto
  qed
  then show ?thesis using r(1,4,5) e(1,3,4) by simp
qed

text \<open>Inserting an item and removing it again.\<close>

lemma insert_remove:
  assumes wf: "wf h" and l: "init l h" and free: "container h i = None"
    and room: "length (items h l) + 1 < 2 ^ 32" and ins: "ins l i h = Some h1"
  shows "\<exists>h2. rem i h1 = Some (of_nat (length (items h l)), h2) \<and> wf h2 \<and>
    items h2 = items h \<and> container h2 = container h"
proof -
  have h1: "wf h1" "items h1 = (items h)(l := insert_by (val h) (val h i) i (items h l))"
    "container h1 = (container h)(i := Some l)"
    using ins_law [OF wf l free room] ins by auto
  have ni: "i \<notin> set (items h l)" using container_iff [OF wf, of i l] free by simp
  have "remove1 i (insert_by (val h) (val h i) i (items h l)) = items h l"
    using ni set_takeWhileD [of i _ "items h l"] by (auto simp: insert_by_split remove1_append)
  moreover have "(container h)(i := None) = container h" using free by (simp add: fun_upd_idem)
  ultimately show ?thesis using rem_law [OF h1(1), of i l] h1(2,3) by auto
qed

text \<open>An ordered list stays ordered.\<close>

lemma insert_sorted:
  assumes "wf h" "init l h" "container h i = None" "length (items h l) + 1 < 2 ^ 32"
    and "ins l i h = Some h1" and "sorted (map (val h) (items h l))"
  shows "sorted (map (val h1) (items h1 l))"
  using ins_law [OF assms(1-4)] assms(5,6) insert_by_sorted [of "val h" "items h l" "val h i" i] by auto

end

interpretation heap_lists: kernel_lists heap_wf list_items listLIST_IS_INITIALISED pvContainer
  item_value vListInsert vListInsertEnd uxListRemove
proof
  fix h :: "('l, 'i, 'o) list_heap" and i l
  show "heap_wf h \<Longrightarrow> pvContainer h i = Some l \<longleftrightarrow> i \<in> set (list_items h l)"
    by (rule heap_wf_container)
  show "heap_wf h \<Longrightarrow> distinct (list_items h l)" by (rule heap_wf_distinct)
  show "heap_wf h \<Longrightarrow> pvContainer h i = Some l \<Longrightarrow> listLIST_IS_INITIALISED l h"
    by (rule container_initialised)
  show "\<exists>h'. uxListRemove i h = Some (of_nat (length (list_items h l) - 1), h') \<and> heap_wf h' \<and>
      list_items h' = (list_items h)(l := remove1 i (list_items h l)) \<and>
      pvContainer h' = (pvContainer h)(i := None) \<and> item_value h' = item_value h \<and>
      (\<forall>m. listLIST_IS_INITIALISED m h' = listLIST_IS_INITIALISED m h)"
    if "heap_wf h" "pvContainer h i = Some l"
    by (rule uxListRemove_effect [OF that]) (simp add: item_value_def listLIST_IS_INITIALISED_def fun_eq_iff)
  assume a: "heap_wf h" "listLIST_IS_INITIALISED l h" "pvContainer h i = None"
    "length (list_items h l) + 1 < 2 ^ 32"
  show "\<exists>h'. vListInsert l i h = Some h' \<and> heap_wf h' \<and>
      list_items h' = (list_items h)(l := insert_by (item_value h) (item_value h i) i (list_items h l)) \<and>
      pvContainer h' = (pvContainer h)(i := Some l) \<and> item_value h' = item_value h \<and>
      (\<forall>m. listLIST_IS_INITIALISED m h' = listLIST_IS_INITIALISED m h)"
    by (rule vListInsert_effect [OF a]) (simp add: item_value_def listLIST_IS_INITIALISED_def fun_eq_iff)
  have "ring h l (list_items h l)" by (rule heap_wf_ring [OF a(1,2)])
  then obtain as bs where "list_items h l = as @ bs"
    "insert_before (pxIndex h l) i (list_items h l) = as @ i # bs"
    by (rule ring_index_split)
  then show "heap_wf (vListInsertEnd l i h) \<and>
      (\<exists>as bs. list_items h l = as @ bs \<and>
        list_items (vListInsertEnd l i h) = (list_items h)(l := as @ i # bs)) \<and>
      pvContainer (vListInsertEnd l i h) = (pvContainer h)(i := Some l) \<and>
      item_value (vListInsertEnd l i h) = item_value h \<and>
      (\<forall>m. listLIST_IS_INITIALISED m (vListInsertEnd l i h) = listLIST_IS_INITIALISED m h)"
    using vListInsertEnd_effect [OF a]
    by (auto simp: frame item_value_def listLIST_IS_INITIALISED_def fun_eq_iff)
qed

section \<open>Properties of the lists\<close>

text \<open>Zero-initialised memory: no list is initialised and no item is in a list.\<close>

definition bss_heap :: "'o \<Rightarrow> ('l, 'i, 'o) list_heap" where
  "bss_heap ow =
     \<lparr>xItemValue = (\<lambda>_. 0), pxNext = (\<lambda>n. n), pxPrevious = (\<lambda>n. n), pvOwner = (\<lambda>_. ow),
      pvContainer = (\<lambda>_. None), uxNumberOfItems = (\<lambda>_. 0), pxIndex = ListEnd\<rparr>"

lemma bss_heap_wf [simp]:
  "heap_wf (bss_heap ow)" "list_items (bss_heap ow) l = []" "pvContainer (bss_heap ow) i = None"
  "\<not> listLIST_IS_INITIALISED l (bss_heap ow)"
  by (simp_all add: heap_wf_def bss_heap_def listLIST_IS_INITIALISED_def list_items_def
      portMAX_DELAY_def)

text \<open>
  A store with the one initialised list \<open>False\<close>, into which the items 1, 2 and 3 with the values
  20, 10 and 30 are inserted in order; the owner of each item is the item.
\<close>

definition sample_values :: "(bool, nat, nat) list_heap" where
  "sample_values =
     listSET_LIST_ITEM_OWNER 3 3 (listSET_LIST_ITEM_OWNER 2 2 (listSET_LIST_ITEM_OWNER 1 1
       (listSET_LIST_ITEM_VALUE 3 30 (listSET_LIST_ITEM_VALUE 2 10 (listSET_LIST_ITEM_VALUE 1 20
         (vListInitialise False (bss_heap 0)))))))"

definition sample_list :: "(bool, nat, nat) list_heap" where
  "sample_list = vListInsertEnd False 3 (vListInsertEnd False 2 sample_values)"

lemma sample_values_facts [simp]:
  "heap_wf sample_values" "list_items sample_values = (\<lambda>_. [])"
  "pvContainer sample_values = (\<lambda>_. None)" "listLIST_IS_INITIALISED False sample_values"
  "item_value sample_values 1 = 20" "item_value sample_values 2 = 10" "item_value sample_values 3 = 30"
  "pxIndex sample_values False = ListEnd False"
  by (auto simp: sample_values_def vListInitialise_effect fun_eq_iff)
    (simp_all add: vListInitialise_def)

lemma sample_list_facts [simp]:
  "heap_wf sample_list" "list_items sample_list = (\<lambda>l. if l then [] else [2, 3])"
  "pvContainer sample_list = (\<lambda>i. if i = 2 \<or> i = 3 then Some False else None)"
  "listLIST_IS_INITIALISED False sample_list" "item_value sample_list = item_value sample_values"
  "pxIndex sample_list = pxIndex sample_values"
proof -
  let ?h = "vListInsertEnd False 2 sample_values"
  have 1: "heap_wf ?h" "list_items ?h = (\<lambda>l. if l then [] else [2])" "listLIST_IS_INITIALISED False ?h"
    using vListInsertEnd_effect [of sample_values False 2]
    by (auto simp: fun_eq_iff frame listLIST_IS_INITIALISED_def
        sample_values_facts(4) [unfolded listLIST_IS_INITIALISED_def])
  then show "heap_wf sample_list" "list_items sample_list = (\<lambda>l. if l then [] else [2, 3])"
    using vListInsertEnd_effect [of ?h False 3] by (auto simp: fun_eq_iff frame sample_list_def)
  show "pvContainer sample_list = (\<lambda>i. if i = 2 \<or> i = 3 then Some False else None)"
    "item_value sample_list = item_value sample_values" "pxIndex sample_list = pxIndex sample_values"
    by (auto simp: sample_list_def frame item_value_def fun_eq_iff)
  show "listLIST_IS_INITIALISED False sample_list"
    using 1(3) by (simp add: sample_list_def frame listLIST_IS_INITIALISED_def)
qed

text \<open>
  C40: on a well-formed store \<open>vListInsert\<close> always returns; it puts the item into the list behind
  every item with a value not larger and before every item with a larger value (ascending order,
  items of equal value in order of arrival), keeps an ordered list ordered, records the container,
  and leaves every other list as it was.
\<close>

theorem vListInsert_ordered:
  assumes "heap_wf h" and "listLIST_IS_INITIALISED l h" and "pvContainer h i = None"
    and "length (list_items h l) + 1 < 2 ^ 32" and "sorted (map (item_value h) (list_items h l))"
  shows "\<exists>h' as bs. vListInsert l i h = Some h' \<and> heap_wf h' \<and>
    list_items h l = as @ bs \<and> list_items h' = (list_items h)(l := as @ i # bs) \<and>
    (\<forall>x\<in>set as. item_value h x \<le> item_value h i) \<and> (\<forall>x\<in>set bs. item_value h i < item_value h x) \<and>
    sorted (map (item_value h') (list_items h' l)) \<and> pvContainer h' = (pvContainer h)(i := Some l)"
proof -
  let ?P = "\<lambda>x. item_value h x \<le> item_value h i"
  obtain h' where h': "vListInsert l i h = Some h'" "heap_wf h'"
    "list_items h' = (list_items h)(l := insert_by (item_value h) (item_value h i) i (list_items h l))"
    "pvContainer h' = (pvContainer h)(i := Some l)"
    using heap_lists.ins_law [OF assms(1-4)] by blast
  have "sorted (map (item_value h') (list_items h' l))"
    by (rule heap_lists.insert_sorted [OF assms(1-4) h'(1) assms(5)])
  moreover have "\<forall>x\<in>set (dropWhile ?P (list_items h l)). item_value h i < item_value h x"
    using sorted_dropWhile_above [OF assms(5)] .
  moreover have "\<forall>x\<in>set (takeWhile ?P (list_items h l)). ?P x" by (auto dest: set_takeWhileD)
  moreover have "list_items h l = takeWhile ?P (list_items h l) @ dropWhile ?P (list_items h l)" by simp
  moreover note h'(1,2,4) h'(3) [unfolded insert_by_split]
  ultimately show ?thesis by blast
qed

theorem vListInsert_ordered_witness:
  "\<exists>h' as bs. vListInsert False 1 sample_list = Some h' \<and> heap_wf h' \<and>
    list_items sample_list False = as @ bs \<and>
    list_items h' = (list_items sample_list)(False := as @ 1 # bs) \<and>
    (\<forall>x\<in>set as. item_value sample_list x \<le> item_value sample_list 1) \<and>
    (\<forall>x\<in>set bs. item_value sample_list 1 < item_value sample_list x) \<and>
    sorted (map (item_value h') (list_items h' False)) \<and>
    pvContainer h' = (pvContainer sample_list)(1 := Some False)"
  by (rule vListInsert_ordered) simp_all

text \<open>
  C36: \<open>uxListRemove\<close> on an item that is in a list never dereferences a null container; it takes
  exactly that item out of its list, keeps the order of the others, returns the number of items
  left, and the index of the list stays on an item of the list or on its end marker. Removing an
  item just inserted by \<open>vListInsert\<close> restores every list.
\<close>

lemma uxListRemove_restores:
  assumes "heap_wf h" and "listLIST_IS_INITIALISED l h" and "pvContainer h i = None"
    and "length (list_items h l) + 1 < 2 ^ 32"
  shows "\<exists>h1 h2. vListInsert l i h = Some h1 \<and>
    uxListRemove i h1 = Some (of_nat (length (list_items h l)), h2) \<and> heap_wf h2 \<and>
    list_items h2 = list_items h \<and> pvContainer h2 = pvContainer h \<and> ring h2 l (list_items h l)"
proof -
  obtain h1 where h1: "vListInsert l i h = Some h1"
    using heap_lists.ins_law [OF assms] by blast
  obtain h2 where h2: "uxListRemove i h1 = Some (of_nat (length (list_items h l)), h2)" "heap_wf h2"
    "list_items h2 = list_items h" "pvContainer h2 = pvContainer h"
    using heap_lists.insert_remove [OF assms h1] by blast
  have "listLIST_IS_INITIALISED l h2" 
    using assms h1 h2(1) by (auto simp: remove_init insert_init)
  with h1 h2 show ?thesis using heap_wf_ring [of h2 l] by auto
qed

text \<open>
  Round robin. On a list with items, as many calls of \<open>listGET_OWNER_OF_NEXT_ENTRY\<close> as the list
  has items always return, and their results are the owners of the items in list order, each
  exactly once, starting behind the position of the index.
\<close>

lemma next_entry_round_robin:
  assumes "heap_wf h" and "list_items h l \<noteq> []"
  shows "\<exists>k h'. next_entries (length (list_items h l)) l h =
      Some (map (pvOwner h) (rotate k (list_items h l)), h') \<and>
    heap_wf h' \<and> list_items h' = list_items h"
proof -
  let ?xs = "list_items h l"
  obtain p where p: "index_at h l p" using index_at_exists [OF assms] ..
  have "map (\<lambda>j. pvOwner h (?xs ! ((Suc p + j) mod length ?xs))) [0..<length ?xs] =
      map (pvOwner h) (rotate (Suc p) ?xs)"
    by (rule nth_equalityI) (simp_all add: nth_rotate del: rotate_Suc)
  with next_entries_effect [OF assms(1) p, of "length ?xs"] show ?thesis by metis
qed

end
