(* ===== verification/Task_State.thy ===== *)
theory Task_State
  imports Kernel_List
begin

text \<open>
  The state of the scheduler (the static variables and \<open>tskTCB\<close> of FreeRTOS/Source/tasks.c) in the
  configuration of FreeRTOSConfig.h (pre-emption, time slicing, mutexes, task deletion and
  suspension on; trace facility, run-time statistics, tick hook and tickless idle off), the macros
  of tasks.c, and the invariant of the scheduler.

  Task handles are the 32-bit addresses of the control blocks, 0 is \<open>NULL\<close>. Both list items of a
  control block and all lists the kernel links them into live in one list store. An operation that
  dereferences \<open>NULL\<close> or a freed control block, or indexes \<open>pxReadyTasksLists\<close> out of bounds, has
  the result \<open>None\<close>. Each definition is the effect of its C function when it is not interrupted:
  the kernel runs these bodies in critical sections or with the scheduler suspended.
\<close>

section \<open>State\<close>

type_synonym tid = u32
type_synonym qid = u32

text \<open>The lists: the seven of tasks.c and the two event lists of every queue.\<close>

datatype lid =
    Ready uBaseType
  | DelayedTaskList1 | DelayedTaskList2
  | PendingReadyList | TasksWaitingTermination | SuspendedTaskList
  | TasksWaitingToSend qid | TasksWaitingToReceive qid

text \<open>The list items: \<open>xGenericListItem\<close> and \<open>xEventListItem\<close> of a task.\<close>

datatype item = Generic tid | Event tid

record tskTCB =
  uxPriority :: uBaseType
  uxBasePriority :: uBaseType
  pcTaskName :: "u8 list"

record kernel =
  heap :: "(lid, item, tid) list_heap"
  tcbs :: "tid \<Rightarrow> tskTCB option"
  pxCurrentTCB :: tid
  pxDelayedTaskList :: lid
  pxOverflowDelayedTaskList :: lid
  uxTasksDeleted :: uBaseType
  uxCurrentNumberOfTasks :: uBaseType
  xTickCount :: portTickType
  uxTopReadyPriority :: uBaseType
  xSchedulerRunning :: bool
  uxSchedulerSuspended :: uBaseType
  uxPendedTicks :: uBaseType
  xYieldPending :: bool
  xNumOfOverflows :: u32
  uxTaskNumber :: uBaseType
  xNextTaskUnblockTime :: portTickType
  pending_soft_sv :: bool

definition configMAX_PRIORITIES :: uBaseType where
  "configMAX_PRIORITIES = 15"

definition configMAX_TASK_NAME_LEN :: nat where
  "configMAX_TASK_NAME_LEN = 16"

definition tskIDLE_PRIORITY :: uBaseType where
  "tskIDLE_PRIORITY = 0"

text \<open>The static initialisers of tasks.c; the lists are zero-initialised memory.\<close>

definition kernel_reset :: kernel where
  "kernel_reset =
     \<lparr>heap = bss_heap 0, tcbs = (\<lambda>_. None), pxCurrentTCB = 0,
      pxDelayedTaskList = DelayedTaskList1, pxOverflowDelayedTaskList = DelayedTaskList2,
      uxTasksDeleted = 0, uxCurrentNumberOfTasks = 0, xTickCount = 0,
      uxTopReadyPriority = tskIDLE_PRIORITY, xSchedulerRunning = False, uxSchedulerSuspended = 0,
      uxPendedTicks = 0, xYieldPending = False, xNumOfOverflows = 0, uxTaskNumber = 0,
      xNextTaskUnblockTime = portMAX_DELAY, pending_soft_sv = False\<rparr>"

section \<open>List operations and macros on the kernel state\<close>

definition k_remove :: "item \<Rightarrow> kernel \<Rightarrow> (uBaseType \<times> kernel) option" where
  "k_remove i s = map_option (\<lambda>(n, h). (n, s\<lparr>heap := h\<rparr>)) (uxListRemove i (heap s))"

definition k_insert :: "lid \<Rightarrow> item \<Rightarrow> kernel \<Rightarrow> kernel option" where
  "k_insert l i s = map_option (\<lambda>h. s\<lparr>heap := h\<rparr>) (vListInsert l i (heap s))"

definition k_insert_end :: "lid \<Rightarrow> item \<Rightarrow> kernel \<Rightarrow> kernel" where
  "k_insert_end l i s = s\<lparr>heap := vListInsertEnd l i (heap s)\<rparr>"

definition k_set_value :: "item \<Rightarrow> portTickType \<Rightarrow> kernel \<Rightarrow> kernel" where
  "k_set_value i v s = s\<lparr>heap := listSET_LIST_ITEM_VALUE i v (heap s)\<rparr>"

text \<open>\<open>&pxReadyTasksLists[p]\<close>, an array of \<open>configMAX_PRIORITIES\<close> lists.\<close>

definition pxReadyTasksLists :: "uBaseType \<Rightarrow> lid option" where
  "pxReadyTasksLists p = (if p < configMAX_PRIORITIES then Some (Ready p) else None)"

definition taskRECORD_READY_PRIORITY :: "uBaseType \<Rightarrow> kernel \<Rightarrow> kernel" where
  "taskRECORD_READY_PRIORITY p s =
     (if p > uxTopReadyPriority s then s\<lparr>uxTopReadyPriority := p\<rparr> else s)"

definition prvAddTaskToReadyList :: "tid \<Rightarrow> kernel \<Rightarrow> kernel option" where
  "prvAddTaskToReadyList t s = do {
     tcb \<leftarrow> tcbs s t;
     let s = taskRECORD_READY_PRIORITY (uxPriority tcb) s;
     l \<leftarrow> pxReadyTasksLists (uxPriority tcb);
     Some (k_insert_end l (Generic t) s)
   }"

definition prvGetTCBFromHandle :: "tid \<Rightarrow> kernel \<Rightarrow> tid" where
  "prvGetTCBFromHandle t s = (if t = 0 then pxCurrentTCB s else t)"

text \<open>\<open>portYIELD\<close> requests a context switch; the switch happens in the software interrupt.\<close>

definition portYIELD :: "kernel \<Rightarrow> kernel" where
  "portYIELD s = s\<lparr>pending_soft_sv := True\<rparr>"

text \<open>The loop of \<open>taskSELECT_HIGHEST_PRIORITY_TASK\<close>: \<open>None\<close> when it leaves the array.\<close>

function select_top :: "kernel \<Rightarrow> uBaseType \<Rightarrow> uBaseType option" where
  "select_top s p =
     (if \<not> p < configMAX_PRIORITIES then None
      else if listLIST_IS_EMPTY (Ready p) (heap s) then (if p = 0 then None else select_top s (p - 1))
      else Some p)"
  by pat_completeness auto
termination
  by (relation "measure (\<lambda>(s, p). unat p)") (auto simp: unat_minus_one intro!: diff_less unat_gt_0 [THEN iffD2])

definition taskSELECT_HIGHEST_PRIORITY_TASK :: "kernel \<Rightarrow> kernel option" where
  "taskSELECT_HIGHEST_PRIORITY_TASK s = do {
     p \<leftarrow> select_top s (uxTopReadyPriority s);
     (t, h) \<leftarrow> listGET_OWNER_OF_NEXT_ENTRY (Ready p) (heap s);
     Some (s\<lparr>uxTopReadyPriority := p, heap := h, pxCurrentTCB := t\<rparr>)
   }"

definition taskSWITCH_DELAYED_LISTS :: "kernel \<Rightarrow> kernel option" where
  "taskSWITCH_DELAYED_LISTS s =
     (let s = s\<lparr>pxDelayedTaskList := pxOverflowDelayedTaskList s,
                pxOverflowDelayedTaskList := pxDelayedTaskList s,
                xNumOfOverflows := xNumOfOverflows s + 1\<rparr>
      in if listLIST_IS_EMPTY (pxDelayedTaskList s) (heap s)
         then Some (s\<lparr>xNextTaskUnblockTime := portMAX_DELAY\<rparr>)
         else do {
           t \<leftarrow> listGET_OWNER_OF_HEAD_ENTRY (pxDelayedTaskList s) (heap s);
           Some (s\<lparr>xNextTaskUnblockTime := listGET_LIST_ITEM_VALUE (Generic t) (heap s)\<rparr>)
         })"

section \<open>The invariant of the scheduler\<close>

abbreviation cont :: "kernel \<Rightarrow> item \<Rightarrow> lid option" where
  "cont s \<equiv> pvContainer (heap s)"

abbreviation ival :: "kernel \<Rightarrow> item \<Rightarrow> portTickType" where
  "ival s \<equiv> item_value (heap s)"

abbreviation litems :: "kernel \<Rightarrow> lid \<Rightarrow> item list" where
  "litems s \<equiv> list_items (heap s)"

fun task_of :: "item \<Rightarrow> tid" where
  "task_of (Generic t) = t"
| "task_of (Event t) = t"

fun delayed_list :: "lid \<Rightarrow> bool" where
  "delayed_list DelayedTaskList1 \<longleftrightarrow> True"
| "delayed_list DelayedTaskList2 \<longleftrightarrow> True"
| "delayed_list _ \<longleftrightarrow> False"

text \<open>Which items a list may hold, and which lists \<open>prvInitialiseTaskLists\<close> sets up.\<close>

fun holds :: "lid \<Rightarrow> item \<Rightarrow> bool" where
  "holds (Ready p) (Generic t) \<longleftrightarrow> p < configMAX_PRIORITIES"
| "holds DelayedTaskList1 (Generic t) \<longleftrightarrow> True"
| "holds DelayedTaskList2 (Generic t) \<longleftrightarrow> True"
| "holds SuspendedTaskList (Generic t) \<longleftrightarrow> True"
| "holds TasksWaitingTermination (Generic t) \<longleftrightarrow> True"
| "holds PendingReadyList (Event t) \<longleftrightarrow> True"
| "holds (TasksWaitingToSend q) (Event t) \<longleftrightarrow> True"
| "holds (TasksWaitingToReceive q) (Event t) \<longleftrightarrow> True"
| "holds _ _ \<longleftrightarrow> False"

fun kernel_list :: "lid \<Rightarrow> bool" where
  "kernel_list (Ready p) \<longleftrightarrow> p < configMAX_PRIORITIES"
| "kernel_list (TasksWaitingToSend q) \<longleftrightarrow> False"
| "kernel_list (TasksWaitingToReceive q) \<longleftrightarrow> False"
| "kernel_list _ \<longleftrightarrow> True"

definition lists_inv :: "kernel \<Rightarrow> bool" where
  "lists_inv s \<longleftrightarrow> heap_wf (heap s) \<and>
     (\<forall>l. kernel_list l \<longrightarrow> listLIST_IS_INITIALISED l (heap s)) \<and>
     (\<forall>i l. cont s i = Some l \<longrightarrow> holds l i \<and> task_of i \<in> dom (tcbs s)) \<and>
     (\<forall>i. task_of i \<in> dom (tcbs s) \<longrightarrow> pvOwner (heap s) i = task_of i)"

definition tcbs_inv :: "kernel \<Rightarrow> bool" where
  "tcbs_inv s \<longleftrightarrow> tcbs s 0 = None \<and>
     (\<forall>t c. tcbs s t = Some c \<longrightarrow>
        uxPriority c < configMAX_PRIORITIES \<and> uxBasePriority c < configMAX_PRIORITIES) \<and>
     (pxCurrentTCB s = 0 \<or> pxCurrentTCB s \<in> dom (tcbs s)) \<and>
     uxCurrentNumberOfTasks s = of_nat (card (dom (tcbs s)))"

definition top_inv :: "kernel \<Rightarrow> bool" where
  "top_inv s \<longleftrightarrow> uxTopReadyPriority s < configMAX_PRIORITIES \<and>
     (\<forall>t p. cont s (Generic t) = Some (Ready p) \<longrightarrow> p \<le> uxTopReadyPriority s)"

text \<open>
  The current delayed list holds the wake times not yet reached, the overflow list those behind the
  next wrap of the tick counter; a wake time equal to the tick count (a wait of zero ticks) is
  allowed except at the last value before the wrap.
\<close>

definition wake_ok :: "portTickType \<Rightarrow> portTickType \<Rightarrow> kernel \<Rightarrow> lid \<Rightarrow> portTickType \<Rightarrow> bool" where
  "wake_ok T N s l v \<longleftrightarrow>
     (l = pxDelayedTaskList s \<longrightarrow> T \<le> v \<and> N \<le> v \<and> (v = T \<longrightarrow> v \<noteq> portMAX_DELAY)) \<and>
     (l = pxOverflowDelayedTaskList s \<longrightarrow> v < T)"

definition time_inv :: "portTickType \<Rightarrow> portTickType \<Rightarrow> kernel \<Rightarrow> bool" where
  "time_inv T N s \<longleftrightarrow>
     (pxDelayedTaskList s = DelayedTaskList1 \<and> pxOverflowDelayedTaskList s = DelayedTaskList2 \<or>
      pxDelayedTaskList s = DelayedTaskList2 \<and> pxOverflowDelayedTaskList s = DelayedTaskList1) \<and>
     (\<forall>l. delayed_list l \<longrightarrow> sorted (map (ival s) (litems s l))) \<and>
     (\<forall>t l. cont s (Generic t) = Some l \<longrightarrow> wake_ok T N s l (ival s (Generic t)))"

text \<open>
  A task at rest is in exactly one state list; a ready task is in the list of its priority; a ready
  or deleted task waits for no event.
\<close>

definition settled :: "kernel \<Rightarrow> tid \<Rightarrow> bool" where
  "settled s t \<longleftrightarrow>
     (\<exists>l. cont s (Generic t) = Some l \<and>
        (\<forall>p. l = Ready p \<longrightarrow> map_option uxPriority (tcbs s t) = Some p \<and> cont s (Event t) = None) \<and>
        (l = TasksWaitingTermination \<longrightarrow> cont s (Event t) = None))"

text \<open>
  \<open>kinv T N X\<close>: the invariant while the kernel is moving the tasks in \<open>X\<close> from list to list, with the
  tick count \<open>T\<close> and the next unblock time \<open>N\<close> the delayed lists were last put in order for.
\<close>

definition kinv :: "portTickType \<Rightarrow> portTickType \<Rightarrow> tid set \<Rightarrow> kernel \<Rightarrow> bool" where
  "kinv T N X s \<longleftrightarrow> lists_inv s \<and> tcbs_inv s \<and> top_inv s \<and> time_inv T N s \<and>
     (\<forall>t. t \<in> dom (tcbs s) - X \<longrightarrow> settled s t)"

section \<open>Moving list items\<close>

definition moved :: "item \<Rightarrow> lid option \<Rightarrow> kernel \<Rightarrow> kernel \<Rightarrow> bool" where
  "moved i lo s s' \<longleftrightarrow> heap_wf (heap s') \<and>
     (\<forall>l. listLIST_IS_INITIALISED l (heap s') = listLIST_IS_INITIALISED l (heap s)) \<and>
     pvOwner (heap s') = pvOwner (heap s) \<and> ival s' = ival s \<and>
     cont s' = (cont s)(i := lo) \<and> s' = s\<lparr>heap := heap s'\<rparr> \<and>
     (\<forall>l. delayed_list l \<longrightarrow> sorted (map (ival s) (litems s l)) \<longrightarrow> sorted (map (ival s) (litems s' l)))"

lemma movedD:
  assumes "moved i lo s s'"
  shows "heap_wf (heap s')" "listLIST_IS_INITIALISED l (heap s') = listLIST_IS_INITIALISED l (heap s)"
    "pvOwner (heap s') = pvOwner (heap s)" "ival s' = ival s" "cont s' = (cont s)(i := lo)"
    "delayed_list l \<Longrightarrow> sorted (map (ival s) (litems s l)) \<Longrightarrow> sorted (map (ival s) (litems s' l))"
  using assms unfolding moved_def by blast+

lemma moved_frame:
  assumes "moved i lo s s'"
  shows "tcbs s' = tcbs s" "pxCurrentTCB s' = pxCurrentTCB s" "pxDelayedTaskList s' = pxDelayedTaskList s"
    "pxOverflowDelayedTaskList s' = pxOverflowDelayedTaskList s" "uxTasksDeleted s' = uxTasksDeleted s"
    "uxCurrentNumberOfTasks s' = uxCurrentNumberOfTasks s" "xTickCount s' = xTickCount s"
    "uxTopReadyPriority s' = uxTopReadyPriority s" "xSchedulerRunning s' = xSchedulerRunning s"
    "uxSchedulerSuspended s' = uxSchedulerSuspended s" "uxPendedTicks s' = uxPendedTicks s"
    "xYieldPending s' = xYieldPending s" "xNumOfOverflows s' = xNumOfOverflows s"
    "uxTaskNumber s' = uxTaskNumber s" "xNextTaskUnblockTime s' = xNextTaskUnblockTime s"
    "pending_soft_sv s' = pending_soft_sv s"
proof -
  have "s' = s\<lparr>heap := heap s'\<rparr>" using assms unfolding moved_def by blast
  then show "tcbs s' = tcbs s" "pxCurrentTCB s' = pxCurrentTCB s" "pxDelayedTaskList s' = pxDelayedTaskList s"
    "pxOverflowDelayedTaskList s' = pxOverflowDelayedTaskList s" "uxTasksDeleted s' = uxTasksDeleted s"
    "uxCurrentNumberOfTasks s' = uxCurrentNumberOfTasks s" "xTickCount s' = xTickCount s"
    "uxTopReadyPriority s' = uxTopReadyPriority s" "xSchedulerRunning s' = xSchedulerRunning s"
    "uxSchedulerSuspended s' = uxSchedulerSuspended s" "uxPendedTicks s' = uxPendedTicks s"
    "xYieldPending s' = xYieldPending s" "xNumOfOverflows s' = xNumOfOverflows s"
    "uxTaskNumber s' = uxTaskNumber s" "xNextTaskUnblockTime s' = xNextTaskUnblockTime s"
    "pending_soft_sv s' = pending_soft_sv s"
    by (metis kernel.select_convs kernel.surjective kernel.update_convs(1))+
qed

lemmas moved_simps = movedD(3,4,5) moved_frame

lemma kinvD:
  assumes "kinv T N X s"
  shows "heap_wf (heap s)" "kernel_list l \<Longrightarrow> listLIST_IS_INITIALISED l (heap s)"
    "cont s i = Some l \<Longrightarrow> holds l i" "cont s i = Some l \<Longrightarrow> task_of i \<in> dom (tcbs s)"
    "task_of i \<in> dom (tcbs s) \<Longrightarrow> pvOwner (heap s) i = task_of i"
    "tcbs s t = Some c \<Longrightarrow> uxPriority c < configMAX_PRIORITIES"
    "tcbs s t = Some c \<Longrightarrow> uxBasePriority c < configMAX_PRIORITIES"
    "tcbs s 0 = None"
    "t \<in> dom (tcbs s) \<Longrightarrow> t \<notin> X \<Longrightarrow> settled s t"
    "pxCurrentTCB s \<noteq> 0 \<Longrightarrow> pxCurrentTCB s \<in> dom (tcbs s)"
  using assms unfolding kinv_def lists_inv_def tcbs_inv_def by blast+

lemma k_remove_moved:
  assumes "kinv T N X s" and "cont s i = Some l"
  shows "\<exists>s'. k_remove i s = Some (of_nat (length (litems s l) - 1), s') \<and> moved i None s s' \<and>
    litems s' = (litems s)(l := remove1 i (litems s l))"
proof -
  obtain h where h: "uxListRemove i (heap s) = Some (of_nat (length (litems s l) - 1), h)" "heap_wf h"
    "list_items h = (litems s)(l := remove1 i (litems s l))" "pvOwner h = pvOwner (heap s)"
    "xItemValue h = xItemValue (heap s)" "pvContainer h = (cont s)(i := None)"
    using uxListRemove_effect [OF kinvD(1) [OF assms(1)] assms(2)] by metis
  have "sorted (map f (remove1 i xs))" if "sorted (map f xs)" for f :: "item \<Rightarrow> u32" and xs
    using that by (simp add: sorted_wrt_map sorted_wrt_remove1)
  then show ?thesis using h
    by (auto simp: k_remove_def moved_def item_value_def listLIST_IS_INITIALISED_def fun_eq_iff)
qed

lemma k_room:
  assumes "kinv T N X s" and "cont s i = None" and "task_of i \<in> dom (tcbs s)" and "holds l i"
  shows "length (litems s l) + 1 < 2 ^ 32"
proof -
  have wf: "heap_wf (heap s)" by (rule kinvD(1) [OF assms(1)])
  have cont: "cont s j = Some l" if "j \<in> set (litems s l)" for j
    using that heap_wf_container [OF wf] by simp
  have "inj_on task_of (insert i (set (litems s l)))"
  proof (rule inj_onI)
    fix j k assume "j \<in> insert i (set (litems s l))" "k \<in> insert i (set (litems s l))" "task_of j = task_of k"
    then have "holds l j" "holds l k" using kinvD(3) [OF assms(1)] cont assms(4) by auto
    with \<open>task_of j = task_of k\<close> show "j = k" by (cases l; cases j; cases k) auto
  qed
  moreover have "task_of ` insert i (set (litems s l)) \<subseteq> UNIV - {0}"
    using cont assms(3) kinvD(4,8) [OF assms(1)] by fastforce
  ultimately have "card (insert i (set (litems s l))) \<le> card (UNIV - {0 :: u32})"
    by (intro card_inj_on_le) auto
  moreover have "i \<notin> set (litems s l)" using cont assms(2) by auto
  ultimately have "length (litems s l) + 1 \<le> 2 ^ 32 - 1"
    using heap_wf_distinct [OF wf, of l] by (simp add: distinct_card card_word)
  then show ?thesis by simp
qed

lemma k_insert_end_moved:
  assumes k: "kinv T N X s" and "cont s i = None" and "task_of i \<in> dom (tcbs s)" and "holds l i"
    and "listLIST_IS_INITIALISED l (heap s)" and "\<not> delayed_list l"
  shows "moved i (Some l) s (k_insert_end l i s)"
proof -
  note e = vListInsertEnd_effect [OF kinvD(1) [OF k] assms(5,2) k_room [OF k assms(2-4)]]
  have "l \<noteq> m" if "delayed_list m" for m using assms(6) that by auto
  with e show ?thesis
    by (auto simp: moved_def k_insert_end_def frame item_value_def listLIST_IS_INITIALISED_def fun_eq_iff)
qed

lemma k_insert_moved:
  assumes k: "kinv T N X s" and "cont s i = None" and "task_of i \<in> dom (tcbs s)" and "holds l i"
    and "listLIST_IS_INITIALISED l (heap s)"
  shows "\<exists>s'. k_insert l i s = Some s' \<and> moved i (Some l) s s' \<and>
    litems s' = (litems s)(l := insert_by (ival s) (ival s i) i (litems s l))"
proof -
  obtain h where h: "vListInsert l i (heap s) = Some h" "heap_wf h"
    "list_items h = (litems s)(l := insert_by (ival s) (ival s i) i (litems s l))"
    "xItemValue h = xItemValue (heap s)" "pvOwner h = pvOwner (heap s)"
    "pvContainer h = (cont s)(i := Some l)"
    using vListInsert_effect [OF kinvD(1) [OF k] assms(5,2) k_room [OF k assms(2-4)]] by metis
  then show ?thesis
    by (auto simp: k_insert_def moved_def item_value_def listLIST_IS_INITIALISED_def fun_eq_iff
        intro!: insert_by_sorted)
qed

lemma kinv_mono: "kinv T N X s \<Longrightarrow> X \<subseteq> Y \<Longrightarrow> kinv T N Y s"
  by (auto simp: kinv_def)

lemma kinv_settle: "kinv T N X s \<Longrightarrow> settled s t \<Longrightarrow> kinv T N (X - {t}) s"
  by (auto simp: kinv_def)

lemma kinv_top: "kinv T N X s \<Longrightarrow> cont s (Generic t) = Some (Ready p) \<Longrightarrow> p \<le> uxTopReadyPriority s"
  by (simp add: kinv_def top_inv_def)

lemma kinv_wake: "kinv T N X s \<Longrightarrow> cont s (Generic t) = Some l \<Longrightarrow> wake_ok T N s l (ival s (Generic t))"
  by (simp add: kinv_def time_inv_def)

lemma kinv_delayed:
  assumes "kinv T N X s"
  shows "delayed_list (pxDelayedTaskList s)" "delayed_list (pxOverflowDelayedTaskList s)"
    "pxDelayedTaskList s \<noteq> pxOverflowDelayedTaskList s"
    "delayed_list l \<longleftrightarrow> l = pxDelayedTaskList s \<or> l = pxOverflowDelayedTaskList s"
    "delayed_list l \<Longrightarrow> sorted (map (ival s) (litems s l))"
  using assms by (cases l; auto simp: kinv_def time_inv_def)+

lemma delayed_kernel_list: "delayed_list l \<Longrightarrow> kernel_list l" "delayed_list l \<Longrightarrow> holds l (Generic t)"
  by (cases l; simp)+

text \<open>One item moves: everything but the resting state of its task is kept.\<close>

lemma kinv_moved:
  assumes k: "kinv T N X s" and m: "moved i lo s s'"
    and l: "\<And>l. lo = Some l \<Longrightarrow> holds l i \<and> task_of i \<in> dom (tcbs s) \<and>
      (\<forall>p. l = Ready p \<longrightarrow> p \<le> uxTopReadyPriority s) \<and> (delayed_list l \<longrightarrow> wake_ok T N s l (ival s i))"
  shows "kinv T N (insert (task_of i) X) s'"
proof -
  note mv [simp] = moved_simps [OF m]
  have "lists_inv s'"
    using kinvD(1-5) [OF k] l movedD(1,2) [OF m] by (auto simp: lists_inv_def)
  moreover have "tcbs_inv s'" using k by (simp add: kinv_def tcbs_inv_def)
  moreover have "top_inv s'" using k l by (auto simp: kinv_def top_inv_def)
  moreover have "time_inv T N s'"
  proof -
    have w: "wake_ok T N s' m v = wake_ok T N s m v" for m v by (simp add: wake_ok_def)
    have "wake_ok T N s m v" if "\<not> delayed_list m" for m v
      using that kinv_delayed [OF k] by (auto simp: wake_ok_def)
    then have "wake_ok T N s m (ival s (Generic t))" if "cont s' (Generic t) = Some m" for t m
      using that l kinv_wake [OF k] by (cases "delayed_list m") (auto split: if_splits)
    then show ?thesis using k movedD(6) [OF m] w by (simp add: kinv_def time_inv_def)
  qed
  moreover have "settled s' t" if "t \<in> dom (tcbs s')" "t \<notin> insert (task_of i) X" for t
    using that kinvD(9) [OF k, of t] by (cases i) (auto simp: settled_def)
  ultimately show ?thesis by (auto simp: kinv_def)
qed

lemma kinv_removed:
  assumes "kinv T N X s" and "cont s i = Some l"
  shows "\<exists>s' n. k_remove i s = Some (n, s') \<and> moved i None s s' \<and> kinv T N (insert (task_of i) X) s'"
proof -
  obtain s' where s': "k_remove i s = Some (of_nat (length (litems s l) - 1), s')" "moved i None s s'"
    using k_remove_moved [OF assms] by blast
  moreover have "kinv T N (insert (task_of i) X) s'" by (rule kinv_moved [OF assms(1) s'(2)]) simp
  ultimately show ?thesis by blast
qed

text \<open>Values change: of an event item at any time, of a state item when it is in no list.\<close>

lemma kinv_set_value:
  assumes k: "kinv T N X s" and "\<And>t. i = Generic t \<Longrightarrow> cont s i = None"
  shows "kinv T N X (k_set_value i v s)"
proof -
  let ?s = "k_set_value i v s"
  have nd: "i \<notin> set (litems s l)" if "delayed_list l" for l
    using assms(2) heap_wf_container [OF kinvD(1) [OF k], of i l] kinvD(3) [OF k, of i l] that
    by (cases i; cases l) auto
  then have mp: "map (ival ?s) (litems s l) = map (ival s) (litems s l)" if "delayed_list l" for l
    using that by (auto simp: k_set_value_def)
  have w: "wake_ok T N ?s m w = wake_ok T N s m w" for m w by (simp add: wake_ok_def k_set_value_def)
  have iv: "ival ?s (Generic t) = ival s (Generic t)" if "cont s (Generic t) = Some m" for t m
    using that assms(2) by (auto simp: k_set_value_def)
  have fr: "litems ?s = litems s" "cont ?s = cont s" "pxDelayedTaskList ?s = pxDelayedTaskList s"
    "pxOverflowDelayedTaskList ?s = pxOverflowDelayedTaskList s"
    by (simp_all add: k_set_value_def)
  have "time_inv T N ?s" using k unfolding kinv_def time_inv_def fr w by (metis mp iv)
  then show ?thesis using k
    by (auto simp: kinv_def lists_inv_def tcbs_inv_def top_inv_def settled_def k_set_value_def)
qed

lemma kinv_frame:
  assumes "kinv T N X s" and "heap s' = heap s" "tcbs s' = tcbs s" "pxCurrentTCB s' = pxCurrentTCB s"
    "pxDelayedTaskList s' = pxDelayedTaskList s" "pxOverflowDelayedTaskList s' = pxOverflowDelayedTaskList s"
    "uxCurrentNumberOfTasks s' = uxCurrentNumberOfTasks s"
    "uxTopReadyPriority s \<le> uxTopReadyPriority s'" "uxTopReadyPriority s' < configMAX_PRIORITIES"
  shows "kinv T N X s'"
proof -
  have "top_inv s'" using assms(2,8,9) kinv_top [OF assms(1)]
    by (auto simp: top_inv_def intro: order_trans [OF _ assms(8)])
  moreover have "lists_inv s'" "tcbs_inv s'" "time_inv T N s'" "\<And>t. settled s t \<Longrightarrow> settled s' t"
    using assms by (simp_all add: kinv_def lists_inv_def tcbs_inv_def time_inv_def wake_ok_def settled_def)
  ultimately show ?thesis using assms(1,3) by (simp add: kinv_def)
qed

lemma kinv_portYIELD [intro]: "kinv T N X s \<Longrightarrow> kinv T N X (portYIELD s)"
  by (rule kinv_frame) (auto simp: portYIELD_def kinv_def top_inv_def)

text \<open>A task that is in no list becomes ready.\<close>

lemma add_ready:
  assumes k: "kinv T N X s" and t: "tcbs s t = Some c"
    and free: "cont s (Generic t) = None" "cont s (Event t) = None"
  shows "\<exists>s'. prvAddTaskToReadyList t s = Some s' \<and> kinv T N (X - {t}) s' \<and>
    cont s' = (cont s)(Generic t := Some (Ready (uxPriority c))) \<and> ival s' = ival s \<and>
    pvOwner (heap s') = pvOwner (heap s) \<and>
    (\<forall>l. l \<noteq> Ready (uxPriority c) \<longrightarrow> litems s' l = litems s l) \<and>
    s' = s\<lparr>heap := heap s', uxTopReadyPriority := max (uxTopReadyPriority s) (uxPriority c)\<rparr>"
proof -
  let ?p = "uxPriority c" and ?s = "taskRECORD_READY_PRIORITY (uxPriority c) s"
  have p: "?p < configMAX_PRIORITIES" by (rule kinvD(6) [OF k t])
  have rs: "?s = s\<lparr>uxTopReadyPriority := max (uxTopReadyPriority s) ?p\<rparr>"
    by (auto simp: taskRECORD_READY_PRIORITY_def max_def)
  have k1: "kinv T N X ?s"
    using k p unfolding rs by (intro kinv_frame [OF k]) (auto simp: kinv_def top_inv_def max_def)
  have m: "moved (Generic t) (Some (Ready ?p)) ?s (k_insert_end (Ready ?p) (Generic t) ?s)"
    using t p free kinvD(2) [OF k, of "Ready ?p"]
    by (intro k_insert_end_moved [OF k1]) (auto simp: rs)
  have "kinv T N (insert t X) (k_insert_end (Ready ?p) (Generic t) ?s)"
    using kinv_moved [OF k1 m] p t by (simp add: rs domI)
  moreover have "settled (k_insert_end (Ready ?p) (Generic t) ?s) t"
    using t free by (simp add: settled_def moved_simps [OF m]) (simp add: rs)
  ultimately have "kinv T N (insert t X - {t}) (k_insert_end (Ready ?p) (Generic t) ?s)"
    by (rule kinv_settle)
  moreover have "litems (k_insert_end (Ready ?p) (Generic t) ?s) l = litems s l" if "l \<noteq> Ready ?p" for l
    using vListInsertEnd_effect(2) [OF kinvD(1) [OF k1], of "Ready ?p" "Generic t"] that
      k_room [OF k1, of "Generic t" "Ready ?p"] t p free kinvD(2) [OF k, of "Ready ?p"]
    by (simp add: k_insert_end_def rs domI)
  moreover have "prvAddTaskToReadyList t s = Some (k_insert_end (Ready ?p) (Generic t) ?s)"
    using t p by (simp add: prvAddTaskToReadyList_def pxReadyTasksLists_def)
  ultimately show ?thesis
    using movedD(3-5) [OF m] by (simp add: rs k_insert_end_def)
qed

end
