(* ===== verification/Tasks.thy ===== *)
theory Tasks
  imports Task_State
begin

text \<open>
  The scheduler of FreeRTOS/Source/tasks.c: the tick, the choice of the running task, suspending
  and resuming the scheduler, delays, the event lists and timeouts, and the two interrupt handlers
  of portable/esp8266/port.c that drive it. Every operation is shown to end, to dereference only
  live control blocks, to keep the invariant of \<open>Task_State\<close>, and to have the effect documented
  for it on the state lists.
\<close>

section \<open>Operations\<close>

text \<open>Remove the event item of a task if it is in a list.\<close>

definition remove_event :: "tid \<Rightarrow> kernel \<Rightarrow> kernel option" where
  "remove_event t s =
     (if listLIST_ITEM_CONTAINER (Event t) (heap s) \<noteq> None
      then map_option snd (k_remove (Event t) s) else Some s)"

text \<open>The \<open>for(;;)\<close> loop of \<open>xTaskIncrementTick\<close>; the result says whether a switch is required.\<close>

partial_function (option) unblock_loop :: "bool \<Rightarrow> kernel \<Rightarrow> (bool \<times> kernel) option" where
  "unblock_loop sw s =
     (if listLIST_IS_EMPTY (pxDelayedTaskList s) (heap s)
      then Some (sw, s\<lparr>xNextTaskUnblockTime := portMAX_DELAY\<rparr>)
      else do {
        t \<leftarrow> listGET_OWNER_OF_HEAD_ENTRY (pxDelayedTaskList s) (heap s);
        (if xTickCount s < listGET_LIST_ITEM_VALUE (Generic t) (heap s)
         then Some (sw, s\<lparr>xNextTaskUnblockTime := listGET_LIST_ITEM_VALUE (Generic t) (heap s)\<rparr>)
         else do {
           (n, s1) \<leftarrow> k_remove (Generic t) s;
           s2 \<leftarrow> remove_event t s1;
           s3 \<leftarrow> prvAddTaskToReadyList t s2;
           c \<leftarrow> tcbs s3 t;
           cur \<leftarrow> tcbs s3 (pxCurrentTCB s3);
           unblock_loop (sw \<or> uxPriority c \<ge> uxPriority cur) s3
         })
      })"

definition xTaskIncrementTick :: "kernel \<Rightarrow> (bool \<times> kernel) option" where
  "xTaskIncrementTick s =
     (if uxSchedulerSuspended s = 0 then do {
        let s = s\<lparr>xTickCount := xTickCount s + 1\<rparr>;
        s \<leftarrow> (if xTickCount s = 0 then taskSWITCH_DELAYED_LISTS s else Some s);
        (sw, s) \<leftarrow> (if xTickCount s \<ge> xNextTaskUnblockTime s then unblock_loop False s else Some (False, s));
        cur \<leftarrow> tcbs s (pxCurrentTCB s);
        l \<leftarrow> pxReadyTasksLists (uxPriority cur);
        Some (sw \<or> listCURRENT_LIST_LENGTH l (heap s) > 1, s)
      }
      else Some (False, s\<lparr>uxPendedTicks := uxPendedTicks s + 1\<rparr>))"

definition vTaskSwitchContext :: "kernel \<Rightarrow> kernel option" where
  "vTaskSwitchContext s =
     (if uxSchedulerSuspended s \<noteq> 0 then Some (s\<lparr>xYieldPending := True\<rparr>)
      else taskSELECT_HIGHEST_PRIORITY_TASK s)"

definition vTaskSuspendAll :: "kernel \<Rightarrow> kernel" where
  "vTaskSuspendAll s = s\<lparr>uxSchedulerSuspended := uxSchedulerSuspended s + 1\<rparr>"

text \<open>The two loops of \<open>xTaskResumeAll\<close>.\<close>

partial_function (option) drain_pending :: "bool \<Rightarrow> kernel \<Rightarrow> (bool \<times> kernel) option" where
  "drain_pending yr s =
     (if listLIST_IS_EMPTY PendingReadyList (heap s) then Some (yr, s)
      else do {
        t \<leftarrow> listGET_OWNER_OF_HEAD_ENTRY PendingReadyList (heap s);
        (n1, s1) \<leftarrow> k_remove (Event t) s;
        (n2, s2) \<leftarrow> k_remove (Generic t) s1;
        s3 \<leftarrow> prvAddTaskToReadyList t s2;
        c \<leftarrow> tcbs s3 t;
        cur \<leftarrow> tcbs s3 (pxCurrentTCB s3);
        drain_pending (yr \<or> uxPriority c \<ge> uxPriority cur) s3
      })"

partial_function (option) process_pended_ticks :: "bool \<Rightarrow> kernel \<Rightarrow> (bool \<times> kernel) option" where
  "process_pended_ticks yr s =
     (if uxPendedTicks s > 0
      then do {
        (sw, s1) \<leftarrow> xTaskIncrementTick s;
        process_pended_ticks (yr \<or> sw) (s1\<lparr>uxPendedTicks := uxPendedTicks s1 - 1\<rparr>)
      }
      else Some (yr, s))"

definition xTaskResumeAll :: "kernel \<Rightarrow> (bool \<times> kernel) option" where
  "xTaskResumeAll s =
     (let s = s\<lparr>uxSchedulerSuspended := uxSchedulerSuspended s - 1\<rparr>
      in if uxSchedulerSuspended s = 0 \<and> uxCurrentNumberOfTasks s > 0
         then do {
           (yr, s) \<leftarrow> drain_pending False s;
           (yr, s) \<leftarrow> process_pended_ticks yr s;
           (if yr \<or> xYieldPending s then Some (True, portYIELD (s\<lparr>xYieldPending := False\<rparr>))
            else Some (False, s))
         }
         else Some (False, s))"

definition prvAddCurrentTaskToDelayedList :: "portTickType \<Rightarrow> kernel \<Rightarrow> kernel option" where
  "prvAddCurrentTaskToDelayedList xTimeToWake s =
     (let t = pxCurrentTCB s; s = k_set_value (Generic t) xTimeToWake s
      in if tcbs s t = None then None
         else if xTimeToWake < xTickCount s then k_insert (pxOverflowDelayedTaskList s) (Generic t) s
         else do {
           s \<leftarrow> k_insert (pxDelayedTaskList s) (Generic t) s;
           Some (if xTimeToWake < xNextTaskUnblockTime s
                 then s\<lparr>xNextTaskUnblockTime := xTimeToWake\<rparr> else s)
         })"

definition vTaskDelay :: "portTickType \<Rightarrow> kernel \<Rightarrow> kernel option" where
  "vTaskDelay xTicksToDelay s = do {
     (xAlreadyYielded, s) \<leftarrow>
       (if xTicksToDelay > 0 then do {
          let s = vTaskSuspendAll s;
          let xTimeToWake = xTickCount s + xTicksToDelay;
          (n, s) \<leftarrow> k_remove (Generic (pxCurrentTCB s)) s;
          s \<leftarrow> prvAddCurrentTaskToDelayedList xTimeToWake s;
          xTaskResumeAll s
        }
        else Some (False, s));
     Some (if xAlreadyYielded then s else portYIELD s)
   }"

text \<open>The test of \<open>vTaskDelayUntil\<close> whether the next wake time still lies ahead.\<close>

definition xShouldDelay :: "portTickType \<Rightarrow> portTickType \<Rightarrow> portTickType \<Rightarrow> bool" where
  "xShouldDelay xConstTickCount xPreviousWakeTime xTimeToWake \<longleftrightarrow>
     (if xConstTickCount < xPreviousWakeTime
      then xTimeToWake < xPreviousWakeTime \<and> xTimeToWake > xConstTickCount
      else xTimeToWake < xPreviousWakeTime \<or> xTimeToWake > xConstTickCount)"

text \<open>The result pairs the new value of \<open>*pxPreviousWakeTime\<close> with the state.\<close>

definition vTaskDelayUntil ::
    "portTickType \<Rightarrow> portTickType \<Rightarrow> kernel \<Rightarrow> (portTickType \<times> kernel) option" where
  "vTaskDelayUntil xPreviousWakeTime xTimeIncrement s = do {
     let s = vTaskSuspendAll s;
     let xTimeToWake = xPreviousWakeTime + xTimeIncrement;
     s \<leftarrow> (if xShouldDelay (xTickCount s) xPreviousWakeTime xTimeToWake
           then do {
             (n, s) \<leftarrow> k_remove (Generic (pxCurrentTCB s)) s;
             prvAddCurrentTaskToDelayedList xTimeToWake s
           }
           else Some s);
     (xAlreadyYielded, s) \<leftarrow> xTaskResumeAll s;
     Some (xTimeToWake, if xAlreadyYielded then s else portYIELD s)
   }"

definition vTaskPlaceOnEventList :: "lid \<Rightarrow> portTickType \<Rightarrow> kernel \<Rightarrow> kernel option" where
  "vTaskPlaceOnEventList pxEventList xTicksToWait s = do {
     let t = pxCurrentTCB s;
     s \<leftarrow> k_insert pxEventList (Event t) s;
     (n, s) \<leftarrow> k_remove (Generic t) s;
     (if xTicksToWait = portMAX_DELAY then Some (k_insert_end SuspendedTaskList (Generic t) s)
      else prvAddCurrentTaskToDelayedList (xTickCount s + xTicksToWait) s)
   }"

definition vTaskPlaceOnEventListRestricted :: "lid \<Rightarrow> portTickType \<Rightarrow> kernel \<Rightarrow> kernel option" where
  "vTaskPlaceOnEventListRestricted pxEventList xTicksToWait s = do {
     let t = pxCurrentTCB s;
     let s = k_insert_end pxEventList (Event t) s;
     (n, s) \<leftarrow> k_remove (Generic t) s;
     prvAddCurrentTaskToDelayedList (xTickCount s + xTicksToWait) s
   }"

definition xTaskRemoveFromEventList :: "lid \<Rightarrow> kernel \<Rightarrow> (bool \<times> kernel) option" where
  "xTaskRemoveFromEventList pxEventList s = do {
     t \<leftarrow> listGET_OWNER_OF_HEAD_ENTRY pxEventList (heap s);
     (n, s) \<leftarrow> k_remove (Event t) s;
     s \<leftarrow> (if uxSchedulerSuspended s = 0
           then do {
             (n, s) \<leftarrow> k_remove (Generic t) s;
             prvAddTaskToReadyList t s
           }
           else Some (k_insert_end PendingReadyList (Event t) s));
     c \<leftarrow> tcbs s t;
     cur \<leftarrow> tcbs s (pxCurrentTCB s);
     Some (uxPriority c \<ge> uxPriority cur, s)
   }"

record xTimeOutType =
  xOverflowCount :: u32
  xTimeOnEntering :: portTickType

definition vTaskSetTimeOutState :: "kernel \<Rightarrow> xTimeOutType" where
  "vTaskSetTimeOutState s = \<lparr>xOverflowCount = xNumOfOverflows s, xTimeOnEntering = xTickCount s\<rparr>"

text \<open>The result: timed out or not, and the new values of \<open>*pxTimeOut\<close> and \<open>*pxTicksToWait\<close>.\<close>

definition xTaskCheckForTimeOut ::
    "xTimeOutType \<Rightarrow> portTickType \<Rightarrow> kernel \<Rightarrow> bool \<times> xTimeOutType \<times> portTickType" where
  "xTaskCheckForTimeOut pxTimeOut xTicksToWait s =
     (if xTicksToWait = portMAX_DELAY then (False, pxTimeOut, xTicksToWait)
      else if xNumOfOverflows s \<noteq> xOverflowCount pxTimeOut \<and> xTickCount s \<ge> xTimeOnEntering pxTimeOut
      then (True, pxTimeOut, xTicksToWait)
      else if xTickCount s - xTimeOnEntering pxTimeOut < xTicksToWait
      then (False, vTaskSetTimeOutState s, xTicksToWait - (xTickCount s - xTimeOnEntering pxTimeOut))
      else (True, pxTimeOut, xTicksToWait))"

definition vTaskMissedYield :: "kernel \<Rightarrow> kernel" where
  "vTaskMissedYield s = s\<lparr>xYieldPending := True\<rparr>"

definition xTaskGetTickCount :: "kernel \<Rightarrow> portTickType" where
  "xTaskGetTickCount s = xTickCount s"

definition xTaskGetTickCountFromISR :: "kernel \<Rightarrow> portTickType" where
  "xTaskGetTickCountFromISR s = xTickCount s"

definition uxTaskGetNumberOfTasks :: "kernel \<Rightarrow> uBaseType" where
  "uxTaskGetNumberOfTasks s = uxCurrentNumberOfTasks s"

definition xTaskGetCurrentTaskHandle :: "kernel \<Rightarrow> tid" where
  "xTaskGetCurrentTaskHandle s = pxCurrentTCB s"

datatype scheduler_state =
  taskSCHEDULER_NOT_STARTED | taskSCHEDULER_RUNNING | taskSCHEDULER_SUSPENDED

definition xTaskGetSchedulerState :: "kernel \<Rightarrow> scheduler_state" where
  "xTaskGetSchedulerState s =
     (if \<not> xSchedulerRunning s then taskSCHEDULER_NOT_STARTED
      else if uxSchedulerSuspended s = 0 then taskSCHEDULER_RUNNING else taskSCHEDULER_SUSPENDED)"

text \<open>The tick interrupt of port.c.\<close>

definition xPortSysTickHandle :: "kernel \<Rightarrow> kernel option" where
  "xPortSysTickHandle s = do {
     (sw, s) \<leftarrow> xTaskIncrementTick s;
     (if sw then vTaskSwitchContext s else Some s)
   }"

section \<open>Making a task ready\<close>

abbreviation prio :: "kernel \<Rightarrow> tid \<Rightarrow> uBaseType" where
  "prio s t \<equiv> uxPriority (the (tcbs s t))"

lemma moved_refl: "kinv T N X s \<Longrightarrow> cont s i = None \<Longrightarrow> moved i None s s"
  using kinvD(1) by (auto simp: moved_def fun_upd_idem)

lemma remove_event_moved:
  assumes "kinv T N X s"
  shows "\<exists>s'. remove_event t s = Some s' \<and> moved (Event t) None s s' \<and> kinv T N (insert t X) s' \<and>
    (\<forall>l. delayed_list l \<longrightarrow> litems s' l = litems s l)"
proof (cases "cont s (Event t)")
  case None
  then show ?thesis using moved_refl [OF assms None] kinv_mono [OF assms subset_insertI]
    by (auto simp: remove_event_def listLIST_ITEM_CONTAINER_def)
next
  case (Some l)
  obtain s' where s': "k_remove (Event t) s = Some (of_nat (length (litems s l) - 1), s')"
    "moved (Event t) None s s'" "litems s' = (litems s)(l := remove1 (Event t) (litems s l))"
    using k_remove_moved [OF assms Some] by blast
  have "kinv T N (insert t X) s'" using kinv_moved [OF assms s'(2)] by simp
  moreover have "\<not> delayed_list l" using kinvD(3) [OF assms Some] by (cases l) auto
  ultimately show ?thesis using Some s'
    by (auto simp: remove_event_def listLIST_ITEM_CONTAINER_def)
qed

text \<open>The effect of taking a task out of its lists and putting it into its ready list.\<close>

definition readied :: "tid \<Rightarrow> kernel \<Rightarrow> kernel \<Rightarrow> bool" where
  "readied t s s' \<longleftrightarrow>
     cont s' = (cont s)(Event t := None, Generic t := Some (Ready (prio s t))) \<and> ival s' = ival s \<and>
     pvOwner (heap s') = pvOwner (heap s) \<and>
     (\<forall>l. delayed_list l \<longrightarrow> litems s' l = remove1 (Generic t) (litems s l)) \<and>
     s' = s\<lparr>heap := heap s', uxTopReadyPriority := max (uxTopReadyPriority s) (prio s t)\<rparr>"

lemma readied_frame:
  assumes "readied t s s'"
  shows "tcbs s' = tcbs s" "pxCurrentTCB s' = pxCurrentTCB s" "pxDelayedTaskList s' = pxDelayedTaskList s"
    "pxOverflowDelayedTaskList s' = pxOverflowDelayedTaskList s" "uxTasksDeleted s' = uxTasksDeleted s"
    "uxCurrentNumberOfTasks s' = uxCurrentNumberOfTasks s" "xTickCount s' = xTickCount s"
    "xSchedulerRunning s' = xSchedulerRunning s"
    "uxSchedulerSuspended s' = uxSchedulerSuspended s" "uxPendedTicks s' = uxPendedTicks s"
    "xYieldPending s' = xYieldPending s" "xNumOfOverflows s' = xNumOfOverflows s"
    "uxTaskNumber s' = uxTaskNumber s" "xNextTaskUnblockTime s' = xNextTaskUnblockTime s"
    "pending_soft_sv s' = pending_soft_sv s"
proof -
  obtain h p where "s' = s\<lparr>heap := h, uxTopReadyPriority := p\<rparr>"
    using assms unfolding readied_def by blast
  then show "tcbs s' = tcbs s" "pxCurrentTCB s' = pxCurrentTCB s" "pxDelayedTaskList s' = pxDelayedTaskList s"
    "pxOverflowDelayedTaskList s' = pxOverflowDelayedTaskList s" "uxTasksDeleted s' = uxTasksDeleted s"
    "uxCurrentNumberOfTasks s' = uxCurrentNumberOfTasks s" "xTickCount s' = xTickCount s"
    "xSchedulerRunning s' = xSchedulerRunning s"
    "uxSchedulerSuspended s' = uxSchedulerSuspended s" "uxPendedTicks s' = uxPendedTicks s"
    "xYieldPending s' = xYieldPending s" "xNumOfOverflows s' = xNumOfOverflows s"
    "uxTaskNumber s' = uxTaskNumber s" "xNextTaskUnblockTime s' = xNextTaskUnblockTime s"
    "pending_soft_sv s' = pending_soft_sv s" by simp_all
qed

lemma readiedD:
  assumes "readied t s s'"
  shows "cont s' = (cont s)(Event t := None, Generic t := Some (Ready (prio s t)))" "ival s' = ival s"
    "pvOwner (heap s') = pvOwner (heap s)"
    "delayed_list l \<Longrightarrow> litems s' l = remove1 (Generic t) (litems s l)"
    "uxTopReadyPriority s' = max (uxTopReadyPriority s) (prio s t)"
proof -
  have "s' = s\<lparr>heap := heap s', uxTopReadyPriority := max (uxTopReadyPriority s) (prio s t)\<rparr>"
    using assms unfolding readied_def by blast
  then show "uxTopReadyPriority s' = max (uxTopReadyPriority s) (prio s t)"
    by (metis kernel.select_convs(9) kernel.surjective kernel.update_convs(9))
qed (use assms in \<open>auto simp: readied_def\<close>)

lemma remove_generic_litems:
  assumes k: "kinv T N X s" and c: "cont s (Generic t) = Some l"
  obtains s' n where "k_remove (Generic t) s = Some (n, s')" "moved (Generic t) None s s'"
    "kinv T N (insert t X) s'" "\<And>m. litems s' m = remove1 (Generic t) (litems s m)"
proof -
  obtain s' where s': "k_remove (Generic t) s = Some (of_nat (length (litems s l) - 1), s')"
    "moved (Generic t) None s s'" "litems s' = (litems s)(l := remove1 (Generic t) (litems s l))"
    using k_remove_moved [OF k c] by blast
  have "litems s' m = remove1 (Generic t) (litems s m)" for m
    using s'(3) heap_wf_container [OF kinvD(1) [OF k], of "Generic t" m] c
    by (cases "m = l") (auto simp: remove1_idem)
  with s' show ?thesis using that kinv_moved [OF k s'(2)] by simp
qed

text \<open>Both orders in which the kernel takes the two items of a task out of their lists.\<close>

lemma make_ready:
  assumes k: "kinv T N X s" and c: "cont s (Generic t) = Some l"
  shows "\<exists>n s1 s2 s3. k_remove (Generic t) s = Some (n, s1) \<and> remove_event t s1 = Some s2 \<and>
    prvAddTaskToReadyList t s2 = Some s3 \<and> readied t s s3 \<and> kinv T N (X - {t}) s3"
proof -
  have td: "t \<in> dom (tcbs s)" using kinvD(4) [OF k c] by simp
  obtain s1 n where s1: "k_remove (Generic t) s = Some (n, s1)" "moved (Generic t) None s s1"
    "kinv T N (insert t X) s1" "\<And>m. litems s1 m = remove1 (Generic t) (litems s m)"
    using remove_generic_litems [OF k c] by metis
  obtain s2 where s2: "remove_event t s1 = Some s2" "moved (Event t) None s1 s2"
    "kinv T N (insert t X) s2" "\<forall>l. delayed_list l \<longrightarrow> litems s2 l = litems s1 l"
    using remove_event_moved [OF s1(3)] by (metis insert_absorb2)
  note mv [simp] = moved_simps [OF s1(2)] moved_simps [OF s2(2)]
  obtain d where d: "tcbs s2 t = Some d" using td by auto
  then obtain s3 where s3: "prvAddTaskToReadyList t s2 = Some s3" "kinv T N (insert t X - {t}) s3"
    "cont s3 = (cont s2)(Generic t := Some (Ready (uxPriority d)))" "ival s3 = ival s2"
    "pvOwner (heap s3) = pvOwner (heap s2)"
    "\<forall>l. l \<noteq> Ready (uxPriority d) \<longrightarrow> litems s3 l = litems s2 l"
    "s3 = s2\<lparr>heap := heap s3, uxTopReadyPriority := max (uxTopReadyPriority s2) (uxPriority d)\<rparr>"
    using add_ready [OF s2(3), of t d] by auto
  obtain h1 h2 where "s1 = s\<lparr>heap := h1\<rparr>" "s2 = s1\<lparr>heap := h2\<rparr>"
    using s1(2) s2(2) unfolding moved_def by blast
  then have "s2 = s\<lparr>heap := h2\<rparr>" by simp
  with s3(7) have "s3 = s\<lparr>heap := heap s3, uxTopReadyPriority := max (uxTopReadyPriority s) (uxPriority d)\<rparr>"
    by simp
  moreover have "litems s3 l = remove1 (Generic t) (litems s l)" if "delayed_list l" for l
    using that s1(4) s2(4) s3(6) by (cases l) auto
  ultimately have "readied t s s3"
    using s3(3-5) d unfolding readied_def by (auto simp: fun_upd_twist)
  moreover have "insert t X - {t} = X - {t}" by auto
  ultimately show ?thesis using s1(1) s2(1) s3(1,2) by metis
qed

section \<open>The tick\<close>

text \<open>The tasks whose wake time is reached at the current tick count.\<close>

definition unblocked :: "kernel \<Rightarrow> tid \<Rightarrow> bool" where
  "unblocked s t \<longleftrightarrow> cont s (Generic t) = Some (pxDelayedTaskList s) \<and> ival s (Generic t) \<le> xTickCount s"

lemma delayed_items:
  assumes "kinv T N X s"
  shows "i \<in> set (litems s l) \<longleftrightarrow> cont s i = Some l"
    and "delayed_list l \<Longrightarrow> i \<in> set (litems s l) \<Longrightarrow> \<exists>t. i = Generic t \<and> t \<in> dom (tcbs s)"
proof -
  show iff: "i \<in> set (litems s l) \<longleftrightarrow> cont s i = Some l"
    using heap_wf_container [OF kinvD(1) [OF assms]] by simp
  assume "delayed_list l" "i \<in> set (litems s l)"
  then show "\<exists>t. i = Generic t \<and> t \<in> dom (tcbs s)"
    using iff kinvD(3,4) [OF assms, of i l] by (cases i; cases l) auto
qed

lemma unblock_loop_effect:
  assumes "kinv T N {} s" and "pxCurrentTCB s \<noteq> 0"
  shows "\<exists>s'. unblock_loop sw s = Some (sw \<or> (\<exists>t. unblocked s t \<and> prio s t \<ge> prio s (pxCurrentTCB s)), s') \<and>
    kinv T N {} s' \<and> ival s' = ival s \<and>
    (\<forall>t. cont s' (Generic t) = (if unblocked s t then Some (Ready (prio s t)) else cont s (Generic t))) \<and>
    (\<forall>t. cont s' (Event t) = (if unblocked s t then None else cont s (Event t))) \<and>
    s' = s\<lparr>heap := heap s', uxTopReadyPriority := uxTopReadyPriority s',
      xNextTaskUnblockTime := xNextTaskUnblockTime s'\<rparr> \<and>
    (\<forall>t. cont s' (Generic t) = Some (pxDelayedTaskList s) \<longrightarrow> xNextTaskUnblockTime s' \<le> ival s (Generic t))"
  using assms
proof (induction "length (litems s (pxDelayedTaskList s))" arbitrary: s sw rule: less_induct)
  case less
  let ?D = "pxDelayedTaskList s"
  note k = less.prems(1)
  note dl = kinv_delayed(1) [OF k]
  have init: "listLIST_IS_INITIALISED ?D (heap s)" by (rule kinvD(2) [OF k delayed_kernel_list(1) [OF dl]])
  note empty = is_empty_items(1) [OF kinvD(1) [OF k] init]
  show ?case
  proof (cases "litems s ?D")
    case Nil
    then have "\<not> unblocked s t" for t
      using delayed_items(1) [OF k, of "Generic t" ?D] by (auto simp: unblocked_def)
    moreover have "kinv T N {} (s\<lparr>xNextTaskUnblockTime := portMAX_DELAY\<rparr>)"
      by (rule kinv_frame [OF k]) (use k in \<open>auto simp: kinv_def top_inv_def\<close>)
    ultimately show ?thesis using Nil empty delayed_items(1) [OF k, of _ ?D]
      by (subst unblock_loop.simps) auto
  next
    case (Cons i xs)
    then obtain t where t: "i = Generic t" "t \<in> dom (tcbs s)"
      using delayed_items(2) [OF k dl, of i] by auto
    then have own: "listGET_OWNER_OF_HEAD_ENTRY ?D (heap s) = Some t"
      using head_entry(1) [OF kinvD(1) [OF k] Cons] kinvD(5) [OF k, of i] by simp
    have val: "listGET_LIST_ITEM_VALUE (Generic t) (heap s) = ival s (Generic t)"
      by (simp add: listGET_LIST_ITEM_VALUE_def item_value_def)
    have ct: "cont s (Generic t) = Some ?D" using Cons t(1) delayed_items(1) [OF k, of i ?D] by simp
    have sorted: "sorted (map (ival s) (i # xs))" using kinv_delayed(5) [OF k dl] Cons by simp
    show ?thesis
    proof (cases "xTickCount s < ival s (Generic t)")
      case True
      have later: "ival s (Generic t) \<le> ival s (Generic u)" if "cont s (Generic u) = Some ?D" for u
        using that sorted t(1) Cons delayed_items(1) [OF k, of "Generic u" ?D] by auto
      then have "\<not> unblocked s u" for u using True by (fastforce simp: unblocked_def)
      moreover have "kinv T N {} (s\<lparr>xNextTaskUnblockTime := ival s (Generic t)\<rparr>)"
        by (rule kinv_frame [OF k]) (use k in \<open>auto simp: kinv_def top_inv_def\<close>)
      ultimately show ?thesis using True Cons empty own val later
        by (subst unblock_loop.simps) auto
    next
      case False
      obtain n s1 s2 s3 where st: "k_remove (Generic t) s = Some (n, s1)" "remove_event t s1 = Some s2"
        "prvAddTaskToReadyList t s2 = Some s3" "readied t s s3" "kinv T N {} s3"
        using make_ready [OF k ct] by auto
      note rd = readiedD [OF st(4)] and fr [simp] = readied_frame [OF st(4)]
      have cur: "pxCurrentTCB s \<in> dom (tcbs s)" by (rule kinvD(10) [OF k less.prems(2)])
      have "length (litems s3 (pxDelayedTaskList s3)) < length (litems s ?D)"
        using rd(4) [OF dl] Cons t(1) by simp
      from less.hyps [OF this st(5), unfolded fr, OF less.prems(2),
          of "sw \<or> prio s t \<ge> prio s (pxCurrentTCB s)"]
      obtain s' where ih: "unblock_loop (sw \<or> prio s t \<ge> prio s (pxCurrentTCB s)) s3 =
          Some ((sw \<or> prio s t \<ge> prio s (pxCurrentTCB s)) \<or>
            (\<exists>u. unblocked s3 u \<and> prio s u \<ge> prio s (pxCurrentTCB s)), s')"
        "kinv T N {} s'" "ival s' = ival s3"
        "\<And>u. cont s' (Generic u) = (if unblocked s3 u then Some (Ready (prio s u)) else cont s3 (Generic u))"
        "\<And>u. cont s' (Event u) = (if unblocked s3 u then None else cont s3 (Event u))"
        "s' = s3\<lparr>heap := heap s', uxTopReadyPriority := uxTopReadyPriority s',
          xNextTaskUnblockTime := xNextTaskUnblockTime s'\<rparr>"
        "\<And>u. cont s' (Generic u) = Some ?D \<Longrightarrow> xNextTaskUnblockTime s' \<le> ival s3 (Generic u)"
        by blast
      have ub: "unblocked s u \<longleftrightarrow> u = t \<or> unblocked s3 u" for u
        using ct False dl rd(1,2) by (auto simp: unblocked_def)
      have "Ready p \<noteq> ?D" for p using dl by (cases ?D) auto
      then have nt: "\<not> unblocked s3 t" using rd(1) by (auto simp: unblocked_def)
      have "unblock_loop sw s = unblock_loop (sw \<or> prio s t \<ge> prio s (pxCurrentTCB s)) s3"
        using Cons empty own val False st(1-3) t(2) cur by (subst unblock_loop.simps) auto
      moreover have "(sw \<or> prio s t \<ge> prio s (pxCurrentTCB s)) \<or>
          (\<exists>u. unblocked s3 u \<and> prio s u \<ge> prio s (pxCurrentTCB s)) \<longleftrightarrow>
          sw \<or> (\<exists>u. unblocked s u \<and> prio s u \<ge> prio s (pxCurrentTCB s))"
        by (simp only: ub) blast
      ultimately have res: "unblock_loop sw s =
          Some (sw \<or> (\<exists>u. unblocked s u \<and> prio s u \<ge> prio s (pxCurrentTCB s)), s')"
        using ih(1) by (simp only:)
      obtain h3 p3 where "s3 = s\<lparr>heap := h3, uxTopReadyPriority := p3\<rparr>"
        using st(4) unfolding readied_def by blast
      then have upd: "s' = s\<lparr>heap := heap s', uxTopReadyPriority := uxTopReadyPriority s',
          xNextTaskUnblockTime := xNextTaskUnblockTime s'\<rparr>"
        using ih(6) by simp
      have cs: "cont s' (Generic u) = (if unblocked s u then Some (Ready (prio s u)) else cont s (Generic u))"
        "cont s' (Event u) = (if unblocked s u then None else cont s (Event u))" for u
        using ih(4,5) [of u] ub [of u] nt rd(1) by (auto split: if_splits)
      show ?thesis using ih(2,3,7) rd(2) res upd cs by (intro exI [of _ s'] conjI) simp_all
    qed
  qed
qed

lemma kinv_retime:
  assumes "kinv T N X s"
    and "\<And>t. cont s (Generic t) = Some (pxDelayedTaskList s) \<Longrightarrow>
      T' \<le> ival s (Generic t) \<and> N' \<le> ival s (Generic t) \<and>
      (ival s (Generic t) = T' \<longrightarrow> ival s (Generic t) \<noteq> portMAX_DELAY)"
    and "\<And>t. cont s (Generic t) = Some (pxOverflowDelayedTaskList s) \<Longrightarrow> ival s (Generic t) < T'"
  shows "kinv T' N' X s"
  using assms by (simp add: kinv_def time_inv_def wake_ok_def)

text \<open>The unblocking part of the tick, run or skipped by comparing with \<open>xNextTaskUnblockTime\<close>.\<close>

lemma unblock_step:
  assumes k: "kinv T (xNextTaskUnblockTime s) {} s" and "T \<le> xTickCount s" and cur: "pxCurrentTCB s \<noteq> 0"
  shows "\<exists>s'. (if xTickCount s \<ge> xNextTaskUnblockTime s then unblock_loop False s else Some (False, s)) =
      Some (\<exists>t. unblocked s t \<and> prio s t \<ge> prio s (pxCurrentTCB s), s') \<and>
    kinv (xTickCount s) (xNextTaskUnblockTime s') {} s' \<and> ival s' = ival s \<and>
    (\<forall>t. cont s' (Generic t) = (if unblocked s t then Some (Ready (prio s t)) else cont s (Generic t))) \<and>
    (\<forall>t. cont s' (Event t) = (if unblocked s t then None else cont s (Event t))) \<and>
    s' = s\<lparr>heap := heap s', uxTopReadyPriority := uxTopReadyPriority s',
      xNextTaskUnblockTime := xNextTaskUnblockTime s'\<rparr>"
proof -
  let ?D = "pxDelayedTaskList s" and ?O = "pxOverflowDelayedTaskList s"
  have ov: "ival s (Generic t) < xTickCount s" if "cont s (Generic t) = Some ?O" for t
    using kinv_wake [OF k that] less_le_trans [OF _ assms(2)] by (simp add: wake_ok_def)
  have rd: "Ready p \<noteq> ?D" "Ready p \<noteq> ?O" for p
    using kinv_delayed(1,2) [OF k] by (cases ?D; cases ?O; simp)+
  show ?thesis
  proof (cases "xTickCount s \<ge> xNextTaskUnblockTime s")
    case True
    obtain s' where s': "unblock_loop False s =
        Some (False \<or> (\<exists>t. unblocked s t \<and> prio s t \<ge> prio s (pxCurrentTCB s)), s')"
      "kinv T (xNextTaskUnblockTime s) {} s'" "ival s' = ival s"
      "\<And>t. cont s' (Generic t) = (if unblocked s t then Some (Ready (prio s t)) else cont s (Generic t))"
      "\<And>t. cont s' (Event t) = (if unblocked s t then None else cont s (Event t))"
      "s' = s\<lparr>heap := heap s', uxTopReadyPriority := uxTopReadyPriority s',
        xNextTaskUnblockTime := xNextTaskUnblockTime s'\<rparr>"
      "\<And>t. cont s' (Generic t) = Some ?D \<Longrightarrow> xNextTaskUnblockTime s' \<le> ival s (Generic t)"
      using unblock_loop_effect [OF k cur, of False] by blast
    obtain h p n where "s' = s\<lparr>heap := h, uxTopReadyPriority := p, xNextTaskUnblockTime := n\<rparr>"
      using s'(6) by blast
    then have dl: "pxDelayedTaskList s' = ?D" "pxOverflowDelayedTaskList s' = ?O" by simp_all
    have "kinv (xTickCount s) (xNextTaskUnblockTime s') {} s'"
    proof (rule kinv_retime [OF s'(2)])
      fix t
      assume c: "cont s' (Generic t) = Some (pxDelayedTaskList s')"
      then have "cont s (Generic t) = Some ?D" "\<not> unblocked s t"
        using s'(4) [of t] rd(1) dl by (auto split: if_splits)
      then have "xTickCount s < ival s (Generic t)" by (simp add: unblocked_def)
      then show "xTickCount s \<le> ival s' (Generic t) \<and> xNextTaskUnblockTime s' \<le> ival s' (Generic t) \<and>
          (ival s' (Generic t) = xTickCount s \<longrightarrow> ival s' (Generic t) \<noteq> portMAX_DELAY)"
        using s'(3,7) c dl by auto
    next
      fix t
      assume "cont s' (Generic t) = Some (pxOverflowDelayedTaskList s')"
      then have "cont s (Generic t) = Some ?O" using s'(4) [of t] rd(2) dl by (auto split: if_splits)
      then show "ival s' (Generic t) < xTickCount s" using ov s'(3) by simp
    qed
    with s'(1,3-6) True show ?thesis by auto
  next
    case False
    have later: "xTickCount s < ival s (Generic t)" if "cont s (Generic t) = Some ?D" for t
      using kinv_wake [OF k that] False by (auto simp: wake_ok_def)
    then have "\<not> unblocked s t" for t by (fastforce simp: unblocked_def)
    moreover have "kinv (xTickCount s) (xNextTaskUnblockTime s) {} s"
    proof (rule kinv_retime [OF k])
      show "xTickCount s \<le> ival s (Generic t) \<and> xNextTaskUnblockTime s \<le> ival s (Generic t) \<and>
          (ival s (Generic t) = xTickCount s \<longrightarrow> ival s (Generic t) \<noteq> portMAX_DELAY)"
        if "cont s (Generic t) = Some ?D" for t
        using later [OF that] kinv_wake [OF k that] by (auto simp: wake_ok_def)
    qed (rule ov)
    ultimately show ?thesis using False by auto
  qed
qed

text \<open>At the wrap of the tick counter the current delayed list is empty, as the code asserts.\<close>

lemma delayed_empty_at_wrap:
  assumes k: "kinv portMAX_DELAY N X s"
  shows "cont s i \<noteq> Some (pxDelayedTaskList s)"
proof
  assume c: "cont s i = Some (pxDelayedTaskList s)"
  then obtain t where "i = Generic t"
    using kinvD(3) [OF k c] kinv_delayed(1) [OF k] by (cases i; cases "pxDelayedTaskList s") auto
  with kinv_wake [OF k] c have "wake_ok portMAX_DELAY N s (pxDelayedTaskList s) (ival s i)" by simp
  then show False using max_delay_top [of "ival s i"] by (auto simp: wake_ok_def)
qed

lemma switch_delayed_lists:
  assumes k: "kinv portMAX_DELAY N X s"
  shows "\<exists>s'. taskSWITCH_DELAYED_LISTS s = Some s' \<and> kinv 0 (xNextTaskUnblockTime s') X s' \<and>
    s' = s\<lparr>pxDelayedTaskList := pxOverflowDelayedTaskList s, pxOverflowDelayedTaskList := pxDelayedTaskList s,
      xNumOfOverflows := xNumOfOverflows s + 1, xNextTaskUnblockTime := xNextTaskUnblockTime s'\<rparr>"
proof -
  let ?O = "pxOverflowDelayedTaskList s"
  let ?s = "\<lambda>n. s\<lparr>pxDelayedTaskList := ?O, pxOverflowDelayedTaskList := pxDelayedTaskList s,
      xNumOfOverflows := xNumOfOverflows s + 1, xNextTaskUnblockTime := n\<rparr>"
  note ol = kinv_delayed(2) [OF k]
  have init: "listLIST_IS_INITIALISED ?O (heap s)" by (rule kinvD(2) [OF k delayed_kernel_list(1) [OF ol]])
  have kn: "kinv 0 n X (?s n)" if n: "\<And>t. cont s (Generic t) = Some ?O \<Longrightarrow> n \<le> ival s (Generic t)" for n
    using k n delayed_empty_at_wrap [OF k]
    by (auto simp: kinv_def lists_inv_def tcbs_inv_def top_inv_def time_inv_def wake_ok_def settled_def
        portMAX_DELAY_def)
  have "\<exists>n. taskSWITCH_DELAYED_LISTS s = Some (?s n) \<and> kinv 0 n X (?s n)"
  proof (cases "litems s ?O")
    case Nil
    then have "taskSWITCH_DELAYED_LISTS s = Some (?s portMAX_DELAY)"
      using is_empty_items(1) [OF kinvD(1) [OF k] init] by (simp add: taskSWITCH_DELAYED_LISTS_def)
    moreover have "cont s i \<noteq> Some ?O" for i using Nil delayed_items(1) [OF k, of i ?O] by simp
    ultimately show ?thesis using kn [of portMAX_DELAY] by auto
  next
    case (Cons i xs)
    then obtain t where t: "i = Generic t" "t \<in> dom (tcbs s)"
      using delayed_items(2) [OF k ol, of i] by auto
    then have "taskSWITCH_DELAYED_LISTS s = Some (?s (ival s (Generic t)))"
      using is_empty_items(1) [OF kinvD(1) [OF k] init] Cons head_entry(1) [OF kinvD(1) [OF k] Cons]
        kinvD(5) [OF k, of i]
      by (simp add: taskSWITCH_DELAYED_LISTS_def listGET_LIST_ITEM_VALUE_def item_value_def)
    moreover have "ival s (Generic t) \<le> ival s (Generic u)" if "cont s (Generic u) = Some ?O" for u
      using that kinv_delayed(5) [OF k ol] t(1) Cons delayed_items(1) [OF k, of "Generic u" ?O] by auto
    ultimately show ?thesis using kn [of "ival s (Generic t)"] by auto
  qed
  then show ?thesis by auto
qed

text \<open>The tasks a tick makes ready: those in a delayed list whose wake time is the new tick count
  (or the current one, after a wait of zero ticks).\<close>

definition wakes :: "kernel \<Rightarrow> tid \<Rightarrow> bool" where
  "wakes s t \<longleftrightarrow> (\<exists>l. cont s (Generic t) = Some l \<and> delayed_list l) \<and> ival s (Generic t) - xTickCount s \<le> 1"

lemma wakes_unblocked:
  assumes k: "kinv (xTickCount s) N X s"
  shows "xTickCount s + 1 \<noteq> 0 \<Longrightarrow> unblocked (s\<lparr>xTickCount := xTickCount s + 1\<rparr>) t \<longleftrightarrow> wakes s t"
    and "xTickCount s + 1 = 0 \<Longrightarrow>
      wakes s t \<longleftrightarrow> cont s (Generic t) = Some (pxOverflowDelayedTaskList s) \<and> ival s (Generic t) = 0"
proof -
  note dl = kinv_delayed(3,4) [OF k]
  have w: "cont s (Generic t) = Some l \<Longrightarrow> wake_ok (xTickCount s) N s l (ival s (Generic t))" for l
    by (rule kinv_wake [OF k])
  show "unblocked (s\<lparr>xTickCount := xTickCount s + 1\<rparr>) t \<longleftrightarrow> wakes s t" if "xTickCount s + 1 \<noteq> 0"
    using w dl that u32_one_ahead(1,2) [of "xTickCount s" "ival s (Generic t)"]
      u32_one_ahead(2) [of "ival s (Generic t)" "xTickCount s"]
    by (auto simp: unblocked_def wakes_def wake_ok_def)
  show "wakes s t \<longleftrightarrow> cont s (Generic t) = Some (pxOverflowDelayedTaskList s) \<and> ival s (Generic t) = 0"
    if wr: "xTickCount s + 1 = 0"
  proof -
    have "xTickCount s = portMAX_DELAY" using wr u32_suc_le(2) by blast
    then have "cont s (Generic t) \<noteq> Some (pxDelayedTaskList s)"
      using delayed_empty_at_wrap [of N X s] k by simp
    then show ?thesis using w dl u32_one_ahead(3) [OF wr, of "ival s (Generic t)"]
      by (auto simp: wakes_def wake_ok_def)
  qed
qed

text \<open>The effect of a tick on the lists and the counters.\<close>

definition ticked :: "kernel \<Rightarrow> kernel \<Rightarrow> bool" where
  "ticked s s' \<longleftrightarrow> ival s' = ival s \<and>
     (\<forall>t. cont s' (Generic t) = (if wakes s t then Some (Ready (prio s t)) else cont s (Generic t))) \<and>
     (\<forall>t. cont s' (Event t) = (if wakes s t then None else cont s (Event t))) \<and>
     s' = s\<lparr>heap := heap s', uxTopReadyPriority := uxTopReadyPriority s',
       xNextTaskUnblockTime := xNextTaskUnblockTime s', xTickCount := xTickCount s + 1,
       pxDelayedTaskList := (if xTickCount s + 1 = 0 then pxOverflowDelayedTaskList s else pxDelayedTaskList s),
       pxOverflowDelayedTaskList := (if xTickCount s + 1 = 0 then pxDelayedTaskList s else pxOverflowDelayedTaskList s),
       xNumOfOverflows := (if xTickCount s + 1 = 0 then xNumOfOverflows s + 1 else xNumOfOverflows s)\<rparr>"

lemma ticked_frame:
  assumes "ticked s s'"
  shows "tcbs s' = tcbs s" "pxCurrentTCB s' = pxCurrentTCB s"
    "uxTasksDeleted s' = uxTasksDeleted s" "uxCurrentNumberOfTasks s' = uxCurrentNumberOfTasks s"
    "xSchedulerRunning s' = xSchedulerRunning s"
    "uxSchedulerSuspended s' = uxSchedulerSuspended s" "uxPendedTicks s' = uxPendedTicks s"
    "xYieldPending s' = xYieldPending s" "uxTaskNumber s' = uxTaskNumber s"
    "pending_soft_sv s' = pending_soft_sv s" "xTickCount s' = xTickCount s + 1"
    "xNumOfOverflows s' = (if xTickCount s + 1 = 0 then xNumOfOverflows s + 1 else xNumOfOverflows s)"
    "pxDelayedTaskList s' = (if xTickCount s + 1 = 0 then pxOverflowDelayedTaskList s else pxDelayedTaskList s)"
proof -
  obtain h p n where "s' = s\<lparr>heap := h, uxTopReadyPriority := p,
       xNextTaskUnblockTime := n, xTickCount := xTickCount s + 1,
       pxDelayedTaskList := (if xTickCount s + 1 = 0 then pxOverflowDelayedTaskList s else pxDelayedTaskList s),
       pxOverflowDelayedTaskList := (if xTickCount s + 1 = 0 then pxDelayedTaskList s else pxOverflowDelayedTaskList s),
       xNumOfOverflows := (if xTickCount s + 1 = 0 then xNumOfOverflows s + 1 else xNumOfOverflows s)\<rparr>"
    using assms unfolding ticked_def by blast
  then show "tcbs s' = tcbs s" "pxCurrentTCB s' = pxCurrentTCB s"
    "uxTasksDeleted s' = uxTasksDeleted s" "uxCurrentNumberOfTasks s' = uxCurrentNumberOfTasks s"
    "xSchedulerRunning s' = xSchedulerRunning s"
    "uxSchedulerSuspended s' = uxSchedulerSuspended s" "uxPendedTicks s' = uxPendedTicks s"
    "xYieldPending s' = xYieldPending s" "uxTaskNumber s' = uxTaskNumber s"
    "pending_soft_sv s' = pending_soft_sv s" "xTickCount s' = xTickCount s + 1"
    "xNumOfOverflows s' = (if xTickCount s + 1 = 0 then xNumOfOverflows s + 1 else xNumOfOverflows s)"
    "pxDelayedTaskList s' = (if xTickCount s + 1 = 0 then pxOverflowDelayedTaskList s else pxDelayedTaskList s)"
    by simp_all
qed

lemma tickedD:
  assumes "ticked s s'"
  shows "ival s' = ival s"
    "cont s' (Generic t) = (if wakes s t then Some (Ready (prio s t)) else cont s (Generic t))"
    "cont s' (Event t) = (if wakes s t then None else cont s (Event t))"
  using assms unfolding ticked_def by blast+

text \<open>The first half of the tick: count, and swap the delayed lists at the wrap.\<close>

lemma tick_count_step:
  assumes k: "kinv (xTickCount s) (xNextTaskUnblockTime s) {} s"
  shows "\<exists>T s1. (if xTickCount s + 1 = 0 then taskSWITCH_DELAYED_LISTS (s\<lparr>xTickCount := xTickCount s + 1\<rparr>)
      else Some (s\<lparr>xTickCount := xTickCount s + 1\<rparr>)) = Some s1 \<and>
    kinv T (xNextTaskUnblockTime s1) {} s1 \<and> T \<le> xTickCount s1 \<and> (\<forall>t. unblocked s1 t \<longleftrightarrow> wakes s t) \<and>
    s1 = s\<lparr>xTickCount := xTickCount s + 1, xNextTaskUnblockTime := xNextTaskUnblockTime s1,
       pxDelayedTaskList := (if xTickCount s + 1 = 0 then pxOverflowDelayedTaskList s else pxDelayedTaskList s),
       pxOverflowDelayedTaskList := (if xTickCount s + 1 = 0 then pxDelayedTaskList s else pxOverflowDelayedTaskList s),
       xNumOfOverflows := (if xTickCount s + 1 = 0 then xNumOfOverflows s + 1 else xNumOfOverflows s)\<rparr>"
proof (cases "xTickCount s + 1 = 0")
  case False
  define s0 where "s0 = s\<lparr>xTickCount := xTickCount s + 1\<rparr>"
  have "kinv (xTickCount s) (xNextTaskUnblockTime s) {} s0"
    unfolding s0_def by (rule kinv_frame [OF k]) (use k in \<open>auto simp: kinv_def top_inv_def\<close>)
  with False show ?thesis using wakes_unblocked(1) [OF k False] u32_suc_le(1) [OF False]
    by (intro exI [of _ "xTickCount s"] exI [of _ s0]) (simp add: s0_def)
next
  case True
  define s0 where "s0 = s\<lparr>xTickCount := xTickCount s + 1\<rparr>"
  have max: "xTickCount s = portMAX_DELAY" using True u32_suc_le(2) by blast
  have "kinv portMAX_DELAY (xNextTaskUnblockTime s) {} s0"
    unfolding s0_def max [symmetric] by (rule kinv_frame [OF k]) (use k in \<open>auto simp: kinv_def top_inv_def\<close>)
  from switch_delayed_lists [OF this]
  obtain s1 where s1: "taskSWITCH_DELAYED_LISTS s0 = Some s1" "kinv 0 (xNextTaskUnblockTime s1) {} s1"
    "s1 = s0\<lparr>pxDelayedTaskList := pxOverflowDelayedTaskList s0, pxOverflowDelayedTaskList := pxDelayedTaskList s0,
      xNumOfOverflows := xNumOfOverflows s0 + 1, xNextTaskUnblockTime := xNextTaskUnblockTime s1\<rparr>"
    by blast
  then obtain n where s1n: "s1 = s0\<lparr>pxDelayedTaskList := pxOverflowDelayedTaskList s0,
      pxOverflowDelayedTaskList := pxDelayedTaskList s0,
      xNumOfOverflows := xNumOfOverflows s0 + 1, xNextTaskUnblockTime := n\<rparr>" by blast
  then have "unblocked s1 t \<longleftrightarrow> wakes s t" for t
    using wakes_unblocked(2) [OF k True, of t] True by (simp add: unblocked_def s0_def word_le_0_iff)
  with s1 s1n True show ?thesis
    by (intro exI [of _ 0] exI [of _ s1]) (simp add: s0_def)
qed

lemma tick_effect:
  assumes k: "kinv (xTickCount s) (xNextTaskUnblockTime s) {} s"
    and "uxSchedulerSuspended s = 0" and cur: "pxCurrentTCB s \<noteq> 0"
  shows "\<exists>sw s'. xTaskIncrementTick s = Some (sw, s') \<and>
    kinv (xTickCount s') (xNextTaskUnblockTime s') {} s' \<and> ticked s s' \<and>
    (sw \<longleftrightarrow> (\<exists>t. wakes s t \<and> prio s t \<ge> prio s (pxCurrentTCB s)) \<or>
      1 < length (litems s' (Ready (prio s (pxCurrentTCB s)))))"
proof -
  obtain T s1 where s1: "(if xTickCount s + 1 = 0 then taskSWITCH_DELAYED_LISTS (s\<lparr>xTickCount := xTickCount s + 1\<rparr>)
      else Some (s\<lparr>xTickCount := xTickCount s + 1\<rparr>)) = Some s1"
    "kinv T (xNextTaskUnblockTime s1) {} s1" "T \<le> xTickCount s1" "\<And>t. unblocked s1 t \<longleftrightarrow> wakes s t"
    "s1 = s\<lparr>xTickCount := xTickCount s + 1, xNextTaskUnblockTime := xNextTaskUnblockTime s1,
       pxDelayedTaskList := (if xTickCount s + 1 = 0 then pxOverflowDelayedTaskList s else pxDelayedTaskList s),
       pxOverflowDelayedTaskList := (if xTickCount s + 1 = 0 then pxDelayedTaskList s else pxOverflowDelayedTaskList s),
       xNumOfOverflows := (if xTickCount s + 1 = 0 then xNumOfOverflows s + 1 else xNumOfOverflows s)\<rparr>"
    using tick_count_step [OF k] by blast
  obtain n D Ov ov where s1e: "s1 = s\<lparr>xTickCount := xTickCount s + 1, xNextTaskUnblockTime := n,
       pxDelayedTaskList := D, pxOverflowDelayedTaskList := Ov, xNumOfOverflows := ov\<rparr>"
    using s1(5) by blast
  then have same: "tcbs s1 = tcbs s" "pxCurrentTCB s1 = pxCurrentTCB s" "heap s1 = heap s" by simp_all
  obtain s' where s': "(if xTickCount s1 \<ge> xNextTaskUnblockTime s1 then unblock_loop False s1 else Some (False, s1)) =
      Some (\<exists>t. wakes s t \<and> prio s t \<ge> prio s (pxCurrentTCB s), s')"
    "kinv (xTickCount s1) (xNextTaskUnblockTime s') {} s'" "ival s' = ival s"
    "\<And>t. cont s' (Generic t) = (if wakes s t then Some (Ready (prio s t)) else cont s (Generic t))"
    "\<And>t. cont s' (Event t) = (if wakes s t then None else cont s (Event t))"
    "s' = s1\<lparr>heap := heap s', uxTopReadyPriority := uxTopReadyPriority s',
      xNextTaskUnblockTime := xNextTaskUnblockTime s'\<rparr>"
    using unblock_step [OF s1(2,3)] cur unfolding same s1(4) by blast
  obtain h p n' where se: "s' = s1\<lparr>heap := h, uxTopReadyPriority := p, xNextTaskUnblockTime := n'\<rparr>"
    using s'(6) by blast
  then have same': "tcbs s' = tcbs s" "pxCurrentTCB s' = pxCurrentTCB s" "xTickCount s' = xTickCount s1"
    using same by simp_all
  have "ticked s s'" unfolding ticked_def
    using s'(3-5) s1(5) s1e se by (intro conjI allI) simp_all
  moreover obtain c where c: "tcbs s (pxCurrentTCB s) = Some c" using kinvD(10) [OF k cur] by blast
  have "uxPriority c < configMAX_PRIORITIES" by (rule kinvD(6) [OF k c])
  moreover have "listCURRENT_LIST_LENGTH (Ready (uxPriority c)) (heap s') > 1 \<longleftrightarrow>
      1 < length (litems s' (Ready (uxPriority c)))"
    using is_empty_items(2) [OF kinvD(1) [OF s'(2)] kinvD(2) [OF s'(2)], of "Ready (uxPriority c)"] calculation
    by (simp add: word_less_nat_alt)
  ultimately show ?thesis using s1(1) s'(1,2) c same' assms(2)
    by (auto simp: xTaskIncrementTick_def pxReadyTasksLists_def Let_def)
qed

section \<open>Resuming the scheduler\<close>

definition pending :: "kernel \<Rightarrow> tid \<Rightarrow> bool" where
  "pending s t \<longleftrightarrow> cont s (Event t) = Some PendingReadyList"

lemma make_ready_pending:
  assumes k: "kinv T N {} s" and p: "cont s (Event t) = Some l"
  shows "\<exists>n s1 m s2 s3. k_remove (Event t) s = Some (n, s1) \<and> k_remove (Generic t) s1 = Some (m, s2) \<and>
    prvAddTaskToReadyList t s2 = Some s3 \<and> readied t s s3 \<and> kinv T N {} s3"
proof -
  have td: "t \<in> dom (tcbs s)" using kinvD(4) [OF k p] by simp
  then obtain g where g: "cont s (Generic t) = Some g" using kinvD(9) [OF k td] by (auto simp: settled_def)
  obtain s1 n where s1: "k_remove (Event t) s = Some (n, s1)" "moved (Event t) None s s1"
    "kinv T N (insert t {}) s1" "litems s1 = (litems s)(l := remove1 (Event t) (litems s l))"
    using k_remove_moved [OF k p] kinv_moved [OF k] by fastforce
  have g1: "cont s1 (Generic t) = Some g" using g movedD(5) [OF s1(2)] by simp
  obtain s2 m where s2: "k_remove (Generic t) s1 = Some (m, s2)" "moved (Generic t) None s1 s2"
    "kinv T N (insert t {t}) s2" "\<And>m. litems s2 m = remove1 (Generic t) (litems s1 m)"
    using remove_generic_litems [OF s1(3) g1] by metis
  note mv [simp] = moved_simps [OF s1(2)] moved_simps [OF s2(2)]
  obtain d where d: "tcbs s2 t = Some d" using td by auto
  then obtain s3 where s3: "prvAddTaskToReadyList t s2 = Some s3" "kinv T N (insert t {t} - {t}) s3"
    "cont s3 = (cont s2)(Generic t := Some (Ready (uxPriority d)))" "ival s3 = ival s2"
    "pvOwner (heap s3) = pvOwner (heap s2)"
    "\<forall>l. l \<noteq> Ready (uxPriority d) \<longrightarrow> litems s3 l = litems s2 l"
    "s3 = s2\<lparr>heap := heap s3, uxTopReadyPriority := max (uxTopReadyPriority s2) (uxPriority d)\<rparr>"
    using add_ready [OF s2(3), of t d] by auto
  obtain h1 h2 where "s1 = s\<lparr>heap := h1\<rparr>" "s2 = s1\<lparr>heap := h2\<rparr>"
    using s1(2) s2(2) unfolding moved_def by blast
  then have "s2 = s\<lparr>heap := h2\<rparr>" by simp
  with s3(7) have "s3 = s\<lparr>heap := heap s3, uxTopReadyPriority := max (uxTopReadyPriority s) (uxPriority d)\<rparr>"
    by simp
  moreover have "litems s3 l' = remove1 (Generic t) (litems s l')" if "delayed_list l'" for l'
    using that s1(4) s2(4) s3(6) kinvD(3) [OF k p] by (cases l'; cases l) auto
  ultimately have "readied t s s3"
    using s3(3-5) d unfolding readied_def by (auto simp: fun_upd_twist)
  then show ?thesis using s1(1) s2(1) s3(1,2) by auto
qed

lemma drain_pending_effect:
  assumes "kinv T N {} s" and "pxCurrentTCB s \<noteq> 0"
  shows "\<exists>s'. drain_pending yr s = Some (yr \<or> (\<exists>t. pending s t \<and> prio s t \<ge> prio s (pxCurrentTCB s)), s') \<and>
    kinv T N {} s' \<and> ival s' = ival s \<and>
    (\<forall>t. cont s' (Generic t) = (if pending s t then Some (Ready (prio s t)) else cont s (Generic t))) \<and>
    (\<forall>t. cont s' (Event t) = (if pending s t then None else cont s (Event t))) \<and>
    s' = s\<lparr>heap := heap s', uxTopReadyPriority := uxTopReadyPriority s'\<rparr>"
  using assms
proof (induction "card {t. pending s t}" arbitrary: s yr rule: less_induct)
  case less
  note k = less.prems(1)
  have init: "listLIST_IS_INITIALISED PendingReadyList (heap s)" by (rule kinvD(2) [OF k]) simp
  note empty = is_empty_items(1) [OF kinvD(1) [OF k] init]
  show ?case
  proof (cases "litems s PendingReadyList")
    case Nil
    then have "\<not> pending s t" for t
      using delayed_items(1) [OF k, of "Event t" PendingReadyList] by (simp add: pending_def)
    with Nil empty k show ?thesis by (subst drain_pending.simps) simp
  next
    case (Cons i xs)
    then have ci: "cont s i = Some PendingReadyList"
      using delayed_items(1) [OF k, of i PendingReadyList] by simp
    then obtain t where i: "i = Event t" using kinvD(3) [OF k ci] by (cases i) auto
    have ct: "cont s (Event t) = Some PendingReadyList" using ci i by simp
    have td: "t \<in> dom (tcbs s)" using kinvD(4) [OF k ct] by simp
    have own: "listGET_OWNER_OF_HEAD_ENTRY PendingReadyList (heap s) = Some t"
      using head_entry(1) [OF kinvD(1) [OF k] Cons] kinvD(5) [OF k, of i] i td by simp
    obtain n s1 m s2 s3 where st: "k_remove (Event t) s = Some (n, s1)" "k_remove (Generic t) s1 = Some (m, s2)"
      "prvAddTaskToReadyList t s2 = Some s3" "readied t s s3" "kinv T N {} s3"
      using make_ready_pending [OF k ct] by blast
    note rd = readiedD [OF st(4)] and fr = readied_frame [OF st(4)]
    have cur: "pxCurrentTCB s \<in> dom (tcbs s)" by (rule kinvD(10) [OF k less.prems(2)])
    have pend: "pending s u \<longleftrightarrow> u = t \<or> pending s3 u" and np: "\<not> pending s3 t" for u
      using ct rd(1) by (auto simp: pending_def)
    have "{u. pending s3 u} \<subset> {u. pending s u}" using pend np by blast
    then have "card {u. pending s3 u} < card {u. pending s u}" by (intro psubset_card_mono) auto
    from less.hyps [OF this st(5), unfolded fr, OF less.prems(2),
        of "yr \<or> prio s t \<ge> prio s (pxCurrentTCB s)"]
    obtain s' where ih: "drain_pending (yr \<or> prio s t \<ge> prio s (pxCurrentTCB s)) s3 =
        Some ((yr \<or> prio s t \<ge> prio s (pxCurrentTCB s)) \<or>
          (\<exists>u. pending s3 u \<and> prio s u \<ge> prio s (pxCurrentTCB s)), s')"
      "kinv T N {} s'" "ival s' = ival s3"
      "\<And>u. cont s' (Generic u) = (if pending s3 u then Some (Ready (prio s u)) else cont s3 (Generic u))"
      "\<And>u. cont s' (Event u) = (if pending s3 u then None else cont s3 (Event u))"
      "s' = s3\<lparr>heap := heap s', uxTopReadyPriority := uxTopReadyPriority s'\<rparr>"
      by blast
    have "drain_pending yr s = drain_pending (yr \<or> prio s t \<ge> prio s (pxCurrentTCB s)) s3"
      using Cons empty own st(1-3) td cur by (subst drain_pending.simps) (auto simp: fr)
    moreover have "(yr \<or> prio s t \<ge> prio s (pxCurrentTCB s)) \<or>
        (\<exists>u. pending s3 u \<and> prio s u \<ge> prio s (pxCurrentTCB s)) \<longleftrightarrow>
        yr \<or> (\<exists>u. pending s u \<and> prio s u \<ge> prio s (pxCurrentTCB s))"
      by (simp only: pend) blast
    ultimately have res: "drain_pending yr s =
        Some (yr \<or> (\<exists>u. pending s u \<and> prio s u \<ge> prio s (pxCurrentTCB s)), s')"
      using ih(1) by (simp only:)
    obtain h3 p3 where "s3 = s\<lparr>heap := h3, uxTopReadyPriority := p3\<rparr>"
      using st(4) unfolding readied_def by blast
    then have upd: "s' = s\<lparr>heap := heap s', uxTopReadyPriority := uxTopReadyPriority s'\<rparr>"
      using ih(6) by simp
    have cs: "cont s' (Generic u) = (if pending s u then Some (Ready (prio s u)) else cont s (Generic u))"
      "cont s' (Event u) = (if pending s u then None else cont s (Event u))" for u
      using ih(4,5) [of u] pend [of u] np rd(1) by (auto split: if_splits)
    show ?thesis using ih(2,3) rd(2) res upd cs by (intro exI [of _ s'] conjI) simp_all
  qed
qed

text \<open>What the scheduler's list work leaves alone.\<close>

definition same_env :: "kernel \<Rightarrow> kernel \<Rightarrow> bool" where
  "same_env s s' \<longleftrightarrow> tcbs s' = tcbs s \<and> pxCurrentTCB s' = pxCurrentTCB s \<and>
     uxCurrentNumberOfTasks s' = uxCurrentNumberOfTasks s \<and> xSchedulerRunning s' = xSchedulerRunning s \<and>
     uxTasksDeleted s' = uxTasksDeleted s \<and> uxTaskNumber s' = uxTaskNumber s \<and>
     uxSchedulerSuspended s' = uxSchedulerSuspended s"

text \<open>The tasks that \<open>n\<close> ticks make ready.\<close>

definition due :: "kernel \<Rightarrow> portTickType \<Rightarrow> tid \<Rightarrow> bool" where
  "due s n t \<longleftrightarrow> (\<exists>l. cont s (Generic t) = Some l \<and> delayed_list l) \<and> 0 < n \<and>
     ival s (Generic t) - xTickCount s \<le> n"

lemma due_one: "due s 1 t \<longleftrightarrow> wakes s t"
  by (simp add: due_def wakes_def)

lemma u32_sub_one_le:
  fixes w n :: u32
  shows "\<not> w \<le> 1 \<Longrightarrow> 0 < n \<Longrightarrow> w \<le> n \<longleftrightarrow> 0 < n - 1 \<and> w - 1 \<le> n - 1"
  using uint_u32 [of w] uint_u32 [of n]
  by (auto simp: word_le_def word_less_def u32_unfold word_uint_eq_iff split: if_splits)

definition tick_lists :: "kernel \<Rightarrow> kernel \<Rightarrow> bool" where
  "tick_lists s s' \<longleftrightarrow> ival s' = ival s \<and> xTickCount s' = xTickCount s + 1 \<and>
     (\<forall>t. cont s' (Generic t) = (if wakes s t then Some (Ready (prio s t)) else cont s (Generic t))) \<and>
     (\<forall>t. cont s' (Event t) = (if wakes s t then None else cont s (Event t)))"

lemma ticked_lists: "ticked s s' \<Longrightarrow> tick_lists s s'"
  using tickedD [of s s'] ticked_frame(11) [of s s'] by (simp add: tick_lists_def)

lemma due_step:
  assumes "tick_lists s s'" and "0 < n"
  shows "due s n t \<longleftrightarrow> wakes s t \<or> due s' (n - 1) t"
proof -
  have n1: "1 \<le> n" using assms(2) by (simp add: word_le_def word_less_def)
  show ?thesis
  proof (cases "wakes s t")
    case True
    then show ?thesis using assms(2) n1 by (auto simp: due_def wakes_def intro: order_trans)
  next
    case False
    then show ?thesis
      using assms(2) u32_sub_one_le [of "ival s (Generic t) - xTickCount s" n, unfolded diff_diff_eq]
        assms(1)
      by (auto simp: due_def wakes_def tick_lists_def)
  qed
qed

lemma process_pended_ticks_effect:
  assumes "kinv (xTickCount s) (xNextTaskUnblockTime s) {} s"
    and "uxSchedulerSuspended s = 0" and "pxCurrentTCB s \<noteq> 0"
  shows "\<exists>yr' s'. process_pended_ticks yr s = Some (yr', s') \<and>
    kinv (xTickCount s') (xNextTaskUnblockTime s') {} s' \<and> same_env s s' \<and> ival s' = ival s \<and>
    uxPendedTicks s' = 0 \<and> xTickCount s' = xTickCount s + uxPendedTicks s \<and>
    xYieldPending s' = xYieldPending s \<and> pending_soft_sv s' = pending_soft_sv s \<and>
    (\<forall>t. cont s' (Generic t) = (if due s (uxPendedTicks s) t then Some (Ready (prio s t)) else cont s (Generic t))) \<and>
    (\<forall>t. cont s' (Event t) = (if due s (uxPendedTicks s) t then None else cont s (Event t))) \<and>
    (uxPendedTicks s = 0 \<longrightarrow> yr' = yr \<and> s' = s)"
  using assms
proof (induction "unat (uxPendedTicks s)" arbitrary: s yr)
  case 0
  then have "uxPendedTicks s = 0" by (simp add: unat_eq_0)
  with 0 show ?case by (subst process_pended_ticks.simps) (simp add: due_def same_env_def)
next
  case (Suc n)
  then have pos: "0 < uxPendedTicks s" by (metis Suc_neq_Zero unat_eq_zero word_gt_0)
  obtain sw s1 where s1: "xTaskIncrementTick s = Some (sw, s1)"
    "kinv (xTickCount s1) (xNextTaskUnblockTime s1) {} s1" "ticked s s1"
    using tick_effect [OF Suc.prems] by blast
  note fr = ticked_frame [OF s1(3)] and tk = tickedD [OF s1(3)]
  define s2 where "s2 = s1\<lparr>uxPendedTicks := uxPendedTicks s1 - 1\<rparr>"
  have "kinv (xTickCount s1) (xNextTaskUnblockTime s1) {} s2"
    unfolding s2_def by (rule kinv_frame [OF s1(2)]) (use s1(2) in \<open>auto simp: kinv_def top_inv_def\<close>)
  then have k2: "kinv (xTickCount s2) (xNextTaskUnblockTime s2) {} s2" by (simp add: s2_def)
  have p2: "uxPendedTicks s2 = uxPendedTicks s - 1" by (simp add: s2_def fr)
  have "n = unat (uxPendedTicks s2)" using Suc.hyps(2) unat_pred_word [of "uxPendedTicks s" n] p2 by simp
  from Suc.hyps(1) [OF this k2, of "yr \<or> sw"] Suc.prems(2,3)
  obtain yr' s' where ih: "process_pended_ticks (yr \<or> sw) s2 = Some (yr', s')"
    "kinv (xTickCount s') (xNextTaskUnblockTime s') {} s'" "same_env s2 s'" "ival s' = ival s2"
    "uxPendedTicks s' = 0" "xTickCount s' = xTickCount s2 + uxPendedTicks s2"
    "xYieldPending s' = xYieldPending s2" "pending_soft_sv s' = pending_soft_sv s2"
    "\<And>t. cont s' (Generic t) = (if due s2 (uxPendedTicks s2) t then Some (Ready (prio s2 t)) else cont s2 (Generic t))"
    "\<And>t. cont s' (Event t) = (if due s2 (uxPendedTicks s2) t then None else cont s2 (Event t))"
    by (auto simp: s2_def fr)
  have due2: "due s2 m t = due s1 m t" for m t by (simp add: due_def s2_def)
  note ds = due_step [OF ticked_lists [OF s1(3)] pos]
  have "process_pended_ticks yr s = Some (yr', s')"
    using pos s1(1) ih(1) by (subst process_pended_ticks.simps) (simp add: s2_def)
  moreover have "cont s' (Generic t) = (if due s (uxPendedTicks s) t then Some (Ready (prio s t)) else cont s (Generic t))" for t
    using ih(9) [of t] tk(2) [of t] ds [of t] due2 p2 by (auto simp: s2_def fr)
  moreover have "cont s' (Event t) = (if due s (uxPendedTicks s) t then None else cont s (Event t))" for t
    using ih(10) [of t] tk(3) [of t] ds [of t] due2 p2 by (auto simp: s2_def)
  moreover have "uxPendedTicks s \<noteq> 0" using pos by auto
  ultimately show ?case using ih(2-8) tk(1)
    by (intro exI [of _ yr'] exI [of _ s'] conjI) (simp_all add: s2_def fr same_env_def)
qed

text \<open>
  The invariant between kernel calls: with the scheduler running freely no task is pending and no
  tick is held back.
\<close>

definition kernel_ok :: "kernel \<Rightarrow> bool" where
  "kernel_ok s \<longleftrightarrow> kinv (xTickCount s) (xNextTaskUnblockTime s) {} s \<and>
     (uxSchedulerSuspended s = 0 \<longrightarrow> (\<forall>t. \<not> pending s t) \<and> uxPendedTicks s = 0)"

abbreviation kinv_now :: "tid set \<Rightarrow> kernel \<Rightarrow> bool" where
  "kinv_now X s \<equiv> kinv (xTickCount s) (xNextTaskUnblockTime s) X s"

lemma number_of_tasks_pos:
  assumes "kinv T N X s" and "pxCurrentTCB s \<noteq> 0"
  shows "0 < uxCurrentNumberOfTasks s"
proof -
  have "dom (tcbs s) \<subseteq> UNIV - {0}" using kinvD(8) [OF assms(1)] by auto
  then have "card (dom (tcbs s)) \<le> card (UNIV - {0 :: u32})" by (intro card_mono) auto
  then have "card (dom (tcbs s)) < 2 ^ 32" by (simp add: card_word)
  moreover have "card (dom (tcbs s)) > 0" using kinvD(10) [OF assms] by (auto simp: card_gt_0_iff)
  ultimately have "unat (uxCurrentNumberOfTasks s) > 0"
    using assms(1) by (simp add: kinv_def tcbs_inv_def unat_of_nat_u32)
  then show ?thesis by (simp add: word_less_nat_alt)
qed

lemma resume_all_nested:
  "uxSchedulerSuspended s \<noteq> 1 \<Longrightarrow>
     xTaskResumeAll s = Some (False, s\<lparr>uxSchedulerSuspended := uxSchedulerSuspended s - 1\<rparr>)"
  by (auto simp: xTaskResumeAll_def Let_def)

lemma kinv_now_frame:
  assumes "kinv_now X s" and "heap s' = heap s" "tcbs s' = tcbs s" "pxCurrentTCB s' = pxCurrentTCB s"
    "pxDelayedTaskList s' = pxDelayedTaskList s" "pxOverflowDelayedTaskList s' = pxOverflowDelayedTaskList s"
    "uxCurrentNumberOfTasks s' = uxCurrentNumberOfTasks s" "xTickCount s' = xTickCount s"
    "uxTopReadyPriority s' = uxTopReadyPriority s" "xNextTaskUnblockTime s' = xNextTaskUnblockTime s"
  shows "kinv_now X s'"
  unfolding assms(8,10) by (rule kinv_frame [OF assms(1)]) (use assms in \<open>auto simp: kinv_def top_inv_def\<close>)

lemma resume_all_effect:
  assumes k: "kinv_now {} s" and one: "uxSchedulerSuspended s = 1" and cur: "pxCurrentTCB s \<noteq> 0"
  shows "\<exists>y s'. xTaskResumeAll s = Some (y, s') \<and> kernel_ok s' \<and>
    same_env (s\<lparr>uxSchedulerSuspended := 0\<rparr>) s' \<and> ival s' = ival s \<and>
    uxPendedTicks s' = 0 \<and> xTickCount s' = xTickCount s + uxPendedTicks s \<and> \<not> xYieldPending s' \<and>
    (\<forall>t. cont s' (Generic t) =
       (if pending s t \<or> due s (uxPendedTicks s) t then Some (Ready (prio s t)) else cont s (Generic t))) \<and>
    (\<forall>t. cont s' (Event t) = (if pending s t \<or> due s (uxPendedTicks s) t then None else cont s (Event t))) \<and>
    (y \<longrightarrow> pending_soft_sv s') \<and> (pending_soft_sv s \<longrightarrow> pending_soft_sv s') \<and> (xYieldPending s \<longrightarrow> y)"
proof -
  define s0 where "s0 = s\<lparr>uxSchedulerSuspended := 0\<rparr>"
  have k0: "kinv_now {} s0" unfolding s0_def by (rule kinv_now_frame [OF k]) simp_all
  have f0: "heap s0 = heap s" "tcbs s0 = tcbs s" "pxCurrentTCB s0 = pxCurrentTCB s"
    "xTickCount s0 = xTickCount s" "uxPendedTicks s0 = uxPendedTicks s" "xYieldPending s0 = xYieldPending s"
    "pending_soft_sv s0 = pending_soft_sv s" "uxSchedulerSuspended s0 = 0"
    by (simp_all add: s0_def)
  obtain yr1 s1 where s1: "drain_pending False s0 = Some (yr1, s1)"
    "kinv (xTickCount s0) (xNextTaskUnblockTime s0) {} s1" "ival s1 = ival s"
    "\<And>t. cont s1 (Generic t) = (if pending s t then Some (Ready (prio s t)) else cont s (Generic t))"
    "\<And>t. cont s1 (Event t) = (if pending s t then None else cont s (Event t))"
    "s1 = s0\<lparr>heap := heap s1, uxTopReadyPriority := uxTopReadyPriority s1\<rparr>"
    using drain_pending_effect [OF k0, of False] cur unfolding f0 pending_def by blast
  obtain h p where s1e: "s1 = s0\<lparr>heap := h, uxTopReadyPriority := p\<rparr>" using s1(6) by blast
  have k1: "kinv_now {} s1" using s1(2) by (simp add: s1e)
  have f1: "tcbs s1 = tcbs s" "pxCurrentTCB s1 = pxCurrentTCB s" "xTickCount s1 = xTickCount s"
    "uxPendedTicks s1 = uxPendedTicks s" "xYieldPending s1 = xYieldPending s"
    "pending_soft_sv s1 = pending_soft_sv s" "uxSchedulerSuspended s1 = 0"
    by (simp_all add: s1e f0)
  have due1: "due s1 n t \<longleftrightarrow> due s n t \<and> \<not> pending s t" for n t
    using s1(3) s1(4) [of t] f1(3) by (auto simp: due_def)
  obtain yr2 s2 where s2: "process_pended_ticks yr1 s1 = Some (yr2, s2)"
    "kinv_now {} s2" "same_env s1 s2" "ival s2 = ival s1"
    "uxPendedTicks s2 = 0" "xTickCount s2 = xTickCount s1 + uxPendedTicks s1"
    "xYieldPending s2 = xYieldPending s1" "pending_soft_sv s2 = pending_soft_sv s1"
    "\<And>t. cont s2 (Generic t) = (if due s1 (uxPendedTicks s1) t then Some (Ready (prio s1 t)) else cont s1 (Generic t))"
    "\<And>t. cont s2 (Event t) = (if due s1 (uxPendedTicks s1) t then None else cont s1 (Event t))"
    using process_pended_ticks_effect [OF k1 f1(7), of yr1, unfolded f1(2), OF cur] by blast
  define y where "y \<longleftrightarrow> yr2 \<or> xYieldPending s"
  define s' where "s' = (if y then portYIELD (s2\<lparr>xYieldPending := False\<rparr>) else s2)"
  have res: "xTaskResumeAll s = Some (y, s')"
    using number_of_tasks_pos [OF k cur] one s1(1) s2(1,7) f1(5)
    by (simp add: xTaskResumeAll_def s0_def y_def s'_def)
  have f': "heap s' = heap s2" "tcbs s' = tcbs s2" "pxCurrentTCB s' = pxCurrentTCB s2"
    "pxDelayedTaskList s' = pxDelayedTaskList s2" "pxOverflowDelayedTaskList s' = pxOverflowDelayedTaskList s2"
    "uxCurrentNumberOfTasks s' = uxCurrentNumberOfTasks s2" "xTickCount s' = xTickCount s2"
    "uxTopReadyPriority s' = uxTopReadyPriority s2" "xNextTaskUnblockTime s' = xNextTaskUnblockTime s2"
    "uxPendedTicks s' = uxPendedTicks s2" "xSchedulerRunning s' = xSchedulerRunning s2"
    "uxTasksDeleted s' = uxTasksDeleted s2" "uxTaskNumber s' = uxTaskNumber s2"
    "uxSchedulerSuspended s' = uxSchedulerSuspended s2" "xYieldPending s' \<longleftrightarrow> \<not> y \<and> xYieldPending s2"
    "pending_soft_sv s' \<longleftrightarrow> y \<or> pending_soft_sv s2"
    by (simp_all add: s'_def portYIELD_def)
  have env: "same_env (s\<lparr>uxSchedulerSuspended := 0\<rparr>) s'"
    using s2(3) by (simp add: same_env_def f' s1e s0_def)
  have c: "cont s' (Generic t) =
       (if pending s t \<or> due s (uxPendedTicks s) t then Some (Ready (prio s t)) else cont s (Generic t))"
    "cont s' (Event t) = (if pending s t \<or> due s (uxPendedTicks s) t then None else cont s (Event t))" for t
    using s2(9,10) [of t] s1(4,5) [of t] due1 [of _ t] f1(1,4) by (simp_all add: f'(1))
  have "kinv_now {} s'" by (rule kinv_now_frame [OF s2(2)]) (simp_all add: f')
  moreover have "\<not> pending s' t" for t
    using c(2) [of t] by (auto simp: pending_def)
  ultimately have "kernel_ok s'" using s2(5) f'(10) by (simp add: kernel_ok_def)
  moreover have "ival s' = ival s" "uxPendedTicks s' = 0" "xTickCount s' = xTickCount s + uxPendedTicks s"
    "\<not> xYieldPending s'" "y \<longrightarrow> pending_soft_sv s'" "pending_soft_sv s \<longrightarrow> pending_soft_sv s'" "xYieldPending s \<longrightarrow> y"
    using s2(4-8) s1(3) f1 by (simp_all add: f' y_def)
  ultimately show ?thesis using res env c by blast
qed

section \<open>Choosing the running task\<close>

lemma select_top_effect:
  assumes "lists_inv s" and "p < configMAX_PRIORITIES" and "r \<le> p" and "litems s (Ready r) \<noteq> []"
  shows "\<exists>q. select_top s p = Some q \<and> q \<le> p \<and> litems s (Ready q) \<noteq> [] \<and>
    (\<forall>r. r \<le> p \<longrightarrow> litems s (Ready r) \<noteq> [] \<longrightarrow> r \<le> q)"
  using assms
proof (induction s p rule: select_top.induct)
  case (1 s p)
  have init: "heap_wf (heap s)" "listLIST_IS_INITIALISED (Ready p) (heap s)"
    using 1(2,3) by (simp_all add: lists_inv_def)
  show ?case
  proof (cases "litems s (Ready p) = []")
    case True
    then have em: "listLIST_IS_EMPTY (Ready p) (heap s)" using is_empty_items(1) [OF init] by simp
    have "r \<noteq> p" using True 1(5) by auto
    then have p0: "p \<noteq> 0" using 1(4) by auto
    note le = u32_pred(1) [OF p0]
    have rp: "r \<le> p - 1" "p \<noteq> 0" using 1(4) le [of r] \<open>r \<noteq> p\<close> p0 by auto
    have p1: "p - 1 < configMAX_PRIORITIES" using u32_pred(2) [OF p0] 1(3) by (rule less_trans)
    obtain q where q: "select_top s (p - 1) = Some q" "q \<le> p - 1" "litems s (Ready q) \<noteq> []"
      "\<And>r. r \<le> p - 1 \<Longrightarrow> litems s (Ready r) \<noteq> [] \<Longrightarrow> r \<le> q"
      using 1(1) [OF _ em rp(2) 1(2) p1 rp(1) 1(5)] 1(3) by blast
    show ?thesis
    proof (intro exI conjI allI impI)
      show "select_top s p = Some q" using q(1) em rp(2) 1(3) by (subst select_top.simps) simp
      show "q \<le> p" using q(2) le by blast
      show "x \<le> q" if "x \<le> p" "litems s (Ready x) \<noteq> []" for x using q(4) [of x] that True le [of x] by auto
    qed (rule q(3))
  next
    case False
    then show ?thesis using is_empty_items(1) [OF init] 1(3) by (subst select_top.simps) auto
  qed
qed

lemma kinv_index:
  assumes k: "kinv T N X s" and i: "i \<in> set (litems s l)"
  defines "h \<equiv> (heap s)\<lparr>pxIndex := (pxIndex (heap s))(l := ListItem i)\<rparr>"
  shows "kinv T N X (s\<lparr>heap := h\<rparr>)" and "list_items h = litems s"
    and "pvContainer h = cont s" and "item_value h = ival s"
proof -
  have wf: "heap_wf h" and items: "list_items h = litems s"
    using heap_wf_index_upd [OF kinvD(1) [OF k] i] by (simp_all add: h_def)
  then show "list_items h = litems s" by simp
  have fr: "pvContainer h = cont s" "item_value h = ival s" "pvOwner h = pvOwner (heap s)"
    "listLIST_IS_INITIALISED m h = listLIST_IS_INITIALISED m (heap s)" for m
    by (simp_all add: h_def item_value_def listLIST_IS_INITIALISED_def fun_eq_iff)
  then show "pvContainer h = cont s" "item_value h = ival s" by simp_all
  show "kinv T N X (s\<lparr>heap := h\<rparr>)" using k wf
    by (simp add: kinv_def lists_inv_def tcbs_inv_def top_inv_def time_inv_def wake_ok_def settled_def fr items)
qed

lemma ready_item:
  assumes "kinv T N X s" and "i \<in> set (litems s (Ready p))"
  obtains t where "i = Generic t" "cont s (Generic t) = Some (Ready p)" "t \<in> dom (tcbs s)"
    "pvOwner (heap s) i = t"
proof -
  have c: "cont s i = Some (Ready p)" using assms(2) delayed_items(1) [OF assms(1)] by simp
  then obtain t where "i = Generic t" using kinvD(3) [OF assms(1) c] by (cases i) auto
  moreover from this have "t \<in> dom (tcbs s)" using kinvD(4) [OF assms(1) c] by simp
  ultimately show ?thesis using that c kinvD(5) [OF assms(1), of i] by simp
qed

lemma select_effect:
  assumes k: "kinv T N X s" and r: "cont s (Generic t0) = Some (Ready p0)"
  shows "\<exists>q t h. taskSELECT_HIGHEST_PRIORITY_TASK s = Some (s\<lparr>uxTopReadyPriority := q, heap := h, pxCurrentTCB := t\<rparr>) \<and>
    listGET_OWNER_OF_NEXT_ENTRY (Ready q) (heap s) = Some (t, h) \<and>
    kinv T N X (s\<lparr>uxTopReadyPriority := q, heap := h, pxCurrentTCB := t\<rparr>) \<and>
    list_items h = litems s \<and> pvContainer h = cont s \<and> item_value h = ival s \<and>
    cont s (Generic t) = Some (Ready q) \<and> t \<in> dom (tcbs s) \<and>
    (\<forall>u p. cont s (Generic u) = Some (Ready p) \<longrightarrow> p \<le> q)"
proof -
  have nonempty: "litems s (Ready p) \<noteq> []" if "cont s (Generic u) = Some (Ready p)" for u p
    using that delayed_items(1) [OF k, of "Generic u" "Ready p"] by auto
  have top: "uxTopReadyPriority s < configMAX_PRIORITIES" "lists_inv s" using k by (auto simp: kinv_def top_inv_def)
  obtain q where q: "select_top s (uxTopReadyPriority s) = Some q" "q \<le> uxTopReadyPriority s"
    "litems s (Ready q) \<noteq> []" "\<And>p. p \<le> uxTopReadyPriority s \<Longrightarrow> litems s (Ready p) \<noteq> [] \<Longrightarrow> p \<le> q"
    using select_top_effect [OF top(2,1) kinv_top [OF k r] nonempty [OF r]] by blast
  obtain n where n: "index_at (heap s) (Ready q) n" using index_at_exists [OF kinvD(1) [OF k] q(3)] ..
  define i where "i = litems s (Ready q) ! (Suc n mod length (litems s (Ready q)))"
  define h where "h = (heap s)\<lparr>pxIndex := (pxIndex (heap s))(Ready q := ListItem i)\<rparr>"
  have ne: "listGET_OWNER_OF_NEXT_ENTRY (Ready q) (heap s) = Some (pvOwner (heap s) i, h)"
    and i: "i \<in> set (litems s (Ready q))"
    using next_entry_effect(1,2) [OF kinvD(1) [OF k] n] by (simp_all add: i_def h_def)
  obtain t where t: "i = Generic t" "cont s (Generic t) = Some (Ready q)" "t \<in> dom (tcbs s)"
    "pvOwner (heap s) i = t" using ready_item [OF k i] by blast
  note ki = kinv_index [OF k i, folded h_def]
  have max: "p \<le> q" if "cont s (Generic u) = Some (Ready p)" for u p
    using q(4) [OF kinv_top [OF k that] nonempty [OF that]] .
  have q15: "q < configMAX_PRIORITIES" using q(2) top(1) by (rule le_less_trans)
  have "kinv T N X (s\<lparr>uxTopReadyPriority := q, heap := h, pxCurrentTCB := t\<rparr>)"
    using ki(1) max t(3) q15 ki(3)
    by (simp add: kinv_def lists_inv_def tcbs_inv_def top_inv_def time_inv_def wake_ok_def settled_def)
  moreover have "taskSELECT_HIGHEST_PRIORITY_TASK s = Some (s\<lparr>uxTopReadyPriority := q, heap := h, pxCurrentTCB := t\<rparr>)"
    using q(1) ne t(4) by (simp add: taskSELECT_HIGHEST_PRIORITY_TASK_def)
  ultimately show ?thesis using ne t(2-4) ki(2-4) max by blast
qed

text \<open>Switching contexts \<open>n\<close> times with nothing in between; the tasks that get to run.\<close>

fun run_switches :: "nat \<Rightarrow> kernel \<Rightarrow> (tid list \<times> kernel) option" where
  "run_switches 0 s = Some ([], s)"
| "run_switches (Suc n) s = do {
     s1 \<leftarrow> vTaskSwitchContext s;
     (ts, s2) \<leftarrow> run_switches n s1;
     Some (pxCurrentTCB s1 # ts, s2)
   }"

lemma run_switches_next_entries:
  assumes "kinv T N X s" and "uxSchedulerSuspended s = 0"
    and "cont s (Generic t) = Some (Ready q)" and "\<And>u p. cont s (Generic u) = Some (Ready p) \<Longrightarrow> p \<le> q"
    and "next_entries n (Ready q) (heap s) = Some (ts, h')"
  shows "\<exists>s'. run_switches n s = Some (ts, s') \<and> kinv T N X s' \<and> cont s' = cont s"
  using assms
proof (induction n arbitrary: s ts t)
  case 0
  then show ?case by simp
next
  case (Suc n)
  obtain q' t' h where st: "taskSELECT_HIGHEST_PRIORITY_TASK s =
      Some (s\<lparr>uxTopReadyPriority := q', heap := h, pxCurrentTCB := t'\<rparr>)"
    "listGET_OWNER_OF_NEXT_ENTRY (Ready q') (heap s) = Some (t', h)"
    "kinv T N X (s\<lparr>uxTopReadyPriority := q', heap := h, pxCurrentTCB := t'\<rparr>)"
    "pvContainer h = cont s" "cont s (Generic t') = Some (Ready q')"
    "\<And>u p. cont s (Generic u) = Some (Ready p) \<Longrightarrow> p \<le> q'"
    using select_effect [OF Suc.prems(1,3)] by blast
  have q: "q' = q" using Suc.prems(3,4) st(5,6) by (meson antisym)
  let ?s = "s\<lparr>uxTopReadyPriority := q', heap := h, pxCurrentTCB := t'\<rparr>"
  obtain ts1 where ts: "next_entries n (Ready q) h = Some (ts1, h')" "ts = t' # ts1"
    using Suc.prems(5) st(2) q by (auto split: Option.bind_splits)
  obtain s' where "run_switches n ?s = Some (ts1, s')" "kinv T N X s'" "cont s' = cont ?s"
    using Suc.IH [OF st(3), of t' ts1] Suc.prems(2,4) st(4,5) ts(1) q by auto
  then show ?case using st(1,4) ts(2) Suc.prems(2) by (simp add: vTaskSwitchContext_def)
qed

section \<open>Blocking the running task\<close>

lemma add_delayed:
  assumes k: "kinv_now X s" and cur: "pxCurrentTCB s \<in> dom (tcbs s)"
    and free: "cont s (Generic (pxCurrentTCB s)) = None"
    and v: "v = xTickCount s \<Longrightarrow> v \<noteq> portMAX_DELAY"
  shows "\<exists>s'. prvAddCurrentTaskToDelayedList v s = Some s' \<and> kinv_now (X - {pxCurrentTCB s}) s' \<and>
    cont s' = (cont s)(Generic (pxCurrentTCB s) :=
      Some (if v < xTickCount s then pxOverflowDelayedTaskList s else pxDelayedTaskList s)) \<and>
    ival s' = (ival s)(Generic (pxCurrentTCB s) := v) \<and>
    s' = s\<lparr>heap := heap s', xNextTaskUnblockTime := xNextTaskUnblockTime s'\<rparr>"
proof -
  let ?t = "pxCurrentTCB s"
  define s1 where "s1 = k_set_value (Generic ?t) v s"
  define l where "l = (if v < xTickCount s then pxOverflowDelayedTaskList s else pxDelayedTaskList s)"
  define n where "n = (if v < xTickCount s then xNextTaskUnblockTime s else min (xNextTaskUnblockTime s) v)"
  have f1: "cont s1 = cont s" "ival s1 = (ival s)(Generic ?t := v)" "tcbs s1 = tcbs s"
    "pxDelayedTaskList s1 = pxDelayedTaskList s" "pxOverflowDelayedTaskList s1 = pxOverflowDelayedTaskList s"
    "xTickCount s1 = xTickCount s" "xNextTaskUnblockTime s1 = xNextTaskUnblockTime s" "pxCurrentTCB s1 = ?t"
    by (simp_all add: s1_def k_set_value_def)
  have "kinv (xTickCount s) (xNextTaskUnblockTime s) X s1"
    unfolding s1_def by (rule kinv_set_value [OF k]) (simp add: free)
  then have k1: "kinv (xTickCount s) n X s1"
  proof (rule kinv_retime)
    fix t
    assume "cont s1 (Generic t) = Some (pxDelayedTaskList s1)"
    from kinv_wake [OF \<open>kinv (xTickCount s) (xNextTaskUnblockTime s) X s1\<close> this]
    show "xTickCount s \<le> ival s1 (Generic t) \<and> n \<le> ival s1 (Generic t) \<and>
        (ival s1 (Generic t) = xTickCount s \<longrightarrow> ival s1 (Generic t) \<noteq> portMAX_DELAY)"
      by (auto simp: wake_ok_def n_def min_def)
  next
    fix t
    assume "cont s1 (Generic t) = Some (pxOverflowDelayedTaskList s1)"
    from kinv_wake [OF \<open>kinv (xTickCount s) (xNextTaskUnblockTime s) X s1\<close> this]
    show "ival s1 (Generic t) < xTickCount s" by (simp add: wake_ok_def)
  qed
  have dl: "delayed_list l" using kinv_delayed(1,2) [OF k] by (simp add: l_def)
  obtain s2 where s2: "k_insert l (Generic ?t) s1 = Some s2" "moved (Generic ?t) (Some l) s1 s2"
    using k_insert_moved [OF k1, of "Generic ?t" l] free cur delayed_kernel_list [OF dl]
      kinvD(2) [OF k1, of l] f1(1,3) by auto
  have w: "wake_ok (xTickCount s) n s1 l v"
    using v kinv_delayed(3) [OF k] by (auto simp: wake_ok_def l_def n_def f1 not_less)
  have k2: "kinv (xTickCount s) n (insert ?t X) s2"
    using kinv_moved [OF k1 s2(2)] w cur delayed_kernel_list(2) [OF dl] dl f1(2,3)
    by (cases l) auto
  note mv = moved_simps [OF s2(2)]
  have st: "settled s2 ?t" using dl by (cases l) (simp_all add: settled_def mv)
  have k3: "kinv (xTickCount s) n (X - {?t}) s2" using kinv_settle [OF k2 st] by simp
  obtain h where "s2 = s1\<lparr>heap := h\<rparr>" using s2(2) unfolding moved_def by blast
  then have s2e: "s2 = s\<lparr>heap := h\<rparr>" by (simp add: s1_def k_set_value_def)
  have res: "prvAddCurrentTaskToDelayedList v s = Some (s2\<lparr>xNextTaskUnblockTime := n\<rparr>)"
  proof (cases "v < xTickCount s")
    case True
    then have "s2\<lparr>xNextTaskUnblockTime := n\<rparr> = s2" by (simp add: n_def s2e)
    then show ?thesis using True s2(1) cur f1
      by (simp add: prvAddCurrentTaskToDelayedList_def Let_def s1_def [symmetric] l_def dom_def)
  next
    case False
    then have "(if v < xNextTaskUnblockTime s2 then s2\<lparr>xNextTaskUnblockTime := v\<rparr> else s2) =
        s2\<lparr>xNextTaskUnblockTime := n\<rparr>" by (simp add: n_def s2e min_def)
    then show ?thesis using False s2(1) cur f1
      by (simp add: prvAddCurrentTaskToDelayedList_def Let_def s1_def [symmetric] l_def dom_def)
  qed
  have "kinv (xTickCount s) n (X - {?t}) (s2\<lparr>xNextTaskUnblockTime := n\<rparr>)"
    by (rule kinv_frame [OF k3]) (use k3 in \<open>simp_all add: kinv_def top_inv_def\<close>)
  then have "kinv_now (X - {?t}) (s2\<lparr>xNextTaskUnblockTime := n\<rparr>)" by (simp add: s2e)
  with res show ?thesis using mv(2,3) f1(1,2)
    by (intro exI [of _ "s2\<lparr>xNextTaskUnblockTime := n\<rparr>"] conjI) (simp_all add: l_def s2e)
qed

lemma running_contained:
  assumes "kinv T N X s" and "t \<in> dom (tcbs s)" and "t \<notin> X"
  obtains l where "cont s (Generic t) = Some l"
  using kinvD(9) [OF assms] by (auto simp: settled_def)

text \<open>The running task leaves its list and waits in a delayed list.\<close>

lemma block_current:
  assumes k: "kinv_now X s" and cur: "pxCurrentTCB s \<in> dom (tcbs s)"
    and c: "cont s (Generic (pxCurrentTCB s)) = Some l0" and v: "v = xTickCount s \<Longrightarrow> v \<noteq> portMAX_DELAY"
  shows "\<exists>n s1 s2. k_remove (Generic (pxCurrentTCB s)) s = Some (n, s1) \<and>
    moved (Generic (pxCurrentTCB s)) None s s1 \<and> prvAddCurrentTaskToDelayedList v s1 = Some s2 \<and>
    kinv_now (X - {pxCurrentTCB s}) s2 \<and>
    cont s2 = (cont s)(Generic (pxCurrentTCB s) :=
      Some (if v < xTickCount s then pxOverflowDelayedTaskList s else pxDelayedTaskList s)) \<and>
    ival s2 = (ival s)(Generic (pxCurrentTCB s) := v) \<and>
    s2 = s\<lparr>heap := heap s2, xNextTaskUnblockTime := xNextTaskUnblockTime s2\<rparr>"
proof -
  let ?t = "pxCurrentTCB s"
  obtain n s1 where s1: "k_remove (Generic ?t) s = Some (n, s1)" "moved (Generic ?t) None s s1"
    "kinv (xTickCount s) (xNextTaskUnblockTime s) (insert ?t X) s1"
    using kinv_removed [OF k c] by auto
  note mv = moved_simps [OF s1(2)]
  have k1: "kinv_now (insert ?t X) s1" using s1(3) by (simp add: mv)
  obtain s2 where s2: "prvAddCurrentTaskToDelayedList v s1 = Some s2"
    "kinv_now (insert ?t X - {?t}) s2"
    "cont s2 = (cont s1)(Generic ?t := Some (if v < xTickCount s then pxOverflowDelayedTaskList s else pxDelayedTaskList s))"
    "ival s2 = (ival s1)(Generic ?t := v)"
    "s2 = s1\<lparr>heap := heap s2, xNextTaskUnblockTime := xNextTaskUnblockTime s2\<rparr>"
    using add_delayed [OF k1, of v] cur v unfolding mv by auto
  obtain h where "s1 = s\<lparr>heap := h\<rparr>" using s1(2) unfolding moved_def by blast
  then have "s2 = s\<lparr>heap := heap s2, xNextTaskUnblockTime := xNextTaskUnblockTime s2\<rparr>" using s2(5) by simp
  then show ?thesis using s1(1,2) s2 mv by auto
qed

lemma kernel_ok_kinv: "kernel_ok s \<Longrightarrow> kinv_now {} s"
  by (simp add: kernel_ok_def)

lemma kernel_ok_free:
  "kernel_ok s \<Longrightarrow> uxSchedulerSuspended s = 0 \<Longrightarrow> \<not> pending s t"
  "kernel_ok s \<Longrightarrow> uxSchedulerSuspended s = 0 \<Longrightarrow> uxPendedTicks s = 0"
  by (simp_all add: kernel_ok_def)

text \<open>Resuming when nothing happened while the scheduler was suspended.\<close>

lemma resume_all_quiet:
  assumes k: "kinv_now {} s" and one: "uxSchedulerSuspended s = 1" and cur: "pxCurrentTCB s \<noteq> 0"
    and np: "\<And>t. \<not> pending s t" and nt: "uxPendedTicks s = 0"
  shows "\<exists>y s'. xTaskResumeAll s = Some (y, s') \<and> kernel_ok s' \<and>
    same_env (s\<lparr>uxSchedulerSuspended := 0\<rparr>) s' \<and> ival s' = ival s \<and> cont s' = cont s \<and>
    xTickCount s' = xTickCount s \<and> (y \<longrightarrow> pending_soft_sv s') \<and> (xYieldPending s \<longrightarrow> y)"
proof -
  have nd: "due s (uxPendedTicks s) t = False" for t by (simp add: due_def nt)
  have np': "pending s t = False" for t using np by simp
  obtain y s' where s': "xTaskResumeAll s = Some (y, s')" "kernel_ok s'"
    "same_env (s\<lparr>uxSchedulerSuspended := 0\<rparr>) s'" "ival s' = ival s"
    "xTickCount s' = xTickCount s + uxPendedTicks s"
    "\<And>t. cont s' (Generic t) = cont s (Generic t)" "\<And>t. cont s' (Event t) = cont s (Event t)"
    "y \<longrightarrow> pending_soft_sv s'" "xYieldPending s \<longrightarrow> y"
    using resume_all_effect [OF k one cur, unfolded np' nd if_False simp_thms] by blast
  have "cont s' i = cont s i" for i using s'(6,7) by (cases i) auto
  then show ?thesis using s'(1-5,8,9) nt by auto
qed

text \<open>A pass through \<open>vTaskSuspendAll\<close>, blocking, and \<open>xTaskResumeAll\<close>, with no interrupt in between.\<close>

lemma delay_section:
  assumes ok: "kernel_ok s" and susp: "uxSchedulerSuspended s = 0" and cur: "pxCurrentTCB s \<noteq> 0"
    and v: "v = xTickCount s \<Longrightarrow> v \<noteq> portMAX_DELAY"
  shows "\<exists>n s1 s2 y s3. k_remove (Generic (pxCurrentTCB s)) (vTaskSuspendAll s) = Some (n, s1) \<and>
    moved (Generic (pxCurrentTCB s)) None (vTaskSuspendAll s) s1 \<and>
    prvAddCurrentTaskToDelayedList v s1 = Some s2 \<and> xTaskResumeAll s2 = Some (y, s3) \<and> kernel_ok s3 \<and>
    same_env s s3 \<and> xTickCount s3 = xTickCount s \<and> (y \<longrightarrow> pending_soft_sv s3) \<and>
    cont s3 = (cont s)(Generic (pxCurrentTCB s) :=
      Some (if v < xTickCount s then pxOverflowDelayedTaskList s else pxDelayedTaskList s)) \<and>
    ival s3 = (ival s)(Generic (pxCurrentTCB s) := v)"
proof -
  let ?t = "pxCurrentTCB s" and ?s = "vTaskSuspendAll s"
  have f: "heap ?s = heap s" "tcbs ?s = tcbs s" "pxCurrentTCB ?s = ?t" "xTickCount ?s = xTickCount s"
    "pxDelayedTaskList ?s = pxDelayedTaskList s" "pxOverflowDelayedTaskList ?s = pxOverflowDelayedTaskList s"
    "uxSchedulerSuspended ?s = 1" "uxPendedTicks ?s = 0"
    using susp kernel_ok_free(2) [OF ok susp] by (simp_all add: vTaskSuspendAll_def)
  have k: "kinv_now {} ?s"
    by (rule kinv_now_frame [OF kernel_ok_kinv [OF ok]]) (simp_all add: vTaskSuspendAll_def)
  have ct: "?t \<in> dom (tcbs s)" using kinvD(10) [OF kernel_ok_kinv [OF ok] cur] .
  obtain l0 where c0: "cont s (Generic ?t) = Some l0"
    by (rule running_contained [OF kernel_ok_kinv [OF ok] ct]) simp
  obtain n s1 s2 where st: "k_remove (Generic ?t) ?s = Some (n, s1)"
    "moved (Generic ?t) None ?s s1" "prvAddCurrentTaskToDelayedList v s1 = Some s2"
    "kinv_now ({} - {?t}) s2"
    "cont s2 = (cont s)(Generic ?t := Some (if v < xTickCount s then pxOverflowDelayedTaskList s else pxDelayedTaskList s))"
    "ival s2 = (ival s)(Generic ?t := v)"
    "s2 = ?s\<lparr>heap := heap s2, xNextTaskUnblockTime := xNextTaskUnblockTime s2\<rparr>"
    using block_current [OF k, unfolded f, OF ct c0 v] by blast
  obtain h n' where s2e: "s2 = ?s\<lparr>heap := h, xNextTaskUnblockTime := n'\<rparr>" using st(7) by blast
  have f2: "uxSchedulerSuspended s2 = 1" "pxCurrentTCB s2 \<noteq> 0" "uxPendedTicks s2 = 0"
    using f cur by (simp_all add: s2e)
  have np: "\<not> pending s2 t" for t
    using kernel_ok_free(1) [OF ok susp, of t] st(5) by (simp add: pending_def)
  obtain y s3 where s3: "xTaskResumeAll s2 = Some (y, s3)" "kernel_ok s3"
    "same_env (s2\<lparr>uxSchedulerSuspended := 0\<rparr>) s3" "ival s3 = ival s2" "cont s3 = cont s2"
    "xTickCount s3 = xTickCount s2" "y \<longrightarrow> pending_soft_sv s3"
    using resume_all_quiet [OF _ f2(1,2) np f2(3)] st(4) unfolding empty_Diff by blast
  have "same_env s s3"
    using s3(3) susp by (simp add: same_env_def s2e vTaskSuspendAll_def)
  moreover have "xTickCount s3 = xTickCount s" using s3(6) f(4) by (simp add: s2e)
  moreover note st(1-3) s3(1,2,7) st(5) [folded s3(5)] st(6) [folded s3(4)]
  ultimately show ?thesis by blast
qed

lemma kernel_ok_yield: "kernel_ok s \<Longrightarrow> kernel_ok (portYIELD s)"
  using kinv_portYIELD by (auto simp: kernel_ok_def portYIELD_def pending_def kinv_portYIELD)

lemma vTaskDelay_effect:
  assumes ok: "kernel_ok s" and susp: "uxSchedulerSuspended s = 0" and cur: "pxCurrentTCB s \<noteq> 0"
    and n: "0 < n"
  shows "\<exists>s'. vTaskDelay n s = Some s' \<and> kernel_ok s' \<and> same_env s s' \<and> xTickCount s' = xTickCount s \<and>
    pending_soft_sv s' \<and>
    cont s' = (cont s)(Generic (pxCurrentTCB s) :=
      Some (if xTickCount s + n < xTickCount s then pxOverflowDelayedTaskList s else pxDelayedTaskList s)) \<and>
    ival s' = (ival s)(Generic (pxCurrentTCB s) := xTickCount s + n)"
proof -
  have "xTickCount s + n \<noteq> xTickCount s" using n by auto
  then obtain m s1 s2 y s3 where st: "k_remove (Generic (pxCurrentTCB s)) (vTaskSuspendAll s) = Some (m, s1)"
    "prvAddCurrentTaskToDelayedList (xTickCount s + n) s1 = Some s2" "xTaskResumeAll s2 = Some (y, s3)"
    "kernel_ok s3" "same_env s s3" "xTickCount s3 = xTickCount s" "y \<longrightarrow> pending_soft_sv s3"
    "cont s3 = (cont s)(Generic (pxCurrentTCB s) :=
      Some (if xTickCount s + n < xTickCount s then pxOverflowDelayedTaskList s else pxDelayedTaskList s))"
    "ival s3 = (ival s)(Generic (pxCurrentTCB s) := xTickCount s + n)"
    using delay_section [OF ok susp cur, of "xTickCount s + n"] by blast
  have "vTaskDelay n s = Some (if y then s3 else portYIELD s3)"
    using n st(1-3) by (simp add: vTaskDelay_def vTaskSuspendAll_def)
  then show ?thesis using st(4-9) kernel_ok_yield [OF st(4)]
    by (intro exI [of _ "if y then s3 else portYIELD s3"]) (auto simp: portYIELD_def same_env_def)
qed

text \<open>The overflow cases of \<open>vTaskDelayUntil\<close> decide whether the wake time lies ahead.\<close>

lemma xShouldDelay_iff:
  "xShouldDelay now prev (prev + inc) \<longleftrightarrow> now - prev < inc"
  unfolding xShouldDelay_def word_less_def u32_unfold
  using uint_u32 [of now] uint_u32 [of prev] uint_u32 [of inc] by presburger

lemma suspend_all_quiet:
  assumes ok: "kernel_ok s" and susp: "uxSchedulerSuspended s = 0" and cur: "pxCurrentTCB s \<noteq> 0"
  shows "\<exists>y s'. xTaskResumeAll (vTaskSuspendAll s) = Some (y, s') \<and> kernel_ok s' \<and> same_env s s' \<and>
    ival s' = ival s \<and> cont s' = cont s \<and> xTickCount s' = xTickCount s \<and> (y \<longrightarrow> pending_soft_sv s')"
proof -
  let ?s = "vTaskSuspendAll s"
  have k: "kinv_now {} ?s"
    by (rule kinv_now_frame [OF kernel_ok_kinv [OF ok]]) (simp_all add: vTaskSuspendAll_def)
  have f: "uxSchedulerSuspended ?s = 1" "pxCurrentTCB ?s \<noteq> 0" "\<not> pending ?s t" "uxPendedTicks ?s = 0"
    "ival ?s = ival s" "cont ?s = cont s" "xTickCount ?s = xTickCount s" for t
    using kernel_ok_free [OF ok susp] susp cur by (simp_all add: vTaskSuspendAll_def pending_def)
  obtain y s' where s': "xTaskResumeAll ?s = Some (y, s')" "kernel_ok s'"
    "same_env (?s\<lparr>uxSchedulerSuspended := 0\<rparr>) s'" "ival s' = ival s" "cont s' = cont s"
    "xTickCount s' = xTickCount s" "y \<longrightarrow> pending_soft_sv s'"
    using resume_all_quiet [OF k f(1,2) f(3) f(4)] unfolding f(5-7) by blast
  have "same_env s s'" using s'(3) susp by (simp add: same_env_def vTaskSuspendAll_def)
  with s' show ?thesis by blast
qed

lemma vTaskDelayUntil_effect:
  assumes ok: "kernel_ok s" and susp: "uxSchedulerSuspended s = 0" and cur: "pxCurrentTCB s \<noteq> 0"
  shows "\<exists>s'. vTaskDelayUntil prev inc s = Some (prev + inc, s') \<and> kernel_ok s' \<and> same_env s s' \<and>
    xTickCount s' = xTickCount s \<and> pending_soft_sv s' \<and>
    cont s' = (if xTickCount s - prev < inc
      then (cont s)(Generic (pxCurrentTCB s) :=
        Some (if prev + inc < xTickCount s then pxOverflowDelayedTaskList s else pxDelayedTaskList s))
      else cont s) \<and>
    ival s' = (if xTickCount s - prev < inc then (ival s)(Generic (pxCurrentTCB s) := prev + inc) else ival s)"
proof (cases "xTickCount s - prev < inc")
  case True
  have "prev + inc \<noteq> xTickCount s" using True by (metis add_diff_cancel_left' less_irrefl)
  then have v: "prev + inc = xTickCount s \<Longrightarrow> prev + inc \<noteq> portMAX_DELAY" by simp
  obtain m s1 s2 y s3 where st: "k_remove (Generic (pxCurrentTCB s)) (vTaskSuspendAll s) = Some (m, s1)"
    "prvAddCurrentTaskToDelayedList (prev + inc) s1 = Some s2" "xTaskResumeAll s2 = Some (y, s3)"
    "kernel_ok s3" "same_env s s3" "xTickCount s3 = xTickCount s" "y \<longrightarrow> pending_soft_sv s3"
    "cont s3 = (cont s)(Generic (pxCurrentTCB s) :=
      Some (if prev + inc < xTickCount s then pxOverflowDelayedTaskList s else pxDelayedTaskList s))"
    "ival s3 = (ival s)(Generic (pxCurrentTCB s) := prev + inc)"
    using delay_section [OF ok susp cur v] by blast
  have "xShouldDelay (xTickCount s) prev (prev + inc)" using True xShouldDelay_iff by blast
  then have "vTaskDelayUntil prev inc s = Some (prev + inc, if y then s3 else portYIELD s3)"
    using st(1-3) by (simp add: vTaskDelayUntil_def vTaskSuspendAll_def)
  then show ?thesis using st(4-9) kernel_ok_yield [OF st(4)] True
    by (intro exI [of _ "if y then s3 else portYIELD s3"]) (simp add: portYIELD_def same_env_def)
next
  case False
  obtain y s3 where st: "xTaskResumeAll (vTaskSuspendAll s) = Some (y, s3)" "kernel_ok s3" "same_env s s3"
    "ival s3 = ival s" "cont s3 = cont s" "xTickCount s3 = xTickCount s" "y \<longrightarrow> pending_soft_sv s3"
    using suspend_all_quiet [OF ok susp cur] by blast
  have "\<not> xShouldDelay (xTickCount s) prev (prev + inc)" using False xShouldDelay_iff by blast
  then have "vTaskDelayUntil prev inc s = Some (prev + inc, if y then s3 else portYIELD s3)"
    using st(1) by (simp add: vTaskDelayUntil_def vTaskSuspendAll_def)
  then show ?thesis using st(2-7) kernel_ok_yield [OF st(2)] False
    by (intro exI [of _ "if y then s3 else portYIELD s3"]) (simp add: portYIELD_def same_env_def)
qed

section \<open>The tick interrupt\<close>

lemma kinv_now_select:
  assumes "kinv_now X s" and "cont s (Generic t0) = Some (Ready p0)"
  shows "\<exists>q t h. taskSELECT_HIGHEST_PRIORITY_TASK s = Some (s\<lparr>uxTopReadyPriority := q, heap := h, pxCurrentTCB := t\<rparr>) \<and>
    kinv_now X (s\<lparr>uxTopReadyPriority := q, heap := h, pxCurrentTCB := t\<rparr>) \<and> t \<in> dom (tcbs s) \<and>
    pvContainer h = cont s \<and> item_value h = ival s \<and> list_items h = litems s \<and>
    cont s (Generic t) = Some (Ready q) \<and> (\<forall>u p. cont s (Generic u) = Some (Ready p) \<longrightarrow> p \<le> q)"
  using select_effect [OF assms] by simp blast

lemma systick_effect:
  assumes k: "kinv_now {} s" and susp: "uxSchedulerSuspended s = 0" and cur: "pxCurrentTCB s \<noteq> 0"
    and r: "cont s (Generic t0) = Some (Ready p0)"
  shows "\<exists>s'. xPortSysTickHandle s = Some s' \<and> kinv_now {} s' \<and> tick_lists s s' \<and> tcbs s' = tcbs s \<and>
    uxSchedulerSuspended s' = 0 \<and> uxPendedTicks s' = uxPendedTicks s \<and> pxCurrentTCB s' \<noteq> 0"
proof -
  obtain sw s1 where s1: "xTaskIncrementTick s = Some (sw, s1)" "kinv_now {} s1" "ticked s s1"
    using tick_effect [OF k susp cur] by blast
  note fr = ticked_frame [OF s1(3)]
  have "\<not> wakes s t0" using r kinv_delayed(4) [OF k, of "Ready p0"] by (auto simp: wakes_def)
  then have r1: "cont s1 (Generic t0) = Some (Ready p0)" using tickedD(2) [OF s1(3), of t0] r by simp
  obtain q t h where sel: "taskSELECT_HIGHEST_PRIORITY_TASK s1 =
      Some (s1\<lparr>uxTopReadyPriority := q, heap := h, pxCurrentTCB := t\<rparr>)"
    "kinv_now {} (s1\<lparr>uxTopReadyPriority := q, heap := h, pxCurrentTCB := t\<rparr>)" "t \<in> dom (tcbs s1)"
    "pvContainer h = cont s1" "item_value h = ival s1"
    using kinv_now_select [OF s1(2) r1] by blast
  have t: "t \<noteq> 0" using sel(3) kinvD(8) [OF s1(2)] by auto
  let ?s = "if sw then s1\<lparr>uxTopReadyPriority := q, heap := h, pxCurrentTCB := t\<rparr> else s1"
  have "xPortSysTickHandle s = Some ?s"
    using s1(1) sel(1) susp fr(6) by (simp add: xPortSysTickHandle_def vTaskSwitchContext_def)
  moreover have "kinv_now {} ?s" using s1(2) sel(2) by simp
  moreover have "tick_lists s ?s" using ticked_lists [OF s1(3)] sel(4,5) by (simp add: tick_lists_def)
  ultimately show ?thesis using fr(1,2,6,7) susp cur t by (intro exI [of _ ?s]) simp
qed

text \<open>\<open>n\<close> tick interrupts in a row.\<close>

fun systicks :: "nat \<Rightarrow> kernel \<Rightarrow> kernel option" where
  "systicks 0 s = Some s"
| "systicks (Suc n) s = do { s1 \<leftarrow> xPortSysTickHandle s; systicks n s1 }"

lemma systicks_effect:
  assumes "kinv_now {} s" and "uxSchedulerSuspended s = 0" and "pxCurrentTCB s \<noteq> 0"
    and "cont s (Generic t0) = Some (Ready p0)" and "n < 2 ^ 32"
  shows "\<exists>s'. systicks n s = Some s' \<and> kinv_now {} s' \<and> uxPendedTicks s' = uxPendedTicks s \<and>
    uxSchedulerSuspended s' = 0 \<and> xTickCount s' = xTickCount s + of_nat n \<and> ival s' = ival s \<and>
    (\<forall>t. cont s' (Generic t) = (if due s (of_nat n) t then Some (Ready (prio s t)) else cont s (Generic t))) \<and>
    (\<forall>t. cont s' (Event t) = (if due s (of_nat n) t then None else cont s (Event t)))"
  using assms
proof (induction n arbitrary: s)
  case 0
  then show ?case by (simp add: due_def)
next
  case (Suc n)
  obtain s1 where s1: "xPortSysTickHandle s = Some s1" "kinv_now {} s1" "tick_lists s s1" "tcbs s1 = tcbs s"
    "uxSchedulerSuspended s1 = 0" "uxPendedTicks s1 = uxPendedTicks s" "pxCurrentTCB s1 \<noteq> 0"
    using systick_effect [OF Suc.prems(1-4)] by blast
  have tl: "ival s1 = ival s" "xTickCount s1 = xTickCount s + 1"
    "cont s1 (Generic t) = (if wakes s t then Some (Ready (prio s t)) else cont s (Generic t))"
    "cont s1 (Event t) = (if wakes s t then None else cont s (Event t))" for t
    using s1(3) by (simp_all add: tick_lists_def)
  have "\<not> wakes s t0" using Suc.prems(4) kinv_delayed(4) [OF Suc.prems(1), of "Ready p0"] by (auto simp: wakes_def)
  then have "cont s1 (Generic t0) = Some (Ready p0)" using tl(3) [of t0] Suc.prems(4) by simp
  from Suc.IH [OF s1(2,5,7) this] Suc.prems(5)
  obtain s' where s': "systicks n s1 = Some s'" "kinv_now {} s'" "uxPendedTicks s' = uxPendedTicks s1"
    "uxSchedulerSuspended s' = 0" "xTickCount s' = xTickCount s1 + of_nat n" "ival s' = ival s1"
    "\<And>t. cont s' (Generic t) = (if due s1 (of_nat n) t then Some (Ready (prio s1 t)) else cont s1 (Generic t))"
    "\<And>t. cont s' (Event t) = (if due s1 (of_nat n) t then None else cont s1 (Event t))"
    by auto
  have "unat (of_nat (Suc n) :: u32) = Suc n" by (rule unat_of_nat_u32) (rule Suc.prems(5))
  then have pos: "(0 :: u32) < of_nat (Suc n)" by (simp add: word_less_nat_alt)
  have ds: "due s (of_nat (Suc n)) t \<longleftrightarrow> wakes s t \<or> due s1 (of_nat n) t" for t
    using due_step [OF s1(3) pos] by simp
  show ?case using s1(1,4,6) s' tl(1,2) tl(3) tl(4) ds
    by (intro exI [of _ s'] conjI allI) (simp_all add: add.assoc [symmetric])
qed

section \<open>Event lists\<close>

text \<open>A running task: it is in the ready list of its priority and waits for no event.\<close>

definition running_ready :: "kernel \<Rightarrow> bool" where
  "running_ready s \<longleftrightarrow> pxCurrentTCB s \<noteq> 0 \<and> (\<exists>p. cont s (Generic (pxCurrentTCB s)) = Some (Ready p))"

lemma running_event_free:
  assumes "kinv T N {} s" and "running_ready s"
  shows "cont s (Event (pxCurrentTCB s)) = None" and "pxCurrentTCB s \<in> dom (tcbs s)"
proof -
  show "pxCurrentTCB s \<in> dom (tcbs s)" using kinvD(10) [OF assms(1)] assms(2) by (simp add: running_ready_def)
  then have "settled s (pxCurrentTCB s)" using kinvD(9) [OF assms(1)] by simp
  then show "cont s (Event (pxCurrentTCB s)) = None"
    using assms(2) by (auto simp: running_ready_def settled_def)
qed

text \<open>Where a wait puts the task: among the suspended tasks when it has no time limit.\<close>

definition wait_list :: "kernel \<Rightarrow> portTickType \<Rightarrow> lid" where
  "wait_list s n = (if n = portMAX_DELAY then SuspendedTaskList
     else if xTickCount s + n < xTickCount s then pxOverflowDelayedTaskList s else pxDelayedTaskList s)"

lemma wait_not_last: "n \<noteq> 0 \<or> (T::u32) \<noteq> portMAX_DELAY \<Longrightarrow> T + n = T \<Longrightarrow> T + n \<noteq> portMAX_DELAY"
  by auto

lemma place_on_event_list_effect:
  assumes k: "kinv_now {} s" and run: "running_ready s" and l: "holds l (Event (pxCurrentTCB s))"
    and init: "listLIST_IS_INITIALISED l (heap s)" and n: "n \<noteq> 0 \<or> xTickCount s \<noteq> portMAX_DELAY"
  shows "\<exists>s'. vTaskPlaceOnEventList l n s = Some s' \<and> kinv_now {} s' \<and>
    cont s' = (cont s)(Event (pxCurrentTCB s) := Some l, Generic (pxCurrentTCB s) := Some (wait_list s n)) \<and>
    (n \<noteq> portMAX_DELAY \<longrightarrow> ival s' (Generic (pxCurrentTCB s)) = xTickCount s + n) \<and>
    (\<forall>i. i \<noteq> Generic (pxCurrentTCB s) \<longrightarrow> ival s' i = ival s i) \<and>
    s' = s\<lparr>heap := heap s', xNextTaskUnblockTime := xNextTaskUnblockTime s'\<rparr>"
proof -
  let ?t = "pxCurrentTCB s"
  note free = running_event_free [OF k run]
  obtain p where c: "cont s (Generic ?t) = Some (Ready p)" using run by (auto simp: running_ready_def)
  obtain s1 where s1: "k_insert l (Event ?t) s = Some s1" "moved (Event ?t) (Some l) s s1"
    using k_insert_moved [OF k free(1) _ l init] free(2) by auto
  note mv = moved_simps [OF s1(2)]
  have nl: "\<not> delayed_list l" "\<And>p. l \<noteq> Ready p" using l by (cases l; simp)+
  have "kinv (xTickCount s) (xNextTaskUnblockTime s) (insert (task_of (Event ?t)) {}) s1"
    by (rule kinv_moved [OF k s1(2)]) (use l free(2) nl in auto)
  then have k1: "kinv_now {?t} s1" by (simp add: mv)
  have c1: "cont s1 (Generic ?t) = Some (Ready p)" using c by (simp add: mv)
  obtain h where s1e: "s1 = s\<lparr>heap := h\<rparr>" using s1(2) unfolding moved_def by blast
  show ?thesis
  proof (cases "n = portMAX_DELAY")
    case True
    obtain m s2 where s2: "k_remove (Generic ?t) s1 = Some (m, s2)" "moved (Generic ?t) None s1 s2"
      "kinv (xTickCount s) (xNextTaskUnblockTime s) {?t} s2"
      using kinv_removed [OF k1 c1] by (auto simp: mv)
    note mv2 = moved_simps [OF s2(2)]
    define s3 where "s3 = k_insert_end SuspendedTaskList (Generic ?t) s2"
    have m3: "moved (Generic ?t) (Some SuspendedTaskList) s2 s3" unfolding s3_def
      by (rule k_insert_end_moved [OF s2(3)]) (use free(2) kinvD(2) [OF s2(3)] in \<open>simp_all add: mv2 mv\<close>)
    note mv3 = moved_simps [OF m3]
    have k3: "kinv (xTickCount s) (xNextTaskUnblockTime s) (insert (task_of (Generic ?t)) {?t}) s3"
      by (rule kinv_moved [OF s2(3) m3]) (use free(2) in \<open>simp_all add: mv2 mv\<close>)
    have st: "settled s3 ?t" by (simp add: settled_def mv3)
    have "kinv_now {} s3" using kinv_settle [OF k3 st] by (simp add: mv3 mv2 mv)
    moreover have "vTaskPlaceOnEventList l n s = Some s3"
      using s1(1) s2(1) True by (simp add: vTaskPlaceOnEventList_def s3_def)
    moreover obtain h2 where "s2 = s1\<lparr>heap := h2\<rparr>" using s2(2) unfolding moved_def by blast
    then have "s3 = s\<lparr>heap := heap s3, xNextTaskUnblockTime := xNextTaskUnblockTime s3\<rparr>"
      by (simp add: s3_def k_insert_end_def s1e)
    ultimately show ?thesis using True
      by (intro exI [of _ s3]) (simp add: mv3 mv2 mv wait_list_def)
  next
    case False
    have f: "pxCurrentTCB s1 = ?t" "xTickCount s1 = xTickCount s" "tcbs s1 = tcbs s"
      "pxDelayedTaskList s1 = pxDelayedTaskList s" "pxOverflowDelayedTaskList s1 = pxOverflowDelayedTaskList s"
      by (simp_all add: mv)
    obtain m s2 s3 where s3: "k_remove (Generic ?t) s1 = Some (m, s2)" "moved (Generic ?t) None s1 s2"
      "prvAddCurrentTaskToDelayedList (xTickCount s + n) s2 = Some s3" "kinv_now ({?t} - {?t}) s3"
      "cont s3 = (cont s1)(Generic ?t := Some (if xTickCount s + n < xTickCount s
         then pxOverflowDelayedTaskList s else pxDelayedTaskList s))"
      "ival s3 = (ival s1)(Generic ?t := xTickCount s + n)"
      "s3 = s1\<lparr>heap := heap s3, xNextTaskUnblockTime := xNextTaskUnblockTime s3\<rparr>"
      using block_current [OF k1, unfolded f, OF free(2) c1 wait_not_last [OF n]] by blast
    have "vTaskPlaceOnEventList l n s = Some s3"
      using s1(1) s3(1,3) False moved_frame(7) [OF s3(2)] f(2) by (simp add: vTaskPlaceOnEventList_def)
    moreover have "s3 = s\<lparr>heap := heap s3, xNextTaskUnblockTime := xNextTaskUnblockTime s3\<rparr>"
      using s3(7) by (simp add: s1e)
    ultimately show ?thesis using s3(4-6) False
      by (intro exI [of _ s3]) (simp add: mv wait_list_def)
  qed
qed

lemma place_on_event_list_restricted_effect:
  assumes k: "kinv_now {} s" and run: "running_ready s" and l: "holds l (Event (pxCurrentTCB s))"
    and init: "listLIST_IS_INITIALISED l (heap s)" and n: "n \<noteq> 0 \<or> xTickCount s \<noteq> portMAX_DELAY"
  shows "\<exists>s'. vTaskPlaceOnEventListRestricted l n s = Some s' \<and> kinv_now {} s' \<and>
    cont s' = (cont s)(Event (pxCurrentTCB s) := Some l, Generic (pxCurrentTCB s) :=
      Some (if xTickCount s + n < xTickCount s then pxOverflowDelayedTaskList s else pxDelayedTaskList s)) \<and>
    ival s' = (ival s)(Generic (pxCurrentTCB s) := xTickCount s + n) \<and>
    s' = s\<lparr>heap := heap s', xNextTaskUnblockTime := xNextTaskUnblockTime s'\<rparr>"
proof -
  let ?t = "pxCurrentTCB s"
  note free = running_event_free [OF k run]
  obtain p where c: "cont s (Generic ?t) = Some (Ready p)" using run by (auto simp: running_ready_def)
  have nl: "\<not> delayed_list l" "\<And>p. l \<noteq> Ready p" using l by (cases l; simp)+
  define s1 where "s1 = k_insert_end l (Event ?t) s"
  have m1: "moved (Event ?t) (Some l) s s1" unfolding s1_def
    by (rule k_insert_end_moved [OF k free(1) _ l init nl(1)]) (use free(2) in simp)
  note mv = moved_simps [OF m1]
  have "kinv (xTickCount s) (xNextTaskUnblockTime s) (insert (task_of (Event ?t)) {}) s1"
    by (rule kinv_moved [OF k m1]) (use l free(2) nl in auto)
  then have k1: "kinv_now {?t} s1" by (simp add: mv)
  have c1: "cont s1 (Generic ?t) = Some (Ready p)" using c by (simp add: mv)
  have f: "pxCurrentTCB s1 = ?t" "xTickCount s1 = xTickCount s" "tcbs s1 = tcbs s"
    "pxDelayedTaskList s1 = pxDelayedTaskList s" "pxOverflowDelayedTaskList s1 = pxOverflowDelayedTaskList s"
    by (simp_all add: mv)
  obtain m s2 s3 where s3: "k_remove (Generic ?t) s1 = Some (m, s2)" "moved (Generic ?t) None s1 s2"
    "prvAddCurrentTaskToDelayedList (xTickCount s + n) s2 = Some s3" "kinv_now ({?t} - {?t}) s3"
    "cont s3 = (cont s1)(Generic ?t := Some (if xTickCount s + n < xTickCount s
       then pxOverflowDelayedTaskList s else pxDelayedTaskList s))"
    "ival s3 = (ival s1)(Generic ?t := xTickCount s + n)"
    "s3 = s1\<lparr>heap := heap s3, xNextTaskUnblockTime := xNextTaskUnblockTime s3\<rparr>"
    using block_current [OF k1, unfolded f, OF free(2) c1 wait_not_last [OF n]] by blast
  have "vTaskPlaceOnEventListRestricted l n s = Some s3"
    using s3(1,3) moved_frame(7) [OF s3(2)] f(2) by (simp add: vTaskPlaceOnEventListRestricted_def s1_def)
  moreover have "s3 = s\<lparr>heap := heap s3, xNextTaskUnblockTime := xNextTaskUnblockTime s3\<rparr>"
    using s3(7) by (simp add: s1_def k_insert_end_def)
  ultimately show ?thesis using s3(4-6) by (intro exI [of _ s3]) (simp add: mv)
qed

text \<open>Waking the first task of an event list.\<close>

lemma remove_from_event_list_effect:
  assumes ok: "kernel_ok s" and cur: "pxCurrentTCB s \<noteq> 0" and hd: "litems s l = Event t # xs"
  shows "\<exists>s'. xTaskRemoveFromEventList l s = Some (prio s t \<ge> prio s (pxCurrentTCB s), s') \<and> kernel_ok s' \<and>
    cont s' = (if uxSchedulerSuspended s = 0 then (cont s)(Event t := None, Generic t := Some (Ready (prio s t)))
      else (cont s)(Event t := Some PendingReadyList)) \<and> ival s' = ival s \<and>
    s' = s\<lparr>heap := heap s', uxTopReadyPriority := uxTopReadyPriority s'\<rparr>"
proof -
  note k = kernel_ok_kinv [OF ok]
  have ct: "cont s (Event t) = Some l" using hd delayed_items(1) [OF k, of "Event t" l] by simp
  have td: "t \<in> dom (tcbs s)" using kinvD(4) [OF k ct] by simp
  have cd: "pxCurrentTCB s \<in> dom (tcbs s)" by (rule kinvD(10) [OF k cur])
  have own: "listGET_OWNER_OF_HEAD_ENTRY l (heap s) = Some t"
    using head_entry(1) [OF kinvD(1) [OF k] hd] kinvD(5) [OF k, of "Event t"] td by simp
  show ?thesis
  proof (cases "uxSchedulerSuspended s = 0")
    case True
    obtain n s1 m s2 s3 where st: "k_remove (Event t) s = Some (n, s1)" "k_remove (Generic t) s1 = Some (m, s2)"
      "prvAddTaskToReadyList t s2 = Some s3" "readied t s s3" "kinv (xTickCount s) (xNextTaskUnblockTime s) {} s3"
      using make_ready_pending [OF k ct] by blast
    note rd = readiedD [OF st(4)] and fr = readied_frame [OF st(4)]
    obtain h where h: "s1 = s\<lparr>heap := h\<rparr>" using st(1) by (auto simp: k_remove_def)
    have "xTaskRemoveFromEventList l s = Some (prio s t \<ge> prio s (pxCurrentTCB s), s3)"
      using own st(1-3) True td cd by (auto simp: xTaskRemoveFromEventList_def h fr)
    moreover have "kernel_ok s3" using ok True st(5) rd(1) by (auto simp: kernel_ok_def pending_def fr)
    moreover obtain h3 p3 where "s3 = s\<lparr>heap := h3, uxTopReadyPriority := p3\<rparr>"
      using st(4) unfolding readied_def by blast
    then have "s3 = s\<lparr>heap := heap s3, uxTopReadyPriority := uxTopReadyPriority s3\<rparr>" by simp
    ultimately show ?thesis using True rd(1,2) by (intro exI [of _ s3]) simp
  next
    case False
    obtain n s1 where s1: "k_remove (Event t) s = Some (n, s1)" "moved (Event t) None s s1"
      "kinv (xTickCount s) (xNextTaskUnblockTime s) {t} s1"
      using kinv_removed [OF k ct] by auto
    note mv = moved_simps [OF s1(2)]
    define s2 where "s2 = k_insert_end PendingReadyList (Event t) s1"
    have m2: "moved (Event t) (Some PendingReadyList) s1 s2" unfolding s2_def
      by (rule k_insert_end_moved [OF s1(3)]) (use td kinvD(2) [OF s1(3)] in \<open>simp_all add: mv\<close>)
    note mv2 = moved_simps [OF m2]
    have k2: "kinv (xTickCount s) (xNextTaskUnblockTime s) (insert (task_of (Event t)) {t}) s2"
      by (rule kinv_moved [OF s1(3) m2]) (use td in \<open>simp_all add: mv\<close>)
    have "settled s t" using kinvD(9) [OF k td] by simp
    then have st2: "settled s2 t" using ct by (auto simp: settled_def mv2 mv)
    have "kinv_now {} s2" using kinv_settle [OF k2 st2] by (simp add: mv2 mv)
    then have "kernel_ok s2" using False by (simp add: kernel_ok_def mv2 mv)
    moreover have "xTaskRemoveFromEventList l s = Some (prio s t \<ge> prio s (pxCurrentTCB s), s2)"
      using own s1(1) False td cd
      by (auto simp: xTaskRemoveFromEventList_def mv mv2 s2_def [symmetric])
    moreover obtain h where "s1 = s\<lparr>heap := h\<rparr>" using s1(2) unfolding moved_def by blast
    then have "s2 = s\<lparr>heap := heap s2, uxTopReadyPriority := uxTopReadyPriority s2\<rparr>"
      by (simp add: s2_def k_insert_end_def)
    ultimately show ?thesis using False by (intro exI [of _ s2]) (simp add: mv2 mv)
  qed
qed

section \<open>Timeouts\<close>

text \<open>Time as an unbounded count of ticks, and its split into the two counters of the kernel.\<close>

definition shows_time :: "nat \<Rightarrow> u32 \<Rightarrow> portTickType \<Rightarrow> bool" where
  "shows_time T overflows tick \<longleftrightarrow> overflows = of_nat (T div 2 ^ 32) \<and> tick = of_nat T"

lemma uint_of_nat_u32: "uint (of_nat n :: u32) = int (n mod 4294967296)"
  by (simp add: uint_nat unat_of_nat take_bit_eq_mod)

lemma elapsed_cases:
  assumes "A \<le> B" and "B div 4294967296 \<le> A div 4294967296 + 1"
  shows "B div 4294967296 = A div 4294967296 \<and> A mod 4294967296 \<le> B mod 4294967296 \<and>
      B - A = B mod 4294967296 - A mod 4294967296 \<or>
    B div 4294967296 = A div 4294967296 + 1 \<and> B - A + A mod 4294967296 = B mod 4294967296 + (4294967296::nat)"
proof -
  have B: "B = B div 4294967296 * 4294967296 + B mod 4294967296"
    and A: "A = A div 4294967296 * 4294967296 + A mod 4294967296" by simp_all
  have "A div 4294967296 \<le> B div 4294967296" using assms(1) by (rule div_le_mono)
  then consider "B div 4294967296 = A div 4294967296" | "B div 4294967296 = A div 4294967296 + 1"
    using assms(2) by linarith
  then show ?thesis
  proof cases
    case 1
    then have "B mod 4294967296 + A = B + A mod 4294967296" using A B by linarith
    then show ?thesis using 1 assms(1) by linarith
  next
    case 2
    then have "B + A mod 4294967296 = A + B mod 4294967296 + 4294967296" using A B by linarith
    then show ?thesis using 2 assms(1) by linarith
  qed
qed

lemma overflow_neq: "(of_nat (q + 1) :: u32) \<noteq> of_nat q"
  by simp

lemma time_out_iff:
  assumes "shows_time A (xOverflowCount to) (xTimeOnEntering to)"
    and "shows_time B (xNumOfOverflows s) (xTickCount s)"
    and "A \<le> B" and "B div 2 ^ 32 \<le> A div 2 ^ 32 + 1" and "w \<noteq> portMAX_DELAY"
  shows "xTaskCheckForTimeOut to w s =
    (if unat w \<le> B - A then (True, to, w) else (False, vTaskSetTimeOutState s, w - of_nat (B - A)))"
proof -
  have e: "xTickCount s - xTimeOnEntering to = of_nat (B - A)"
    using assms(1-3) by (simp add: shows_time_def of_nat_diff)
  have w: "unat w < 4294967296" using uint_u32(2) [of w] by (simp flip: of_nat_less_iff [where 'a = int])
  have lt: "B - A < 4294967296 \<Longrightarrow> of_nat (B - A) < w \<longleftrightarrow> B - A < unat w"
    by (simp add: word_less_nat_alt unat_of_nat_u32)
  have ge: "xTickCount s \<ge> xTimeOnEntering to \<longleftrightarrow> A mod 4294967296 \<le> B mod 4294967296"
    using assms(1,2) by (simp add: shows_time_def word_le_def uint_of_nat_u32)
  have ov: "B div 4294967296 = A div 4294967296 + 1 \<Longrightarrow> xNumOfOverflows s \<noteq> xOverflowCount to"
    "B div 4294967296 = A div 4294967296 \<Longrightarrow> xNumOfOverflows s = xOverflowCount to"
    using assms(1,2) overflow_neq [of "A div 4294967296"] by (simp_all add: shows_time_def)
  have m: "B mod 4294967296 < 4294967296" by simp
  consider (wrapped) "xNumOfOverflows s \<noteq> xOverflowCount to" "xTickCount s \<ge> xTimeOnEntering to" "unat w \<le> B - A"
    | (near) "\<not> (xNumOfOverflows s \<noteq> xOverflowCount to \<and> xTickCount s \<ge> xTimeOnEntering to)" "B - A < 4294967296"
    using elapsed_cases [OF assms(3)] assms(4) w ge ov m by fastforce
  then show ?thesis
  proof cases
    case wrapped
    then show ?thesis using assms(5) by (simp add: xTaskCheckForTimeOut_def)
  next
    case near
    then show ?thesis using assms(5) lt e by (auto simp: xTaskCheckForTimeOut_def not_less)
  qed
qed

end
