(* ===== verification/Task_Control.thy ===== *)
theory Task_Control
  imports Tasks
begin

text \<open>
  Creating, deleting, suspending and resuming tasks, task priorities and priority inheritance
  (FreeRTOS/Source/tasks.c), and starting the scheduler. The address of a new control block and its
  initial bytes come from the allocator and are arguments; address 0 is a failed allocation.
\<close>

section \<open>Creating tasks\<close>

text \<open>The loop of \<open>prvInitialiseTCBVariables\<close> that copies the name; reading past \<open>pcName\<close> is \<open>None\<close>.\<close>

fun copy_name :: "nat \<Rightarrow> nat \<Rightarrow> u8 list \<Rightarrow> u8 list \<Rightarrow> u8 list option" where
  "copy_name 0 x pcName dst = Some dst"
| "copy_name (Suc n) x pcName dst =
     (if x < length pcName
      then (if pcName ! x = 0 then Some (dst[x := pcName ! x])
            else copy_name n (Suc x) pcName (dst[x := pcName ! x]))
      else None)"

definition prvInitialiseTCBVariables ::
    "tid \<Rightarrow> u8 list \<Rightarrow> u8 list \<Rightarrow> uBaseType \<Rightarrow> kernel \<Rightarrow> kernel option" where
  "prvInitialiseTCBVariables t garbage pcName prio0 s = do {
     nm \<leftarrow> copy_name configMAX_TASK_NAME_LEN 0 pcName garbage;
     let nm = nm[configMAX_TASK_NAME_LEN - 1 := 0];
     let p = (if prio0 \<ge> configMAX_PRIORITIES then configMAX_PRIORITIES - 1 else prio0);
     let h = vListInitialiseItem (Generic t) (heap s);
     let h = vListInitialiseItem (Event t) h;
     let h = listSET_LIST_ITEM_OWNER (Generic t) t h;
     let h = listSET_LIST_ITEM_VALUE (Event t) (configMAX_PRIORITIES - p) h;
     let h = listSET_LIST_ITEM_OWNER (Event t) t h;
     Some (s\<lparr>heap := h,
       tcbs := (tcbs s)(t := Some \<lparr>uxPriority = p, uxBasePriority = p, pcTaskName = nm\<rparr>)\<rparr>)
   }"

definition prvInitialiseTaskLists :: "kernel \<Rightarrow> kernel" where
  "prvInitialiseTaskLists s =
     (let h = fold (\<lambda>p. vListInitialise (Ready (of_nat p))) [0..<unat configMAX_PRIORITIES] (heap s);
          h = vListInitialise DelayedTaskList1 h;
          h = vListInitialise DelayedTaskList2 h;
          h = vListInitialise PendingReadyList h;
          h = vListInitialise TasksWaitingTermination h;
          h = vListInitialise SuspendedTaskList h
      in s\<lparr>heap := h, pxDelayedTaskList := DelayedTaskList1, pxOverflowDelayedTaskList := DelayedTaskList2\<rparr>)"

text \<open>The result says whether the task was created (\<open>pdPASS\<close>) or memory was missing.\<close>

definition xTaskGenericCreate ::
    "tid \<Rightarrow> u8 list \<Rightarrow> u8 list \<Rightarrow> uBaseType \<Rightarrow> kernel \<Rightarrow> (bool \<times> kernel) option" where
  "xTaskGenericCreate pxNewTCB garbage pcName prio0 s =
     (if pxNewTCB = 0 then Some (False, s)
      else do {
        s \<leftarrow> prvInitialiseTCBVariables pxNewTCB garbage pcName prio0 s;
        let s = s\<lparr>uxCurrentNumberOfTasks := uxCurrentNumberOfTasks s + 1\<rparr>;
        s \<leftarrow> (if pxCurrentTCB s = 0
              then (let s = s\<lparr>pxCurrentTCB := pxNewTCB\<rparr>
                    in Some (if uxCurrentNumberOfTasks s = 1 then prvInitialiseTaskLists s else s))
              else if \<not> xSchedulerRunning s
              then do {
                cur \<leftarrow> tcbs s (pxCurrentTCB s);
                Some (if uxPriority cur \<le> prio0 then s\<lparr>pxCurrentTCB := pxNewTCB\<rparr> else s)
              }
              else Some s);
        let s = s\<lparr>uxTaskNumber := uxTaskNumber s + 1\<rparr>;
        s \<leftarrow> prvAddTaskToReadyList pxNewTCB s;
        (if xSchedulerRunning s
         then do {
           cur \<leftarrow> tcbs s (pxCurrentTCB s);
           Some (True, if uxPriority cur < prio0 then portYIELD s else s)
         }
         else Some (True, s))
      })"

section \<open>Deleting tasks\<close>

definition vTaskDelete :: "tid \<Rightarrow> kernel \<Rightarrow> kernel option" where
  "vTaskDelete xTaskToDelete s = do {
     let t = prvGetTCBFromHandle xTaskToDelete s;
     (n, s) \<leftarrow> k_remove (Generic t) s;
     s \<leftarrow> remove_event t s;
     let s = k_insert_end TasksWaitingTermination (Generic t) s;
     let s = s\<lparr>uxTasksDeleted := uxTasksDeleted s + 1, uxTaskNumber := uxTaskNumber s + 1\<rparr>;
     Some (if xSchedulerRunning s \<and> t = pxCurrentTCB s then portYIELD s else s)
   }"

text \<open>The memory of the control block goes back to the allocator.\<close>

definition prvDeleteTCB :: "tid \<Rightarrow> kernel \<Rightarrow> kernel" where
  "prvDeleteTCB t s = s\<lparr>tcbs := (tcbs s)(t := None)\<rparr>"

partial_function (option) prvCheckTasksWaitingTermination :: "kernel \<Rightarrow> kernel option" where
  "prvCheckTasksWaitingTermination s =
     (if uxTasksDeleted s > 0
      then do {
        (y, s1) \<leftarrow> xTaskResumeAll (vTaskSuspendAll s);
        (if listLIST_IS_EMPTY TasksWaitingTermination (heap (vTaskSuspendAll s))
         then prvCheckTasksWaitingTermination s1
         else do {
           t \<leftarrow> listGET_OWNER_OF_HEAD_ENTRY TasksWaitingTermination (heap s1);
           (n, s2) \<leftarrow> k_remove (Generic t) s1;
           prvCheckTasksWaitingTermination
             (prvDeleteTCB t (s2\<lparr>uxCurrentNumberOfTasks := uxCurrentNumberOfTasks s2 - 1,
                                uxTasksDeleted := uxTasksDeleted s2 - 1\<rparr>))
         })
      }
      else Some s)"

text \<open>One pass of the loop of the idle task.\<close>

definition prvIdleTask :: "kernel \<Rightarrow> kernel option" where
  "prvIdleTask s = do {
     s \<leftarrow> prvCheckTasksWaitingTermination s;
     Some (if listCURRENT_LIST_LENGTH (Ready tskIDLE_PRIORITY) (heap s) > 1 then portYIELD s else s)
   }"

section \<open>Suspending and resuming tasks\<close>

definition vTaskSuspend :: "tid \<Rightarrow> kernel \<Rightarrow> kernel option" where
  "vTaskSuspend xTaskToSuspend s = do {
     let t = prvGetTCBFromHandle xTaskToSuspend s;
     (n, s) \<leftarrow> k_remove (Generic t) s;
     s \<leftarrow> remove_event t s;
     let s = k_insert_end SuspendedTaskList (Generic t) s;
     (if t = pxCurrentTCB s
      then (if xSchedulerRunning s then Some (portYIELD s)
            else if listCURRENT_LIST_LENGTH SuspendedTaskList (heap s) = uxCurrentNumberOfTasks s
            then Some (s\<lparr>pxCurrentTCB := 0\<rparr>)
            else vTaskSwitchContext s)
      else Some s)
   }"

definition xTaskIsTaskSuspended :: "tid \<Rightarrow> kernel \<Rightarrow> bool" where
  "xTaskIsTaskSuspended t s \<longleftrightarrow>
     listIS_CONTAINED_WITHIN (Some SuspendedTaskList) (Generic t) (heap s) \<and>
     \<not> listIS_CONTAINED_WITHIN (Some PendingReadyList) (Event t) (heap s) \<and>
     listIS_CONTAINED_WITHIN None (Event t) (heap s)"

definition vTaskResume :: "tid \<Rightarrow> kernel \<Rightarrow> kernel option" where
  "vTaskResume t s =
     (if t \<noteq> 0 \<and> t \<noteq> pxCurrentTCB s \<and> xTaskIsTaskSuspended t s
      then do {
        (n, s) \<leftarrow> k_remove (Generic t) s;
        s \<leftarrow> prvAddTaskToReadyList t s;
        c \<leftarrow> tcbs s t;
        cur \<leftarrow> tcbs s (pxCurrentTCB s);
        Some (if uxPriority c \<ge> uxPriority cur then portYIELD s else s)
      }
      else Some s)"

definition xTaskResumeFromISR :: "tid \<Rightarrow> kernel \<Rightarrow> (bool \<times> kernel) option" where
  "xTaskResumeFromISR t s =
     (if xTaskIsTaskSuspended t s
      then (if uxSchedulerSuspended s = 0
            then do {
              c \<leftarrow> tcbs s t;
              cur \<leftarrow> tcbs s (pxCurrentTCB s);
              let xYieldRequired = (uxPriority c \<ge> uxPriority cur);
              (n, s) \<leftarrow> k_remove (Generic t) s;
              s \<leftarrow> prvAddTaskToReadyList t s;
              Some (xYieldRequired, s)
            }
            else Some (False, k_insert_end PendingReadyList (Event t) s))
      else Some (False, s))"

section \<open>Priorities\<close>

definition uxTaskPriorityGet :: "tid \<Rightarrow> kernel \<Rightarrow> uBaseType option" where
  "uxTaskPriorityGet xTask s = map_option uxPriority (tcbs s (prvGetTCBFromHandle xTask s))"

definition set_tcb :: "tid \<Rightarrow> tskTCB \<Rightarrow> kernel \<Rightarrow> kernel" where
  "set_tcb t c s = s\<lparr>tcbs := (tcbs s)(t := Some c)\<rparr>"

definition vTaskPrioritySet :: "tid \<Rightarrow> uBaseType \<Rightarrow> kernel \<Rightarrow> kernel option" where
  "vTaskPrioritySet xTask prio0 s = do {
     let new = (if prio0 \<ge> configMAX_PRIORITIES then configMAX_PRIORITIES - 1 else prio0);
     let t = prvGetTCBFromHandle xTask s;
     c \<leftarrow> tcbs s t;
     (if uxBasePriority c = new then Some s
      else do {
        cur \<leftarrow> tcbs s (pxCurrentTCB s);
        let xYieldRequired =
          (if new > uxBasePriority c then t \<noteq> pxCurrentTCB s \<and> new \<ge> uxPriority cur
           else t = pxCurrentTCB s);
        let used = uxPriority c;
        let c = (if uxBasePriority c = uxPriority c then c\<lparr>uxPriority := new\<rparr> else c);
        let s = set_tcb t (c\<lparr>uxBasePriority := new\<rparr>) s;
        let s = k_set_value (Event t) (configMAX_PRIORITIES - new) s;
        l \<leftarrow> pxReadyTasksLists used;
        s \<leftarrow> (if listIS_CONTAINED_WITHIN (Some l) (Generic t) (heap s)
              then do {
                (n, s) \<leftarrow> k_remove (Generic t) s;
                prvAddTaskToReadyList t s
              }
              else Some s);
        Some (if xYieldRequired then portYIELD s else s)
      })
   }"

definition vTaskPriorityInherit :: "tid \<Rightarrow> kernel \<Rightarrow> kernel option" where
  "vTaskPriorityInherit t s =
     (if t = 0 then Some s
      else do {
        c \<leftarrow> tcbs s t;
        cur \<leftarrow> tcbs s (pxCurrentTCB s);
        (if uxPriority c < uxPriority cur
         then do {
           let s = k_set_value (Event t) (configMAX_PRIORITIES - uxPriority cur) s;
           l \<leftarrow> pxReadyTasksLists (uxPriority c);
           (if listIS_CONTAINED_WITHIN (Some l) (Generic t) (heap s)
            then do {
              (n, s) \<leftarrow> k_remove (Generic t) s;
              prvAddTaskToReadyList t (set_tcb t (c\<lparr>uxPriority := uxPriority cur\<rparr>) s)
            }
            else Some (set_tcb t (c\<lparr>uxPriority := uxPriority cur\<rparr>) s))
         }
         else Some s)
      })"

definition vTaskPriorityDisinherit :: "tid \<Rightarrow> kernel \<Rightarrow> kernel option" where
  "vTaskPriorityDisinherit t s =
     (if t = 0 then Some s
      else do {
        c \<leftarrow> tcbs s t;
        (if uxPriority c \<noteq> uxBasePriority c
         then do {
           (n, s) \<leftarrow> k_remove (Generic t) s;
           let s = set_tcb t (c\<lparr>uxPriority := uxBasePriority c\<rparr>) s;
           let s = k_set_value (Event t) (configMAX_PRIORITIES - uxBasePriority c) s;
           prvAddTaskToReadyList t s
         }
         else Some s)
      })"

section \<open>Starting the scheduler\<close>

text \<open>
  The timer task is created by timers.c, whose \<open>xTimerCreateTimerTask\<close> is an argument; the port
  switches to the first task.
\<close>

definition vTaskStartScheduler ::
    "tid \<Rightarrow> u8 list \<Rightarrow> (kernel \<Rightarrow> (bool \<times> kernel) option) \<Rightarrow> kernel \<Rightarrow> kernel option" where
  "vTaskStartScheduler idle garbage xTimerCreateTimerTask s = do {
     (ok, s) \<leftarrow> xTaskGenericCreate idle garbage [0x49, 0x44, 0x4c, 0x45, 0] tskIDLE_PRIORITY s;
     (ok, s) \<leftarrow> (if ok then xTimerCreateTimerTask s else Some (ok, s));
     (if ok then vTaskSwitchContext (s\<lparr>xSchedulerRunning := True, xTickCount := 0\<rparr>) else Some s)
   }"

definition vTaskEndScheduler :: "kernel \<Rightarrow> kernel" where
  "vTaskEndScheduler s = s\<lparr>xSchedulerRunning := False\<rparr>"

section \<open>Task names\<close>

text \<open>What the copy loop leaves in the buffer.\<close>

lemma copy_name_spec:
  assumes "x + n \<le> length dst" and "0 \<in> set (drop x src) \<or> x + n \<le> length src"
  shows "copy_name n x src dst =
    (let m = min n (Suc (length (takeWhile (\<lambda>b. b \<noteq> 0) (drop x src))))
     in Some (take x dst @ take m (drop x src) @ drop (x + m) dst))"
  using assms
proof (induction n arbitrary: x dst)
  case 0
  then show ?case by simp
next
  case (Suc n)
  have xl: "x < length src" using Suc.prems(2) by (cases "x < length src") auto
  then have dx: "drop x src = src ! x # drop (Suc x) src" by (simp add: Cons_nth_drop_Suc)
  have xd: "x < length dst" using Suc.prems(1) by simp
  show ?case
  proof (cases "src ! x = 0")
    case True
    then show ?thesis using xl xd by (simp add: dx upd_conv_take_nth_drop)
  next
    case False
    have "0 \<in> set (drop (Suc x) src) \<or> Suc x + n \<le> length src" using Suc.prems(2) False by (auto simp: dx)
    then have "copy_name n (Suc x) src (dst[x := src ! x]) =
        (let m = min n (Suc (length (takeWhile (\<lambda>b. b \<noteq> 0) (drop (Suc x) src))))
         in Some (take (Suc x) (dst[x := src ! x]) @ take m (drop (Suc x) src) @ drop (Suc x + m) (dst[x := src ! x])))"
      using Suc.prems(1) by (intro Suc.IH) simp_all
    then show ?thesis using False xl xd by (simp add: dx Let_def take_Suc_conv_app_nth)
  qed
qed

lemma terminated_split: "0 \<in> set (xs :: u8 list) \<Longrightarrow> \<exists>ys. xs = takeWhile (\<lambda>b. b \<noteq> 0) xs @ 0 # ys"
  by (induction xs) auto

lemma takeWhile_terminated:
  "\<forall>b\<in>set ys. b \<noteq> 0 \<Longrightarrow> takeWhile (\<lambda>b. b \<noteq> 0) (ys @ 0 # zs) = (ys :: u8 list)"
  by (induction ys) auto

lemma copy_name_some:
  assumes "length garbage = configMAX_TASK_NAME_LEN" and "0 \<in> set pcName"
  obtains nm where "copy_name configMAX_TASK_NAME_LEN 0 pcName garbage = Some nm"
    "length nm = configMAX_TASK_NAME_LEN"
    "takeWhile (\<lambda>b. b \<noteq> 0) (nm[configMAX_TASK_NAME_LEN - 1 := 0]) =
       take (configMAX_TASK_NAME_LEN - 1) (takeWhile (\<lambda>b. b \<noteq> 0) pcName)"
proof -
  let ?tw = "takeWhile (\<lambda>b. b \<noteq> 0) pcName" and ?L = configMAX_TASK_NAME_LEN
  define m where "m = min ?L (Suc (length ?tw))"
  define nm where "nm = take m pcName @ drop m garbage"
  obtain rest where src: "pcName = ?tw @ 0 # rest"
    using terminated_split [OF assms(2)] by blast
  have "length pcName = length ?tw + Suc (length rest)" using arg_cong [OF src, of length] by simp
  then have lm: "m \<le> length pcName" "m \<le> length garbage" using assms(1) by (simp_all add: m_def)
  have len: "length nm = ?L" using lm assms(1) by (simp add: nm_def)
  have "copy_name ?L 0 pcName garbage = Some nm"
    using copy_name_spec [of 0 ?L garbage pcName] assms by (simp add: Let_def nm_def m_def)
  moreover have "takeWhile (\<lambda>b. b \<noteq> 0) (nm[?L - 1 := 0]) = take (?L - 1) ?tw"
  proof (cases "Suc (length ?tw) < ?L")
    case True
    then have m: "m = Suc (length ?tw)" by (simp add: m_def)
    have "nm = ?tw @ 0 # drop m garbage" unfolding nm_def m by (subst src) simp
    moreover obtain k where "?L - 1 = length ?tw + Suc k"
      using True less_iff_Suc_add [of "length ?tw" "?L - 1"] by auto
    ultimately have "nm[?L - 1 := 0] = ?tw @ 0 # (drop m garbage)[k := 0]"
      by (simp add: list_update_append)
    then show ?thesis using True by (auto simp: takeWhile_append dest: set_takeWhileD)
  next
    case False
    then have m: "m = ?L" by (simp add: m_def)
    have "take (?L - 1) nm = take (?L - 1) ?tw" unfolding nm_def m
      by (subst src) (use False in simp)
    then have "nm[?L - 1 := 0] = take (?L - 1) ?tw @ [0]"
      using len by (simp add: upd_conv_take_nth_drop configMAX_TASK_NAME_LEN_def)
    moreover have "\<forall>b \<in> set (take (?L - 1) ?tw). b \<noteq> 0"
      by (auto dest!: in_set_takeD set_takeWhileD)
    ultimately show ?thesis using takeWhile_terminated [of "take (?L - 1) ?tw" "[]"] by (simp only:)
  qed
  ultimately show ?thesis using that len by blast
qed

section \<open>Creation\<close>

text \<open>Priorities above the largest are cut to it.\<close>

definition clamp :: "uBaseType \<Rightarrow> uBaseType" where
  "clamp p = (if p \<ge> configMAX_PRIORITIES then configMAX_PRIORITIES - 1 else p)"

lemma clamp_min: "clamp p = min p 14"
  by (cases "p \<le> 14") (auto simp: clamp_def configMAX_PRIORITIES_def min_def word_le_nat_alt)

lemma clamp_less: "clamp p < configMAX_PRIORITIES"
  by (simp add: clamp_def configMAX_PRIORITIES_def not_le)

lemma card_fresh:
  assumes "m t = None"
  shows "card (dom (m(t := Some c))) = Suc (card (dom (m :: u32 \<Rightarrow> 'a option)))"
  using assms by (simp add: card_insert_if domIff)

text \<open>A fresh control block becomes known to the kernel, in no list yet.\<close>

lemma init_tcb:
  assumes free: "cont s (Generic t) = None" "cont s (Event t) = None" and wf: "heap_wf (heap s)"
    and g: "length garbage = configMAX_TASK_NAME_LEN" "0 \<in> set pcName"
  obtains s1 c where "prvInitialiseTCBVariables t garbage pcName p s = Some s1"
    "tcbs s1 = (tcbs s)(t := Some c)" "uxPriority c = clamp p" "uxBasePriority c = clamp p"
    "takeWhile (\<lambda>b. b \<noteq> 0) (pcTaskName c) = take 15 (takeWhile (\<lambda>b. b \<noteq> 0) pcName)"
    "heap_wf (heap s1)" "cont s1 = cont s" "litems s1 = litems s"
    "pvOwner (heap s1) = (pvOwner (heap s))(Generic t := t, Event t := t)"
    "ival s1 = (ival s)(Event t := configMAX_PRIORITIES - clamp p)"
    "\<And>l. listLIST_IS_INITIALISED l (heap s1) = listLIST_IS_INITIALISED l (heap s)"
    "s1 = s\<lparr>heap := heap s1, tcbs := tcbs s1\<rparr>"
proof -
  obtain nm where nm: "copy_name configMAX_TASK_NAME_LEN 0 pcName garbage = Some nm"
    "takeWhile (\<lambda>b. b \<noteq> 0) (nm[configMAX_TASK_NAME_LEN - 1 := 0]) =
       take (configMAX_TASK_NAME_LEN - 1) (takeWhile (\<lambda>b. b \<noteq> 0) pcName)"
    using copy_name_some [OF g] by blast
  have init: "vListInitialiseItem (Event t) (vListInitialiseItem (Generic t) (heap s)) = heap s"
    using free wf by (simp add: initialise_item_effect)
  define h where "h = listSET_LIST_ITEM_OWNER (Event t) t (listSET_LIST_ITEM_VALUE (Event t)
    (configMAX_PRIORITIES - clamp p) (listSET_LIST_ITEM_OWNER (Generic t) t (heap s)))"
  define c where "c = \<lparr>uxPriority = clamp p, uxBasePriority = clamp p,
    pcTaskName = nm[configMAX_TASK_NAME_LEN - 1 := 0]\<rparr>"
  have "prvInitialiseTCBVariables t garbage pcName p s = Some (s\<lparr>heap := h, tcbs := (tcbs s)(t := Some c)\<rparr>)"
    using nm(1) init by (simp add: prvInitialiseTCBVariables_def Let_def h_def c_def clamp_def)
  then show ?thesis
    by (rule that [of _ c]) (use wf nm(2) in \<open>simp_all add: c_def h_def configMAX_TASK_NAME_LEN_def\<close>)
qed

lemma kinv_new_tcb:
  assumes k: "kinv T N X s" and t: "t \<noteq> 0" "tcbs s t = None"
    and s1: "tcbs s1 = (tcbs s)(t := Some c)" "uxPriority c < configMAX_PRIORITIES"
      "uxBasePriority c < configMAX_PRIORITIES" "heap_wf (heap s1)" "cont s1 = cont s" "litems s1 = litems s"
      "pvOwner (heap s1) = (pvOwner (heap s))(Generic t := t, Event t := t)"
      "ival s1 = (ival s)(Event t := v)"
      "\<And>l. listLIST_IS_INITIALISED l (heap s1) = listLIST_IS_INITIALISED l (heap s)"
    and env: "pxCurrentTCB s1 = pxCurrentTCB s \<or> pxCurrentTCB s1 = t"
      "uxCurrentNumberOfTasks s1 = uxCurrentNumberOfTasks s + 1"
      "uxTopReadyPriority s1 = uxTopReadyPriority s" "pxDelayedTaskList s1 = pxDelayedTaskList s"
      "pxOverflowDelayedTaskList s1 = pxOverflowDelayedTaskList s"
  shows "kinv T N (insert t X) s1"
proof -
  have free: "cont s (Generic t) = None" "cont s (Event t) = None"
    using kinvD(4) [OF k, of "Generic t"] kinvD(4) [OF k, of "Event t"] t(2)
    by (auto simp: domIff) (metis not_Some_eq)+
  have "lists_inv s1" unfolding lists_inv_def s1
  proof (intro conjI allI impI)
    show "heap_wf (heap s1)" by (rule s1(4))
    show "listLIST_IS_INITIALISED l (heap s)" if "kernel_list l" for l by (rule kinvD(2) [OF k that])
    show "holds l i" if "cont s i = Some l" for i l by (rule kinvD(3) [OF k that])
    show "task_of i \<in> dom ((tcbs s)(t := Some c))" if "cont s i = Some l" for i l
      using kinvD(4) [OF k that] by simp
    show "((pvOwner (heap s))(Generic t := t, Event t := t)) i = task_of i"
      if "task_of i \<in> dom ((tcbs s)(t := Some c))" for i
      using that kinvD(5) [OF k, of i] by (cases i) auto
  qed
  moreover have "tcbs_inv s1"
    using k t s1(2,3) env(1,2) card_fresh [of "tcbs s" t c]
    by (auto simp: kinv_def tcbs_inv_def s1(1))
  moreover have "top_inv s1" using k by (simp add: kinv_def top_inv_def s1 env)
  moreover have "time_inv T N s1"
  proof -
    have mp: "map (ival s1) (litems s l) = map (ival s) (litems s l)" if "delayed_list l" for l
      using delayed_items(2) [OF k that] by (auto simp: s1)
    have "sorted (map (ival s1) (litems s1 l))" if "delayed_list l" for l
      using kinv_delayed(5) [OF k that] unfolding s1(6) mp [OF that] .
    moreover have "ival s1 (Generic u) = ival s (Generic u)" for u by (simp add: s1)
    ultimately show ?thesis using k by (simp add: kinv_def time_inv_def wake_ok_def s1(5) env)
  qed
  moreover have "settled s1 u" if "settled s u" "u \<noteq> t" for u
    using that by (simp add: settled_def s1)
  ultimately show ?thesis using k by (auto simp: kinv_def s1(1))
qed

text \<open>Setting up the lists of the kernel.\<close>

lemma initialise_empty:
  assumes "heap_wf h" and "\<And>l. list_items h l = []"
  shows "heap_wf (fold vListInitialise ls h) \<and> (\<forall>l. list_items (fold vListInitialise ls h) l = []) \<and>
    pvContainer (fold vListInitialise ls h) = pvContainer h \<and> pvOwner (fold vListInitialise ls h) = pvOwner h \<and>
    item_value (fold vListInitialise ls h) = item_value h \<and>
    (\<forall>l. listLIST_IS_INITIALISED l (fold vListInitialise ls h) \<longleftrightarrow> l \<in> set ls \<or> listLIST_IS_INITIALISED l h)"
  using assms
proof (induction ls arbitrary: h)
  case Nil
  then show ?case by simp
next
  case (Cons m ls)
  show ?case using Cons.IH [of "vListInitialise m h"] vListInitialise_effect [OF Cons.prems(1,2)] Cons.prems(2)
    by (auto simp del: vListInitialise_frame(1)) (auto simp: fun_eq_iff)
qed

lemma prvInitialiseTaskLists_fold:
  "prvInitialiseTaskLists s = s\<lparr>heap := fold vListInitialise
     (map (\<lambda>p. Ready (of_nat p)) [0..<15] @ [DelayedTaskList1, DelayedTaskList2, PendingReadyList,
       TasksWaitingTermination, SuspendedTaskList]) (heap s),
     pxDelayedTaskList := DelayedTaskList1, pxOverflowDelayedTaskList := DelayedTaskList2\<rparr>"
proof -
  have "unat configMAX_PRIORITIES = 15" by (simp add: configMAX_PRIORITIES_def)
  then show ?thesis by (simp add: prvInitialiseTaskLists_def Let_def fold_map comp_def del: upt_Suc)
qed

lemma kernel_lists_covered:
  assumes "kernel_list l"
  shows "l \<in> set (map (\<lambda>p. Ready (of_nat p)) [0..<15] @ [DelayedTaskList1, DelayedTaskList2, PendingReadyList,
       TasksWaitingTermination, SuspendedTaskList])"
proof (cases l)
  case (Ready p)
  then have "p < 15" using assms by (simp add: configMAX_PRIORITIES_def)
  then have "unat p < 15" by (simp add: word_less_nat_alt)
  then show ?thesis using Ready by (auto simp del: upt_Suc intro!: image_eqI [of _ _ "unat p"])
qed (use assms in auto)

lemma kernel_ok_frame:
  assumes "kernel_ok s" and "kinv_now {} s'" and "uxSchedulerSuspended s' = uxSchedulerSuspended s"
    and "uxPendedTicks s' = uxPendedTicks s" and "\<And>t. pending s' t \<Longrightarrow> pending s t"
  shows "kernel_ok s'"
  using assms by (auto simp: kernel_ok_def)

lemma fresh_free:
  assumes "kinv T N X s" and "tcbs s t = None"
  shows "cont s (Generic t) = None" "cont s (Event t) = None"
  using kinvD(4) [OF assms(1), of "Generic t"] kinvD(4) [OF assms(1), of "Event t"] assms(2)
  by (auto simp: domIff) (metis not_Some_eq)+

text \<open>What a created task looks like in the new state.\<close>

definition created :: "tid \<Rightarrow> u8 list \<Rightarrow> uBaseType \<Rightarrow> kernel \<Rightarrow> kernel \<Rightarrow> bool" where
  "created t nm p s s' \<longleftrightarrow>
     (\<exists>c. tcbs s' = (tcbs s)(t := Some c) \<and> uxPriority c = clamp p \<and> uxBasePriority c = clamp p \<and>
        takeWhile (\<lambda>b. b \<noteq> 0) (pcTaskName c) = take 15 (takeWhile (\<lambda>b. b \<noteq> 0) nm)) \<and>
     cont s' = (cont s)(Generic t := Some (Ready (clamp p))) \<and>
     ival s' = (ival s)(Event t := configMAX_PRIORITIES - clamp p) \<and>
     uxCurrentNumberOfTasks s' = uxCurrentNumberOfTasks s + 1 \<and>
     uxSchedulerSuspended s' = uxSchedulerSuspended s \<and> uxPendedTicks s' = uxPendedTicks s \<and>
     xSchedulerRunning s' = xSchedulerRunning s \<and> xTickCount s' = xTickCount s \<and>
     uxTasksDeleted s' = uxTasksDeleted s \<and>
     (\<forall>l. listLIST_IS_INITIALISED l (heap s) \<longrightarrow> listLIST_IS_INITIALISED l (heap s'))"

lemma create_effect:
  assumes ok: "kernel_ok s" and cur: "pxCurrentTCB s \<noteq> 0" and t: "t \<noteq> 0" "tcbs s t = None"
    and g: "length garbage = configMAX_TASK_NAME_LEN" "0 \<in> set nm"
  shows "\<exists>s'. xTaskGenericCreate t garbage nm p s = Some (True, s') \<and> kernel_ok s' \<and> created t nm p s s' \<and>
    pxCurrentTCB s' = (if \<not> xSchedulerRunning s \<and> prio s (pxCurrentTCB s) \<le> p then t else pxCurrentTCB s) \<and>
    (xSchedulerRunning s \<longrightarrow> prio s (pxCurrentTCB s) < p \<longrightarrow> pending_soft_sv s')"
proof -
  note k = kernel_ok_kinv [OF ok]
  note free = fresh_free [OF k t(2)]
  obtain s1 c where s1: "prvInitialiseTCBVariables t garbage nm p s = Some s1"
    "tcbs s1 = (tcbs s)(t := Some c)" "uxPriority c = clamp p" "uxBasePriority c = clamp p"
    "takeWhile (\<lambda>b. b \<noteq> 0) (pcTaskName c) = take 15 (takeWhile (\<lambda>b. b \<noteq> 0) nm)"
    "heap_wf (heap s1)" "cont s1 = cont s" "litems s1 = litems s"
    "pvOwner (heap s1) = (pvOwner (heap s))(Generic t := t, Event t := t)"
    "ival s1 = (ival s)(Event t := configMAX_PRIORITIES - clamp p)"
    "\<And>l. listLIST_IS_INITIALISED l (heap s1) = listLIST_IS_INITIALISED l (heap s)"
    "s1 = s\<lparr>heap := heap s1, tcbs := tcbs s1\<rparr>"
    by (rule init_tcb [OF free kinvD(1) [OF k] g, where p = p]) (rule that)
  define cu where "cu = (if \<not> xSchedulerRunning s \<and> prio s (pxCurrentTCB s) \<le> p then t else pxCurrentTCB s)"
  define s2 where "s2 = s1\<lparr>uxCurrentNumberOfTasks := uxCurrentNumberOfTasks s + 1, pxCurrentTCB := cu,
    uxTaskNumber := uxTaskNumber s + 1\<rparr>"
  obtain h1 m1 where s1e: "s1 = s\<lparr>heap := h1, tcbs := m1\<rparr>" using s1(12) by blast
  obtain d where d: "tcbs s (pxCurrentTCB s) = Some d" using kinvD(10) [OF k cur] by blast
  have ct: "pxCurrentTCB s \<noteq> t" using d t(2) by auto
  have k2: "kinv_now {t} s2"
  proof -
    have "kinv (xTickCount s) (xNextTaskUnblockTime s) (insert t {}) s2"
      by (rule kinv_new_tcb [OF k t, of s2 c])
        (use s1(2-11) clamp_less [of p] in \<open>simp_all add: s2_def cu_def\<close>, simp_all add: s1e)
    then show ?thesis by (simp add: s2_def s1e)
  qed
  have f2: "tcbs s2 t = Some c" "cont s2 (Generic t) = None" "cont s2 (Event t) = None"
    using free s1(2,7) by (simp_all add: s2_def)
  obtain s3 where s3: "prvAddTaskToReadyList t s2 = Some s3" "kinv (xTickCount s2) (xNextTaskUnblockTime s2) ({t} - {t}) s3"
    "cont s3 = (cont s2)(Generic t := Some (Ready (uxPriority c)))" "ival s3 = ival s2"
    "s3 = s2\<lparr>heap := heap s3, uxTopReadyPriority := max (uxTopReadyPriority s2) (uxPriority c)\<rparr>"
    using add_ready [OF k2 f2] by blast
  obtain h3 p3 where s3e: "s3 = s2\<lparr>heap := h3, uxTopReadyPriority := p3\<rparr>" using s3(5) by blast
  have k3: "kinv_now {} s3" using s3(2) by (simp add: s3e)
  define s4 where "s4 = (if xSchedulerRunning s \<and> prio s (pxCurrentTCB s) < p then portYIELD s3 else s3)"
  have res: "xTaskGenericCreate t garbage nm p s = Some (True, s4)"
    using t(1) s1(1) cur d ct s1(2) s3(1)
    by (auto simp: xTaskGenericCreate_def Let_def s1e s2_def cu_def s4_def s3e)
  have in3: "listLIST_IS_INITIALISED l (heap s3) = listLIST_IS_INITIALISED l (heap s2)" for l
    using s3(1) by (auto simp: prvAddTaskToReadyList_def pxReadyTasksLists_def taskRECORD_READY_PRIORITY_def
        k_insert_end_def listLIST_IS_INITIALISED_def frame split: bind_splits if_splits)
  have f4: "heap s4 = heap s3" "tcbs s4 = tcbs s3" "uxCurrentNumberOfTasks s4 = uxCurrentNumberOfTasks s3"
    "uxSchedulerSuspended s4 = uxSchedulerSuspended s3" "uxPendedTicks s4 = uxPendedTicks s3"
    "xSchedulerRunning s4 = xSchedulerRunning s3" "xTickCount s4 = xTickCount s3" "pxCurrentTCB s4 = pxCurrentTCB s3"
    "uxTasksDeleted s4 = uxTasksDeleted s3"
    by (simp_all add: s4_def portYIELD_def)
  have "kinv_now {} s4" by (rule kinv_now_frame [OF k3]) (simp_all add: s4_def portYIELD_def)
  moreover have c4: "cont s4 = (cont s)(Generic t := Some (Ready (clamp p)))"
    using s3(3) s1(3,7) by (simp add: f4(1) s2_def)
  ultimately have "kernel_ok s4"
    by (intro kernel_ok_frame [OF ok]) (simp_all add: f4 s3e s2_def s1e pending_def)
  moreover have "created t nm p s s4" unfolding created_def
    using s1(2-5,10,11) s3(4) c4 in3 by (simp add: f4(1)) (simp add: f4 s3e s2_def, simp add: s1e, blast)
  moreover have "pxCurrentTCB s4 = cu" by (simp add: f4 s3e s2_def)
  moreover have "xSchedulerRunning s \<longrightarrow> prio s (pxCurrentTCB s) < p \<longrightarrow> pending_soft_sv s4"
    by (simp add: s4_def portYIELD_def)
  ultimately show ?thesis using res unfolding cu_def by blast
qed

text \<open>Before the first task: no task, no item in a list.\<close>

definition boot_ok :: "kernel \<Rightarrow> bool" where
  "boot_ok s \<longleftrightarrow> tcbs s = (\<lambda>_. None) \<and> heap_wf (heap s) \<and> cont s = (\<lambda>_. None) \<and>
     pxCurrentTCB s = 0 \<and> uxCurrentNumberOfTasks s = 0 \<and> uxTopReadyPriority s < configMAX_PRIORITIES \<and>
     \<not> xSchedulerRunning s \<and> uxSchedulerSuspended s = 0 \<and> uxPendedTicks s = 0"

lemma kernel_reset_boot: "boot_ok kernel_reset"
  by (simp add: boot_ok_def kernel_reset_def configMAX_PRIORITIES_def tskIDLE_PRIORITY_def fun_eq_iff)

lemma boot_empty: "boot_ok s \<Longrightarrow> litems s l = []"
  using heap_wf_container [of "heap s" _ l] by (auto simp: boot_ok_def) (metis list.set_intros(1) neq_Nil_conv)

lemma create_first_effect:
  assumes boot: "boot_ok s" and t: "t \<noteq> 0"
    and g: "length garbage = configMAX_TASK_NAME_LEN" "0 \<in> set nm"
  shows "\<exists>s'. xTaskGenericCreate t garbage nm p s = Some (True, s') \<and> kernel_ok s' \<and> created t nm p s s' \<and>
    pxCurrentTCB s' = t"
proof -
  have b: "tcbs s = (\<lambda>_. None)" "heap_wf (heap s)" "cont s = (\<lambda>_. None)" "pxCurrentTCB s = 0"
    "uxCurrentNumberOfTasks s = 0" "uxTopReadyPriority s < configMAX_PRIORITIES"
    "\<not> xSchedulerRunning s" "uxSchedulerSuspended s = 0" "uxPendedTicks s = 0"
    using boot by (auto simp: boot_ok_def)
  obtain s1 c where s1: "prvInitialiseTCBVariables t garbage nm p s = Some s1"
    "tcbs s1 = (tcbs s)(t := Some c)" "uxPriority c = clamp p" "uxBasePriority c = clamp p"
    "takeWhile (\<lambda>b. b \<noteq> 0) (pcTaskName c) = take 15 (takeWhile (\<lambda>b. b \<noteq> 0) nm)"
    "heap_wf (heap s1)" "cont s1 = cont s" "litems s1 = litems s"
    "pvOwner (heap s1) = (pvOwner (heap s))(Generic t := t, Event t := t)"
    "ival s1 = (ival s)(Event t := configMAX_PRIORITIES - clamp p)"
    "\<And>l. listLIST_IS_INITIALISED l (heap s1) = listLIST_IS_INITIALISED l (heap s)"
    "s1 = s\<lparr>heap := heap s1, tcbs := tcbs s1\<rparr>"
    by (rule init_tcb [of s t garbage nm p]) (use b g in auto)
  obtain h1 m1 where s1e: "s1 = s\<lparr>heap := h1, tcbs := m1\<rparr>" using s1(12) by blast
  define ls where "ls = map (\<lambda>p. Ready (of_nat p)) [0..<15] @ [DelayedTaskList1, DelayedTaskList2,
    PendingReadyList, TasksWaitingTermination, SuspendedTaskList]"
  define h2 where "h2 = fold vListInitialise ls h1"
  have h2: "heap_wf h2" "\<And>l. list_items h2 l = []" "pvContainer h2 = (\<lambda>_. None)"
    "pvOwner h2 = (pvOwner (heap s))(Generic t := t, Event t := t)"
    "item_value h2 = (ival s)(Event t := configMAX_PRIORITIES - clamp p)"
    "\<And>l. listLIST_IS_INITIALISED l h2 \<longleftrightarrow> l \<in> set ls \<or> listLIST_IS_INITIALISED l (heap s)"
    using initialise_empty [of h1 ls] s1(6-11) boot_empty [OF boot] b(3) by (simp_all add: h2_def s1e)
  define s2 where "s2 = s1\<lparr>uxCurrentNumberOfTasks := 1, pxCurrentTCB := t, heap := h2,
    pxDelayedTaskList := DelayedTaskList1, pxOverflowDelayedTaskList := DelayedTaskList2,
    uxTaskNumber := uxTaskNumber s + 1\<rparr>"
  have cov: "kernel_list l \<Longrightarrow> listLIST_IS_INITIALISED l h2" for l
    using kernel_lists_covered [of l] h2(6) unfolding ls_def by blast
  have own: "pvOwner h2 i = task_of i" if "task_of i = t" for i
    using h2(4) that by (cases i) auto
  have tc: "tcbs s1 = (\<lambda>_. None)(t := Some c)" using s1(2) b(1) by simp
  have k2: "kinv_now {t} s2"
    unfolding kinv_def lists_inv_def tcbs_inv_def top_inv_def time_inv_def
    using h2(1-3) cov own t clamp_less [of p] s1(3,4) b(6) tc
    by (simp add: s2_def) (simp add: s1e)
  have f2: "tcbs s2 t = Some c" "cont s2 (Generic t) = None" "cont s2 (Event t) = None"
    using h2(3) s1(2) by (simp_all add: s2_def)
  obtain s3 where s3: "prvAddTaskToReadyList t s2 = Some s3" "kinv (xTickCount s2) (xNextTaskUnblockTime s2) ({t} - {t}) s3"
    "cont s3 = (cont s2)(Generic t := Some (Ready (uxPriority c)))" "ival s3 = ival s2"
    "s3 = s2\<lparr>heap := heap s3, uxTopReadyPriority := max (uxTopReadyPriority s2) (uxPriority c)\<rparr>"
    using add_ready [OF k2 f2] by blast
  obtain h3 p3 where s3e: "s3 = s2\<lparr>heap := h3, uxTopReadyPriority := p3\<rparr>" using s3(5) by blast
  have k3: "kinv_now {} s3" using s3(2) by (simp add: s3e)
  have res: "xTaskGenericCreate t garbage nm p s = Some (True, s3)"
    using t s1(1) b(4,5,7) s3(1)
    by (simp add: xTaskGenericCreate_def Let_def s1e s2_def s3e prvInitialiseTaskLists_fold h2_def ls_def)
  have in3: "listLIST_IS_INITIALISED l (heap s3) = listLIST_IS_INITIALISED l (heap s2)" for l
    using s3(1) by (auto simp: prvAddTaskToReadyList_def pxReadyTasksLists_def taskRECORD_READY_PRIORITY_def
        k_insert_end_def listLIST_IS_INITIALISED_def frame split: bind_splits if_splits)
  have c3: "cont s3 = (cont s)(Generic t := Some (Ready (clamp p)))"
    using s3(3) s1(3) h2(3) b(3) by (simp add: s2_def)
  then have "kernel_ok s3" using k3 b(3,8,9) by (simp add: kernel_ok_def pending_def s3e s2_def s1e)
  moreover have "created t nm p s s3" unfolding created_def
    using s1(2-5) h2(5,6) s3(4) c3 in3 b(5) by (simp add: s2_def) (simp add: s3e s2_def, simp add: s1e, blast)
  ultimately show ?thesis using res by (simp add: s3e s2_def)
qed

section \<open>Deleting, suspending, resuming\<close>

text \<open>The common part of \<open>vTaskDelete\<close> and \<open>vTaskSuspend\<close>.\<close>

lemma park_task:
  assumes k: "kinv_now {} s" and t: "t \<in> dom (tcbs s)"
    and L: "L = SuspendedTaskList \<or> L = TasksWaitingTermination"
  shows "\<exists>n s1 s2 s3. k_remove (Generic t) s = Some (n, s1) \<and> remove_event t s1 = Some s2 \<and>
    s3 = k_insert_end L (Generic t) s2 \<and> kinv_now {} s3 \<and>
    cont s3 = (cont s)(Event t := None, Generic t := Some L) \<and> ival s3 = ival s \<and> s3 = s\<lparr>heap := heap s3\<rparr>"
proof -
  obtain l where c: "cont s (Generic t) = Some l" using running_contained [OF k t] by auto
  obtain n s1 where s1: "k_remove (Generic t) s = Some (n, s1)" "moved (Generic t) None s s1"
    "kinv (xTickCount s) (xNextTaskUnblockTime s) {t} s1"
    using kinv_removed [OF k c] by auto
  obtain s2 where s2: "remove_event t s1 = Some s2" "moved (Event t) None s1 s2"
    "kinv (xTickCount s) (xNextTaskUnblockTime s) (insert t {t}) s2"
    using remove_event_moved [OF s1(3)] by blast
  note mv = moved_simps [OF s1(2)] moved_simps [OF s2(2)]
  define s3 where "s3 = k_insert_end L (Generic t) s2"
  have hl: "holds L (Generic t)" "\<not> delayed_list L" "kernel_list L" "\<And>p. L \<noteq> Ready p" using L by auto
  have m3: "moved (Generic t) (Some L) s2 s3" unfolding s3_def
    by (rule k_insert_end_moved [OF s2(3)]) (use t hl kinvD(2) [OF s2(3)] in \<open>simp_all add: mv\<close>)
  note mv3 = moved_simps [OF m3]
  have k3: "kinv (xTickCount s) (xNextTaskUnblockTime s) (insert (task_of (Generic t)) (insert t {t})) s3"
    by (rule kinv_moved [OF s2(3) m3]) (use t hl in \<open>simp_all add: mv\<close>)
  have st: "settled s3 t" using hl(4) by (simp add: settled_def mv3 mv)
  have "kinv_now {} s3" using kinv_settle [OF k3 st] by (simp add: mv3 mv)
  moreover obtain h1 h2 where "s1 = s\<lparr>heap := h1\<rparr>" "s2 = s1\<lparr>heap := h2\<rparr>"
    using s1(2) s2(2) unfolding moved_def by blast
  then have "s3 = s\<lparr>heap := heap s3\<rparr>" by (simp add: s3_def k_insert_end_def)
  ultimately show ?thesis using s1(1) s2(1)
    by (intro exI [of _ n] exI [of _ s1] exI [of _ s2] exI [of _ s3])
      (simp add: s3_def [symmetric] mv3 mv fun_upd_twist)
qed

lemma vTaskDelete_effect:
  assumes ok: "kernel_ok s" and h: "prvGetTCBFromHandle h s \<in> dom (tcbs s)"
  defines "t \<equiv> prvGetTCBFromHandle h s"
  shows "\<exists>s'. vTaskDelete h s = Some s' \<and> kernel_ok s' \<and>
    cont s' = (cont s)(Event t := None, Generic t := Some TasksWaitingTermination) \<and> ival s' = ival s \<and>
    uxTasksDeleted s' = uxTasksDeleted s + 1 \<and> tcbs s' = tcbs s \<and> pxCurrentTCB s' = pxCurrentTCB s \<and>
    uxSchedulerSuspended s' = uxSchedulerSuspended s \<and>
    (xSchedulerRunning s \<longrightarrow> t = pxCurrentTCB s \<longrightarrow> pending_soft_sv s')"
proof -
  obtain n s1 s2 s3 where st: "k_remove (Generic t) s = Some (n, s1)" "remove_event t s1 = Some s2"
    "s3 = k_insert_end TasksWaitingTermination (Generic t) s2" "kinv_now {} s3"
    "cont s3 = (cont s)(Event t := None, Generic t := Some TasksWaitingTermination)" "ival s3 = ival s"
    "s3 = s\<lparr>heap := heap s3\<rparr>"
    using park_task [OF kernel_ok_kinv [OF ok] h, of TasksWaitingTermination] unfolding t_def by blast
  obtain hp where e: "s3 = s\<lparr>heap := hp\<rparr>" using st(7) by blast
  define s4 where "s4 = s3\<lparr>uxTasksDeleted := uxTasksDeleted s3 + 1, uxTaskNumber := uxTaskNumber s3 + 1\<rparr>"
  define s5 where "s5 = (if xSchedulerRunning s4 \<and> t = pxCurrentTCB s4 then portYIELD s4 else s4)"
  have "vTaskDelete h s = Some s5"
    using st(1-3) by (simp add: vTaskDelete_def t_def [symmetric] Let_def s4_def s5_def)
  moreover have "kinv_now {} s5" by (rule kinv_now_frame [OF st(4)]) (simp_all add: s5_def s4_def portYIELD_def)
  then have "kernel_ok s5"
    by (rule kernel_ok_frame [OF ok])
      (use st(5) in \<open>auto simp: s5_def s4_def e portYIELD_def pending_def split: if_splits\<close>)
  ultimately show ?thesis using st(5,6)
    by (intro exI [of _ s5]) (simp add: s5_def s4_def portYIELD_def e)
qed

lemma kernel_ok_select:
  assumes ok: "kernel_ok s" and r: "cont s (Generic t0) = Some (Ready p0)"
    and susp: "uxSchedulerSuspended s = 0"
  shows "\<exists>s'. vTaskSwitchContext s = Some s' \<and> kernel_ok s' \<and> cont s' = cont s \<and> ival s' = ival s \<and>
    litems s' = litems s \<and> tcbs s' = tcbs s \<and> xTickCount s' = xTickCount s \<and> pxCurrentTCB s' \<noteq> 0 \<and>
    cont s (Generic (pxCurrentTCB s')) = Some (Ready (prio s (pxCurrentTCB s'))) \<and>
    (\<forall>u p. cont s (Generic u) = Some (Ready p) \<longrightarrow> p \<le> prio s (pxCurrentTCB s'))"
proof -
  note k = kernel_ok_kinv [OF ok]
  obtain q t h where sel: "taskSELECT_HIGHEST_PRIORITY_TASK s =
      Some (s\<lparr>uxTopReadyPriority := q, heap := h, pxCurrentTCB := t\<rparr>)"
    "kinv_now {} (s\<lparr>uxTopReadyPriority := q, heap := h, pxCurrentTCB := t\<rparr>)" "t \<in> dom (tcbs s)"
    "pvContainer h = cont s" "item_value h = ival s" "list_items h = litems s"
    "cont s (Generic t) = Some (Ready q)" "\<And>u p. cont s (Generic u) = Some (Ready p) \<Longrightarrow> p \<le> q"
    using kinv_now_select [OF k r] by blast
  let ?s = "s\<lparr>uxTopReadyPriority := q, heap := h, pxCurrentTCB := t\<rparr>"
  have "settled s t" using kinvD(9) [OF k sel(3)] by simp
  then have q: "q = prio s t" using sel(7) by (auto simp: settled_def)
  have "kernel_ok ?s" by (rule kernel_ok_frame [OF ok sel(2)]) (simp_all add: sel(4) pending_def)
  moreover have "t \<noteq> 0" using sel(3) kinvD(8) [OF k] by auto
  moreover have "vTaskSwitchContext s = Some ?s" using susp sel(1) by (simp add: vTaskSwitchContext_def)
  ultimately show ?thesis using sel(4-8) q by (intro exI [of _ ?s]) simp
qed

lemma suspend_park:
  assumes ok: "kernel_ok s" and h: "prvGetTCBFromHandle h s \<in> dom (tcbs s)"
  defines "t \<equiv> prvGetTCBFromHandle h s"
  obtains n s1 s2 s3 where "k_remove (Generic t) s = Some (n, s1)" "remove_event t s1 = Some s2"
    "s3 = k_insert_end SuspendedTaskList (Generic t) s2" "kernel_ok s3"
    "cont s3 = (cont s)(Event t := None, Generic t := Some SuspendedTaskList)" "ival s3 = ival s"
    "s3 = s\<lparr>heap := heap s3\<rparr>"
proof -
  obtain n s1 s2 s3 where st: "k_remove (Generic t) s = Some (n, s1)" "remove_event t s1 = Some s2"
    "s3 = k_insert_end SuspendedTaskList (Generic t) s2" "kinv_now {} s3"
    "cont s3 = (cont s)(Event t := None, Generic t := Some SuspendedTaskList)" "ival s3 = ival s"
    "s3 = s\<lparr>heap := heap s3\<rparr>"
    using park_task [OF kernel_ok_kinv [OF ok] h, of SuspendedTaskList] unfolding t_def by blast
  obtain hp where e: "s3 = s\<lparr>heap := hp\<rparr>" using st(7) by blast
  have "kernel_ok s3"
    by (rule kernel_ok_frame [OF ok st(4)]) (use st(5) in \<open>auto simp: pending_def e split: if_splits\<close>)
  then show ?thesis by (rule that [OF st(1-3) _ st(5-7)])
qed

lemma vTaskSuspend_effect:
  assumes ok: "kernel_ok s" and h: "prvGetTCBFromHandle h s \<in> dom (tcbs s)" and run: "xSchedulerRunning s"
  defines "t \<equiv> prvGetTCBFromHandle h s"
  shows "\<exists>s'. vTaskSuspend h s = Some s' \<and> kernel_ok s' \<and>
    cont s' = (cont s)(Event t := None, Generic t := Some SuspendedTaskList) \<and> ival s' = ival s \<and>
    same_env s s' \<and> xTickCount s' = xTickCount s \<and> (t = pxCurrentTCB s \<longrightarrow> pending_soft_sv s')"
proof -
  obtain n s1 s2 s3 where st: "k_remove (Generic t) s = Some (n, s1)" "remove_event t s1 = Some s2"
    "s3 = k_insert_end SuspendedTaskList (Generic t) s2" "kernel_ok s3"
    "cont s3 = (cont s)(Event t := None, Generic t := Some SuspendedTaskList)" "ival s3 = ival s"
    "s3 = s\<lparr>heap := heap s3\<rparr>"
    using suspend_park [OF ok h] unfolding t_def by blast
  obtain hp where e: "s3 = s\<lparr>heap := hp\<rparr>" using st(7) by blast
  define s4 where "s4 = (if t = pxCurrentTCB s then portYIELD s3 else s3)"
  have f: "pxCurrentTCB s3 = pxCurrentTCB s" "xSchedulerRunning s3" using run by (simp_all add: e)
  have "vTaskSuspend h s = Some s4"
    using st(1,2) f by (simp add: vTaskSuspend_def t_def [symmetric] s4_def st(3) [symmetric])
  moreover have "kernel_ok s4" using st(4) kernel_ok_yield by (simp add: s4_def)
  ultimately show ?thesis using st(5,6)
    by (intro exI [of _ s4]) (simp add: s4_def e portYIELD_def same_env_def)
qed

lemma vTaskResume_effect:
  assumes ok: "kernel_ok s" and cur: "pxCurrentTCB s \<noteq> 0" and t: "t \<noteq> 0" "t \<noteq> pxCurrentTCB s"
    and sus: "xTaskIsTaskSuspended t s"
  shows "\<exists>s'. vTaskResume t s = Some s' \<and> kernel_ok s' \<and>
    cont s' = (cont s)(Generic t := Some (Ready (prio s t))) \<and> ival s' = ival s \<and> same_env s s' \<and>
    (prio s t \<ge> prio s (pxCurrentTCB s) \<longrightarrow> pending_soft_sv s')"
proof -
  note k = kernel_ok_kinv [OF ok]
  have c: "cont s (Generic t) = Some SuspendedTaskList" "cont s (Event t) = None"
    using sus by (auto simp: xTaskIsTaskSuspended_def listIS_CONTAINED_WITHIN_def)
  obtain d where d: "tcbs s t = Some d" using kinvD(4) [OF k c(1)] by auto
  obtain e where e: "tcbs s (pxCurrentTCB s) = Some e" using kinvD(10) [OF k cur] by auto
  obtain n s1 where s1: "k_remove (Generic t) s = Some (n, s1)" "moved (Generic t) None s s1"
    "kinv (xTickCount s) (xNextTaskUnblockTime s) {t} s1"
    using kinv_removed [OF k c(1)] by auto
  note mv = moved_simps [OF s1(2)]
  obtain s2 where s2: "prvAddTaskToReadyList t s1 = Some s2"
    "kinv (xTickCount s) (xNextTaskUnblockTime s) ({t} - {t}) s2"
    "cont s2 = (cont s1)(Generic t := Some (Ready (uxPriority d)))" "ival s2 = ival s1"
    "s2 = s1\<lparr>heap := heap s2, uxTopReadyPriority := max (uxTopReadyPriority s1) (uxPriority d)\<rparr>"
    using add_ready [OF s1(3), of t d] c(2) d by (auto simp: mv)
  obtain h1 where "s1 = s\<lparr>heap := h1\<rparr>" using s1(2) unfolding moved_def by blast
  then obtain h2 p2 where s2e: "s2 = s\<lparr>heap := h2, uxTopReadyPriority := p2\<rparr>" using s2(5) by simp
  define s3 where "s3 = (if uxPriority d \<ge> uxPriority e then portYIELD s2 else s2)"
  have "vTaskResume t s = Some s3"
    using t sus s1(1) s2(1) d e by (simp add: vTaskResume_def s3_def s2e)
  moreover have "kinv_now {} s2" using s2(2) by (simp add: s2e)
  then have "kernel_ok s2"
    by (rule kernel_ok_frame [OF ok]) (use s2(3) in \<open>simp_all add: s2e pending_def mv\<close>)
  then have "kernel_ok s3" using kernel_ok_yield by (simp add: s3_def)
  ultimately show ?thesis using s2(3,4) d e
    by (intro exI [of _ s3]) (simp add: s3_def s2e portYIELD_def mv same_env_def)
qed

lemma xTaskResumeFromISR_effect:
  assumes ok: "kernel_ok s" and cur: "pxCurrentTCB s \<noteq> 0" and sus: "xTaskIsTaskSuspended t s"
  shows "\<exists>y s'. xTaskResumeFromISR t s = Some (y, s') \<and> kernel_ok s' \<and> ival s' = ival s \<and> same_env s s' \<and>
    cont s' = (if uxSchedulerSuspended s = 0 then (cont s)(Generic t := Some (Ready (prio s t)))
      else (cont s)(Event t := Some PendingReadyList)) \<and>
    (y \<longleftrightarrow> uxSchedulerSuspended s = 0 \<and> prio s t \<ge> prio s (pxCurrentTCB s))"
proof -
  note k = kernel_ok_kinv [OF ok]
  have c: "cont s (Generic t) = Some SuspendedTaskList" "cont s (Event t) = None"
    using sus by (auto simp: xTaskIsTaskSuspended_def listIS_CONTAINED_WITHIN_def)
  have td: "t \<in> dom (tcbs s)" using kinvD(4) [OF k c(1)] by simp
  then obtain d where d: "tcbs s t = Some d" by auto
  obtain e where e: "tcbs s (pxCurrentTCB s) = Some e" using kinvD(10) [OF k cur] by auto
  show ?thesis
  proof (cases "uxSchedulerSuspended s = 0")
    case True
    obtain n s1 where s1: "k_remove (Generic t) s = Some (n, s1)" "moved (Generic t) None s s1"
      "kinv (xTickCount s) (xNextTaskUnblockTime s) {t} s1"
      using kinv_removed [OF k c(1)] by auto
    note mv = moved_simps [OF s1(2)]
    obtain s2 where s2: "prvAddTaskToReadyList t s1 = Some s2"
      "kinv (xTickCount s) (xNextTaskUnblockTime s) ({t} - {t}) s2"
      "cont s2 = (cont s1)(Generic t := Some (Ready (uxPriority d)))" "ival s2 = ival s1"
      "s2 = s1\<lparr>heap := heap s2, uxTopReadyPriority := max (uxTopReadyPriority s1) (uxPriority d)\<rparr>"
      using add_ready [OF s1(3), of t d] c(2) d by (auto simp: mv)
    obtain h1 where "s1 = s\<lparr>heap := h1\<rparr>" using s1(2) unfolding moved_def by blast
    then obtain h2 p2 where s2e: "s2 = s\<lparr>heap := h2, uxTopReadyPriority := p2\<rparr>" using s2(5) by simp
    have "kinv_now {} s2" using s2(2) by (simp add: s2e)
    then have "kernel_ok s2"
      by (rule kernel_ok_frame [OF ok]) (use s2(3) in \<open>simp_all add: s2e pending_def mv\<close>)
    moreover have "xTaskResumeFromISR t s = Some (uxPriority d \<ge> uxPriority e, s2)"
      using True sus s1(1) s2(1) d e by (simp add: xTaskResumeFromISR_def)
    ultimately show ?thesis using s2(3,4) d e True
      by (intro exI [of _ "uxPriority d \<ge> uxPriority e"] exI [of _ s2]) (simp add: s2e mv same_env_def)
  next
    case False
    define s1 where "s1 = k_insert_end PendingReadyList (Event t) s"
    have m1: "moved (Event t) (Some PendingReadyList) s s1" unfolding s1_def
      by (rule k_insert_end_moved [OF k c(2)]) (use td kinvD(2) [OF k] in simp_all)
    note mv = moved_simps [OF m1]
    have k1: "kinv (xTickCount s) (xNextTaskUnblockTime s) (insert (task_of (Event t)) {}) s1"
      by (rule kinv_moved [OF k m1]) (use td in simp_all)
    have st: "settled s1 t" using c(1) by (simp add: settled_def mv)
    have "kinv_now {} s1" using kinv_settle [OF k1 st] by (simp add: mv)
    then have "kernel_ok s1" using False by (simp add: kernel_ok_def mv)
    then show ?thesis using False sus mv
      by (intro exI [of _ False] exI [of _ s1]) (simp add: xTaskResumeFromISR_def s1_def [symmetric] same_env_def)
  qed
qed

section \<open>Priorities and inheritance\<close>

lemma kinv_set_tcb:
  assumes k: "kinv T N X s" and t: "tcbs s t = Some c"
    and c': "uxPriority c' < configMAX_PRIORITIES" "uxBasePriority c' < configMAX_PRIORITIES"
  shows "kinv T N (insert t X) (set_tcb t c' s)"
proof -
  have d: "dom (tcbs (set_tcb t c' s)) = dom (tcbs s)" using t by (auto simp: set_tcb_def)
  have "tcbs_inv (set_tcb t c' s)" using k c' t kinvD(8) [OF k]
    by (auto simp: kinv_def tcbs_inv_def d) (auto simp: set_tcb_def split: if_splits)
  moreover have "settled (set_tcb t c' s) u" if "settled s u" "u \<noteq> t" for u
    using that by (simp add: settled_def set_tcb_def)
  moreover have "lists_inv (set_tcb t c' s)" "top_inv (set_tcb t c' s)" "time_inv T N (set_tcb t c' s)"
    using k unfolding kinv_def lists_inv_def d by (simp_all add: set_tcb_def top_inv_def time_inv_def wake_ok_def)
  ultimately show ?thesis using k unfolding kinv_def d by auto
qed

lemma settled_not_ready:
  assumes "kinv T N {} s" and "t \<in> dom (tcbs s)" and "\<And>p. cont s (Generic t) \<noteq> Some (Ready p)"
    and "cont s' = cont s"
  shows "settled s' t"
  using kinvD(9) [OF assms(1,2)] assms(3,4) by (auto simp: settled_def)

lemma settled_ready:
  assumes "kinv T N {} s" and "tcbs s t = Some c" and "cont s (Generic t) = Some (Ready p)"
  shows "p = uxPriority c" "cont s (Event t) = None"
proof -
  have "settled s t" using kinvD(9) [OF assms(1), of t] assms(2) by auto
  then show "p = uxPriority c" "cont s (Event t) = None" using assms(2,3) by (auto simp: settled_def)
qed

lemma set_tcb_value: "set_tcb t c (k_set_value i v s) = k_set_value i v (set_tcb t c s)"
  by (cases s) (simp add: k_set_value_def set_tcb_def)

text \<open>A task gets a new control block content and event value while it stays where it is.\<close>

lemma retag_waiting:
  assumes k: "kinv_now {} s" and t: "tcbs s t = Some c" and nr: "\<And>p. cont s (Generic t) \<noteq> Some (Ready p)"
    and c': "uxPriority c' < configMAX_PRIORITIES" "uxBasePriority c' < configMAX_PRIORITIES"
  shows "kinv_now {} (k_set_value (Event t) v (set_tcb t c' s))"
    "kinv_now {} (set_tcb t c' (k_set_value (Event t) v s))"
proof -
  let ?s = "k_set_value (Event t) v (set_tcb t c' s)"
  have k1: "kinv (xTickCount s) (xNextTaskUnblockTime s) {t} ?s"
    by (rule kinv_set_value [OF kinv_set_tcb [OF k t c']]) simp
  have "settled ?s t"
    by (rule settled_not_ready [OF k]) (use t nr in \<open>auto simp: k_set_value_def set_tcb_def\<close>)
  from kinv_settle [OF k1 this] show "kinv_now {} ?s" by (simp add: k_set_value_def set_tcb_def)
  then show "kinv_now {} (set_tcb t c' (k_set_value (Event t) v s))" by (simp only: set_tcb_value)
qed

text \<open>A ready task is moved to the ready list of its new priority.\<close>

lemma requeue_ready:
  assumes k: "kinv_now {t} s" and c: "tcbs s t = Some c" and r: "cont s (Generic t) = Some l"
    and e: "cont s (Event t) = None"
  shows "\<exists>n s1 s2. k_remove (Generic t) s = Some (n, s1) \<and> prvAddTaskToReadyList t s1 = Some s2 \<and>
    kinv_now {} s2 \<and> cont s2 = (cont s)(Generic t := Some (Ready (uxPriority c))) \<and> ival s2 = ival s \<and>
    s2 = s\<lparr>heap := heap s2, uxTopReadyPriority := uxTopReadyPriority s2\<rparr>"
proof -
  obtain n s1 where s1: "k_remove (Generic t) s = Some (n, s1)" "moved (Generic t) None s s1"
    "kinv (xTickCount s) (xNextTaskUnblockTime s) {t} s1"
    using kinv_removed [OF k r] by auto
  note mv = moved_simps [OF s1(2)]
  obtain s2 where s2: "prvAddTaskToReadyList t s1 = Some s2"
    "kinv (xTickCount s) (xNextTaskUnblockTime s) ({t} - {t}) s2"
    "cont s2 = (cont s1)(Generic t := Some (Ready (uxPriority c)))" "ival s2 = ival s1"
    "s2 = s1\<lparr>heap := heap s2, uxTopReadyPriority := max (uxTopReadyPriority s1) (uxPriority c)\<rparr>"
    using add_ready [OF s1(3), of t c] e c by (auto simp: mv)
  obtain h1 where "s1 = s\<lparr>heap := h1\<rparr>" using s1(2) unfolding moved_def by blast
  then obtain h2 p2 where s2e: "s2 = s\<lparr>heap := h2, uxTopReadyPriority := p2\<rparr>" using s2(5) by simp
  have "kinv_now {} s2" using s2(2) by (simp add: s2e)
  then show ?thesis using s1(1) s2(1,3,4) by (intro exI [of _ n] exI [of _ s1] exI [of _ s2]) (simp add: mv s2e)
qed

lemma vTaskPrioritySet_effect:
  assumes ok: "kernel_ok s" and cur: "pxCurrentTCB s \<noteq> 0"
    and c: "tcbs s (prvGetTCBFromHandle h s) = Some c" and ne: "uxBasePriority c \<noteq> clamp p"
  defines "t \<equiv> prvGetTCBFromHandle h s"
    and "c' \<equiv> c\<lparr>uxPriority := (if uxBasePriority c = uxPriority c then clamp p else uxPriority c),
      uxBasePriority := clamp p\<rparr>"
  shows "\<exists>s'. vTaskPrioritySet h p s = Some s' \<and> kernel_ok s' \<and> tcbs s' = (tcbs s)(t := Some c') \<and>
    cont s' = (if cont s (Generic t) = Some (Ready (uxPriority c))
      then (cont s)(Generic t := Some (Ready (uxPriority c'))) else cont s) \<and>
    ival s' = (ival s)(Event t := configMAX_PRIORITIES - clamp p) \<and>
    (t = pxCurrentTCB s \<longrightarrow> clamp p < uxBasePriority c \<longrightarrow> pending_soft_sv s') \<and>
    (t \<noteq> pxCurrentTCB s \<longrightarrow> uxBasePriority c < clamp p \<longrightarrow> prio s (pxCurrentTCB s) \<le> clamp p \<longrightarrow> pending_soft_sv s')"
proof -
  note k = kernel_ok_kinv [OF ok]
  have ct: "tcbs s t = Some c" using c by (simp add: t_def)
  obtain e where e: "tcbs s (pxCurrentTCB s) = Some e" using kinvD(10) [OF k cur] by auto
  define s1 where "s1 = k_set_value (Event t) (configMAX_PRIORITIES - clamp p) (set_tcb t c' s)"
  have c': "uxPriority c' < configMAX_PRIORITIES" "uxBasePriority c' < configMAX_PRIORITIES"
    using kinvD(6,7) [OF k ct] clamp_less [of p] by (simp_all add: c'_def)
  have "kinv (xTickCount s) (xNextTaskUnblockTime s) {t} s1"
    unfolding s1_def by (rule kinv_set_value [OF kinv_set_tcb [OF k ct c']]) simp
  then have k1: "kinv_now {t} s1" by (simp add: s1_def k_set_value_def set_tcb_def)
  have f1: "tcbs s1 = (tcbs s)(t := Some c')" "cont s1 = cont s" "tcbs s1 t = Some c'"
    "ival s1 = (ival s)(Event t := configMAX_PRIORITIES - clamp p)"
    by (simp_all add: s1_def k_set_value_def set_tcb_def)
  have up: "uxPriority c < configMAX_PRIORITIES" by (rule kinvD(6) [OF k ct])
  have ex: "\<exists>s2. (if cont s (Generic t) = Some (Ready (uxPriority c))
      then (do { (n, s) \<leftarrow> k_remove (Generic t) s1; prvAddTaskToReadyList t s }) else Some s1) = Some s2 \<and>
    kinv_now {} s2 \<and> cont s2 = (if cont s (Generic t) = Some (Ready (uxPriority c))
      then (cont s)(Generic t := Some (Ready (uxPriority c'))) else cont s) \<and>
    ival s2 = ival s1 \<and> s2 = s1\<lparr>heap := heap s2, uxTopReadyPriority := uxTopReadyPriority s2\<rparr>"
  proof (cases "cont s (Generic t) = Some (Ready (uxPriority c))")
    case True
    have "cont s1 (Event t) = None" using settled_ready(2) [OF k ct True] f1(2) by simp
    from requeue_ready [OF k1 f1(3) _ this] True f1(2) show ?thesis by auto
  next
    case False
    then have "\<And>q. cont s (Generic t) \<noteq> Some (Ready q)" using settled_ready(1) [OF k ct] by auto
    from retag_waiting(1) [OF k ct this c'] show ?thesis using False f1(2) by (simp add: s1_def)
  qed
  then obtain s2 where s2: "(if cont s (Generic t) = Some (Ready (uxPriority c))
      then (do { (n, s) \<leftarrow> k_remove (Generic t) s1; prvAddTaskToReadyList t s }) else Some s1) = Some s2"
    "kinv_now {} s2" "cont s2 = (if cont s (Generic t) = Some (Ready (uxPriority c))
      then (cont s)(Generic t := Some (Ready (uxPriority c'))) else cont s)"
    "ival s2 = ival s1" "s2 = s1\<lparr>heap := heap s2, uxTopReadyPriority := uxTopReadyPriority s2\<rparr>"
    by blast
  obtain h2 p2 where s2e: "s2 = s1\<lparr>heap := h2, uxTopReadyPriority := p2\<rparr>" using s2(5) by blast
  define y where "y \<longleftrightarrow> (if clamp p > uxBasePriority c then t \<noteq> pxCurrentTCB s \<and> clamp p \<ge> uxPriority e
    else t = pxCurrentTCB s)"
  define s3 where "s3 = (if y then portYIELD s2 else s2)"
  have cc: "(if uxBasePriority c = uxPriority c then c\<lparr>uxPriority := clamp p\<rparr> else c)\<lparr>uxBasePriority := clamp p\<rparr> = c'"
    by (simp add: c'_def)
  have "vTaskPrioritySet h p s = Some s3"
    using s2(1) ct ne e up f1(2)
    unfolding vTaskPrioritySet_def clamp_def [symmetric] t_def [symmetric] Let_def
    by (simp only: cc s1_def [symmetric] pxReadyTasksLists_def listIS_CONTAINED_WITHIN_def if_True
        bind_eq_Some_conv Option.bind.simps y_def [symmetric] option.inject simp_thms if_False)
      (simp add: s3_def)
  moreover have "kernel_ok s2"
    by (rule kernel_ok_frame [OF ok s2(2)])
      (use s2(3) in \<open>auto simp: s2e s1_def k_set_value_def set_tcb_def pending_def split: if_splits\<close>)
  then have "kernel_ok s3" using kernel_ok_yield by (simp add: s3_def)
  ultimately show ?thesis using s2(3,4) f1(1,4) e
    by (intro exI [of _ s3]) (auto simp: s3_def s2e portYIELD_def y_def)
qed

lemma vTaskPriorityInherit_effect:
  assumes ok: "kernel_ok s" and cur: "pxCurrentTCB s \<noteq> 0" and t: "t \<noteq> 0" and c: "tcbs s t = Some c"
  shows "\<exists>s'. vTaskPriorityInherit t s = Some s' \<and> kernel_ok s' \<and>
    tcbs s' = (tcbs s)(t := Some (c\<lparr>uxPriority := max (uxPriority c) (prio s (pxCurrentTCB s))\<rparr>)) \<and>
    cont s' = (if cont s (Generic t) = Some (Ready (uxPriority c))
      then (cont s)(Generic t := Some (Ready (max (uxPriority c) (prio s (pxCurrentTCB s))))) else cont s) \<and>
    pxCurrentTCB s' = pxCurrentTCB s \<and> uxSchedulerSuspended s' = uxSchedulerSuspended s \<and>
    xTickCount s' = xTickCount s \<and> xNumOfOverflows s' = xNumOfOverflows s"
proof -
  note k = kernel_ok_kinv [OF ok]
  obtain e where e: "tcbs s (pxCurrentTCB s) = Some e" using kinvD(10) [OF k cur] by auto
  show ?thesis
  proof (cases "uxPriority c < uxPriority e")
    case False
    then have "max (uxPriority c) (prio s (pxCurrentTCB s)) = uxPriority c" using e by (simp add: max_def)
    moreover have "vTaskPriorityInherit t s = Some s" using False t c e by (simp add: vTaskPriorityInherit_def)
    ultimately show ?thesis using ok c by (intro exI [of _ s]) (auto simp: fun_upd_idem)
  next
    case True
    define c' where "c' = c\<lparr>uxPriority := uxPriority e\<rparr>"
    have mx: "max (uxPriority c) (prio s (pxCurrentTCB s)) = uxPriority e" using e True by simp
    have cl: "uxPriority c < configMAX_PRIORITIES" by (rule kinvD(6) [OF k c])
    have c': "uxPriority c' < configMAX_PRIORITIES" "uxBasePriority c' < configMAX_PRIORITIES"
      using kinvD(6) [OF k e] kinvD(7) [OF k c] by (simp_all add: c'_def)
    define s1 where "s1 = k_set_value (Event t) (configMAX_PRIORITIES - uxPriority e) s"
    have f1: "cont s1 = cont s" "tcbs s1 = tcbs s" by (simp_all add: s1_def k_set_value_def)
    have "kinv (xTickCount s) (xNextTaskUnblockTime s) {} s1" unfolding s1_def by (rule kinv_set_value [OF k]) simp
    then have k1: "kinv_now {} s1" by (simp add: s1_def k_set_value_def)
    have "\<exists>s2. vTaskPriorityInherit t s = Some s2 \<and> kinv_now {} s2 \<and>
        cont s2 = (if cont s (Generic t) = Some (Ready (uxPriority c))
          then (cont s)(Generic t := Some (Ready (uxPriority e))) else cont s) \<and>
        s2 = s\<lparr>heap := heap s2, tcbs := (tcbs s)(t := Some c'), uxTopReadyPriority := uxTopReadyPriority s2\<rparr>"
    proof (cases "cont s (Generic t) = Some (Ready (uxPriority c))")
      case r: True
      have ev: "cont s (Event t) = None" by (rule settled_ready(2) [OF k c r])
      obtain n s2 where s2: "k_remove (Generic t) s1 = Some (n, s2)" "moved (Generic t) None s1 s2"
        "kinv (xTickCount s1) (xNextTaskUnblockTime s1) {t} s2"
        using kinv_removed [OF k1, of "Generic t" "Ready (uxPriority c)"] r f1(1) by auto
      note mv = moved_simps [OF s2(2)]
      have t2: "tcbs s2 t = Some c" using c by (simp add: mv f1)
      have k3: "kinv (xTickCount s1) (xNextTaskUnblockTime s1) {t} (set_tcb t c' s2)"
        using kinv_set_tcb [OF s2(3) t2 c'] by simp
      obtain s3 where s3: "prvAddTaskToReadyList t (set_tcb t c' s2) = Some s3"
        "kinv (xTickCount s1) (xNextTaskUnblockTime s1) ({t} - {t}) s3"
        "cont s3 = (cont (set_tcb t c' s2))(Generic t := Some (Ready (uxPriority c')))"
        "s3 = (set_tcb t c' s2)\<lparr>heap := heap s3,
           uxTopReadyPriority := max (uxTopReadyPriority (set_tcb t c' s2)) (uxPriority c')\<rparr>"
        using add_ready [OF k3, of t c'] ev by (auto simp: set_tcb_def mv f1)
      obtain h2 where "s2 = s1\<lparr>heap := h2\<rparr>" using s2(2) unfolding moved_def by blast
      then obtain h3 p3 where s3e: "s3 = s\<lparr>tcbs := (tcbs s)(t := Some c'), heap := h3, uxTopReadyPriority := p3\<rparr>"
        using s3(4) by (simp add: set_tcb_def s1_def k_set_value_def)
      have "vTaskPriorityInherit t s = Some s3"
        using True t c e r cl s2(1) s3(1) f1(1)
        by (simp add: vTaskPriorityInherit_def Let_def s1_def [symmetric] pxReadyTasksLists_def
            listIS_CONTAINED_WITHIN_def c'_def)
      moreover have "kinv_now {} s3" using s3(2) by (simp add: s3e s1_def k_set_value_def)
      moreover have "cont s3 = (cont s)(Generic t := Some (Ready (uxPriority e)))"
        using s3(3) by (simp add: set_tcb_def mv f1 c'_def)
      moreover have "s3 = s\<lparr>heap := heap s3, tcbs := (tcbs s)(t := Some c'), uxTopReadyPriority := uxTopReadyPriority s3\<rparr>"
        unfolding s3e by (cases s) simp
      ultimately show ?thesis using r by auto
    next
      case nr: False
      then have nr': "\<And>q. cont s (Generic t) \<noteq> Some (Ready q)" using settled_ready(1) [OF k c] by auto
      have "vTaskPriorityInherit t s = Some (set_tcb t c' s1)"
        using True t c e nr cl f1(1)
        by (simp add: vTaskPriorityInherit_def Let_def s1_def [symmetric] pxReadyTasksLists_def
            listIS_CONTAINED_WITHIN_def c'_def)
      moreover have "kinv_now {} (set_tcb t c' s1)"
        unfolding s1_def by (rule retag_waiting(2) [OF k c nr' c'])
      ultimately show ?thesis using nr f1 by (auto simp: set_tcb_def s1_def k_set_value_def)
    qed
    then obtain s2 where s2: "vTaskPriorityInherit t s = Some s2" "kinv_now {} s2"
        "cont s2 = (if cont s (Generic t) = Some (Ready (uxPriority c))
          then (cont s)(Generic t := Some (Ready (uxPriority e))) else cont s)"
        "s2 = s\<lparr>heap := heap s2, tcbs := (tcbs s)(t := Some c'), uxTopReadyPriority := uxTopReadyPriority s2\<rparr>"
      by blast
    obtain h p where s2e: "s2 = s\<lparr>heap := h, tcbs := (tcbs s)(t := Some c'), uxTopReadyPriority := p\<rparr>"
      using s2(4) by blast
    have "kernel_ok s2"
      by (rule kernel_ok_frame [OF ok s2(2)]) (use s2(3) in \<open>auto simp: pending_def s2e split: if_splits\<close>)
    then show ?thesis using s2(1,3) unfolding mx by (intro exI [of _ s2]) (simp add: s2e c'_def)
  qed
qed

lemma vTaskPriorityDisinherit_effect:
  assumes ok: "kernel_ok s" and t: "t \<noteq> 0" and c: "tcbs s t = Some c"
    and r: "cont s (Generic t) = Some (Ready p)"
  shows "\<exists>s'. vTaskPriorityDisinherit t s = Some s' \<and> kernel_ok s' \<and>
    tcbs s' = (tcbs s)(t := Some (c\<lparr>uxPriority := uxBasePriority c\<rparr>)) \<and>
    cont s' = (cont s)(Generic t := Some (Ready (uxBasePriority c))) \<and>
    pxCurrentTCB s' = pxCurrentTCB s \<and> uxSchedulerSuspended s' = uxSchedulerSuspended s \<and>
    xTickCount s' = xTickCount s \<and> xNumOfOverflows s' = xNumOfOverflows s"
proof -
  note k = kernel_ok_kinv [OF ok]
  have pr: "p = uxPriority c" and ev: "cont s (Event t) = None" using settled_ready [OF k c r] by auto
  show ?thesis
  proof (cases "uxPriority c = uxBasePriority c")
    case True
    have upd: "c\<lparr>uxPriority := uxBasePriority c\<rparr> = c" using True by (metis tskTCB.surjective tskTCB.update_convs(1))
    have "vTaskPriorityDisinherit t s = Some s" using True t c by (simp add: vTaskPriorityDisinherit_def)
    then show ?thesis using ok c r pr True unfolding upd by (intro exI [of _ s]) (simp add: fun_upd_idem)
  next
    case False
    define c' where "c' = c\<lparr>uxPriority := uxBasePriority c\<rparr>"
    have c': "uxPriority c' < configMAX_PRIORITIES" "uxBasePriority c' < configMAX_PRIORITIES"
      using kinvD(7) [OF k c] by (simp_all add: c'_def)
    obtain n s1 where s1: "k_remove (Generic t) s = Some (n, s1)" "moved (Generic t) None s s1"
      "kinv (xTickCount s) (xNextTaskUnblockTime s) {t} s1"
      using kinv_removed [OF k r] by auto
    note mv = moved_simps [OF s1(2)]
    define s2 where "s2 = k_set_value (Event t) (configMAX_PRIORITIES - uxBasePriority c) (set_tcb t c' s1)"
    have t1: "tcbs s1 t = Some c" using c by (simp add: mv)
    have k2: "kinv (xTickCount s) (xNextTaskUnblockTime s) {t} s2" unfolding s2_def
      using kinv_set_value [OF kinv_set_tcb [OF s1(3) t1 c'], of "Event t"] by simp
    obtain s3 where s3: "prvAddTaskToReadyList t s2 = Some s3"
      "kinv (xTickCount s) (xNextTaskUnblockTime s) ({t} - {t}) s3"
      "cont s3 = (cont s2)(Generic t := Some (Ready (uxPriority c')))"
      "s3 = s2\<lparr>heap := heap s3, uxTopReadyPriority := max (uxTopReadyPriority s2) (uxPriority c')\<rparr>"
      using add_ready [OF k2, of t c'] ev by (auto simp: s2_def k_set_value_def set_tcb_def mv)
    obtain h1 where "s1 = s\<lparr>heap := h1\<rparr>" using s1(2) unfolding moved_def by blast
    then obtain h3 p3 where s3e: "s3 = s\<lparr>tcbs := (tcbs s)(t := Some c'), heap := h3, uxTopReadyPriority := p3\<rparr>"
      using s3(4) by (simp add: s2_def set_tcb_def k_set_value_def)
    have "vTaskPriorityDisinherit t s = Some s3"
      using False t c s1(1) s3(1) by (simp add: vTaskPriorityDisinherit_def Let_def s2_def c'_def)
    moreover have "kinv_now {} s3" using s3(2) by (simp add: s3e)
    moreover have c3: "cont s3 = (cont s)(Generic t := Some (Ready (uxBasePriority c)))"
      using s3(3) by (simp add: s2_def set_tcb_def k_set_value_def mv c'_def)
    ultimately show ?thesis
      using kernel_ok_frame [OF ok, of s3] by (intro exI [of _ s3]) (simp add: s3e pending_def c'_def)
  qed
qed

section \<open>The idle task frees deleted tasks\<close>

lemma kinv_delete_tcb:
  assumes k: "kinv T N {t} s" and t: "t \<in> dom (tcbs s)" and ct: "pxCurrentTCB s \<noteq> t"
    and free: "cont s (Generic t) = None" "cont s (Event t) = None"
  shows "kinv T N {} (prvDeleteTCB t (s\<lparr>uxCurrentNumberOfTasks := uxCurrentNumberOfTasks s - 1, uxTasksDeleted := d\<rparr>))"
proof -
  let ?s = "prvDeleteTCB t (s\<lparr>uxCurrentNumberOfTasks := uxCurrentNumberOfTasks s - 1, uxTasksDeleted := d\<rparr>)"
  have f: "heap ?s = heap s" "tcbs ?s = (tcbs s)(t := None)" "dom (tcbs ?s) = dom (tcbs s) - {t}"
    "pxCurrentTCB ?s = pxCurrentTCB s" "uxCurrentNumberOfTasks ?s = uxCurrentNumberOfTasks s - 1"
    "uxTopReadyPriority ?s = uxTopReadyPriority s" "pxDelayedTaskList ?s = pxDelayedTaskList s"
    "pxOverflowDelayedTaskList ?s = pxOverflowDelayedTaskList s"
    by (auto simp: prvDeleteTCB_def)
  have nt: "task_of i \<noteq> t" if "cont s i = Some l" for i l using that free by (cases i) auto
  have lists: "lists_inv ?s" unfolding lists_inv_def f(1,3)
  proof (intro conjI allI impI)
    show "task_of i \<in> dom (tcbs s) - {t}" if "cont s i = Some l" for i l
      using kinvD(4) [OF k that] nt [OF that] by simp
  qed (use kinvD(1-3,5) [OF k] in auto)
  have "card (dom (tcbs s) - {t}) = card (dom (tcbs s)) - 1" using t by simp
  moreover have "0 < card (dom (tcbs s))" using t by (auto simp: card_gt_0_iff)
  ultimately have "of_nat (card (dom (tcbs s))) - 1 = (of_nat (card (dom (tcbs s) - {t})) :: u32)"
    by (simp add: of_nat_diff)
  then have "tcbs_inv ?s" unfolding tcbs_inv_def f
    using k ct by (auto simp: kinv_def tcbs_inv_def)
  moreover have "top_inv ?s" "time_inv T N ?s"
    using k by (simp_all add: kinv_def top_inv_def time_inv_def wake_ok_def f)
  moreover have "settled ?s u" if "settled s u" "u \<noteq> t" for u
    using that by (simp add: settled_def f)
  ultimately show ?thesis using lists k unfolding kinv_def f(3) by auto
qed

lemma litems_length_cont:
  assumes "kinv T N X s" and "kinv T' N' X' s'" and "cont s' = cont s"
  shows "length (litems s' l) = length (litems s l)" and "set (litems s' l) = set (litems s l)"
proof -
  show eq: "set (litems s' l) = set (litems s l)"
    using delayed_items(1) [OF assms(1), of _ l] delayed_items(1) [OF assms(2), of _ l] assms(3) by auto
  show "length (litems s' l) = length (litems s l)"
    using eq distinct_card [OF heap_wf_distinct [OF kinvD(1) [OF assms(1)]], of l]
      distinct_card [OF heap_wf_distinct [OF kinvD(1) [OF assms(2)]], of l] by simp
qed

lemma check_termination_effect:
  assumes "kernel_ok s" and "uxSchedulerSuspended s = 0" and "pxCurrentTCB s \<noteq> 0"
    and "cont s (Generic (pxCurrentTCB s)) \<noteq> Some TasksWaitingTermination"
    and "uxTasksDeleted s = of_nat (length (litems s TasksWaitingTermination))"
  shows "\<exists>s'. prvCheckTasksWaitingTermination s = Some s' \<and> kernel_ok s' \<and> uxTasksDeleted s' = 0 \<and>
    uxSchedulerSuspended s' = 0 \<and> pxCurrentTCB s' = pxCurrentTCB s \<and>
    tcbs s' = (\<lambda>t. if cont s (Generic t) = Some TasksWaitingTermination then None else tcbs s t) \<and>
    cont s' = (\<lambda>i. if cont s i = Some TasksWaitingTermination then None else cont s i)"
  using assms
proof (induction "length (litems s TasksWaitingTermination)" arbitrary: s rule: less_induct)
  case less
  let ?W = TasksWaitingTermination
  note k = kernel_ok_kinv [OF less.prems(1)]
  have len: "length (litems s ?W) < 2 ^ 32"
    using heap_wf_ring [OF kinvD(1) [OF k] kinvD(2) [OF k, of ?W]] by (simp add: ring_def)
  show ?case
  proof (cases "litems s ?W")
    case Nil
    then have "cont s i \<noteq> Some ?W" for i using delayed_items(1) [OF k, of i ?W] by simp
    moreover have "prvCheckTasksWaitingTermination s = Some s"
      using less.prems(5) Nil by (subst prvCheckTasksWaitingTermination.simps) simp
    ultimately show ?thesis using less.prems Nil by (intro exI [of _ s]) (auto simp: fun_eq_iff)
  next
    case (Cons i0 xs0)
    have pos: "uxTasksDeleted s > 0" 
      using less.prems(5) Cons len unat_of_nat_u32 [of "length (litems s ?W)"] by (simp add: word_less_nat_alt)
    obtain y s1 where s1: "xTaskResumeAll (vTaskSuspendAll s) = Some (y, s1)" "kernel_ok s1" "same_env s s1"
      "cont s1 = cont s"
      using suspend_all_quiet [OF less.prems(1-3)] by blast
    note k1 = kernel_ok_kinv [OF s1(2)]
    note lc = litems_length_cont [OF k k1 s1(4), of ?W]
    obtain i xs where ix: "litems s1 ?W = i # xs" using lc(1) Cons by (cases "litems s1 ?W") auto
    have ci: "cont s i = Some ?W" using ix delayed_items(1) [OF k1, of i ?W] s1(4) by simp
    then obtain t where i: "i = Generic t" using kinvD(3) [OF k ci] by (cases i) auto
    have td: "t \<in> dom (tcbs s1)" using kinvD(4) [OF k1, of i ?W] ci s1(4) i by simp
    have own: "listGET_OWNER_OF_HEAD_ENTRY ?W (heap s1) = Some t"
      using head_entry(1) [OF kinvD(1) [OF k1] ix] kinvD(5) [OF k1, of i] i td by simp
    have c1: "cont s1 (Generic t) = Some ?W" using ci i s1(4) by simp
    obtain n s2 where s2: "k_remove (Generic t) s1 = Some (n, s2)" "moved (Generic t) None s1 s2"
      "kinv (xTickCount s1) (xNextTaskUnblockTime s1) {t} s2" "\<And>m. litems s2 m = remove1 (Generic t) (litems s1 m)"
      using remove_generic_litems [OF k1 c1] by metis
    note mv = moved_simps [OF s2(2)]
    have "settled s1 t" using kinvD(9) [OF k1 td] by simp
    then have ev: "cont s1 (Event t) = None" using c1 by (auto simp: settled_def)
    have env: "tcbs s1 = tcbs s" "pxCurrentTCB s1 = pxCurrentTCB s" "uxTasksDeleted s1 = uxTasksDeleted s"
      "uxSchedulerSuspended s1 = 0" using s1(3) less.prems(2) by (auto simp: same_env_def)
    have ct: "pxCurrentTCB s \<noteq> t" using less.prems(4) ci i by auto
    define s3 where "s3 = prvDeleteTCB t (s2\<lparr>uxCurrentNumberOfTasks := uxCurrentNumberOfTasks s2 - 1,
      uxTasksDeleted := uxTasksDeleted s2 - 1\<rparr>)"
    have f3: "heap s3 = heap s2" "tcbs s3 = (tcbs s)(t := None)" "pxCurrentTCB s3 = pxCurrentTCB s"
      "uxTasksDeleted s3 = uxTasksDeleted s - 1" "uxSchedulerSuspended s3 = 0" "uxPendedTicks s3 = uxPendedTicks s1"
      "xTickCount s3 = xTickCount s1" "xNextTaskUnblockTime s3 = xNextTaskUnblockTime s1"
      by (simp_all add: s3_def prvDeleteTCB_def mv env)
    have "kinv (xTickCount s1) (xNextTaskUnblockTime s1) {} s3" unfolding s3_def
      by (rule kinv_delete_tcb [OF s2(3)]) (use td ct ev in \<open>simp_all add: mv env\<close>)
    then have k3: "kinv_now {} s3" by (simp add: f3)
    have c3: "cont s3 = (cont s)(Generic t := None)" by (simp add: f3(1) mv s1(4))
    have ok3: "kernel_ok s3"
      by (rule kernel_ok_frame [OF s1(2) k3]) (simp_all add: f3(5,6) env pending_def c3 s1(4))
    have l3: "litems s3 ?W = xs" using s2(4) [of ?W] ix i f3(1) by simp
    have lx: "length (litems s ?W) = Suc (length xs)" using lc(1) ix by simp
    have del: "uxTasksDeleted s3 = of_nat (length (litems s3 ?W))" using f3(4) less.prems(5) lx l3 by simp
    have cur3: "cont s3 (Generic (pxCurrentTCB s3)) \<noteq> Some ?W" using c3 f3(3) less.prems(4) by simp
    obtain s' where ih: "prvCheckTasksWaitingTermination s3 = Some s'" "kernel_ok s'" "uxTasksDeleted s' = 0"
      "uxSchedulerSuspended s' = 0" "pxCurrentTCB s' = pxCurrentTCB s3"
      "tcbs s' = (\<lambda>t. if cont s3 (Generic t) = Some ?W then None else tcbs s3 t)"
      "cont s' = (\<lambda>i. if cont s3 i = Some ?W then None else cont s3 i)"
      using less.hyps [OF _ ok3 f3(5) _ cur3 del] l3 lx f3(3) less.prems(3) by auto
    have "\<not> listLIST_IS_EMPTY ?W (heap (vTaskSuspendAll s))"
      using Cons is_empty_items(1) [OF kinvD(1) [OF k] kinvD(2) [OF k, of ?W]] by (simp add: vTaskSuspendAll_def)
    then have "prvCheckTasksWaitingTermination s = Some s'"
      using pos s1(1) own s2(1) ih(1) by (subst prvCheckTasksWaitingTermination.simps) (simp add: s3_def)
    moreover have "tcbs s' = (\<lambda>t. if cont s (Generic t) = Some ?W then None else tcbs s t)"
      using ih(6) c3 f3(2) ci i by (auto simp: fun_eq_iff)
    moreover have "cont s' = (\<lambda>i. if cont s i = Some ?W then None else cont s i)"
      using ih(7) c3 ci i by (auto simp: fun_eq_iff)
    ultimately show ?thesis using ih(2-5) f3(3) by auto
  qed
qed

end
