(* ===== verification/Task_Frames.thy ===== *)
theory Task_Frames
  imports Task_Control
begin

text \<open>
  What the functions of tasks.c leave alone: no function but the creation of the first task sets up
  or destroys a list, and waking the first task of an event list leaves the others in order.
\<close>

section \<open>Initialised lists\<close>

named_theorems inits \<open>functions that keep the set of initialised lists\<close>

definition inits :: "kernel \<Rightarrow> lid set" where
  "inits s = {l. listLIST_IS_INITIALISED l (heap s)}"

lemma inits_cong: "heap s' = heap s \<Longrightarrow> inits s' = inits s"
  by (simp add: inits_def)

lemma inits_update [simp]:
  "inits (s\<lparr>tcbs := a\<rparr>) = inits s" "inits (s\<lparr>pxCurrentTCB := b\<rparr>) = inits s" "inits (s\<lparr>xTickCount := c\<rparr>) = inits s"
  "inits (s\<lparr>uxTopReadyPriority := d\<rparr>) = inits s" "inits (s\<lparr>xYieldPending := e\<rparr>) = inits s"
  "inits (s\<lparr>uxSchedulerSuspended := f\<rparr>) = inits s" "inits (s\<lparr>uxPendedTicks := g\<rparr>) = inits s"
  "inits (s\<lparr>xNextTaskUnblockTime := i\<rparr>) = inits s" "inits (s\<lparr>pending_soft_sv := j\<rparr>) = inits s"
  "inits (s\<lparr>xNumOfOverflows := m\<rparr>) = inits s" "inits (s\<lparr>pxDelayedTaskList := n\<rparr>) = inits s"
  "inits (s\<lparr>pxOverflowDelayedTaskList := p\<rparr>) = inits s" "inits (portYIELD s) = inits s"
  "inits (vTaskMissedYield s) = inits s" "inits (vTaskSuspendAll s) = inits s"
  by (simp_all add: inits_def portYIELD_def vTaskMissedYield_def vTaskSuspendAll_def)

lemma uxListRemove_values: "uxListRemove i h = Some (n, h') \<Longrightarrow> xItemValue h' = xItemValue h"
  by (simp add: uxListRemove_def Let_def split: option.splits if_splits) auto

lemma vListInsert_values: "vListInsert l i h = Some h' \<Longrightarrow> xItemValue h' = xItemValue h"
  by (auto simp: vListInsert_def insert_after_def Let_def frame split: Option.bind_splits if_splits)

lemma k_remove_inits [inits]: "k_remove i s = Some (n, s') \<Longrightarrow> inits s' = inits s"
  by (auto simp: k_remove_def inits_def listLIST_IS_INITIALISED_def dest: uxListRemove_values)

lemma k_insert_inits [inits]: "k_insert l i s = Some s' \<Longrightarrow> inits s' = inits s"
  by (auto simp: k_insert_def inits_def listLIST_IS_INITIALISED_def dest: vListInsert_values)

lemma k_insert_end_inits [simp]: "inits (k_insert_end l i s) = inits s"
  by (simp add: k_insert_end_def inits_def listLIST_IS_INITIALISED_def frame)

lemma k_set_value_inits [simp]: "inits (k_set_value i v s) = inits s"
  by (simp add: k_set_value_def inits_def listLIST_IS_INITIALISED_def listSET_LIST_ITEM_VALUE_def)

lemma next_entry_inits: "listGET_OWNER_OF_NEXT_ENTRY l h = Some (t, h') \<Longrightarrow> xItemValue h' = xItemValue h"
  by (auto simp: listGET_OWNER_OF_NEXT_ENTRY_def Let_def split: Option.bind_splits if_splits)

lemma prvAddTaskToReadyList_inits [inits]: "prvAddTaskToReadyList t s = Some s' \<Longrightarrow> inits s' = inits s"
  by (auto simp: prvAddTaskToReadyList_def taskRECORD_READY_PRIORITY_def Let_def split: Option.bind_splits if_splits)

lemma remove_event_inits [inits]: "remove_event t s = Some s' \<Longrightarrow> inits s' = inits s"
  by (auto simp: remove_event_def inits split: if_splits)

lemma select_inits [inits]: "taskSELECT_HIGHEST_PRIORITY_TASK s = Some s' \<Longrightarrow> inits s' = inits s"
  by (auto simp: taskSELECT_HIGHEST_PRIORITY_TASK_def inits_def listLIST_IS_INITIALISED_def
      dest: next_entry_inits split: Option.bind_splits)

lemma vTaskSwitchContext_inits [inits]: "vTaskSwitchContext s = Some s' \<Longrightarrow> inits s' = inits s"
  by (auto simp: vTaskSwitchContext_def inits split: if_splits)

lemma switch_lists_inits [inits]: "taskSWITCH_DELAYED_LISTS s = Some s' \<Longrightarrow> inits s' = inits s"
  by (auto simp: taskSWITCH_DELAYED_LISTS_def Let_def split: Option.bind_splits if_splits)

lemma unblock_loop_inits [inits]:
  assumes "unblock_loop sw s = Some (sw', s')"
  shows "inits s' = inits s"
proof -
  have "inits (snd (sw', s')) = inits s"
    by (rule unblock_loop.raw_induct [OF _ assms])
      (fastforce dest!: inits split: Option.bind_splits if_splits)
  then show ?thesis by simp
qed

lemma xTaskIncrementTick_inits [inits]: "xTaskIncrementTick s = Some (sw, s') \<Longrightarrow> inits s' = inits s"
  by (auto simp: xTaskIncrementTick_def Let_def dest!: inits split: Option.bind_splits if_splits)

lemma drain_pending_inits [inits]:
  assumes "drain_pending y s = Some (y', s')"
  shows "inits s' = inits s"
proof -
  have "inits (snd (y', s')) = inits s"
    by (rule drain_pending.raw_induct [OF _ assms])
      (fastforce dest!: inits split: Option.bind_splits if_splits)
  then show ?thesis by simp
qed

lemma process_pended_ticks_inits [inits]:
  assumes "process_pended_ticks y s = Some (y', s')"
  shows "inits s' = inits s"
proof -
  have "inits (snd (y', s')) = inits s"
    by (rule process_pended_ticks.raw_induct [OF _ assms])
      (fastforce dest!: inits split: Option.bind_splits if_splits)
  then show ?thesis by simp
qed

lemma xTaskResumeAll_inits [inits]: "xTaskResumeAll s = Some (y, s') \<Longrightarrow> inits s' = inits s"
  by (auto simp: xTaskResumeAll_def Let_def inits split: Option.bind_splits if_splits)

lemma add_delayed_inits [inits]: "prvAddCurrentTaskToDelayedList w s = Some s' \<Longrightarrow> inits s' = inits s"
  by (auto simp: prvAddCurrentTaskToDelayedList_def Let_def inits split: Option.bind_splits if_splits)

lemma place_inits [inits]: "vTaskPlaceOnEventList l n s = Some s' \<Longrightarrow> inits s' = inits s"
  by (auto simp: vTaskPlaceOnEventList_def Let_def inits split: Option.bind_splits if_splits)

lemma place_restricted_inits [inits]: "vTaskPlaceOnEventListRestricted l n s = Some s' \<Longrightarrow> inits s' = inits s"
  by (auto simp: vTaskPlaceOnEventListRestricted_def Let_def inits split: Option.bind_splits if_splits)

lemma remove_from_event_list_inits [inits]: "xTaskRemoveFromEventList l s = Some (y, s') \<Longrightarrow> inits s' = inits s"
  by (auto simp: xTaskRemoveFromEventList_def Let_def inits split: Option.bind_splits if_splits)

lemma set_tcb_inits [simp]: "inits (set_tcb t c s) = inits s"
  by (simp add: set_tcb_def)

lemma inherit_inits [inits]: "vTaskPriorityInherit t s = Some s' \<Longrightarrow> inits s' = inits s"
  by (auto simp: vTaskPriorityInherit_def Let_def inits split: Option.bind_splits if_splits)

lemma disinherit_inits [inits]: "vTaskPriorityDisinherit t s = Some s' \<Longrightarrow> inits s' = inits s"
  by (auto simp: vTaskPriorityDisinherit_def Let_def inits split: Option.bind_splits if_splits)

lemma systick_inits [inits]: "xPortSysTickHandle s = Some s' \<Longrightarrow> inits s' = inits s"
  by (auto simp: xPortSysTickHandle_def inits split: Option.bind_splits if_splits)

section \<open>The order of the tasks that wait\<close>

lemma event_list_items:
  assumes k: "kinv T N X s" and m: "\<not> kernel_list m" and c: "i \<in> set (litems s m)"
  shows "\<exists>t. i = Event t"
proof (cases i)
  case (Generic t)
  with c have "cont s (Generic t) = Some m" using delayed_items(1) [OF k] by simp
  then have "holds m (Generic t)" using kinvD(3) [OF k] by blast
  with m show ?thesis by (cases m) auto
qed auto

text \<open>Waking the first task of an event list leaves the others in order.\<close>

lemma remove_from_event_list_items:
  assumes ok: "kernel_ok s" and hd: "litems s l = Event t # xs" and l: "\<not> kernel_list l"
    and res: "xTaskRemoveFromEventList l s = Some (y, s')" and m: "\<not> kernel_list m"
  shows "litems s' m = (if m = l then xs else litems s m)"
proof -
  note k = kernel_ok_kinv [OF ok]
  have ct: "cont s (Event t) = Some l" using hd delayed_items(1) [OF k, of "Event t" l] by simp
  have td: "t \<in> dom (tcbs s)" using kinvD(4) [OF k ct] by simp
  have own: "listGET_OWNER_OF_HEAD_ENTRY l (heap s) = Some t"
    using head_entry(1) [OF kinvD(1) [OF k] hd] kinvD(5) [OF k, of "Event t"] td by simp
  obtain n s1 where s1: "k_remove (Event t) s = Some (n, s1)" "moved (Event t) None s s1"
    "litems s1 = (litems s)(l := remove1 (Event t) (litems s l))"
    using k_remove_moved [OF k ct] by blast
  note mv = moved_simps [OF s1(2)]
  have k1: "kinv (xTickCount s) (xNextTaskUnblockTime s) {t} s1"
    using kinv_moved [OF k s1(2)] by simp
  have m1: "litems s1 m = (if m = l then xs else litems s m)" using s1(3) hd by simp
  show ?thesis
  proof (cases "uxSchedulerSuspended s = 0")
    case True
    then obtain n2 s2 where s2: "k_remove (Generic t) s1 = Some (n2, s2)" "prvAddTaskToReadyList t s2 = Some s'"
      using res own s1(1) by (auto simp: xTaskRemoveFromEventList_def mv split: Option.bind_splits)
    obtain g where g: "cont s1 (Generic t) = Some g"
      using kinvD(9) [OF k td] by (auto simp: settled_def mv)
    then have "kernel_list g" using kinvD(3) [OF k1 g] by (cases g) auto
    then have ng: "m \<noteq> g" using m by auto
    have "litems s2 = (litems s1)(g := remove1 (Generic t) (litems s1 g))"
      using k_remove_moved [OF k1 g] s2(1) by auto
    then have m2: "litems s2 m = litems s1 m" using ng by simp
    have mv2: "moved (Generic t) None s1 s2" using k_remove_moved [OF k1 g] s2(1) by auto
    note mvs = moved_simps [OF mv2]
    have k2: "kinv (xTickCount s) (xNextTaskUnblockTime s) {t} s2" using kinv_moved [OF k1 mv2] by simp
    obtain c where c: "tcbs s2 t = Some c" using td by (auto simp: mvs mv)
    have "\<forall>l. l \<noteq> Ready (uxPriority c) \<longrightarrow> litems s' l = litems s2 l"
      using add_ready [OF k2 c] s2(2) by (auto simp: mvs mv)
    moreover have "m \<noteq> Ready (uxPriority c)" using m kinvD(6) [OF k2 c] by auto
    ultimately show ?thesis using m1 m2 by simp
  next
    case False
    then have s': "s' = k_insert_end PendingReadyList (Event t) s1"
      using res own s1(1) by (auto simp: xTaskRemoveFromEventList_def mv split: Option.bind_splits)
    have "cont s1 (Event t) = None" using moved_simps(1) [OF s1(2)] movedD(5) [OF s1(2)] by simp
    moreover have "listLIST_IS_INITIALISED PendingReadyList (heap s1)" using kinvD(2) [OF k1] by simp
    moreover have "length (litems s1 PendingReadyList) + 1 < 2 ^ 32"
      by (rule k_room [OF k1, where i = "Event t"]) (use calculation(1) td in \<open>simp_all add: mv\<close>)
    ultimately have "\<forall>m. m \<noteq> PendingReadyList \<longrightarrow> litems s' m = litems s1 m"
      unfolding s' k_insert_end_def using vListInsertEnd_effect(2) [OF kinvD(1) [OF k1], of PendingReadyList "Event t"] by simp
    moreover have "m \<noteq> PendingReadyList" using m by auto
    ultimately show ?thesis using m1 by simp
  qed
qed

section \<open>Setting up the lists of a queue\<close>

lemma kernel_ok_init_list:
  assumes ok: "kernel_ok s" and e: "litems s l = []" and nk: "\<not> kernel_list l"
  shows "kernel_ok (s\<lparr>heap := vListInitialise l (heap s)\<rparr>)"
proof -
  note k = kernel_ok_kinv [OF ok]
  have "kinv_now {} (s\<lparr>heap := vListInitialise l (heap s)\<rparr>)"
    using k vListInitialise_effect [OF kinvD(1) [OF k] e]
    by (simp add: kinv_def lists_inv_def tcbs_inv_def top_inv_def time_inv_def wake_ok_def settled_def)
  then show ?thesis by (rule kernel_ok_frame [OF ok]) (simp_all add: pending_def)
qed

lemma no_event_empty: "kernel_ok s \<Longrightarrow> (\<And>t. cont s (Event t) \<noteq> Some l) \<Longrightarrow> \<not> kernel_list l \<Longrightarrow>
    (\<And>t. \<not> holds l (Generic t)) \<Longrightarrow> litems s l = []"
proof (rule ccontr)
  assume a: "kernel_ok s" "\<And>t. cont s (Event t) \<noteq> Some l" "\<And>t. \<not> holds l (Generic t)" "litems s l \<noteq> []"
  then obtain i where "i \<in> set (litems s l)" by (meson last_in_set)
  then have c: "cont s i = Some l" using delayed_items(1) [OF kernel_ok_kinv [OF a(1)]] by simp
  with a(2) obtain t where "i = Generic t" by (cases i) auto
  with a(3) kinvD(3) [OF kernel_ok_kinv [OF a(1)] c] show False by simp
qed

end
