(* ===== verification/Kernel_Properties.thy ===== *)
theory Kernel_Properties
  imports Task_Frames
begin

text \<open>
  The properties of the scheduler, stated on the kernel operations of \<open>Tasks\<close> and \<open>Task_Control\<close>,
  and the reachable states: a system of tasks and interrupts that makes kernel calls where the
  kernel allows them never dereferences a dead control block and keeps the invariant.
\<close>

section \<open>A sample system\<close>

text \<open>An idle task at address 1 and two tasks of priority 5 at addresses 2 and 3; task 3 runs.\<close>

definition sample_name :: "u8 list" where
  "sample_name = [65, 66, 0]"

definition sample_tasks :: "kernel option" where
  "sample_tasks = do {
     (ok, s) \<leftarrow> xTaskGenericCreate 1 (replicate 16 0) sample_name 0 kernel_reset;
     (ok, s) \<leftarrow> xTaskGenericCreate 2 (replicate 16 0) sample_name 5 s;
     (ok, s) \<leftarrow> xTaskGenericCreate 3 (replicate 16 0) sample_name 5 s;
     Some (s\<lparr>xSchedulerRunning := True\<rparr>)
   }"

definition sample :: kernel where
  "sample = the sample_tasks"

lemma sample_name_ok: "length (replicate 16 (0 :: u8)) = configMAX_TASK_NAME_LEN" "0 \<in> set sample_name"
  by (simp_all add: configMAX_TASK_NAME_LEN_def sample_name_def)

lemma clamp_small: "clamp 0 = 0" "clamp 5 = 5" "clamp 9 = 9"
  by (simp_all add: clamp_def configMAX_PRIORITIES_def)

lemma sample_facts:
  "kernel_ok sample" "pxCurrentTCB sample = 3" "uxSchedulerSuspended sample = 0" "xSchedulerRunning sample"
  "xTickCount sample = 0" "uxPendedTicks sample = 0"
  "cont sample = (\<lambda>_. None)(Generic 1 := Some (Ready 0), Generic 2 := Some (Ready 5), Generic 3 := Some (Ready 5))"
  "\<exists>a b c. tcbs sample = (\<lambda>_. None)(1 := Some a, 2 := Some b, 3 := Some c) \<and> uxPriority a = 0 \<and>
     uxPriority b = 5 \<and> uxPriority c = 5 \<and> uxBasePriority a = 0 \<and> uxBasePriority b = 5 \<and> uxBasePriority c = 5"
  "uxTasksDeleted sample = 0"
proof -
  have r: "tcbs kernel_reset = (\<lambda>_. None)" "cont kernel_reset = (\<lambda>_. None)" "xTickCount kernel_reset = 0"
    "uxSchedulerSuspended kernel_reset = 0" "uxPendedTicks kernel_reset = 0" "\<not> xSchedulerRunning kernel_reset"
    "uxTasksDeleted kernel_reset = 0"
    by (simp_all add: kernel_reset_def fun_eq_iff)
  obtain s1 where s1: "xTaskGenericCreate 1 (replicate 16 0) sample_name 0 kernel_reset = Some (True, s1)"
    "kernel_ok s1" "created 1 sample_name 0 kernel_reset s1" "pxCurrentTCB s1 = 1"
    using create_first_effect [OF kernel_reset_boot _ sample_name_ok, of 1 0] by auto
  obtain a where a: "tcbs s1 = (\<lambda>_. None)(1 := Some a)" "uxPriority a = 0" "uxBasePriority a = 0"
    "cont s1 = (\<lambda>_. None)(Generic 1 := Some (Ready 0))" "uxSchedulerSuspended s1 = 0" "uxPendedTicks s1 = 0"
    "\<not> xSchedulerRunning s1" "xTickCount s1 = 0" "uxTasksDeleted s1 = 0"
    using s1(3) r(6) unfolding created_def clamp_small r(1-5,7) by blast
  obtain s2 where s2: "xTaskGenericCreate 2 (replicate 16 0) sample_name 5 s1 = Some (True, s2)"
    "kernel_ok s2" "created 2 sample_name 5 s1 s2" "pxCurrentTCB s2 = 2"
    using create_effect [OF s1(2) _ _ _ sample_name_ok, of 2 5] s1(4) a(1,2,7) by auto
  obtain b where b: "tcbs s2 = (tcbs s1)(2 := Some b)" "uxPriority b = 5" "uxBasePriority b = 5"
    "cont s2 = (cont s1)(Generic 2 := Some (Ready 5))" "uxSchedulerSuspended s2 = 0" "uxPendedTicks s2 = 0"
    "\<not> xSchedulerRunning s2" "xTickCount s2 = 0" "uxTasksDeleted s2 = 0"
    using s2(3) a(5-9) unfolding created_def clamp_small by metis
  obtain s3 where s3: "xTaskGenericCreate 3 (replicate 16 0) sample_name 5 s2 = Some (True, s3)"
    "kernel_ok s3" "created 3 sample_name 5 s2 s3" "pxCurrentTCB s3 = 3"
    using create_effect [OF s2(2) _ _ _ sample_name_ok, of 3 5] s2(4) b(1,2,7) a(1) by auto
  obtain c where c: "tcbs s3 = (tcbs s2)(3 := Some c)" "uxPriority c = 5" "uxBasePriority c = 5"
    "cont s3 = (cont s2)(Generic 3 := Some (Ready 5))" "uxSchedulerSuspended s3 = 0" "uxPendedTicks s3 = 0"
    "xTickCount s3 = 0" "uxTasksDeleted s3 = 0"
    using s3(3) b(5-9) unfolding created_def clamp_small by metis
  have e: "sample = s3\<lparr>xSchedulerRunning := True\<rparr>"
    using s1(1) s2(1) s3(1) by (simp add: sample_def sample_tasks_def)
  have "kinv_now {} sample" by (rule kinv_now_frame [OF kernel_ok_kinv [OF s3(2)]]) (simp_all add: e)
  then show "kernel_ok sample" by (rule kernel_ok_frame [OF s3(2)]) (simp_all add: e pending_def)
  show "pxCurrentTCB sample = 3" "uxSchedulerSuspended sample = 0" "xSchedulerRunning sample"
    "xTickCount sample = 0" "uxPendedTicks sample = 0" "uxTasksDeleted sample = 0"
    using s3(4) c by (simp_all add: e)
  show "cont sample = (\<lambda>_. None)(Generic 1 := Some (Ready 0), Generic 2 := Some (Ready 5), Generic 3 := Some (Ready 5))"
    using a(4) b(4) c(4) by (simp add: e)
  show "\<exists>a b c. tcbs sample = (\<lambda>_. None)(1 := Some a, 2 := Some b, 3 := Some c) \<and> uxPriority a = 0 \<and>
     uxPriority b = 5 \<and> uxPriority c = 5 \<and> uxBasePriority a = 0 \<and> uxBasePriority b = 5 \<and> uxBasePriority c = 5"
    using a(1-3) b(1-3) c(1-3) by (auto simp: e)
qed

lemma sample_prio [simp]: "prio sample 1 = 0" "prio sample 2 = 5" "prio sample 3 = 5"
  using sample_facts(8) by auto

lemma sample_dom [simp]: "dom (tcbs sample) = {1, 2, 3}"
  using sample_facts(8) by (auto split: if_splits)

lemmas sample_simps [simp] = sample_facts(1-6)

lemma sample_cont [simp]:
  "cont sample (Generic t) = (if t = 1 then Some (Ready 0) else if t = 2 \<or> t = 3 then Some (Ready 5) else None)"
  "cont sample (Event t) = None"
  using sample_facts(7) by auto

section \<open>The scheduler\<close>

text \<open>
  C1: the tick. On a consistent kernel with the scheduler not suspended, \<open>xTaskIncrementTick\<close> ends and
  advances the tick count by one, modulo \<open>2 ^ 32\<close>; it makes ready exactly the tasks in the two delayed
  lists whose wake time is at most one tick away (across the wrap of the counter, too), each in
  the ready list of its priority and out of its event list, and leaves every other task where it
  was. It asks for a switch exactly when an unblocked task has at least the priority of the
  running one or another task shares the running task's ready list, and the invariant is kept.
\<close>

theorem xTaskIncrementTick_exact:
  assumes "kernel_ok s" and "uxSchedulerSuspended s = 0" and "pxCurrentTCB s \<noteq> 0"
  shows "\<exists>sw s'. xTaskIncrementTick s = Some (sw, s') \<and> kernel_ok s' \<and> xTickCount s' = xTickCount s + 1 \<and>
    (\<forall>t. cont s' (Generic t) =
       (if (\<exists>l. cont s (Generic t) = Some l \<and> delayed_list l) \<and> ival s (Generic t) - xTickCount s \<le> 1
        then Some (Ready (prio s t)) else cont s (Generic t))) \<and>
    (\<forall>t. cont s' (Event t) =
       (if (\<exists>l. cont s (Generic t) = Some l \<and> delayed_list l) \<and> ival s (Generic t) - xTickCount s \<le> 1
        then None else cont s (Event t))) \<and>
    (sw \<longleftrightarrow> (\<exists>t. (\<exists>l. cont s (Generic t) = Some l \<and> delayed_list l) \<and> ival s (Generic t) - xTickCount s \<le> 1 \<and>
        prio s t \<ge> prio s (pxCurrentTCB s)) \<or> 1 < length (litems s' (Ready (prio s (pxCurrentTCB s)))))"
proof -
  obtain sw s' where t: "xTaskIncrementTick s = Some (sw, s')" "kinv_now {} s'" "ticked s s'"
    "sw \<longleftrightarrow> (\<exists>t. wakes s t \<and> prio s t \<ge> prio s (pxCurrentTCB s)) \<or>
      1 < length (litems s' (Ready (prio s (pxCurrentTCB s))))"
    using tick_effect [OF kernel_ok_kinv [OF assms(1)] assms(2,3)] by blast
  have "kernel_ok s'"
    by (rule kernel_ok_frame [OF assms(1) t(2)])
      (use tickedD(3) [OF t(3)] in \<open>auto simp: ticked_frame [OF t(3)] pending_def split: if_splits\<close>)
  moreover note tickedD(2,3) [OF t(3), unfolded wakes_def] t(4) [unfolded wakes_def] t(1) ticked_frame(11) [OF t(3)]
  ultimately show ?thesis by (intro exI [of _ sw] exI [of _ s']) simp
qed

theorem xTaskIncrementTick_exact_witness:
  "\<exists>sw s'. xTaskIncrementTick sample = Some (sw, s') \<and> kernel_ok s' \<and> xTickCount s' = 1 \<and>
    cont s' (Generic 2) = Some (Ready 5)"
  using xTaskIncrementTick_exact [of sample] by fastforce

text \<open>
  C2: the running task. When the scheduler is not suspended and some task is ready,
  \<open>vTaskSwitchContext\<close> ends without leaving the array of ready lists, and the task it makes current is
  ready and has the highest priority of all ready tasks; the lists keep their items.
\<close>

theorem vTaskSwitchContext_highest:
  assumes "kernel_ok s" and "uxSchedulerSuspended s = 0" and "cont s (Generic t0) = Some (Ready p0)"
  shows "\<exists>s'. vTaskSwitchContext s = Some s' \<and> kernel_ok s' \<and> litems s' = litems s \<and>
    cont s' (Generic (pxCurrentTCB s')) = Some (Ready (prio s' (pxCurrentTCB s'))) \<and>
    (\<forall>t p. cont s (Generic t) = Some (Ready p) \<longrightarrow> p \<le> prio s' (pxCurrentTCB s'))"
proof -
  obtain s' where "vTaskSwitchContext s = Some s'" "kernel_ok s'" "cont s' = cont s" "litems s' = litems s"
    "tcbs s' = tcbs s" "cont s (Generic (pxCurrentTCB s')) = Some (Ready (prio s (pxCurrentTCB s')))"
    "\<forall>u p. cont s (Generic u) = Some (Ready p) \<longrightarrow> p \<le> prio s (pxCurrentTCB s')"
    using kernel_ok_select [OF assms(1,3,2)] by blast
  then show ?thesis by (intro exI [of _ s']) simp
qed

theorem vTaskSwitchContext_highest_witness:
  "\<exists>s'. vTaskSwitchContext sample = Some s' \<and> kernel_ok s' \<and> 5 \<le> prio s' (pxCurrentTCB s')"
proof -
  obtain s' where "vTaskSwitchContext sample = Some s'" "kernel_ok s'"
    "\<forall>t p. cont sample (Generic t) = Some (Ready p) \<longrightarrow> p \<le> prio s' (pxCurrentTCB s')"
    using vTaskSwitchContext_highest [of sample 2 5] by auto
  moreover from this(3) [rule_format, of 2 5] have "5 \<le> prio s' (pxCurrentTCB s')" by simp
  ultimately show ?thesis by blast
qed

text \<open>
  C3: time slicing. If the highest ready priority has \<open>n\<close> ready tasks, \<open>n\<close> context switches in a row
  run each of them exactly once, in the order of the ready list.
\<close>

theorem time_slicing_fair:
  assumes "kernel_ok s" and "uxSchedulerSuspended s = 0" and "cont s (Generic t) = Some (Ready q)"
    and "\<And>u p. cont s (Generic u) = Some (Ready p) \<Longrightarrow> p \<le> q"
  shows "\<exists>k s'. run_switches (length (litems s (Ready q))) s =
      Some (map task_of (rotate k (litems s (Ready q))), s') \<and> cont s' = cont s \<and>
    distinct (map task_of (rotate k (litems s (Ready q)))) \<and>
    set (map task_of (rotate k (litems s (Ready q)))) = {u. cont s (Generic u) = Some (Ready q)}"
proof -
  note k = kernel_ok_kinv [OF assms(1)]
  let ?xs = "litems s (Ready q)"
  have inx: "i \<in> set ?xs \<Longrightarrow> \<exists>u. i = Generic u \<and> cont s (Generic u) = Some (Ready q) \<and> pvOwner (heap s) i = task_of i" for i
    using ready_item [OF k, of i q] by (metis task_of.simps(1))
  have mem: "Generic u \<in> set ?xs \<longleftrightarrow> cont s (Generic u) = Some (Ready q)" for u
    using delayed_items(1) [OF k] by simp
  have ne: "?xs \<noteq> []" using mem [of t] assms(3) by auto
  obtain p where p: "index_at (heap s) (Ready q) p" using index_at_exists [OF kinvD(1) [OF k] ne] ..
  have rot: "map (\<lambda>j. pvOwner (heap s) (?xs ! ((Suc p + j) mod length ?xs))) [0..<length ?xs] =
      map (pvOwner (heap s)) (rotate (Suc p) ?xs)"
    by (rule nth_equalityI) (simp_all add: nth_rotate del: rotate_Suc)
  obtain h' where "next_entries (length ?xs) (Ready q) (heap s) =
      Some (map (pvOwner (heap s)) (rotate (Suc p) ?xs), h')"
    using next_entries_effect [OF kinvD(1) [OF k] p, of "length ?xs"] unfolding rot by blast
  moreover have "map (pvOwner (heap s)) (rotate (Suc p) ?xs) = map task_of (rotate (Suc p) ?xs)"
    using inx by (intro map_cong) (auto simp del: rotate_Suc)
  ultimately have ts: "next_entries (length ?xs) (Ready q) (heap s) = Some (map task_of (rotate (Suc p) ?xs), h')"
    by simp
  have "\<exists>s'. run_switches (length ?xs) s = Some (map task_of (rotate (Suc p) ?xs), s') \<and> kinv_now {} s \<and> cont s' = cont s"
    using run_switches_next_entries [OF k assms(2,3) _ ts] assms(4) k by blast
  then obtain s' where "run_switches (length ?xs) s = Some (map task_of (rotate (Suc p) ?xs), s')" "cont s' = cont s"
    by blast
  moreover have "inj_on task_of (set ?xs)" using inx by (intro inj_onI) (metis task_of.simps(1))
  then have "distinct (map task_of (rotate (Suc p) ?xs))"
    using heap_wf_distinct [OF kinvD(1) [OF k], of "Ready q"] by (simp add: distinct_map del: rotate_Suc)
  moreover have "set (map task_of (rotate (Suc p) ?xs)) = {u. cont s (Generic u) = Some (Ready q)}"
    using inx mem by (force simp del: rotate_Suc)
  ultimately show ?thesis by blast
qed

theorem time_slicing_fair_witness:
  "\<exists>ts s'. run_switches (length (litems sample (Ready 5))) sample = Some (ts, s') \<and> set ts = {2, 3}"
proof -
  have "{u. cont sample (Generic u) = Some (Ready 5)} = {2, 3}" by auto
  with time_slicing_fair [of sample 2 5] show ?thesis by (fastforce split: if_splits)
qed

text \<open>
  C4: delays are exact. A running task that calls \<open>vTaskDelay(n)\<close> with \<open>n > 0\<close> is blocked; with only
  tick interrupts following and another task ready, it stays blocked for the first \<open>n - 1\<close> ticks and
  is ready after every number \<open>m \<ge> n\<close> of ticks (below \<open>2 ^ 32\<close>), wherever the tick counter wraps.
\<close>

theorem vTaskDelay_exact:
  assumes "kernel_ok s" and "uxSchedulerSuspended s = 0" and "pxCurrentTCB s \<noteq> 0" and "0 < n"
    and "t0 \<noteq> pxCurrentTCB s" and "cont s (Generic t0) = Some (Ready p0)" and "m < 2 ^ 32"
  shows "\<exists>s1 s2. vTaskDelay n s = Some s1 \<and> kernel_ok s1 \<and> pending_soft_sv s1 \<and>
    systicks m s1 = Some s2 \<and> kernel_ok s2 \<and> xTickCount s2 = xTickCount s + of_nat m \<and>
    (if m < unat n then \<exists>l. delayed_list l \<and> cont s2 (Generic (pxCurrentTCB s)) = Some l
     else cont s2 (Generic (pxCurrentTCB s)) = Some (Ready (prio s (pxCurrentTCB s))))"
proof -
  let ?t = "pxCurrentTCB s"
  let ?l = "if xTickCount s + n < xTickCount s then pxOverflowDelayedTaskList s else pxDelayedTaskList s"
  obtain s1 where s1: "vTaskDelay n s = Some s1" "kernel_ok s1" "same_env s s1" "xTickCount s1 = xTickCount s"
    "pending_soft_sv s1" "cont s1 = (cont s)(Generic ?t := Some ?l)" "ival s1 = (ival s)(Generic ?t := xTickCount s + n)"
    using vTaskDelay_effect [OF assms(1-4)] by blast
  have env: "uxSchedulerSuspended s1 = 0" "pxCurrentTCB s1 \<noteq> 0" "tcbs s1 = tcbs s"
    using s1(3) assms(2,3) by (auto simp: same_env_def)
  have r1: "cont s1 (Generic t0) = Some (Ready p0)" using s1(6) assms(5,6) by simp
  obtain s2 where s2: "systicks m s1 = Some s2" "kinv_now {} s2" "uxPendedTicks s2 = uxPendedTicks s1"
    "uxSchedulerSuspended s2 = 0" "xTickCount s2 = xTickCount s1 + of_nat m"
    "\<And>t. cont s2 (Generic t) = (if due s1 (of_nat m) t then Some (Ready (prio s1 t)) else cont s1 (Generic t))"
    "\<And>t. cont s2 (Event t) = (if due s1 (of_nat m) t then None else cont s1 (Event t))"
    using systicks_effect [OF kernel_ok_kinv [OF s1(2)] env(1,2) r1 assms(7)] by blast
  have ok2: "kernel_ok s2"
    by (rule kernel_ok_frame [OF s1(2) s2(2)]) (use s2(3,4,7) env(1) in \<open>auto simp: pending_def split: if_splits\<close>)
  have dl: "delayed_list ?l" using kinv_delayed(1,2) [OF kernel_ok_kinv [OF assms(1)]] by simp
  have "due s1 (of_nat m) ?t \<longleftrightarrow> unat n \<le> m"
    using dl s1(4,6,7) assms(4,7) unat_of_nat_u32 [OF assms(7)]
    by (auto simp: due_def word_le_nat_alt word_less_nat_alt)
  then have "if m < unat n then \<exists>l. delayed_list l \<and> cont s2 (Generic ?t) = Some l
      else cont s2 (Generic ?t) = Some (Ready (prio s ?t))"
    using s2(6) [of ?t] s1(6) dl env(3) by auto
  then show ?thesis using s1(1,2,4,5) s2(1,5) ok2 by auto
qed

theorem vTaskDelay_exact_witness:
  "\<exists>s1 s2. vTaskDelay 3 sample = Some s1 \<and> systicks 3 s1 = Some s2 \<and> cont s2 (Generic 3) = Some (Ready 5)"
  using vTaskDelay_exact [of sample 3 1 0 3] by auto

text \<open>
  C5: periodic delays. \<open>vTaskDelayUntil\<close> always moves the wake time on by the period, and blocks the
  caller until exactly that time if fewer ticks than the period have passed since the last wake
  time; otherwise the task stays ready. Both the tick counter and the wake time may have wrapped.
\<close>

theorem vTaskDelayUntil_period:
  assumes "kernel_ok s" and "uxSchedulerSuspended s = 0" and "pxCurrentTCB s \<noteq> 0"
  shows "\<exists>s'. vTaskDelayUntil prev inc s = Some (prev + inc, s') \<and> kernel_ok s' \<and> pending_soft_sv s' \<and>
    (if xTickCount s - prev < inc
     then cont s' = (cont s)(Generic (pxCurrentTCB s) :=
            Some (if prev + inc < xTickCount s then pxOverflowDelayedTaskList s else pxDelayedTaskList s)) \<and>
          ival s' (Generic (pxCurrentTCB s)) = prev + inc
     else cont s' = cont s)"
proof -
  obtain s' where "vTaskDelayUntil prev inc s = Some (prev + inc, s')" "kernel_ok s'" "pending_soft_sv s'"
    "cont s' = (if xTickCount s - prev < inc
      then (cont s)(Generic (pxCurrentTCB s) :=
        Some (if prev + inc < xTickCount s then pxOverflowDelayedTaskList s else pxDelayedTaskList s))
      else cont s)"
    "ival s' = (if xTickCount s - prev < inc then (ival s)(Generic (pxCurrentTCB s) := prev + inc) else ival s)"
    using vTaskDelayUntil_effect [OF assms, of prev inc] by blast
  then show ?thesis by auto
qed

theorem vTaskDelayUntil_period_witness:
  "\<exists>s'. vTaskDelayUntil 0xfffffffe 5 sample = Some (3, s') \<and> kernel_ok s' \<and> ival s' (Generic 3) = 3"
  using vTaskDelayUntil_period [of sample "0xfffffffe" 5] by auto

text \<open>
  C6: no tick and no wake-up is lost while the scheduler is suspended. The outermost
  \<open>xTaskResumeAll\<close> ends, makes every task in the pending-ready list ready, then replays all ticks held
  back, so that the tick count has advanced by their number and exactly the tasks due within them
  are ready; afterwards nothing is pending and the invariant holds.
\<close>

theorem xTaskResumeAll_catches_up:
  assumes "kernel_ok s" and "uxSchedulerSuspended s = 1" and "pxCurrentTCB s \<noteq> 0"
  shows "\<exists>y s'. xTaskResumeAll s = Some (y, s') \<and> kernel_ok s' \<and> uxSchedulerSuspended s' = 0 \<and>
    xTickCount s' = xTickCount s + uxPendedTicks s \<and> uxPendedTicks s' = 0 \<and>
    (\<forall>t. cont s' (Generic t) =
       (if cont s (Event t) = Some PendingReadyList \<or> due s (uxPendedTicks s) t
        then Some (Ready (prio s t)) else cont s (Generic t))) \<and>
    (\<forall>t. cont s' (Event t) =
       (if cont s (Event t) = Some PendingReadyList \<or> due s (uxPendedTicks s) t then None else cont s (Event t))) \<and>
    (xYieldPending s \<longrightarrow> y \<and> pending_soft_sv s')"
proof -
  obtain y s' where "xTaskResumeAll s = Some (y, s')" "kernel_ok s'"
    "same_env (s\<lparr>uxSchedulerSuspended := 0\<rparr>) s'" "uxPendedTicks s' = 0" "xTickCount s' = xTickCount s + uxPendedTicks s"
    "\<forall>t. cont s' (Generic t) =
       (if pending s t \<or> due s (uxPendedTicks s) t then Some (Ready (prio s t)) else cont s (Generic t))"
    "\<forall>t. cont s' (Event t) = (if pending s t \<or> due s (uxPendedTicks s) t then None else cont s (Event t))"
    "y \<longrightarrow> pending_soft_sv s'" "xYieldPending s \<longrightarrow> y"
    using resume_all_effect [OF kernel_ok_kinv [OF assms(1)] assms(2,3)] by blast
  then show ?thesis unfolding pending_def same_env_def by auto
qed

definition sample_suspended :: kernel where
  "sample_suspended = (vTaskSuspendAll sample)\<lparr>uxPendedTicks := 2\<rparr>"

lemma sample_suspended_ok: "kernel_ok sample_suspended"
proof -
  have "kinv_now {} sample_suspended"
    by (rule kinv_now_frame [OF kernel_ok_kinv [OF sample_facts(1)]])
      (simp_all add: sample_suspended_def vTaskSuspendAll_def)
  then show ?thesis by (simp add: kernel_ok_def sample_suspended_def vTaskSuspendAll_def)
qed

theorem xTaskResumeAll_catches_up_witness:
  "\<exists>y s'. xTaskResumeAll sample_suspended = Some (y, s') \<and> xTickCount s' = 2 \<and> uxSchedulerSuspended s' = 0"
  using xTaskResumeAll_catches_up [OF sample_suspended_ok]
  by (auto simp: sample_suspended_def vTaskSuspendAll_def)

text \<open>
  C7: timeouts. Against an unbounded count of ticks, \<open>xTaskCheckForTimeOut\<close> reports a timeout exactly
  when at least \<open>w\<close> ticks have passed since the time-out state was taken, provided the tick counter
  has wrapped at most once since; otherwise it returns the remaining ticks and restarts the
  measurement at the current time.
\<close>

theorem xTaskCheckForTimeOut_exact:
  assumes "shows_time A (xOverflowCount tmo) (xTimeOnEntering tmo)"
    and "shows_time B (xNumOfOverflows s) (xTickCount s)"
    and "A \<le> B" and "B div 2 ^ 32 \<le> A div 2 ^ 32 + 1" and "w \<noteq> portMAX_DELAY"
  shows "xTaskCheckForTimeOut tmo w s =
      (if unat w \<le> B - A then (True, tmo, w) else (False, vTaskSetTimeOutState s, w - of_nat (B - A))) \<and>
    shows_time B (xOverflowCount (vTaskSetTimeOutState s)) (xTimeOnEntering (vTaskSetTimeOutState s))"
  using time_out_iff [OF assms] assms(2) by (simp add: vTaskSetTimeOutState_def)

theorem xTaskCheckForTimeOut_exact_witness:
  "xTaskCheckForTimeOut \<lparr>xOverflowCount = 0, xTimeOnEntering = 0xfffffffe\<rparr> 5
     (sample\<lparr>xNumOfOverflows := 1, xTickCount := 1\<rparr>) =
   (False, vTaskSetTimeOutState (sample\<lparr>xNumOfOverflows := 1, xTickCount := 1\<rparr>), 2)"
  using xTaskCheckForTimeOut_exact [of "0xfffffffe" "\<lparr>xOverflowCount = 0, xTimeOnEntering = 0xfffffffe\<rparr>"
      "0x100000001" "sample\<lparr>xNumOfOverflows := 1, xTickCount := 1\<rparr>" 5]
  by (simp add: shows_time_def portMAX_DELAY_def)

text \<open>
  Waiting for an event. A running task placed on an event list with a wait of \<open>n\<close> ticks leaves
  its ready list, is in the event list, and is in the suspended list if \<open>n\<close> is \<open>portMAX_DELAY\<close> and in
  the delayed list of its wake time otherwise; no other task moves and the invariant is kept.
\<close>

lemma vTaskPlaceOnEventList_blocks:
  assumes "kernel_ok s" and "running_ready s" and "holds l (Event (pxCurrentTCB s))"
    and "listLIST_IS_INITIALISED l (heap s)" and "l \<noteq> PendingReadyList" and "0 < n"
  shows "\<exists>s'. vTaskPlaceOnEventList l n s = Some s' \<and> kernel_ok s' \<and>
    cont s' = (cont s)(Event (pxCurrentTCB s) := Some l, Generic (pxCurrentTCB s) :=
      Some (if n = portMAX_DELAY then SuspendedTaskList
            else if xTickCount s + n < xTickCount s then pxOverflowDelayedTaskList s else pxDelayedTaskList s)) \<and>
    (n \<noteq> portMAX_DELAY \<longrightarrow> ival s' (Generic (pxCurrentTCB s)) = xTickCount s + n)"
proof -
  have "n \<noteq> 0 \<or> xTickCount s \<noteq> portMAX_DELAY" using assms(6) by auto
  then obtain s' where s': "vTaskPlaceOnEventList l n s = Some s'" "kinv_now {} s'"
    "cont s' = (cont s)(Event (pxCurrentTCB s) := Some l, Generic (pxCurrentTCB s) := Some (wait_list s n))"
    "n \<noteq> portMAX_DELAY \<longrightarrow> ival s' (Generic (pxCurrentTCB s)) = xTickCount s + n"
    "s' = s\<lparr>heap := heap s', xNextTaskUnblockTime := xNextTaskUnblockTime s'\<rparr>"
    using place_on_event_list_effect [OF kernel_ok_kinv [OF assms(1)] assms(2-4)] by blast
  obtain h m where e: "s' = s\<lparr>heap := h, xNextTaskUnblockTime := m\<rparr>" using s'(5) by blast
  have "kernel_ok s'"
    by (rule kernel_ok_frame [OF assms(1) s'(2)])
      (use s'(3) assms(5) in \<open>auto simp: e pending_def split: if_splits\<close>)
  then show ?thesis using s'(1,3,4) unfolding wait_list_def by blast
qed

text \<open>The sample system with the two event lists of a queue at address 100 set up.\<close>

definition sample_queue :: kernel where
  "sample_queue = sample\<lparr>heap := vListInitialise (TasksWaitingToReceive 100)
     (vListInitialise (TasksWaitingToSend 100) (heap sample))\<rparr>"

lemma sample_queue_facts:
  "kernel_ok sample_queue" "listLIST_IS_INITIALISED (TasksWaitingToReceive 100) (heap sample_queue)"
  "listLIST_IS_INITIALISED (TasksWaitingToSend 100) (heap sample_queue)"
  "cont sample_queue = cont sample" "pxCurrentTCB sample_queue = 3" "xTickCount sample_queue = 0"
proof -
  let ?s = "sample\<lparr>heap := vListInitialise (TasksWaitingToSend 100) (heap sample)\<rparr>"
  have 1: "kernel_ok ?s" by (rule kernel_ok_init_list) (auto intro!: no_event_empty)
  have "kernel_ok (?s\<lparr>heap := vListInitialise (TasksWaitingToReceive 100) (heap ?s)\<rparr>)"
    by (rule kernel_ok_init_list [OF 1], rule no_event_empty [OF 1]) simp_all
  then show "kernel_ok sample_queue" by (simp add: sample_queue_def)
qed (simp_all add: sample_queue_def)

text \<open>
  The event happens. \<open>xTaskRemoveFromEventList\<close> on a list with a waiting task ends, takes exactly the
  first task of the list off it, makes it ready at once if the scheduler runs and puts it into
  the pending-ready list if the scheduler is suspended, and reports whether that task should
  pre-empt the running one.
\<close>

theorem xTaskRemoveFromEventList_wakes:
  assumes "kernel_ok s" and "pxCurrentTCB s \<noteq> 0" and "litems s l = Event t # xs"
  shows "\<exists>s'. xTaskRemoveFromEventList l s = Some (prio s t \<ge> prio s (pxCurrentTCB s), s') \<and> kernel_ok s' \<and>
    cont s' = (if uxSchedulerSuspended s = 0
      then (cont s)(Event t := None, Generic t := Some (Ready (prio s t)))
      else (cont s)(Event t := Some PendingReadyList))"
  using remove_from_event_list_effect [OF assms] by blast

definition sample_waiting :: kernel where
  "sample_waiting = the (vTaskPlaceOnEventList (TasksWaitingToReceive 100) 7 sample_queue)"

lemma sample_waiting_facts:
  "kernel_ok sample_waiting" "pxCurrentTCB sample_waiting = 3"
  "litems sample_waiting (TasksWaitingToReceive 100) = [Event 3]"
proof -
  let ?l = "TasksWaitingToReceive 100"
  have run: "running_ready sample_queue" using sample_queue_facts(4,5) by (simp add: running_ready_def)
  obtain s' where s': "vTaskPlaceOnEventList ?l 7 sample_queue = Some s'" "kinv_now {} s'"
    "cont s' = (cont sample_queue)(Event (pxCurrentTCB sample_queue) := Some ?l,
       Generic (pxCurrentTCB sample_queue) := Some (wait_list sample_queue 7))"
    "s' = sample_queue\<lparr>heap := heap s', xNextTaskUnblockTime := xNextTaskUnblockTime s'\<rparr>"
    using place_on_event_list_effect [OF kernel_ok_kinv [OF sample_queue_facts(1)] run, of ?l 7] sample_queue_facts
    by auto
  have e: "sample_waiting = s'" by (simp add: sample_waiting_def s'(1))
  obtain h m where f: "s' = sample_queue\<lparr>heap := h, xNextTaskUnblockTime := m\<rparr>" using s'(4) by blast
  have c: "cont s' i = Some ?l \<longleftrightarrow> i = Event 3" for i
    using s'(3) sample_queue_facts(4-6) kinv_delayed(1) [OF kernel_ok_kinv [OF sample_queue_facts(1)]]
    by (cases i) (auto simp: wait_list_def portMAX_DELAY_def)
  have "kernel_ok s'"
    by (rule kernel_ok_frame [OF sample_queue_facts(1) s'(2)])
      (use s'(3) in \<open>auto simp: f pending_def split: if_splits\<close>)
  then show "kernel_ok sample_waiting" by (simp add: e)
  show "pxCurrentTCB sample_waiting = 3" using sample_queue_facts(5) by (simp add: e f)
  have "set (litems s' ?l) = {Event 3}" using delayed_items(1) [OF s'(2), of _ ?l] c by auto
  moreover have "distinct (litems s' ?l)" by (rule heap_wf_distinct [OF kinvD(1) [OF s'(2)]])
  ultimately show "litems sample_waiting ?l = [Event 3]"
    unfolding e by (cases "litems s' ?l"; cases "tl (litems s' ?l)") auto
qed
section \<open>Task control\<close>

text \<open>
  C8: creating a task. With a fresh control block and a terminated name, \<open>xTaskGenericCreate\<close> succeeds,
  the new task is ready at its priority (cut to the largest priority), its name is the given one
  cut to 15 characters, no other task moves, and before the scheduler runs the newest task of
  the highest priority becomes the current one. Without memory nothing changes.
\<close>

theorem xTaskGenericCreate_ready:
  assumes "kernel_ok s" and "pxCurrentTCB s \<noteq> 0" and "t \<noteq> 0" and "tcbs s t = None"
    and "length garbage = configMAX_TASK_NAME_LEN" and "0 \<in> set nm"
  shows "\<exists>s' c. xTaskGenericCreate t garbage nm p s = Some (True, s') \<and> kernel_ok s' \<and>
    tcbs s' = (tcbs s)(t := Some c) \<and> uxPriority c = min p 14 \<and> uxBasePriority c = min p 14 \<and>
    takeWhile (\<lambda>b. b \<noteq> 0) (pcTaskName c) = take 15 (takeWhile (\<lambda>b. b \<noteq> 0) nm) \<and>
    cont s' = (cont s)(Generic t := Some (Ready (min p 14))) \<and>
    pxCurrentTCB s' = (if \<not> xSchedulerRunning s \<and> prio s (pxCurrentTCB s) \<le> p then t else pxCurrentTCB s) \<and>
    xTaskGenericCreate 0 garbage nm p s = Some (False, s)"
proof -
  have m: "clamp p = min p 14" by (rule clamp_min)
  obtain s' where s': "xTaskGenericCreate t garbage nm p s = Some (True, s')" "kernel_ok s'" "created t nm p s s'"
    "pxCurrentTCB s' = (if \<not> xSchedulerRunning s \<and> prio s (pxCurrentTCB s) \<le> p then t else pxCurrentTCB s)"
    using create_effect [OF assms, of p] by blast
  then show ?thesis using s'(3) unfolding created_def m
    by (auto simp: xTaskGenericCreate_def)
qed

theorem xTaskGenericCreate_ready_witness:
  "\<exists>s'. xTaskGenericCreate 4 (replicate 16 0) sample_name 20 sample = Some (True, s') \<and> kernel_ok s' \<and>
    cont s' (Generic 4) = Some (Ready 14)"
proof -
  have "tcbs sample 4 = None" using sample_facts(8) by auto
  then show ?thesis
    using xTaskGenericCreate_ready [OF sample_facts(1) _ _ _ sample_name_ok, of 4 20] by auto
qed

text \<open>
  C9: deleting tasks. \<open>vTaskDelete\<close> takes a task out of its state and event lists and parks it; the
  idle task's clean-up then ends and frees exactly the parked control blocks, as long as the
  count of deleted tasks agrees with the list and the idle task itself is not deleted.
\<close>

theorem vTaskDelete_cleanup:
  assumes "kernel_ok s" and "uxSchedulerSuspended s = 0" and "pxCurrentTCB s \<noteq> 0"
    and "t \<in> dom (tcbs s)" and "t \<noteq> pxCurrentTCB s"
    and "cont s (Generic (pxCurrentTCB s)) \<noteq> Some TasksWaitingTermination"
    and "cont s (Generic t) \<noteq> Some TasksWaitingTermination"
    and "uxTasksDeleted s = of_nat (length (litems s TasksWaitingTermination))"
  shows "\<exists>s1 s2. vTaskDelete t s = Some s1 \<and> kernel_ok s1 \<and> cont s1 (Event t) = None \<and>
    prvCheckTasksWaitingTermination s1 = Some s2 \<and> kernel_ok s2 \<and> uxTasksDeleted s2 = 0 \<and>
    tcbs s2 = (\<lambda>u. if u = t \<or> cont s (Generic u) = Some TasksWaitingTermination then None else tcbs s u)"
proof -
  let ?W = TasksWaitingTermination
  note k = kernel_ok_kinv [OF assms(1)]
  have h: "prvGetTCBFromHandle t s = t" using assms(4) kinvD(8) [OF k] by (auto simp: prvGetTCBFromHandle_def)
  obtain s1 where s1: "vTaskDelete t s = Some s1" "kernel_ok s1"
    "cont s1 = (cont s)(Event t := None, Generic t := Some ?W)" "uxTasksDeleted s1 = uxTasksDeleted s + 1"
    and env: "tcbs s1 = tcbs s" "pxCurrentTCB s1 = pxCurrentTCB s" "uxSchedulerSuspended s1 = 0"
    using vTaskDelete_effect [OF assms(1), of t] assms(2,4) h by auto
  have "set (litems s1 ?W) = insert (Generic t) (set (litems s ?W))"
    using delayed_items(1) [OF kernel_ok_kinv [OF s1(2)], of _ ?W] delayed_items(1) [OF k, of _ ?W]
      s1(3) kinvD(3) [OF k, of "Event t" ?W] by (auto split: if_splits)
  moreover have "Generic t \<notin> set (litems s ?W)" using delayed_items(1) [OF k, of _ ?W] assms(7) by simp
  ultimately have "length (litems s1 ?W) = Suc (length (litems s ?W))"
    using distinct_card [OF heap_wf_distinct [OF kinvD(1) [OF k]], of ?W]
      distinct_card [OF heap_wf_distinct [OF kinvD(1) [OF kernel_ok_kinv [OF s1(2)]]], of ?W] by simp
  then have "uxTasksDeleted s1 = of_nat (length (litems s1 ?W))" using s1(4) assms(8) by simp
  moreover have "cont s1 (Generic (pxCurrentTCB s1)) \<noteq> Some ?W" using env(2) s1(3) assms(5,6) by simp
  moreover have "pxCurrentTCB s1 \<noteq> 0" using env(2) assms(3) by simp
  ultimately obtain s2 where s2: "prvCheckTasksWaitingTermination s1 = Some s2" "kernel_ok s2" "uxTasksDeleted s2 = 0"
    "tcbs s2 = (\<lambda>t. if cont s1 (Generic t) = Some ?W then None else tcbs s1 t)"
    using check_termination_effect [OF s1(2) env(3)] by blast
  have "tcbs s2 = (\<lambda>u. if u = t \<or> cont s (Generic u) = Some ?W then None else tcbs s u)"
    using s2(4) s1(3) env(1) by (auto simp: fun_eq_iff)
  then show ?thesis using s1(1-3) s2(1-3) by auto
qed

theorem vTaskDelete_cleanup_witness:
  "\<exists>s1 s2. vTaskDelete 2 sample = Some s1 \<and> prvCheckTasksWaitingTermination s1 = Some s2 \<and> tcbs s2 2 = None"
proof -
  have "litems sample TasksWaitingTermination = []"
  proof (rule ccontr)
    assume "litems sample TasksWaitingTermination \<noteq> []"
    then obtain i where "cont sample i = Some TasksWaitingTermination"
      using delayed_items(1) [OF kernel_ok_kinv [OF sample_facts(1)]] by (meson last_in_set)
    then show False by (cases i) (auto split: if_splits)
  qed
  moreover have "uxTasksDeleted sample = 0" by (rule sample_facts(9))
  ultimately show ?thesis using vTaskDelete_cleanup [of sample 2] by auto
qed

text \<open>
  C10: suspending a task. In a running system \<open>vTaskSuspend\<close> takes the task out of every other list;
  \<open>xTaskIsTaskSuspended\<close> then holds of it, fewer than 2^32 ticks do not wake it, and \<open>vTaskResume\<close> by another
  task makes it ready at its priority again.
\<close>

theorem vTaskSuspend_until_resume:
  assumes "kernel_ok s" and "uxSchedulerSuspended s = 0" and "pxCurrentTCB s \<noteq> 0" and "xSchedulerRunning s"
    and "t \<in> dom (tcbs s)" and "t \<noteq> pxCurrentTCB s"
    and "cont s (Generic (pxCurrentTCB s)) = Some (Ready p0)" and "m < 2 ^ 32"
  shows "\<exists>s1 s2 s3. vTaskSuspend t s = Some s1 \<and> kernel_ok s1 \<and> xTaskIsTaskSuspended t s1 \<and>
    systicks m s1 = Some s2 \<and> kernel_ok s2 \<and> xTaskIsTaskSuspended t s2 \<and>
    vTaskResume t s1 = Some s3 \<and> kernel_ok s3 \<and> cont s3 (Generic t) = Some (Ready (prio s t))"
proof -
  note k = kernel_ok_kinv [OF assms(1)]
  have t0: "t \<noteq> 0" using assms(5) kinvD(8) [OF k] by auto
  then have h: "prvGetTCBFromHandle t s = t" by (simp add: prvGetTCBFromHandle_def)
  obtain s1 where s1: "vTaskSuspend t s = Some s1" "kernel_ok s1"
    "cont s1 = (cont s)(Event t := None, Generic t := Some SuspendedTaskList)" "same_env s s1"
    using vTaskSuspend_effect [OF assms(1), of t] assms(4,5) h by auto
  have env: "tcbs s1 = tcbs s" "pxCurrentTCB s1 = pxCurrentTCB s" "uxSchedulerSuspended s1 = 0"
    using s1(4) assms(2) by (auto simp: same_env_def)
  have sus1: "xTaskIsTaskSuspended t s1"
    using s1(3) by (simp add: xTaskIsTaskSuspended_def listIS_CONTAINED_WITHIN_def)
  have r1: "cont s1 (Generic (pxCurrentTCB s)) = Some (Ready p0)" using s1(3) assms(6,7) by simp
  have c1: "pxCurrentTCB s1 \<noteq> 0" "t \<noteq> pxCurrentTCB s1" using env(2) assms(3,6) by auto
  obtain s2 where s2: "systicks m s1 = Some s2" "kinv_now {} s2" "uxPendedTicks s2 = uxPendedTicks s1"
    "uxSchedulerSuspended s2 = 0"
    "\<And>t. cont s2 (Generic t) = (if due s1 (of_nat m) t then Some (Ready (prio s1 t)) else cont s1 (Generic t))"
    "\<And>t. cont s2 (Event t) = (if due s1 (of_nat m) t then None else cont s1 (Event t))"
    using systicks_effect [OF kernel_ok_kinv [OF s1(2)] env(3) c1(1) r1 assms(8)] by blast
  have "\<not> due s1 (of_nat m) t" using s1(3) by (simp add: due_def)
  then have sus2: "xTaskIsTaskSuspended t s2"
    using s2(5,6) [of t] s1(3) by (simp add: xTaskIsTaskSuspended_def listIS_CONTAINED_WITHIN_def)
  have ok2: "kernel_ok s2"
    by (rule kernel_ok_frame [OF s1(2) s2(2)]) (use s2(3,4,6) env(3) in \<open>auto simp: pending_def split: if_splits\<close>)
  obtain s3 where "vTaskResume t s1 = Some s3" "kernel_ok s3" "cont s3 = (cont s1)(Generic t := Some (Ready (prio s1 t)))"
    using vTaskResume_effect [OF s1(2) c1(1) t0 c1(2) sus1] by blast
  then show ?thesis using s1(1,2) s2(1) sus1 sus2 ok2 env(1) by auto
qed

theorem vTaskSuspend_until_resume_witness:
  "\<exists>s1 s2. vTaskSuspend 2 sample = Some s1 \<and> systicks 100 s1 = Some s2 \<and> xTaskIsTaskSuspended 2 s2"
  using vTaskSuspend_until_resume [of sample 2 5 100] by auto

text \<open>
  C11: changing a priority. \<open>vTaskPrioritySet\<close> to a new base priority changes the effective priority
  unless the task has an inherited one; a ready task is afterwards in the ready list of its
  effective priority, a waiting task stays in its lists, and a switch is requested when the
  running task may no longer be the one of highest priority.
\<close>

theorem vTaskPrioritySet_moves:
  assumes "kernel_ok s" and "pxCurrentTCB s \<noteq> 0" and "tcbs s t = Some c" and "uxBasePriority c \<noteq> clamp p"
  shows "\<exists>s' c'. vTaskPrioritySet t p s = Some s' \<and> kernel_ok s' \<and> tcbs s' = (tcbs s)(t := Some c') \<and>
    uxBasePriority c' = clamp p \<and>
    uxPriority c' = (if uxBasePriority c = uxPriority c then clamp p else uxPriority c) \<and>
    cont s' = (if cont s (Generic t) = Some (Ready (uxPriority c))
      then (cont s)(Generic t := Some (Ready (uxPriority c'))) else cont s) \<and>
    (t = pxCurrentTCB s \<longrightarrow> clamp p < uxBasePriority c \<longrightarrow> pending_soft_sv s') \<and>
    (t \<noteq> pxCurrentTCB s \<longrightarrow> uxBasePriority c < clamp p \<longrightarrow> prio s (pxCurrentTCB s) \<le> clamp p \<longrightarrow> pending_soft_sv s')"
proof -
  have "t \<noteq> 0" using assms(3) kinvD(8) [OF kernel_ok_kinv [OF assms(1)]] by auto
  then have h: "prvGetTCBFromHandle t s = t" by (simp add: prvGetTCBFromHandle_def)
  let ?c = "c\<lparr>uxPriority := (if uxBasePriority c = uxPriority c then clamp p else uxPriority c),
      uxBasePriority := clamp p\<rparr>"
  obtain s' where "vTaskPrioritySet t p s = Some s'" "kernel_ok s'" "tcbs s' = (tcbs s)(t := Some ?c)"
    "cont s' = (if cont s (Generic t) = Some (Ready (uxPriority c))
      then (cont s)(Generic t := Some (Ready (uxPriority ?c))) else cont s)"
    "t = pxCurrentTCB s \<longrightarrow> clamp p < uxBasePriority c \<longrightarrow> pending_soft_sv s'"
    "t \<noteq> pxCurrentTCB s \<longrightarrow> uxBasePriority c < clamp p \<longrightarrow> prio s (pxCurrentTCB s) \<le> clamp p \<longrightarrow> pending_soft_sv s'"
    using vTaskPrioritySet_effect [OF assms(1,2), of t c p, unfolded h, OF assms(3,4)] by blast
  then show ?thesis by (intro exI [of _ s'] exI [of _ ?c]) simp
qed

theorem vTaskPrioritySet_moves_witness:
  "\<exists>s'. vTaskPrioritySet 2 9 sample = Some s' \<and> kernel_ok s' \<and> cont s' (Generic 2) = Some (Ready 9) \<and>
    pending_soft_sv s'"
proof -
  obtain c where c: "tcbs sample 2 = Some c" "uxPriority c = 5" "uxBasePriority c = 5" using sample_facts(8) by auto
  have "uxBasePriority c \<noteq> clamp 9" using c clamp_small by simp
  with vTaskPrioritySet_moves [OF sample_facts(1), of 2 c 9] show ?thesis using c by (auto simp: clamp_small)
qed

text \<open>
  C12: priority inheritance. When the running task has the higher priority, \<open>vTaskPriorityInherit\<close>
  raises a ready mutex holder to it and moves it to that ready list, leaving its base priority;
  \<open>vTaskPriorityDisinherit\<close> puts the holder back into the ready list of its base priority.
\<close>

theorem priority_inheritance_round_trip:
  assumes "kernel_ok s" and "pxCurrentTCB s \<noteq> 0" and "t \<noteq> pxCurrentTCB s" and "tcbs s t = Some c"
    and "cont s (Generic t) = Some (Ready (uxPriority c))" and "uxPriority c = uxBasePriority c"
  shows "\<exists>s1 s2. vTaskPriorityInherit t s = Some s1 \<and> kernel_ok s1 \<and>
    prio s1 t = max (uxPriority c) (prio s (pxCurrentTCB s)) \<and> cont s1 (Generic t) = Some (Ready (prio s1 t)) \<and>
    vTaskPriorityDisinherit t s1 = Some s2 \<and> kernel_ok s2 \<and> tcbs s2 = tcbs s \<and> cont s2 = cont s"
proof -
  let ?p = "max (uxPriority c) (prio s (pxCurrentTCB s))"
  have t: "t \<noteq> 0" using assms(4) kinvD(8) [OF kernel_ok_kinv [OF assms(1)]] by auto
  obtain s1 where s1: "vTaskPriorityInherit t s = Some s1" "kernel_ok s1"
    "tcbs s1 = (tcbs s)(t := Some (c\<lparr>uxPriority := ?p\<rparr>))" "cont s1 = (cont s)(Generic t := Some (Ready ?p))"
    using vTaskPriorityInherit_effect [OF assms(1,2) t assms(4)] assms(5) by auto
  obtain s2 where s2: "vTaskPriorityDisinherit t s1 = Some s2" "kernel_ok s2"
    "tcbs s2 = (tcbs s1)(t := Some (c\<lparr>uxPriority := ?p\<rparr>\<lparr>uxPriority := uxBasePriority (c\<lparr>uxPriority := ?p\<rparr>)\<rparr>))"
    "cont s2 = (cont s1)(Generic t := Some (Ready (uxBasePriority (c\<lparr>uxPriority := ?p\<rparr>))))"
    using vTaskPriorityDisinherit_effect [OF s1(2) t, of "c\<lparr>uxPriority := ?p\<rparr>" ?p] s1(3,4) by auto
  have "c\<lparr>uxPriority := uxBasePriority c\<rparr> = c" using assms(6) by (cases c) simp
  then have "tcbs s2 = tcbs s" using s2(3) s1(3) assms(4) by (simp add: fun_upd_idem)
  moreover have "cont s2 = cont s" using s2(4) s1(4) assms(5,6) by (simp add: fun_upd_idem)
  ultimately show ?thesis using s1 s2(1,2) by auto
qed

theorem priority_inheritance_round_trip_witness:
  "\<exists>s1 s2. vTaskPriorityInherit 1 sample = Some s1 \<and> prio s1 1 = 5 \<and>
    vTaskPriorityDisinherit 1 s1 = Some s2 \<and> cont s2 = cont sample"
proof -
  obtain c where c: "tcbs sample 1 = Some c" "uxPriority c = 0" "uxBasePriority c = 0" using sample_facts(8) by auto
  then show ?thesis using priority_inheritance_round_trip [OF sample_facts(1), of 1 c] by auto
qed

end
