(* ===== verification/Queue.thy ===== *)
theory Queue
  imports Task_Control
begin

text \<open>
  The queues of FreeRTOS/Source/queue.c, in the configuration without queue sets. A queue is a
  structure at an address \<open>qid\<close>, its storage a block of the C heap at the address \<open>pcHead\<close>; reading or
  writing outside the block is the result \<open>None\<close>. A mutex is a queue of item size 0 whose \<open>pcHead\<close> is
  \<open>NULL\<close> and whose \<open>pcTail\<close> is the holder. \<open>xQueueGenericSend\<close> and \<open>xQueueGenericReceive\<close> loop: one pass of
  the loop is a definition, with the points where interrupts may run as an argument.
\<close>

section \<open>State\<close>

text \<open>
  \<open>pcReadFrom\<close> is a union with \<open>uxRecursiveCallCount\<close>: the recursive mutex functions use the same field.
\<close>

record xQUEUE =
  pcHead :: u32
  pcTail :: u32
  pcWriteTo :: u32
  pcReadFrom :: u32
  uxMessagesWaiting :: uBaseType
  uxLength :: uBaseType
  uxItemSize :: uBaseType
  xRxLock :: u32
  xTxLock :: u32

record system =
  kern :: kernel
  queues :: "qid \<Rightarrow> xQUEUE option"
  blocks :: "u32 \<Rightarrow> u8 list option"

datatype position = queueSEND_TO_BACK | queueSEND_TO_FRONT | queueOVERWRITE

definition queueUNLOCKED :: u32 where
  "queueUNLOCKED = - 1"

definition queueLOCKED_UNMODIFIED :: u32 where
  "queueLOCKED_UNMODIFIED = 0"

text \<open>The macros \<open>uxQueueType\<close> and \<open>pxMutexHolder\<close>.\<close>

abbreviation is_mutex :: "xQUEUE \<Rightarrow> bool" where
  "is_mutex Q \<equiv> pcHead Q = 0"

abbreviation pxMutexHolder :: "xQUEUE \<Rightarrow> tid" where
  "pxMutexHolder Q \<equiv> pcTail Q"

definition set_queue :: "qid \<Rightarrow> xQUEUE \<Rightarrow> system \<Rightarrow> system" where
  "set_queue q Q s = s\<lparr>queues := (queues s)(q := Some Q)\<rparr>"

text \<open>A call into tasks.c.\<close>

definition on_kernel :: "(kernel \<Rightarrow> kernel option) \<Rightarrow> system \<Rightarrow> system option" where
  "on_kernel f s = map_option (\<lambda>k. s\<lparr>kern := k\<rparr>) (f (kern s))"

text \<open>\<open>memcpy\<close> to and from the block at \<open>b\<close>, at the address \<open>p\<close>.\<close>

definition block_write :: "u32 \<Rightarrow> u32 \<Rightarrow> u32 \<Rightarrow> u8 list \<Rightarrow> system \<Rightarrow> system option" where
  "block_write b p n item s = do {
     xs \<leftarrow> blocks s b;
     let i = unat (p - b);
     (if i + unat n \<le> length xs \<and> unat n \<le> length item
      then Some (s\<lparr>blocks := (blocks s)(b := Some (take i xs @ take (unat n) item @ drop (i + unat n) xs))\<rparr>)
      else None)
   }"

definition block_read :: "u32 \<Rightarrow> u32 \<Rightarrow> u32 \<Rightarrow> system \<Rightarrow> u8 list option" where
  "block_read b p n s = do {
     xs \<leftarrow> blocks s b;
     let i = unat (p - b);
     (if i + unat n \<le> length xs then Some (take (unat n) (drop i xs)) else None)
   }"

section \<open>Copying\<close>

definition prvCopyDataToQueue :: "qid \<Rightarrow> u8 list \<Rightarrow> position \<Rightarrow> system \<Rightarrow> system option" where
  "prvCopyDataToQueue q item xPosition s = do {
     Q \<leftarrow> queues s q;
     (Q, s) \<leftarrow>
       (if uxItemSize Q = 0
        then (if is_mutex Q
              then do {
                s \<leftarrow> on_kernel (vTaskPriorityDisinherit (pxMutexHolder Q)) s;
                Some (Q\<lparr>pcTail := 0\<rparr>, s)
              }
              else Some (Q, s))
        else if xPosition = queueSEND_TO_BACK
        then do {
          s \<leftarrow> block_write (pcHead Q) (pcWriteTo Q) (uxItemSize Q) item s;
          let Q = Q\<lparr>pcWriteTo := pcWriteTo Q + uxItemSize Q\<rparr>;
          Some (if pcWriteTo Q \<ge> pcTail Q then Q\<lparr>pcWriteTo := pcHead Q\<rparr> else Q, s)
        }
        else do {
          s \<leftarrow> block_write (pcHead Q) (pcReadFrom Q) (uxItemSize Q) item s;
          let Q = Q\<lparr>pcReadFrom := pcReadFrom Q - uxItemSize Q\<rparr>;
          let Q = (if pcReadFrom Q < pcHead Q then Q\<lparr>pcReadFrom := pcTail Q - uxItemSize Q\<rparr> else Q);
          Some (if xPosition = queueOVERWRITE \<and> uxMessagesWaiting Q > 0
                then Q\<lparr>uxMessagesWaiting := uxMessagesWaiting Q - 1\<rparr> else Q, s)
        });
     Some (set_queue q (Q\<lparr>uxMessagesWaiting := uxMessagesWaiting Q + 1\<rparr>) s)
   }"

text \<open>The bytes copied to \<open>pvBuffer\<close>; a mutex copies none.\<close>

definition prvCopyDataFromQueue :: "qid \<Rightarrow> system \<Rightarrow> (u8 list \<times> system) option" where
  "prvCopyDataFromQueue q s = do {
     Q \<leftarrow> queues s q;
     (if is_mutex Q then Some ([], s)
      else do {
        let Q = Q\<lparr>pcReadFrom := pcReadFrom Q + uxItemSize Q\<rparr>;
        let Q = (if pcReadFrom Q \<ge> pcTail Q then Q\<lparr>pcReadFrom := pcHead Q\<rparr> else Q);
        xs \<leftarrow> block_read (pcHead Q) (pcReadFrom Q) (uxItemSize Q) s;
        Some (xs, set_queue q Q s)
      })
   }"

section \<open>Waking the tasks that wait\<close>

definition wake_one :: "(kernel \<Rightarrow> kernel) \<Rightarrow> lid \<Rightarrow> kernel \<Rightarrow> kernel option" where
  "wake_one request l k =
     (if listLIST_IS_EMPTY l (heap k) then Some k
      else do {
        (y, k) \<leftarrow> xTaskRemoveFromEventList l k;
        Some (if y then request k else k)
      })"

text \<open>In an interrupt the request is the flag \<open>*pxHigherPriorityTaskWoken\<close>.\<close>

definition wake_from_isr :: "lid \<Rightarrow> kernel \<Rightarrow> (bool \<times> kernel) option" where
  "wake_from_isr l k =
     (if listLIST_IS_EMPTY l (heap k) then Some (False, k) else xTaskRemoveFromEventList l k)"

section \<open>Locking\<close>

definition prvLockQueue :: "qid \<Rightarrow> system \<Rightarrow> system option" where
  "prvLockQueue q s = do {
     Q \<leftarrow> queues s q;
     let Q = (if xRxLock Q = queueUNLOCKED then Q\<lparr>xRxLock := queueLOCKED_UNMODIFIED\<rparr> else Q);
     let Q = (if xTxLock Q = queueUNLOCKED then Q\<lparr>xTxLock := queueLOCKED_UNMODIFIED\<rparr> else Q);
     Some (set_queue q Q s)
   }"

lemma sint_pred:
  fixes w :: u32
  assumes "0 < sint w"
  shows "sint (w - 1) = sint w - 1"
  using assms sint_range_size [of w] by (simp add: sint_word_ariths signed_take_bit_int_eq_self word_size)

text \<open>The two loops of \<open>prvUnlockQueue\<close>: wake a task for each item that came while the queue was locked.\<close>

function unlock_wake :: "lid \<Rightarrow> u32 \<Rightarrow> kernel \<Rightarrow> kernel option" where
  "unlock_wake l lock k =
     (if \<not> 0 < sint lock then Some k
      else if listLIST_IS_EMPTY l (heap k) then Some k
      else do {
        (y, k) \<leftarrow> xTaskRemoveFromEventList l k;
        unlock_wake l (lock - 1) (if y then vTaskMissedYield k else k)
      })"
  by pat_completeness auto
termination
  by (relation "measure (\<lambda>(l, lock, k). nat (sint lock))") (auto simp: sint_pred)

text \<open>The two critical sections of \<open>prvUnlockQueue\<close>; \<open>irq\<close> is what interrupts do between them.\<close>

definition unlock_tx :: "qid \<Rightarrow> system \<Rightarrow> system option" where
  "unlock_tx q s = do {
     Q \<leftarrow> queues s q;
     s \<leftarrow> on_kernel (unlock_wake (TasksWaitingToReceive q) (xTxLock Q)) s;
     Some (set_queue q (Q\<lparr>xTxLock := queueUNLOCKED\<rparr>) s)
   }"

definition unlock_rx :: "qid \<Rightarrow> system \<Rightarrow> system option" where
  "unlock_rx q s = do {
     Q \<leftarrow> queues s q;
     s \<leftarrow> on_kernel (unlock_wake (TasksWaitingToSend q) (xRxLock Q)) s;
     Some (set_queue q (Q\<lparr>xRxLock := queueUNLOCKED\<rparr>) s)
   }"

definition prvUnlockQueue :: "(system \<Rightarrow> system option) \<Rightarrow> qid \<Rightarrow> system \<Rightarrow> system option" where
  "prvUnlockQueue irq q s = do {
     s \<leftarrow> unlock_tx q s;
     s \<leftarrow> irq s;
     unlock_rx q s
   }"

section \<open>Creating, resetting, deleting\<close>

definition xQueueGenericReset :: "qid \<Rightarrow> bool \<Rightarrow> system \<Rightarrow> system option" where
  "xQueueGenericReset q xNewQueue s = do {
     Q \<leftarrow> queues s q;
     let Q = Q\<lparr>pcTail := pcHead Q + uxLength Q * uxItemSize Q, uxMessagesWaiting := 0, pcWriteTo := pcHead Q,
               pcReadFrom := pcHead Q + (uxLength Q - 1) * uxItemSize Q,
               xRxLock := queueUNLOCKED, xTxLock := queueUNLOCKED\<rparr>;
     let s = set_queue q Q s;
     (if \<not> xNewQueue then on_kernel (wake_one portYIELD (TasksWaitingToSend q)) s
      else Some (s\<lparr>kern := (kern s)\<lparr>heap := vListInitialise (TasksWaitingToReceive q)
             (vListInitialise (TasksWaitingToSend q) (heap (kern s)))\<rparr>\<rparr>))
   }"

text \<open>
  \<open>q\<close> and \<open>head\<close> are the results of the two calls of \<open>pvPortMalloc\<close>, \<open>garbage q\<close> and \<open>fill n\<close> what the memory
  holds before it is set; the result is the handle, 0 for \<open>NULL\<close>. An address that is no free
  address is not a result of the allocator.
\<close>

definition xQueueGenericCreate ::
    "qid \<Rightarrow> u32 \<Rightarrow> xQUEUE \<Rightarrow> (nat \<Rightarrow> u8 list) \<Rightarrow> uBaseType \<Rightarrow> uBaseType \<Rightarrow> system \<Rightarrow> (qid \<times> system) option" where
  "xQueueGenericCreate q head garbage fill uxQueueLength itemSize s =
     (if \<not> uxQueueLength > 0 then Some (0, s)
      else if q = 0 then Some (0, s)
      else if head = 0 then Some (0, s)
      else do {
        let xQueueSizeInBytes = uxQueueLength * itemSize + 1;
        let s = s\<lparr>blocks := (blocks s)(head := Some (fill (unat xQueueSizeInBytes)))\<rparr>;
        let s = set_queue q (garbage\<lparr>pcHead := head, uxLength := uxQueueLength, uxItemSize := itemSize\<rparr>) s;
        s \<leftarrow> xQueueGenericReset q True s;
        Some (q, s)
      })"

definition vQueueDelete :: "qid \<Rightarrow> system \<Rightarrow> system option" where
  "vQueueDelete q s = do {
     Q \<leftarrow> queues s q;
     let s = (if pcHead Q = 0 then s else s\<lparr>blocks := (blocks s)(pcHead Q := None)\<rparr>);
     Some (s\<lparr>queues := (queues s)(q := None)\<rparr>)
   }"

section \<open>Queries\<close>

definition prvIsQueueEmpty :: "qid \<Rightarrow> system \<Rightarrow> bool option" where
  "prvIsQueueEmpty q s = map_option (\<lambda>Q. uxMessagesWaiting Q = 0) (queues s q)"

definition prvIsQueueFull :: "qid \<Rightarrow> system \<Rightarrow> bool option" where
  "prvIsQueueFull q s = map_option (\<lambda>Q. uxMessagesWaiting Q = uxLength Q) (queues s q)"

definition xQueueIsQueueEmptyFromISR :: "qid \<Rightarrow> system \<Rightarrow> bool option" where
  "xQueueIsQueueEmptyFromISR q s = map_option (\<lambda>Q. uxMessagesWaiting Q = 0) (queues s q)"

definition xQueueIsQueueFullFromISR :: "qid \<Rightarrow> system \<Rightarrow> bool option" where
  "xQueueIsQueueFullFromISR q s = map_option (\<lambda>Q. uxMessagesWaiting Q = uxLength Q) (queues s q)"

definition uxQueueMessagesWaiting :: "qid \<Rightarrow> system \<Rightarrow> uBaseType option" where
  "uxQueueMessagesWaiting q s = map_option uxMessagesWaiting (queues s q)"

definition uxQueueMessagesWaitingFromISR :: "qid \<Rightarrow> system \<Rightarrow> uBaseType option" where
  "uxQueueMessagesWaitingFromISR q s = map_option uxMessagesWaiting (queues s q)"

definition xQueueGetMutexHolder :: "qid \<Rightarrow> system \<Rightarrow> tid option" where
  "xQueueGetMutexHolder q s = map_option (\<lambda>Q. if is_mutex Q then pxMutexHolder Q else 0) (queues s q)"

section \<open>Sending\<close>

text \<open>
  What a critical section of \<open>xQueueGenericSend\<close> or \<open>xQueueGenericReceive\<close> leaves: the call returned, or the
  task goes on to wait, with the time-out state taken at the first failure.
\<close>

datatype 'a entry = Return 'a | Wait xTimeOutType

definition entry_time :: "xTimeOutType option \<Rightarrow> system \<Rightarrow> xTimeOutType" where
  "entry_time xTimeOut s = (case xTimeOut of None \<Rightarrow> vTaskSetTimeOutState (kern s) | Some w \<Rightarrow> w)"

definition send_enter ::
    "qid \<Rightarrow> u8 list \<Rightarrow> portTickType \<Rightarrow> position \<Rightarrow> xTimeOutType option \<Rightarrow> system \<Rightarrow> (bool entry \<times> system) option" where
  "send_enter q item xTicksToWait xCopyPosition xTimeOut s = do {
     Q \<leftarrow> queues s q;
     (if uxMessagesWaiting Q < uxLength Q \<or> xCopyPosition = queueOVERWRITE
      then do {
        s \<leftarrow> prvCopyDataToQueue q item xCopyPosition s;
        s \<leftarrow> on_kernel (wake_one portYIELD (TasksWaitingToReceive q)) s;
        Some (Return True, s)
      }
      else if xTicksToWait = 0 then Some (Return False, s)
      else Some (Wait (entry_time xTimeOut s), s))
   }"

text \<open>The result of one pass of the loop: returned, or the local variables of the next pass.\<close>

datatype 'a pass = Done 'a | Again xTimeOutType portTickType

text \<open>
  The part of the pass with the scheduler suspended and the queue locked. \<open>irq n\<close> is what interrupts do
  at the n-th point where they may run: \<open>irq 0\<close> after the critical section that starts the pass, \<open>irq 1\<close> after
  \<open>vTaskSuspendAll\<close>, \<open>irq 2\<close> after \<open>prvLockQueue\<close>, \<open>irq 3\<close> after \<open>xTaskCheckForTimeOut\<close>, \<open>irq 4\<close> after the test
  for a full or empty queue, \<open>irq 5\<close> after \<open>vTaskPriorityInherit\<close>, \<open>irq 6\<close> after \<open>vTaskPlaceOnEventList\<close>, and
  \<open>irq 7\<close> and \<open>irq 8\<close> after the first and the second critical section of \<open>prvUnlockQueue\<close>. So every critical
  section of the pass is followed by such a point, up to \<open>xTaskResumeAll\<close>, which ends it.
  \<open>vTaskPlaceOnEventList\<close> itself runs with interrupts enabled and is one step here.
\<close>

definition unlock_resume :: "(nat \<Rightarrow> system \<Rightarrow> system option) \<Rightarrow> qid \<Rightarrow> system \<Rightarrow> (bool \<times> system) option" where
  "unlock_resume irq q s = do {
     s \<leftarrow> prvUnlockQueue (irq 7) q s;
     s \<leftarrow> irq 8 s;
     (y, k) \<leftarrow> xTaskResumeAll (kern s);
     Some (y, s\<lparr>kern := k\<rparr>)
   }"

definition block_on ::
    "(nat \<Rightarrow> system \<Rightarrow> system option) \<Rightarrow> qid \<Rightarrow> lid \<Rightarrow> portTickType \<Rightarrow> system \<Rightarrow> system option" where
  "block_on irq q l xTicksToWait s = do {
     s \<leftarrow> on_kernel (vTaskPlaceOnEventList l xTicksToWait) s;
     s \<leftarrow> irq 6 s;
     (y, s) \<leftarrow> unlock_resume irq q s;
     Some (if y then s else s\<lparr>kern := portYIELD (kern s)\<rparr>)
   }"

definition suspend_lock :: "(nat \<Rightarrow> system \<Rightarrow> system option) \<Rightarrow> qid \<Rightarrow> system \<Rightarrow> system option" where
  "suspend_lock irq q s = do {
     s \<leftarrow> irq 0 s;
     s \<leftarrow> irq 1 (s\<lparr>kern := vTaskSuspendAll (kern s)\<rparr>);
     s \<leftarrow> prvLockQueue q s;
     irq 2 s
   }"

definition send_block ::
    "(nat \<Rightarrow> system \<Rightarrow> system option) \<Rightarrow> qid \<Rightarrow> xTimeOutType \<Rightarrow> portTickType \<Rightarrow> system \<Rightarrow> (bool pass \<times> system) option" where
  "send_block irq q xTimeOut xTicksToWait s =
     (let (expired, xTimeOut, xTicksToWait) = xTaskCheckForTimeOut xTimeOut xTicksToWait (kern s) in do {
        s \<leftarrow> irq 3 s;
        (if \<not> expired then do {
           full \<leftarrow> prvIsQueueFull q s;
           s \<leftarrow> irq 4 s;
           (if full then do {
             s \<leftarrow> block_on irq q (TasksWaitingToSend q) xTicksToWait s;
             Some (Again xTimeOut xTicksToWait, s)
           }
           else do {
             (y, s) \<leftarrow> unlock_resume irq q s;
             Some (Again xTimeOut xTicksToWait, s)
           })
         }
         else do {
           (y, s) \<leftarrow> unlock_resume irq q s;
           Some (Done False, s)
         })
      })"

definition xQueueGenericSend ::
    "(nat \<Rightarrow> system \<Rightarrow> system option) \<Rightarrow> qid \<Rightarrow> u8 list \<Rightarrow> portTickType \<Rightarrow> position \<Rightarrow> xTimeOutType option \<Rightarrow>
     system \<Rightarrow> (bool pass \<times> system) option" where
  "xQueueGenericSend irq q item xTicksToWait xCopyPosition xTimeOut s = do {
     (e, s) \<leftarrow> send_enter q item xTicksToWait xCopyPosition xTimeOut s;
     (case e of
        Return b \<Rightarrow> Some (Done b, s)
      | Wait xTimeOut \<Rightarrow> do {
          s \<leftarrow> suspend_lock irq q s;
          send_block irq q xTimeOut xTicksToWait s
        })
   }"

definition xQueueGenericSendFromISR ::
    "qid \<Rightarrow> u8 list \<Rightarrow> position \<Rightarrow> system \<Rightarrow> (bool \<times> bool \<times> system) option" where
  "xQueueGenericSendFromISR q item xCopyPosition s = do {
     Q \<leftarrow> queues s q;
     (if uxMessagesWaiting Q < uxLength Q \<or> xCopyPosition = queueOVERWRITE
      then do {
        s \<leftarrow> prvCopyDataToQueue q item xCopyPosition s;
        Q \<leftarrow> queues s q;
        (if xTxLock Q = queueUNLOCKED
         then do {
           (woken, k) \<leftarrow> wake_from_isr (TasksWaitingToReceive q) (kern s);
           Some (True, woken, s\<lparr>kern := k\<rparr>)
         }
         else Some (True, False, set_queue q (Q\<lparr>xTxLock := xTxLock Q + 1\<rparr>) s))
      }
      else Some (False, False, s))
   }"

section \<open>Receiving\<close>

definition receive_enter ::
    "qid \<Rightarrow> portTickType \<Rightarrow> bool \<Rightarrow> xTimeOutType option \<Rightarrow> system \<Rightarrow> (u8 list option entry \<times> system) option" where
  "receive_enter q xTicksToWait xJustPeeking xTimeOut s = do {
     Q \<leftarrow> queues s q;
     (if uxMessagesWaiting Q > 0
      then do {
        let pcOriginalReadPosition = pcReadFrom Q;
        (xs, s) \<leftarrow> prvCopyDataFromQueue q s;
        Q \<leftarrow> queues s q;
        s \<leftarrow> (if \<not> xJustPeeking
              then do {
                let Q = Q\<lparr>uxMessagesWaiting := uxMessagesWaiting Q - 1\<rparr>;
                let Q = (if is_mutex Q then Q\<lparr>pcTail := xTaskGetCurrentTaskHandle (kern s)\<rparr> else Q);
                on_kernel (wake_one portYIELD (TasksWaitingToSend q)) (set_queue q Q s)
              }
              else on_kernel (wake_one portYIELD (TasksWaitingToReceive q))
                (set_queue q (Q\<lparr>pcReadFrom := pcOriginalReadPosition\<rparr>) s));
        Some (Return (Some xs), s)
      }
      else if xTicksToWait = 0 then Some (Return None, s)
      else Some (Wait (entry_time xTimeOut s), s))
   }"

definition receive_block ::
    "(nat \<Rightarrow> system \<Rightarrow> system option) \<Rightarrow> qid \<Rightarrow> xTimeOutType \<Rightarrow> portTickType \<Rightarrow> system \<Rightarrow>
     (u8 list option pass \<times> system) option" where
  "receive_block irq q xTimeOut xTicksToWait s =
     (let (expired, xTimeOut, xTicksToWait) = xTaskCheckForTimeOut xTimeOut xTicksToWait (kern s) in do {
        s \<leftarrow> irq 3 s;
        (if \<not> expired then do {
           empty \<leftarrow> prvIsQueueEmpty q s;
           s \<leftarrow> irq 4 s;
           (if empty then do {
             Q \<leftarrow> queues s q;
             s \<leftarrow> (if is_mutex Q
                   then do {
                     s \<leftarrow> on_kernel (vTaskPriorityInherit (pxMutexHolder Q)) s;
                     irq 5 s
                   }
                   else Some s);
             s \<leftarrow> block_on irq q (TasksWaitingToReceive q) xTicksToWait s;
             Some (Again xTimeOut xTicksToWait, s)
           }
           else do {
             (y, s) \<leftarrow> unlock_resume irq q s;
             Some (Again xTimeOut xTicksToWait, s)
           })
         }
         else do {
           (y, s) \<leftarrow> unlock_resume irq q s;
           Some (Done None, s)
         })
      })"

definition xQueueGenericReceive ::
    "(nat \<Rightarrow> system \<Rightarrow> system option) \<Rightarrow> qid \<Rightarrow> portTickType \<Rightarrow> bool \<Rightarrow> xTimeOutType option \<Rightarrow> system \<Rightarrow>
     (u8 list option pass \<times> system) option" where
  "xQueueGenericReceive irq q xTicksToWait xJustPeeking xTimeOut s = do {
     (e, s) \<leftarrow> receive_enter q xTicksToWait xJustPeeking xTimeOut s;
     (case e of
        Return r \<Rightarrow> Some (Done r, s)
      | Wait xTimeOut \<Rightarrow> do {
          s \<leftarrow> suspend_lock irq q s;
          receive_block irq q xTimeOut xTicksToWait s
        })
   }"

definition xQueueReceiveFromISR :: "qid \<Rightarrow> system \<Rightarrow> (u8 list option \<times> bool \<times> system) option" where
  "xQueueReceiveFromISR q s = do {
     Q \<leftarrow> queues s q;
     (if uxMessagesWaiting Q > 0
      then do {
        (xs, s) \<leftarrow> prvCopyDataFromQueue q s;
        Q \<leftarrow> queues s q;
        let Q = Q\<lparr>uxMessagesWaiting := uxMessagesWaiting Q - 1\<rparr>;
        let s = set_queue q Q s;
        (if xRxLock Q = queueUNLOCKED
         then do {
           (woken, k) \<leftarrow> wake_from_isr (TasksWaitingToSend q) (kern s);
           Some (Some xs, woken, s\<lparr>kern := k\<rparr>)
         }
         else Some (Some xs, False, set_queue q (Q\<lparr>xRxLock := xRxLock Q + 1\<rparr>) s))
      }
      else Some (None, False, s))
   }"

definition xQueuePeekFromISR :: "qid \<Rightarrow> system \<Rightarrow> (u8 list option \<times> system) option" where
  "xQueuePeekFromISR q s = do {
     Q \<leftarrow> queues s q;
     (if uxMessagesWaiting Q > 0
      then do {
        let pcOriginalReadPosition = pcReadFrom Q;
        (xs, s) \<leftarrow> prvCopyDataFromQueue q s;
        Q \<leftarrow> queues s q;
        Some (Some xs, set_queue q (Q\<lparr>pcReadFrom := pcOriginalReadPosition\<rparr>) s)
      }
      else Some (None, s))
   }"

section \<open>Semaphores and mutexes\<close>

text \<open>The first give of \<open>xQueueCreateMutex\<close> finds the queue empty and returns in its critical section.\<close>

definition no_irq :: "nat \<Rightarrow> system \<Rightarrow> system option" where
  "no_irq n s = Some s"

lemma no_irq_Some: "no_irq n = Some"
  by (simp add: fun_eq_iff no_irq_def)

definition xQueueCreateMutex :: "qid \<Rightarrow> system \<Rightarrow> (qid \<times> system) option" where
  "xQueueCreateMutex q s =
     (if q = 0 then Some (0, s)
      else do {
        let s = set_queue q \<lparr>pcHead = 0, pcTail = 0, pcWriteTo = 0, pcReadFrom = 0, uxMessagesWaiting = 0,
            uxLength = 1, uxItemSize = 0, xRxLock = queueUNLOCKED, xTxLock = queueUNLOCKED\<rparr> s;
        let s = s\<lparr>kern := (kern s)\<lparr>heap := vListInitialise (TasksWaitingToReceive q)
            (vListInitialise (TasksWaitingToSend q) (heap (kern s)))\<rparr>\<rparr>;
        (r, s) \<leftarrow> xQueueGenericSend no_irq q [] 0 queueSEND_TO_BACK None s;
        Some (q, s)
      })"

definition xQueueCreateCountingSemaphore ::
    "qid \<Rightarrow> u32 \<Rightarrow> xQUEUE \<Rightarrow> (nat \<Rightarrow> u8 list) \<Rightarrow> uBaseType \<Rightarrow> uBaseType \<Rightarrow> system \<Rightarrow> (qid \<times> system) option" where
  "xQueueCreateCountingSemaphore q head garbage fill uxCountValue uxInitialCount s = do {
     (h, s) \<leftarrow> xQueueGenericCreate q head garbage fill uxCountValue 0 s;
     (if h \<noteq> 0 then do {
        Q \<leftarrow> queues s h;
        Some (h, set_queue h (Q\<lparr>uxMessagesWaiting := uxInitialCount\<rparr>) s)
      }
      else Some (h, s))
   }"

text \<open>The recursive mutexes; \<open>pcReadFrom\<close> is \<open>uxRecursiveCallCount\<close>.\<close>

definition xQueueGiveMutexRecursive :: "qid \<Rightarrow> system \<Rightarrow> (bool \<times> system) option" where
  "xQueueGiveMutexRecursive q s = do {
     Q \<leftarrow> queues s q;
     (if pxMutexHolder Q = xTaskGetCurrentTaskHandle (kern s)
      then do {
        let Q = Q\<lparr>pcReadFrom := pcReadFrom Q - 1\<rparr>;
        let s = set_queue q Q s;
        (if pcReadFrom Q = 0
         then do {
           (r, s) \<leftarrow> xQueueGenericSend no_irq q [] 0 queueSEND_TO_BACK None s;
           Some (True, s)
         }
         else Some (True, s))
      }
      else Some (False, s))
   }"

text \<open>\<open>xQueueTakeMutexRecursive\<close> up to the point where the inner receive returns or blocks.\<close>

definition xQueueTakeMutexRecursive ::
    "(nat \<Rightarrow> system \<Rightarrow> system option) \<Rightarrow> qid \<Rightarrow> portTickType \<Rightarrow> system \<Rightarrow> (bool pass \<times> system) option" where
  "xQueueTakeMutexRecursive irq q xBlockTime s = do {
     Q \<leftarrow> queues s q;
     (if pxMutexHolder Q = xTaskGetCurrentTaskHandle (kern s)
      then Some (Done True, set_queue q (Q\<lparr>pcReadFrom := pcReadFrom Q + 1\<rparr>) s)
      else do {
        (r, s) \<leftarrow> xQueueGenericReceive irq q xBlockTime False None s;
        (case r of
           Again xTimeOut xTicksToWait \<Rightarrow> Some (Again xTimeOut xTicksToWait, s)
         | Done None \<Rightarrow> Some (Done False, s)
         | Done (Some xs) \<Rightarrow> do {
             Q \<leftarrow> queues s q;
             Some (Done True, set_queue q (Q\<lparr>pcReadFrom := pcReadFrom Q + 1\<rparr>) s)
           })
      })
   }"

text \<open>The wait of the timer task, with the scheduler suspended and without interrupts.\<close>

definition vQueueWaitForMessageRestricted :: "qid \<Rightarrow> portTickType \<Rightarrow> system \<Rightarrow> system option" where
  "vQueueWaitForMessageRestricted q xTicksToWait s = do {
     s \<leftarrow> prvLockQueue q s;
     Q \<leftarrow> queues s q;
     s \<leftarrow> (if uxMessagesWaiting Q = 0
           then on_kernel (vTaskPlaceOnEventListRestricted (TasksWaitingToReceive q) xTicksToWait) s
           else Some s);
     prvUnlockQueue Some q s
   }"

end
