(* ===== verification/Queue_Fifo.thy ===== *)
theory Queue_Fifo
  imports Queue
begin

text \<open>
  The ring buffer of a queue implements a bounded first-in first-out list: the abstraction of a
  queue's storage to the list of its items, and the refinement of the copying functions of queue.c.
\<close>

section \<open>Slots of a ring\<close>

definition slot :: "nat \<Rightarrow> u8 list \<Rightarrow> nat \<Rightarrow> u8 list" where
  "slot z xs i = take z (drop (i * z) xs)"

definition put_slot :: "nat \<Rightarrow> u8 list \<Rightarrow> nat \<Rightarrow> u8 list \<Rightarrow> u8 list" where
  "put_slot z xs i item = take (i * z) xs @ item @ drop (i * z + z) xs"

text \<open>The items of a ring of \<open>L\<close> slots of \<open>z\<close> bytes, \<open>n\<close> of them after the slot \<open>r\<close> read last.\<close>

definition ring_items :: "nat \<Rightarrow> nat \<Rightarrow> u8 list \<Rightarrow> nat \<Rightarrow> nat \<Rightarrow> u8 list list" where
  "ring_items z L xs r n = map (\<lambda>i. slot z xs ((r + 1 + i) mod L)) [0..<n]"

lemma slots_fit:
  fixes i L z :: nat
  assumes "i < L"
  shows "i * z + z \<le> L * z"
  using mult_le_mono1 [of "Suc i" L z] assms by simp

lemma put_slot_length:
  assumes "i < L" and "L * z \<le> length xs" and "length item = z"
  shows "length (put_slot z xs i item) = length xs"
  using slots_fit [OF assms(1), of z] assms(2,3) by (simp add: put_slot_def)

lemma slot_length: "i < L \<Longrightarrow> L * z \<le> length xs \<Longrightarrow> length (slot z xs i) = z"
  using slots_fit [of i L z] by (simp add: slot_def)

lemma slot_put_slot:
  assumes "i < L" "w < L" and "L * z \<le> length xs" and "length item = z"
  shows "slot z (put_slot z xs w item) i = (if i = w then item else slot z xs i)"
proof -
  have w: "w * z \<le> length xs" using slots_fit [OF assms(2), of z] assms(3) by simp
  consider "i = w" | "i < w" | "w < i" by linarith
  then show ?thesis
  proof cases
    case 1
    then show ?thesis using w assms(4) by (simp add: slot_def put_slot_def)
  next
    case 2
    then have "i * z + z \<le> w * z" by (rule slots_fit)
    then show ?thesis using 2 w by (simp add: slot_def put_slot_def drop_take)
  next
    case 3
    then have "w * z + z \<le> i * z" by (rule slots_fit)
    moreover then have "i * z - (w * z + z) + (w * z + z) = i * z" by simp
    ultimately show ?thesis using 3 w assms(4) by (simp add: slot_def put_slot_def drop_drop)
  qed
qed

lemma mod_shift_neq:
  fixes r i n L :: nat
  assumes "i < n" "n < L"
  shows "(r + 1 + i) mod L \<noteq> (r + 1 + n) mod L"
proof
  assume "(r + 1 + i) mod L = (r + 1 + n) mod L"
  then have "L dvd (r + 1 + n) - (r + 1 + i)" using assms(1) by (metis mod_eq_dvd_iff_nat add_le_mono less_imp_le le_refl)
  moreover have "(r + 1 + n) - (r + 1 + i) = n - i" by simp
  ultimately show False using assms by (auto dest!: dvd_imp_le)
qed

lemma ring_back:
  assumes "n < L" and "L * z \<le> length xs" and "length item = z"
  shows "ring_items z L (put_slot z xs ((r + 1 + n) mod L) item) r (Suc n) = ring_items z L xs r n @ [item]"
proof -
  have "slot z (put_slot z xs ((r + 1 + n) mod L) item) ((r + 1 + i) mod L) =
      (if i = n then item else slot z xs ((r + 1 + i) mod L))" if "i \<le> n" for i
    using slot_put_slot [OF _ _ assms(2,3), of "(r + 1 + i) mod L" "(r + 1 + n) mod L"] assms(1) that
      mod_shift_neq [of i n L r] by auto
  then show ?thesis by (simp add: ring_items_def)
qed

lemma prev_slot:
  fixes r L :: nat
  assumes "r < L"
  shows "((if r = 0 then L - 1 else r - 1) + 1 + i) mod L = (r + i) mod L"
  using assms by auto

lemma ring_front:
  assumes "n < L" and "r < L" and "L * z \<le> length xs" and "length item = z"
  shows "ring_items z L (put_slot z xs r item) (if r = 0 then L - 1 else r - 1) (Suc n) =
    item # ring_items z L xs r n"
proof -
  have neq: "(r + 1 + i) mod L \<noteq> r" if "i < n" for i
  proof
    assume "(r + 1 + i) mod L = r"
    then have "(r + 1 + i) mod L = r mod L" using assms(2) by simp
    then have "L dvd (r + 1 + i) - r" by (simp add: mod_eq_dvd_iff_nat del: mod_less)
    then show False using that assms(1) by (auto dest!: dvd_imp_le)
  qed
  have "map (\<lambda>i. slot z (put_slot z xs r item) ((r + i) mod L)) [0..<Suc n] = item # ring_items z L xs r n"
    using assms(1,2) slot_put_slot [OF _ assms(2-4)] neq
    by (simp add: upt_conv_Cons ring_items_def map_Suc_upt [symmetric] del: upt_Suc)
  then show ?thesis unfolding ring_items_def by (simp only: prev_slot [OF assms(2)])
qed

lemma ring_read:
  assumes "r < L" and "0 < n"
  shows "ring_items z L xs r n = slot z xs ((r + 1) mod L) # ring_items z L xs ((r + 1) mod L) (n - 1)"
proof -
  obtain m where m: "n = Suc m" using assms(2) by (cases n) auto
  have "((r + 1) mod L + 1 + i) mod L = (r + 1 + Suc i) mod L" for i
    using mod_add_left_eq [of "r + 1" L "1 + i"] by (simp add: ac_simps)
  then show ?thesis
    by (simp add: m ring_items_def upt_conv_Cons map_Suc_upt [symmetric] del: upt_Suc)
qed

lemma ring_length [simp]: "length (ring_items z L xs r n) = n"
  by (simp add: ring_items_def)

section \<open>The storage of a queue\<close>

abbreviation qlen :: "xQUEUE \<Rightarrow> nat" where
  "qlen Q \<equiv> unat (uxLength Q)"

abbreviation qsize :: "xQUEUE \<Rightarrow> nat" where
  "qsize Q \<equiv> unat (uxItemSize Q)"

abbreviation qcount :: "xQUEUE \<Rightarrow> nat" where
  "qcount Q \<equiv> unat (uxMessagesWaiting Q)"

text \<open>
  \<open>buffer_at Q xs r\<close>: \<open>xs\<close> is a block that the addresses of \<open>Q\<close> fit, \<open>r\<close> is the slot of \<open>pcReadFrom\<close> and
  \<open>pcWriteTo\<close> is the slot after the last item. The block lies within the address space and not below
  the size of an item, as the allocator's heap does.
\<close>

definition buffer_at :: "xQUEUE \<Rightarrow> u8 list \<Rightarrow> nat \<Rightarrow> bool" where
  "buffer_at Q xs r \<longleftrightarrow> pcHead Q \<noteq> 0 \<and> r < qlen Q \<and> length xs = qlen Q * qsize Q + 1 \<and>
     unat (pcHead Q) + qlen Q * qsize Q < 2 ^ 32 \<and> qsize Q \<le> unat (pcHead Q) \<and>
     pcTail Q = pcHead Q + of_nat (qlen Q * qsize Q) \<and> qcount Q \<le> qlen Q \<and>
     pcReadFrom Q = pcHead Q + of_nat (r * qsize Q) \<and>
     pcWriteTo Q = pcHead Q + of_nat ((r + 1 + qcount Q) mod qlen Q * qsize Q)"

definition mutex_ok :: "xQUEUE \<Rightarrow> bool" where
  "mutex_ok Q \<longleftrightarrow> pcHead Q = 0 \<and> uxLength Q = 1 \<and> uxItemSize Q = 0 \<and> qcount Q \<le> 1"

definition queue_ok :: "system \<Rightarrow> xQUEUE \<Rightarrow> bool" where
  "queue_ok s Q \<longleftrightarrow> mutex_ok Q \<or> (\<exists>xs r. blocks s (pcHead Q) = Some xs \<and> buffer_at Q xs r)"

text \<open>The items of a queue, oldest first; those of a mutex are empty.\<close>

definition queue_items :: "system \<Rightarrow> xQUEUE \<Rightarrow> u8 list list" where
  "queue_items s Q =
     (if is_mutex Q then replicate (qcount Q) []
      else ring_items (qsize Q) (qlen Q) (the (blocks s (pcHead Q)))
        (unat (pcReadFrom Q - pcHead Q) div qsize Q) (qcount Q))"

lemma ring_items_zero: "ring_items 0 L xs r n = replicate n []"
  by (simp add: ring_items_def slot_def map_replicate_const)

lemma slot_offset:
  fixes z L i :: nat and b :: u32
  assumes "i \<le> L" and "unat b + L * z < 2 ^ 32"
  shows "unat (of_nat (i * z) :: u32) = i * z" and "unat (b + of_nat (i * z)) = unat b + i * z"
proof -
  have le: "i * z \<le> L * z" using assms(1) by simp
  then have lt: "unat b + i * z < 2 ^ 32" using assms(2) by linarith
  from le show 1: "unat (of_nat (i * z) :: u32) = i * z" using assms(2) by (intro unat_of_nat_u32) linarith
  have "unat (b + of_nat (i * z)) = (unat b + unat (of_nat (i * z) :: u32)) mod 2 ^ 32"
    by (simp add: unat_word_ariths)
  then show "unat (b + of_nat (i * z)) = unat b + i * z" unfolding 1 using lt by (simp only: mod_less)
qed

lemma buffer_items:
  assumes "blocks s (pcHead Q) = Some xs" and "buffer_at Q xs r"
  shows "queue_items s Q = ring_items (qsize Q) (qlen Q) xs r (qcount Q)"
proof (cases "qsize Q = 0")
  case True
  then show ?thesis using assms by (simp add: queue_items_def buffer_at_def ring_items_zero)
next
  case False
  have "unat (pcReadFrom Q - pcHead Q) = r * qsize Q"
    using slot_offset(1) [of r "qlen Q" "pcHead Q" "qsize Q"] assms(2) by (simp add: buffer_at_def)
  then show ?thesis using assms False by (simp add: queue_items_def buffer_at_def)
qed

lemma queue_items_length [simp]: "length (queue_items s Q) = qcount Q"
  by (simp add: queue_items_def)

text \<open>Moving a slot address forward and backward, with the wrap of the code.\<close>

lemma next_slot_address:
  fixes b z :: u32 and L i :: nat
  assumes "i < L" and "unat b + L * unat z < 2 ^ 32"
  shows "(let p = b + of_nat (i * unat z) + z in if p \<ge> b + of_nat (L * unat z) then b else p) =
    b + of_nat ((i + 1) mod L * unat z)"
proof -
  have p: "b + of_nat (i * unat z) + z = b + of_nat ((i + 1) * unat z)" by simp
  have le: "b + of_nat ((i + 1) * unat z) \<ge> b + of_nat (L * unat z) \<longleftrightarrow> L * unat z \<le> (i + 1) * unat z"
    using slot_offset(2) [OF _ assms(2), of "i + 1"] slot_offset(2) [OF _ assms(2), of L] assms(1)
    by (simp only: word_le_nat_alt) simp
  show ?thesis
  proof (cases "i + 1 = L")
    case True
    then show ?thesis unfolding p Let_def le by simp
  next
    case False
    with assms(1) have i: "i + 1 < L" by simp
    then have "(i + 1) * unat z + unat z \<le> L * unat z" by (rule slots_fit)
    then show ?thesis unfolding p Let_def le using i by (cases "unat z = 0") auto
  qed
qed

lemma prev_slot_address:
  fixes b z :: u32 and L r :: nat
  assumes "r < L" and "unat b + L * unat z < 2 ^ 32" and "unat z \<le> unat b" and "z \<noteq> 0"
  shows "(let p = b + of_nat (r * unat z) - z in if p < b then b + of_nat (L * unat z) - z else p) =
    b + of_nat ((if r = 0 then L - 1 else r - 1) * unat z)"
proof (cases r)
  case 0
  have "unat (b - z) = unat b - unat z" using assms(3) by (simp add: unat_sub word_le_nat_alt)
  then have "b - z < b" using assms(3,4) unat_gt_0 [of z] by (simp add: word_less_nat_alt)
  moreover have "of_nat ((L - 1) * unat z) = of_nat (L * unat z) - z"
    using assms(1) by (cases L) (simp_all add: 0)
  ultimately show ?thesis by (simp add: 0 Let_def)
next
  case (Suc r')
  have p: "b + of_nat (r * unat z) - z = b + of_nat (r' * unat z)" by (simp add: Suc)
  have "\<not> b + of_nat (r' * unat z) < b"
    using slot_offset(2) [OF _ assms(2), of r'] assms(1) Suc by (simp add: word_less_nat_alt)
  then show ?thesis unfolding p by (simp add: Let_def Suc)
qed

section \<open>The copying functions refine the list operations\<close>

fun fifo_put :: "position \<Rightarrow> 'a \<Rightarrow> 'a list \<Rightarrow> 'a list" where
  "fifo_put queueSEND_TO_BACK x xs = xs @ [x]"
| "fifo_put queueSEND_TO_FRONT x xs = x # xs"
| "fifo_put queueOVERWRITE x xs = [x]"

text \<open>The fields of a queue that sending and receiving leave alone.\<close>

definition same_shape :: "xQUEUE \<Rightarrow> xQUEUE \<Rightarrow> bool" where
  "same_shape Q Q' \<longleftrightarrow> pcHead Q' = pcHead Q \<and> uxLength Q' = uxLength Q \<and> uxItemSize Q' = uxItemSize Q \<and>
     xRxLock Q' = xRxLock Q \<and> xTxLock Q' = xTxLock Q"

lemma block_write_slot:
  assumes "blocks s b = Some xs" and "p = b + of_nat (i * unat z)" and "unat b + L * unat z < 2 ^ 32"
    and "i < L" and "length xs = L * unat z + 1" and "unat z \<le> length item"
  shows "block_write b p z item s =
    Some (s\<lparr>blocks := (blocks s)(b := Some (put_slot (unat z) xs i (take (unat z) item)))\<rparr>)"
proof -
  have "unat (p - b) = i * unat z" using slot_offset(1) [OF _ assms(3), of i] assms(2,4) by simp
  then show ?thesis using assms(1,5,6) slots_fit [OF assms(4), of "unat z"]
    by (simp add: block_write_def put_slot_def Let_def)
qed

lemma block_read_slot:
  assumes "blocks s b = Some xs" and "p = b + of_nat (i * unat z)" and "unat b + L * unat z < 2 ^ 32"
    and "i < L" and "length xs = L * unat z + 1"
  shows "block_read b p z s = Some (slot (unat z) xs i)"
proof -
  have "unat (p - b) = i * unat z" using slot_offset(1) [OF _ assms(3), of i] assms(2,4) by simp
  then show ?thesis using assms(1,5) slots_fit [OF assms(4), of "unat z"]
    by (simp add: block_read_def slot_def Let_def)
qed

definition copied :: "qid \<Rightarrow> xQUEUE \<Rightarrow> (u8 list list \<Rightarrow> u8 list list) \<Rightarrow> system \<Rightarrow> system \<Rightarrow> bool" where
  "copied q Q f s s' \<longleftrightarrow>
     (\<exists>Q' ys. s' = s\<lparr>queues := (queues s)(q := Some Q'), blocks := (blocks s)(pcHead Q := Some ys)\<rparr> \<and>
        same_shape Q Q' \<and> queue_ok s' Q' \<and> queue_items s' Q' = f (queue_items s Q))"

lemma copiedI:
  assumes "same_shape Q Q'" and "buffer_at Q' ys r'" and
    "ring_items (qsize Q) (qlen Q) ys r' (qcount Q') = f (queue_items s Q)"
  shows "copied q Q f s (s\<lparr>queues := (queues s)(q := Some Q'), blocks := (blocks s)(pcHead Q := Some ys)\<rparr>)"
proof -
  let ?s = "s\<lparr>queues := (queues s)(q := Some Q'), blocks := (blocks s)(pcHead Q := Some ys)\<rparr>"
  have b: "blocks ?s (pcHead Q') = Some ys" using assms(1) by (simp add: same_shape_def)
  have "queue_ok ?s Q'" using b assms(2) by (auto simp: queue_ok_def)
  moreover have "queue_items ?s Q' = f (queue_items s Q)"
    using buffer_items [OF b assms(2)] assms(1,3) by (simp add: same_shape_def)
  ultimately show ?thesis using assms(1) unfolding copied_def by blast
qed

lemma qcount_room: "qcount Q < qlen Q \<Longrightarrow> unat (uxMessagesWaiting Q + 1) = Suc (qcount Q)"
  using unsigned_less [of "uxLength Q", where 'a = nat] by (intro unat_Suc_word) simp_all

lemma copy_back:
  assumes q: "queues s q = Some Q" and b: "blocks s (pcHead Q) = Some xs" "buffer_at Q xs r"
    and room: "qcount Q < qlen Q" and item: "qsize Q \<le> length item" and z: "uxItemSize Q \<noteq> 0"
  shows "\<exists>s'. prvCopyDataToQueue q item queueSEND_TO_BACK s = Some s' \<and>
    copied q Q (\<lambda>xs. xs @ [take (qsize Q) item]) s s'"
proof -
  let ?w = "(r + 1 + qcount Q) mod qlen Q"
  let ?ys = "put_slot (qsize Q) xs ?w (take (qsize Q) item)"
  note at = b(2) [unfolded buffer_at_def]
  have w: "?w < qlen Q" using room by simp
  have bw: "block_write (pcHead Q) (pcWriteTo Q) (uxItemSize Q) item s =
      Some (s\<lparr>blocks := (blocks s)(pcHead Q := Some ?ys)\<rparr>)"
    by (rule block_write_slot [OF b(1) _ _ w]) (use at item in auto)
  define Q' where "Q' = Q\<lparr>pcWriteTo := pcHead Q + of_nat ((?w + 1) mod qlen Q * qsize Q),
    uxMessagesWaiting := uxMessagesWaiting Q + 1\<rparr>"
  have nx: "(if pcTail Q \<le> pcWriteTo Q + uxItemSize Q then pcHead Q else pcWriteTo Q + uxItemSize Q) =
      pcHead Q + of_nat ((?w + 1) mod qlen Q * qsize Q)"
    using next_slot_address [OF w, of "pcHead Q" "uxItemSize Q"] at by (simp only: Let_def)
  have "prvCopyDataToQueue q item queueSEND_TO_BACK s =
      Some (s\<lparr>queues := (queues s)(q := Some Q'), blocks := (blocks s)(pcHead Q := Some ?ys)\<rparr>)"
    using q z bw nx [symmetric] by (simp add: prvCopyDataToQueue_def set_queue_def Q'_def Let_def)
  moreover have "copied q Q (\<lambda>xs. xs @ [take (qsize Q) item]) s
      (s\<lparr>queues := (queues s)(q := Some Q'), blocks := (blocks s)(pcHead Q := Some ?ys)\<rparr>)"
  proof (rule copiedI [where r' = r])
    show "same_shape Q Q'" by (simp add: same_shape_def Q'_def)
    have "(?w + 1) mod qlen Q = (r + 1 + Suc (qcount Q)) mod qlen Q" by (simp add: mod_Suc_eq)
    then show "buffer_at Q' ?ys r"
      using at qcount_room [OF room] room put_slot_length [OF w, of "qsize Q" xs] item
      by (simp add: buffer_at_def Q'_def)
    show "ring_items (qsize Q) (qlen Q) ?ys r (qcount Q') = queue_items s Q @ [take (qsize Q) item]"
      using ring_back [OF room, of "qsize Q" xs "take (qsize Q) item" r] at item qcount_room [OF room]
      by (simp add: Q'_def buffer_items [OF b])
  qed
  ultimately show ?thesis by blast
qed

lemma copy_front:
  assumes q: "queues s q = Some Q" and b: "blocks s (pcHead Q) = Some xs" "buffer_at Q xs r"
    and room: "qcount Q < qlen Q" and item: "qsize Q \<le> length item" and z: "uxItemSize Q \<noteq> 0"
  shows "\<exists>s'. prvCopyDataToQueue q item queueSEND_TO_FRONT s = Some s' \<and>
    copied q Q (\<lambda>xs. take (qsize Q) item # xs) s s'"
proof -
  let ?r = "if r = 0 then qlen Q - 1 else r - 1"
  let ?ys = "put_slot (qsize Q) xs r (take (qsize Q) item)"
  note at = b(2) [unfolded buffer_at_def]
  have r: "r < qlen Q" using at by simp
  have bw: "block_write (pcHead Q) (pcReadFrom Q) (uxItemSize Q) item s =
      Some (s\<lparr>blocks := (blocks s)(pcHead Q := Some ?ys)\<rparr>)"
    by (rule block_write_slot [OF b(1) _ _ r]) (use at item in auto)
  define Q' where "Q' = Q\<lparr>pcReadFrom := pcHead Q + of_nat (?r * qsize Q),
    uxMessagesWaiting := uxMessagesWaiting Q + 1\<rparr>"
  have nx: "(if pcReadFrom Q - uxItemSize Q < pcHead Q then pcTail Q - uxItemSize Q
      else pcReadFrom Q - uxItemSize Q) = pcHead Q + of_nat (?r * qsize Q)"
    using prev_slot_address [OF r, of "pcHead Q" "uxItemSize Q"] at z by (simp only: Let_def simp_thms)
  have "prvCopyDataToQueue q item queueSEND_TO_FRONT s =
      Some (s\<lparr>queues := (queues s)(q := Some Q'), blocks := (blocks s)(pcHead Q := Some ?ys)\<rparr>)"
    using q z bw nx [symmetric]
    by (simp add: prvCopyDataToQueue_def set_queue_def Q'_def Let_def split del: if_split) (simp split: if_splits)
  moreover have "copied q Q (\<lambda>xs. take (qsize Q) item # xs) s
      (s\<lparr>queues := (queues s)(q := Some Q'), blocks := (blocks s)(pcHead Q := Some ?ys)\<rparr>)"
  proof (rule copiedI [where r' = ?r])
    show "same_shape Q Q'" by (simp add: same_shape_def Q'_def)
    have "?r < qlen Q" using r by auto
    moreover have "(?r + 1 + Suc (qcount Q)) mod qlen Q = (r + 1 + qcount Q) mod qlen Q"
      using prev_slot [OF r, of "Suc (qcount Q)"] by (simp only: add_Suc_right add_Suc add_0 add_0_right One_nat_def)
    ultimately show "buffer_at Q' ?ys ?r"
      using at qcount_room [OF room] room put_slot_length [OF r, of "qsize Q" xs] item
      by (simp add: buffer_at_def Q'_def split del: if_split)
    show "ring_items (qsize Q) (qlen Q) ?ys ?r (qcount Q') = take (qsize Q) item # queue_items s Q"
      using ring_front [OF room r, of "qsize Q" xs "take (qsize Q) item"] at item qcount_room [OF room]
      by (simp add: Q'_def buffer_items [OF b] split del: if_split)
  qed
  ultimately show ?thesis by blast
qed

text \<open>On an empty queue of length 1 an overwrite is a send to the front; on a full one it drops the item first.\<close>

lemma copy_overwrite_front:
  assumes "queues s q = Some Q" and "uxItemSize Q \<noteq> 0" and "uxMessagesWaiting Q = 0"
  shows "prvCopyDataToQueue q item queueOVERWRITE s = prvCopyDataToQueue q item queueSEND_TO_FRONT s"
  using assms by (auto simp: prvCopyDataToQueue_def Let_def block_write_def set_queue_def split: Option.bind_splits)

lemma copy_overwrite_full:
  assumes "queues s q = Some Q" and "uxItemSize Q \<noteq> 0" and "uxMessagesWaiting Q = 1"
  shows "prvCopyDataToQueue q item queueOVERWRITE s =
    prvCopyDataToQueue q item queueSEND_TO_FRONT (set_queue q (Q\<lparr>uxMessagesWaiting := 0\<rparr>) s)"
  using assms by (auto simp: prvCopyDataToQueue_def Let_def block_write_def set_queue_def split: Option.bind_splits)

lemma copy_overwrite:
  assumes q: "queues s q = Some Q" and b: "blocks s (pcHead Q) = Some xs" "buffer_at Q xs r"
    and one: "uxLength Q = 1" and item: "qsize Q \<le> length item" and z: "uxItemSize Q \<noteq> 0"
  shows "\<exists>s'. prvCopyDataToQueue q item queueOVERWRITE s = Some s' \<and>
    copied q Q (\<lambda>xs. [take (qsize Q) item]) s s'"
proof -
  let ?Q = "Q\<lparr>uxMessagesWaiting := 0\<rparr>" and ?s = "set_queue q (Q\<lparr>uxMessagesWaiting := 0\<rparr>) s"
  note at = b(2) [unfolded buffer_at_def]
  have n: "uxMessagesWaiting Q = 0 \<or> uxMessagesWaiting Q = 1"
    using at one by (auto simp: word_unat_eq_iff)
  have at': "buffer_at ?Q xs r" using at one by (simp add: buffer_at_def)
  have e: "prvCopyDataToQueue q item queueOVERWRITE s = prvCopyDataToQueue q item queueSEND_TO_FRONT ?s"
  proof (cases "uxMessagesWaiting Q = 0")
    case True
    then have "?s = s" using q by (simp add: set_queue_def fun_upd_idem)
    then show ?thesis using copy_overwrite_front [OF q z True] by simp
  next
    case False
    then show ?thesis using n copy_overwrite_full [OF q z] by simp
  qed
  obtain s' where s': "prvCopyDataToQueue q item queueSEND_TO_FRONT ?s = Some s'"
    "copied q ?Q (\<lambda>xs. take (qsize ?Q) item # xs) ?s s'"
    using copy_front [of ?s q ?Q xs r item] at' b(1) item z one by (auto simp: set_queue_def)
  have "length (queue_items ?s ?Q) = 0" by simp
  then have "queue_items ?s ?Q = []" by (simp only: length_0_conv)
  then have "copied q Q (\<lambda>xs. [take (qsize Q) item]) s s'"
    using s'(2) unfolding copied_def by (simp add: set_queue_def same_shape_def)
  then show ?thesis using e s'(1) by auto
qed

text \<open>The copy of an item into a queue that is no mutex, in every position.\<close>

lemma copy_to_effect:
  assumes q: "queues s q = Some Q" and b: "blocks s (pcHead Q) = Some xs" "buffer_at Q xs r"
    and room: "qcount Q < qlen Q \<or> pos = queueOVERWRITE \<and> uxItemSize Q \<noteq> 0"
    and ow: "pos = queueOVERWRITE \<longrightarrow> uxLength Q = 1" and item: "qsize Q \<le> length item"
  shows "\<exists>s'. prvCopyDataToQueue q item pos s = Some s' \<and> copied q Q (fifo_put pos (take (qsize Q) item)) s s'"
proof (cases "uxItemSize Q = 0")
  case True
  then have n: "qcount Q < qlen Q" using room by simp
  have nm: "\<not> is_mutex Q" using b(2) by (simp add: buffer_at_def)
  define Q' where "Q' = Q\<lparr>uxMessagesWaiting := uxMessagesWaiting Q + 1\<rparr>"
  have e: "blocks s = (blocks s)(pcHead Q := Some xs)" using b(1) by (simp add: fun_upd_idem)
  have "prvCopyDataToQueue q item pos s =
      Some (s\<lparr>queues := (queues s)(q := Some Q'), blocks := (blocks s)(pcHead Q := Some xs)\<rparr>)"
    using q True nm e [symmetric] by (simp add: prvCopyDataToQueue_def set_queue_def Q'_def)
  moreover have "copied q Q (fifo_put pos (take (qsize Q) item)) s
      (s\<lparr>queues := (queues s)(q := Some Q'), blocks := (blocks s)(pcHead Q := Some xs)\<rparr>)"
  proof (rule copiedI [where r' = r])
    show "same_shape Q Q'" by (simp add: same_shape_def Q'_def)
    show "buffer_at Q' xs r" using b(2) qcount_room [OF n] n True by (simp add: buffer_at_def Q'_def)
    have "queue_items s Q = replicate (qcount Q) []" using buffer_items [OF b] True by (simp add: ring_items_zero)
    then show "ring_items (qsize Q) (qlen Q) xs r (qcount Q') = fifo_put pos (take (qsize Q) item) (queue_items s Q)"
      using True qcount_room [OF n] ow n
      by (cases pos) (simp_all add: ring_items_zero Q'_def replicate_append_same)
  qed
  ultimately show ?thesis by blast
next
  case False
  show ?thesis
  proof (cases pos)
    case queueSEND_TO_BACK
    have "fifo_put pos (take (qsize Q) item) = (\<lambda>xs. xs @ [take (qsize Q) item])"
      by (simp add: queueSEND_TO_BACK fun_eq_iff)
    then show ?thesis using copy_back [OF q b _ item False] room queueSEND_TO_BACK by simp
  next
    case queueSEND_TO_FRONT
    have "fifo_put pos (take (qsize Q) item) = (\<lambda>xs. take (qsize Q) item # xs)"
      by (simp add: queueSEND_TO_FRONT fun_eq_iff)
    then show ?thesis using copy_front [OF q b _ item False] room queueSEND_TO_FRONT by simp
  next
    case queueOVERWRITE
    have "fifo_put pos (take (qsize Q) item) = (\<lambda>xs. [take (qsize Q) item])"
      by (simp add: queueOVERWRITE fun_eq_iff)
    then show ?thesis using copy_overwrite [OF q b _ item False] ow queueOVERWRITE by simp
  qed
qed

text \<open>The copy out of a queue: the read position moves to the slot of the oldest item.\<close>

lemma copy_from_effect:
  assumes q: "queues s q = Some Q" and b: "blocks s (pcHead Q) = Some xs" "buffer_at Q xs r"
    and n: "0 < qcount Q"
  defines "Q' \<equiv> Q\<lparr>pcReadFrom := pcHead Q + of_nat ((r + 1) mod qlen Q * qsize Q)\<rparr>"
  shows "prvCopyDataFromQueue q s = Some (hd (queue_items s Q), set_queue q Q' s)"
    and "buffer_at (Q'\<lparr>uxMessagesWaiting := uxMessagesWaiting Q - 1\<rparr>) xs ((r + 1) mod qlen Q)"
    and "ring_items (qsize Q) (qlen Q) xs ((r + 1) mod qlen Q) (qcount Q - 1) = tl (queue_items s Q)"
proof -
  note at = b(2) [unfolded buffer_at_def]
  have r: "r < qlen Q" "(r + 1) mod qlen Q < qlen Q" using at by auto
  have nx: "(if pcTail Q \<le> pcReadFrom Q + uxItemSize Q then pcHead Q else pcReadFrom Q + uxItemSize Q) =
      pcHead Q + of_nat ((r + 1) mod qlen Q * qsize Q)"
    using next_slot_address [OF r(1), of "pcHead Q" "uxItemSize Q"] at by (simp only: Let_def simp_thms)
  have br: "block_read (pcHead Q) (pcHead Q + of_nat ((r + 1) mod qlen Q * qsize Q)) (uxItemSize Q) s =
      Some (slot (qsize Q) xs ((r + 1) mod qlen Q))"
    by (rule block_read_slot [OF b(1) refl _ r(2)]) (use at in auto)
  note rr = ring_read [OF r(1) n, of "qsize Q" xs]
  have "hd (queue_items s Q) = slot (qsize Q) xs ((r + 1) mod qlen Q)" using rr buffer_items [OF b] by simp
  then show "prvCopyDataFromQueue q s = Some (hd (queue_items s Q), set_queue q Q' s)"
    using q nx [symmetric] br at
    by (simp add: prvCopyDataFromQueue_def Q'_def Let_def split del: if_split) (simp split: if_splits)
  have "unat (uxMessagesWaiting Q - 1) = qcount Q - 1" using n unat_pred_word [of "uxMessagesWaiting Q" "qcount Q - 1"] by simp
  moreover have "((r + 1) mod qlen Q + 1 + (qcount Q - 1)) mod qlen Q = (r + 1 + qcount Q) mod qlen Q"
    using n mod_add_left_eq [of "r + 1" "qlen Q" "qcount Q"] by simp
  ultimately show "buffer_at (Q'\<lparr>uxMessagesWaiting := uxMessagesWaiting Q - 1\<rparr>) xs ((r + 1) mod qlen Q)"
    using at r(2) n by (simp add: buffer_at_def Q'_def le_diff_conv)
  show "ring_items (qsize Q) (qlen Q) xs ((r + 1) mod qlen Q) (qcount Q - 1) = tl (queue_items s Q)"
    using rr buffer_items [OF b] by simp
qed

end
