(* ===== verification/Queue_Ops.thy ===== *)
theory Queue_Ops
  imports Queue_Fifo Task_Frames
begin

text \<open>
  The invariant of the kernel with its queues, and the effect of the operations of queue.c on it.
\<close>

section \<open>Waking\<close>

text \<open>What waking tasks leaves alone in the kernel.\<close>

definition woke :: "kernel \<Rightarrow> kernel \<Rightarrow> bool" where
  "woke k k' \<longleftrightarrow> kernel_ok k' \<and> inits k' = inits k \<and> same_env k k' \<and> ival k' = ival k \<and>
     xTickCount k' = xTickCount k \<and> uxPendedTicks k' = uxPendedTicks k \<and> xNumOfOverflows k' = xNumOfOverflows k"

lemma woke_refl: "kernel_ok k \<Longrightarrow> woke k k"
  by (simp add: woke_def same_env_def)

lemma woke_trans: "woke k k' \<Longrightarrow> woke k' k'' \<Longrightarrow> woke k k''"
  by (auto simp: woke_def same_env_def)

text \<open>Where the list items are after the first task of an event list is woken.\<close>

definition first_woken :: "lid \<Rightarrow> kernel \<Rightarrow> item \<Rightarrow> lid option" where
  "first_woken l k = (case litems k l of
       [] \<Rightarrow> cont k
     | i # is \<Rightarrow> if uxSchedulerSuspended k = 0
         then (cont k)(Event (task_of i) := None, Generic (task_of i) := Some (Ready (prio k (task_of i))))
         else (cont k)(Event (task_of i) := Some PendingReadyList))"

lemma kernel_ok_missed: "kernel_ok k \<Longrightarrow> kernel_ok (vTaskMissedYield k)"
proof -
  assume ok: "kernel_ok k"
  have "kinv_now {} (vTaskMissedYield k)"
    by (rule kinv_now_frame [OF kernel_ok_kinv [OF ok]]) (simp_all add: vTaskMissedYield_def)
  then show ?thesis by (rule kernel_ok_frame [OF ok]) (simp_all add: vTaskMissedYield_def pending_def)
qed

lemma event_list_empty:
  assumes "kernel_ok k" and "l \<in> inits k"
  shows "listLIST_IS_EMPTY l (heap k) \<longleftrightarrow> litems k l = []"
  using is_empty_items(1) [OF kinvD(1) [OF kernel_ok_kinv [OF assms(1)]]] assms(2) by (simp add: inits_def)

lemma remove_first_effect:
  assumes ok: "kernel_ok k" and cur: "pxCurrentTCB k \<noteq> 0" and l: "\<not> kernel_list l" and ne: "litems k l = i # is"
  shows "\<exists>y k'. xTaskRemoveFromEventList l k = Some (y, k') \<and> woke k k' \<and> cont k' = first_woken l k \<and>
    (y \<longleftrightarrow> prio k (task_of i) \<ge> prio k (pxCurrentTCB k)) \<and>
    (\<forall>m. \<not> kernel_list m \<longrightarrow> litems k' m = (if m = l then is else litems k m)) \<and>
    pending_soft_sv k' = pending_soft_sv k \<and> xYieldPending k' = xYieldPending k"
proof -
  obtain t where t: "i = Event t" using event_list_items [OF kernel_ok_kinv [OF ok] l, of i] ne by auto
  obtain k' where k': "xTaskRemoveFromEventList l k = Some (prio k t \<ge> prio k (pxCurrentTCB k), k')" "kernel_ok k'"
    "cont k' = (if uxSchedulerSuspended k = 0 then (cont k)(Event t := None, Generic t := Some (Ready (prio k t)))
      else (cont k)(Event t := Some PendingReadyList))" "ival k' = ival k"
    "k' = k\<lparr>heap := heap k', uxTopReadyPriority := uxTopReadyPriority k'\<rparr>"
    using remove_from_event_list_effect [OF ok cur ne [unfolded t]] by blast
  obtain h p where e: "k' = k\<lparr>heap := h, uxTopReadyPriority := p\<rparr>" using k'(5) by blast
  have "inits k' = inits k" using k'(1) by (rule inits)
  then have "woke k k'" using k'(2,4) by (simp add: woke_def same_env_def e)
  moreover have "cont k' = first_woken l k" using k'(3) ne t by (simp add: first_woken_def)
  moreover have "\<forall>m. \<not> kernel_list m \<longrightarrow> litems k' m = (if m = l then is else litems k m)"
    using remove_from_event_list_items [OF ok ne [unfolded t] l k'(1)] by blast
  ultimately show ?thesis using k'(1) t by (auto simp: e)
qed

lemma wake_one_effect:
  assumes ok: "kernel_ok k" and cur: "pxCurrentTCB k \<noteq> 0" and l: "\<not> kernel_list l" "l \<in> inits k"
  shows "\<exists>k'. wake_one portYIELD l k = Some k' \<and> woke k k' \<and> cont k' = first_woken l k \<and>
    (pending_soft_sv k \<longrightarrow> pending_soft_sv k') \<and>
    (\<forall>i is. litems k l = i # is \<longrightarrow> prio k (pxCurrentTCB k) \<le> prio k (task_of i) \<longrightarrow> pending_soft_sv k')"
proof (cases "litems k l")
  case Nil
  then show ?thesis using event_list_empty [OF ok l(2)] woke_refl [OF ok]
    by (simp add: wake_one_def first_woken_def)
next
  case (Cons i "is")
  obtain y k' where k': "xTaskRemoveFromEventList l k = Some (y, k')" "woke k k'" "cont k' = first_woken l k"
    "y \<longleftrightarrow> prio k (task_of i) \<ge> prio k (pxCurrentTCB k)" "pending_soft_sv k' = pending_soft_sv k"
    using remove_first_effect [OF ok cur l(1) Cons] by blast
  have "woke k' (portYIELD k')" using k'(2) kernel_ok_yield
    by (simp add: woke_def same_env_def) (simp add: portYIELD_def)
  then have "woke k (if y then portYIELD k' else k')" using woke_trans [OF k'(2)] k'(2) by simp
  moreover have "cont (if y then portYIELD k' else k') = first_woken l k" using k'(3) by (simp add: portYIELD_def)
  moreover have "wake_one portYIELD l k = Some (if y then portYIELD k' else k')"
    using k'(1) Cons event_list_empty [OF ok l(2)] by (simp add: wake_one_def)
  ultimately show ?thesis using k'(4,5) Cons by (auto simp: portYIELD_def)
qed

lemma wake_from_isr_effect:
  assumes ok: "kernel_ok k" and cur: "pxCurrentTCB k \<noteq> 0" and l: "\<not> kernel_list l" "l \<in> inits k"
  shows "\<exists>y k'. wake_from_isr l k = Some (y, k') \<and> woke k k' \<and> cont k' = first_woken l k \<and>
    (y \<longleftrightarrow> (\<exists>i is. litems k l = i # is \<and> prio k (pxCurrentTCB k) \<le> prio k (task_of i)))"
proof (cases "litems k l")
  case Nil
  then show ?thesis using event_list_empty [OF ok l(2)] woke_refl [OF ok]
    by (intro exI [of _ False] exI [of _ k]) (simp add: wake_from_isr_def first_woken_def)
next
  case (Cons i "is")
  obtain y k' where "xTaskRemoveFromEventList l k = Some (y, k')" "woke k k'" "cont k' = first_woken l k"
    "y \<longleftrightarrow> prio k (task_of i) \<ge> prio k (pxCurrentTCB k)"
    using remove_first_effect [OF ok cur l(1) Cons] by blast
  then show ?thesis using Cons event_list_empty [OF ok l(2)] by (auto simp: wake_from_isr_def)
qed

text \<open>Unlocking, with the scheduler suspended: the first \<open>lock\<close> waiting tasks become pending.\<close>

lemma unlock_wake_effect:
  assumes "kernel_ok k" and "pxCurrentTCB k \<noteq> 0" and "\<not> kernel_list l" "l \<in> inits k"
    and "uxSchedulerSuspended k \<noteq> 0"
  shows "\<exists>k'. unlock_wake l lock k = Some k' \<and> woke k k' \<and>
    (\<forall>i. cont k' i = (if i \<in> set (take (nat (sint lock)) (litems k l)) then Some PendingReadyList else cont k i)) \<and>
    (\<forall>m. \<not> kernel_list m \<longrightarrow> litems k' m = (if m = l then drop (nat (sint lock)) (litems k l) else litems k m)) \<and>
    pending_soft_sv k' = pending_soft_sv k \<and>
    (xYieldPending k' \<longleftrightarrow> xYieldPending k \<or> (\<exists>i \<in> set (take (nat (sint lock)) (litems k l)).
       prio k (pxCurrentTCB k) \<le> prio k (task_of i)))"
  using assms
proof (induction "nat (sint lock)" arbitrary: lock k)
  case 0
  then show ?case using woke_refl by simp
next
  case (Suc n)
  have pos: "0 < sint lock" using Suc.hyps(2) by linarith
  have n: "n = nat (sint (lock - 1))" using Suc.hyps(2) sint_pred [OF pos] by linarith
  show ?case
  proof (cases "litems k l")
    case Nil
    then show ?thesis using event_list_empty [OF Suc.prems(1,4)] woke_refl [OF Suc.prems(1)] by simp
  next
    case (Cons i "is")
    obtain t where t: "i = Event t"
      using event_list_items [OF kernel_ok_kinv [OF Suc.prems(1)] Suc.prems(3), of i] Cons by auto
    obtain y k1 where k1: "xTaskRemoveFromEventList l k = Some (y, k1)" "woke k k1" "cont k1 = first_woken l k"
      "y \<longleftrightarrow> prio k (task_of i) \<ge> prio k (pxCurrentTCB k)"
      "\<forall>m. \<not> kernel_list m \<longrightarrow> litems k1 m = (if m = l then is else litems k m)"
      "pending_soft_sv k1 = pending_soft_sv k" "xYieldPending k1 = xYieldPending k"
      using remove_first_effect [OF Suc.prems(1-3) Cons] by blast
    define k2 where "k2 = (if y then vTaskMissedYield k1 else k1)"
    have f2: "heap k2 = heap k1" "tcbs k2 = tcbs k1" "pxCurrentTCB k2 = pxCurrentTCB k1"
      "uxSchedulerSuspended k2 = uxSchedulerSuspended k1" "pending_soft_sv k2 = pending_soft_sv k1"
      "xYieldPending k2 \<longleftrightarrow> xYieldPending k1 \<or> y"
      by (simp_all add: k2_def vTaskMissedYield_def)
    have "woke k1 k2" using k1(2) kernel_ok_missed [of k1]
      by (simp add: woke_def same_env_def k2_def) (simp add: vTaskMissedYield_def)
    with k1(2) have w2: "woke k k2" by (rule woke_trans)
    have e2: "pxCurrentTCB k2 = pxCurrentTCB k" "tcbs k2 = tcbs k" "inits k2 = inits k" "kernel_ok k2"
      "uxSchedulerSuspended k2 = uxSchedulerSuspended k"
      using w2 by (simp_all add: woke_def same_env_def)
    obtain k' where k': "unlock_wake l (lock - 1) k2 = Some k'" "woke k2 k'"
      "\<forall>i. cont k' i = (if i \<in> set (take n (litems k2 l)) then Some PendingReadyList else cont k2 i)"
      "\<forall>m. \<not> kernel_list m \<longrightarrow> litems k' m = (if m = l then drop n (litems k2 l) else litems k2 m)"
      "pending_soft_sv k' = pending_soft_sv k2"
      "xYieldPending k' \<longleftrightarrow> xYieldPending k2 \<or> (\<exists>i \<in> set (take n (litems k2 l)). prio k2 (pxCurrentTCB k2) \<le> prio k2 (task_of i))"
      using Suc.hyps(1) [OF n, of k2] Suc.prems(2-5) unfolding n [symmetric] e2(1,3,5) using e2(4) by blast
    have l1: "litems k1 l = is" using k1(5) Suc.prems(3) by simp
    have res: "unlock_wake l lock k = Some k'"
      using pos Cons event_list_empty [OF Suc.prems(1,4)] k1(1) k'(1) by (simp add: k2_def)
    have "cont k' j = (if j \<in> set (take (Suc n) (litems k l)) then Some PendingReadyList else cont k j)" for j
      using k'(3) k1(3) Cons t Suc.prems(5) by (simp add: l1 f2(1) first_woken_def)
    moreover have "litems k' m = (if m = l then drop (Suc n) (litems k l) else litems k m)" if "\<not> kernel_list m" for m
      using k'(4) that k1(5) Cons by (simp add: l1 f2(1))
    moreover have "xYieldPending k' \<longleftrightarrow> xYieldPending k \<or> (\<exists>i \<in> set (take (Suc n) (litems k l)).
        prio k (pxCurrentTCB k) \<le> prio k (task_of i))"
      using k'(6) k1(4,7) f2(6) Cons e2(1,2) by (auto simp: l1 f2(1))
    ultimately show ?thesis using res woke_trans [OF w2 k'(2)] k'(5) k1(6) f2(5)
      unfolding Suc.hyps(2) [symmetric] by simp
  qed
qed

section \<open>The invariant of the system\<close>

definition unlocked :: "xQUEUE \<Rightarrow> bool" where
  "unlocked Q \<longleftrightarrow> xRxLock Q = queueUNLOCKED \<and> xTxLock Q = queueUNLOCKED"

definition sys_ok :: "system \<Rightarrow> bool" where
  "sys_ok s \<longleftrightarrow> kernel_ok (kern s) \<and> pxCurrentTCB (kern s) \<noteq> 0 \<and>
     (\<forall>q Q. queues s q = Some Q \<longrightarrow> queue_ok s Q \<and>
        TasksWaitingToSend q \<in> inits (kern s) \<and> TasksWaitingToReceive q \<in> inits (kern s) \<and>
        (uxSchedulerSuspended (kern s) = 0 \<longrightarrow> unlocked Q)) \<and>
     (\<forall>q r Q R. q \<noteq> r \<longrightarrow> queues s q = Some Q \<longrightarrow> queues s r = Some R \<longrightarrow> \<not> is_mutex Q \<longrightarrow> pcHead Q \<noteq> pcHead R)"

lemma sys_okD:
  assumes "sys_ok s"
  shows "kernel_ok (kern s)" "pxCurrentTCB (kern s) \<noteq> 0"
    "queues s q = Some Q \<Longrightarrow> queue_ok s Q" "queues s q = Some Q \<Longrightarrow> TasksWaitingToSend q \<in> inits (kern s)"
    "queues s q = Some Q \<Longrightarrow> TasksWaitingToReceive q \<in> inits (kern s)"
    "queues s q = Some Q \<Longrightarrow> uxSchedulerSuspended (kern s) = 0 \<Longrightarrow> unlocked Q"
    "q \<noteq> r \<Longrightarrow> queues s q = Some Q \<Longrightarrow> queues s r = Some R \<Longrightarrow> \<not> is_mutex Q \<Longrightarrow> pcHead Q \<noteq> pcHead R"
  using assms unfolding sys_ok_def by blast+

text \<open>The items of every queue.\<close>

definition items_of :: "system \<Rightarrow> qid \<Rightarrow> u8 list list option" where
  "items_of s q = map_option (queue_items s) (queues s q)"

lemma queue_view_cong:
  assumes "blocks s' (pcHead Q) = blocks s (pcHead Q)"
  shows "queue_ok s' Q = queue_ok s Q" and "queue_items s' Q = queue_items s Q"
  using assms by (simp_all add: queue_ok_def queue_items_def)

text \<open>Changes of the kernel.\<close>

lemma sys_ok_kern:
  assumes ok: "sys_ok s" and k: "kernel_ok k" "pxCurrentTCB k \<noteq> 0" "inits k = inits (kern s)"
    and u: "\<And>q Q. queues s q = Some Q \<Longrightarrow> uxSchedulerSuspended k = 0 \<Longrightarrow> unlocked Q"
  shows "sys_ok (s\<lparr>kern := k\<rparr>)" and "items_of (s\<lparr>kern := k\<rparr>) = items_of s"
proof -
  have c: "queue_ok (s\<lparr>kern := k\<rparr>) Q = queue_ok s Q" "queue_items (s\<lparr>kern := k\<rparr>) Q = queue_items s Q" for Q
    using queue_view_cong [of "s\<lparr>kern := k\<rparr>" Q s] by simp_all
  show "sys_ok (s\<lparr>kern := k\<rparr>)" using ok k u unfolding sys_ok_def c by simp
  show "items_of (s\<lparr>kern := k\<rparr>) = items_of s" unfolding items_of_def c(2) [abs_def] by (simp add: c fun_eq_iff)
qed

lemma sys_ok_woke:
  assumes "sys_ok s" and "woke (kern s) k"
  shows "sys_ok (s\<lparr>kern := k\<rparr>)" and "items_of (s\<lparr>kern := k\<rparr>) = items_of s"
  using sys_ok_kern [OF assms(1), of k] assms(2) sys_okD(2,6) [OF assms(1)]
  by (simp_all add: woke_def same_env_def)

text \<open>Changes of one queue.\<close>

lemma sys_ok_queue:
  assumes ok: "sys_ok s" and q: "queues s q = Some Q" and h: "pcHead Q' = pcHead Q"
    and s': "s' = s\<lparr>queues := (queues s)(q := Some Q'), blocks := B\<rparr>"
    and B: "\<And>b. b \<noteq> pcHead Q \<or> is_mutex Q \<Longrightarrow> B b = blocks s b"
    and Q': "queue_ok s' Q'" and u: "uxSchedulerSuspended (kern s) = 0 \<Longrightarrow> unlocked Q'"
  shows "sys_ok s'" and "items_of s' = (items_of s)(q := Some (queue_items s' Q'))"
proof -
  have b: "blocks s' (pcHead R) = blocks s (pcHead R)" if "r \<noteq> q" "queues s r = Some R" for r R
    using sys_okD(7) [OF ok _ q that(2)] that(1) B s' by (cases "is_mutex Q") auto
  have c: "queue_ok s' R = queue_ok s R" "queue_items s' R = queue_items s R"
    if "r \<noteq> q" "queues s r = Some R" for r R
    using queue_view_cong [OF b [OF that]] by simp_all
  have k: "kern s' = kern s" "queues s' = (queues s)(q := Some Q')" by (simp_all add: s')
  show "sys_ok s'"
    unfolding sys_ok_def k
  proof (intro conjI allI impI)
    show "kernel_ok (kern s)" "pxCurrentTCB (kern s) \<noteq> 0" using sys_okD [OF ok] by auto
    fix r R
    assume r: "((queues s)(q := Some Q')) r = Some R"
    show "queue_ok s' R" using r Q' c(1) sys_okD(3) [OF ok] by (cases "r = q") auto
    show "TasksWaitingToSend r \<in> inits (kern s)" "TasksWaitingToReceive r \<in> inits (kern s)"
      using r q sys_okD(4,5) [OF ok] by (cases "r = q"; auto)+
    show "uxSchedulerSuspended (kern s) = 0 \<Longrightarrow> unlocked R" using r u sys_okD(6) [OF ok] by (cases "r = q") auto
    fix p P
    assume a: "r \<noteq> p" "((queues s)(q := Some Q')) p = Some P" "\<not> is_mutex R"
    consider "r = q" "p \<noteq> q" | "r \<noteq> q" "p = q" | "r \<noteq> q" "p \<noteq> q" using a(1) by blast
    then show "pcHead R \<noteq> pcHead P"
    proof cases
      case 1
      then show ?thesis using r a h sys_okD(7) [OF ok a(1), of Q P] q by simp
    next
      case 2
      then show ?thesis using r a h sys_okD(7) [OF ok a(1), of R Q] q by simp
    next
      case 3
      then show ?thesis using r a sys_okD(7) [OF ok a(1), of R P] by simp
    qed
  qed
  show "items_of s' = (items_of s)(q := Some (queue_items s' Q'))"
  proof
    fix r
    show "items_of s' r = ((items_of s)(q := Some (queue_items s' Q'))) r"
      using c(2) by (cases "r = q"; cases "queues s r") (auto simp: items_of_def k)
  qed
qed

lemma sys_ok_set_queue:
  assumes "sys_ok s" "queues s q = Some Q" and "pcHead Q' = pcHead Q" and "queue_ok s Q'"
    and "uxSchedulerSuspended (kern s) = 0 \<Longrightarrow> unlocked Q'"
  shows "sys_ok (set_queue q Q' s)" and "items_of (set_queue q Q' s) = (items_of s)(q := Some (queue_items s Q'))"
proof -
  have e: "set_queue q Q' s = s\<lparr>queues := (queues s)(q := Some Q'), blocks := blocks s\<rparr>" by (simp add: set_queue_def)
  have c: "queue_ok (set_queue q Q' s) Q' = queue_ok s Q'" "queue_items (set_queue q Q' s) Q' = queue_items s Q'"
    using queue_view_cong [of "set_queue q Q' s" Q' s] by (simp_all add: set_queue_def)
  show "sys_ok (set_queue q Q' s)" "items_of (set_queue q Q' s) = (items_of s)(q := Some (queue_items s Q'))"
    using sys_ok_queue [OF assms(1-3) e] assms(4,5) c by simp_all
qed

lemma sys_ok_copied:
  assumes ok: "sys_ok s" and q: "queues s q = Some Q" and m: "\<not> is_mutex Q" and c: "copied q Q f s s'"
  shows "sys_ok s'" and "items_of s' = (items_of s)(q := Some (f (queue_items s Q)))" and "kern s' = kern s"
    and "\<exists>Q'. queues s' = (queues s)(q := Some Q') \<and> same_shape Q Q'"
proof -
  obtain Q' ys where c': "s' = s\<lparr>queues := (queues s)(q := Some Q'), blocks := (blocks s)(pcHead Q := Some ys)\<rparr>"
    "same_shape Q Q'" "queue_ok s' Q'" "queue_items s' Q' = f (queue_items s Q)"
    using c unfolding copied_def by blast
  have h: "pcHead Q' = pcHead Q" "unlocked Q' = unlocked Q" using c'(2) by (simp_all add: same_shape_def unlocked_def)
  have u: "uxSchedulerSuspended (kern s) = 0 \<Longrightarrow> unlocked Q'" using sys_okD(6) [OF ok q] h by simp
  show "sys_ok s'" "items_of s' = (items_of s)(q := Some (f (queue_items s Q)))"
    using sys_ok_queue [OF ok q h(1) c'(1) _ c'(3) u] c'(4) m by auto
  show "kern s' = kern s" "\<exists>Q'. queues s' = (queues s)(q := Some Q') \<and> same_shape Q Q'"
    using c'(1,2) by auto
qed

lemma buffer_queue:
  assumes "sys_ok s" and "queues s q = Some Q" and "\<not> is_mutex Q"
  obtains xs r where "blocks s (pcHead Q) = Some xs" "buffer_at Q xs r"
  using sys_okD(3) [OF assms(1,2)] assms(3) by (auto simp: queue_ok_def mutex_ok_def)

lemma queue_bound:
  assumes "sys_ok s" and "queues s q = Some Q"
  shows "qcount Q \<le> qlen Q" and "0 < qlen Q"
  using sys_okD(3) [OF assms] by (auto simp: queue_ok_def mutex_ok_def buffer_at_def)

section \<open>Sending and receiving in a critical section\<close>

text \<open>The shape of a queue's record after a change to it.\<close>

definition queue_changed :: "qid \<Rightarrow> xQUEUE \<Rightarrow> u8 list list \<Rightarrow> lid \<Rightarrow> system \<Rightarrow> system \<Rightarrow> bool" where
  "queue_changed q Q xs l s s' \<longleftrightarrow> sys_ok s' \<and> items_of s' = (items_of s)(q := Some xs) \<and>
     (\<exists>Q'. queues s' = (queues s)(q := Some Q') \<and> same_shape Q Q') \<and>
     woke (kern s) (kern s') \<and> cont (kern s') = first_woken l (kern s)"

lemma wake_queue:
  assumes ok: "sys_ok s" and s1: "sys_ok s1" "kern s1 = kern s" "items_of s1 = (items_of s)(q := Some xs)"
    "\<exists>Q'. queues s1 = (queues s)(q := Some Q') \<and> same_shape Q Q'"
    and l: "l = TasksWaitingToSend q \<or> l = TasksWaitingToReceive q"
  shows "\<exists>s'. on_kernel (wake_one portYIELD l) s1 = Some s' \<and> queue_changed q Q xs l s s' \<and>
      (\<forall>i is. litems (kern s) l = i # is \<longrightarrow>
        prio (kern s) (pxCurrentTCB (kern s)) \<le> prio (kern s) (task_of i) \<longrightarrow> pending_soft_sv (kern s'))"
    and "\<exists>y s'. map_option (\<lambda>(y, k). (y, s1\<lparr>kern := k\<rparr>)) (wake_from_isr l (kern s1)) = Some (y, s') \<and>
      queue_changed q Q xs l s s' \<and> (y \<longleftrightarrow> (\<exists>i is. litems (kern s) l = i # is \<and>
        prio (kern s) (pxCurrentTCB (kern s)) \<le> prio (kern s) (task_of i)))"
proof -
  obtain Q' where Q': "queues s1 q = Some Q'" using s1(4) by auto
  have l': "\<not> kernel_list l" "l \<in> inits (kern s)"
    using l sys_okD(4,5) [OF s1(1) Q'] s1(2) by auto
  note k = sys_okD(1,2) [OF ok]
  obtain k' where k': "wake_one portYIELD l (kern s) = Some k'" "woke (kern s) k'" "cont k' = first_woken l (kern s)"
    "\<forall>i is. litems (kern s) l = i # is \<longrightarrow> prio (kern s) (pxCurrentTCB (kern s)) \<le> prio (kern s) (task_of i) \<longrightarrow> pending_soft_sv k'"
    using wake_one_effect [OF k l'] by blast
  have "queue_changed q Q xs l s (s1\<lparr>kern := k'\<rparr>)"
    using sys_ok_woke [OF s1(1), of k'] s1 k'(2,3) by (simp add: queue_changed_def)
  then show "\<exists>s'. on_kernel (wake_one portYIELD l) s1 = Some s' \<and> queue_changed q Q xs l s s' \<and>
      (\<forall>i is. litems (kern s) l = i # is \<longrightarrow>
        prio (kern s) (pxCurrentTCB (kern s)) \<le> prio (kern s) (task_of i) \<longrightarrow> pending_soft_sv (kern s'))"
    using k'(1,4) s1(2) by (intro exI [of _ "s1\<lparr>kern := k'\<rparr>"]) (simp add: on_kernel_def)
  obtain y k2 where k2: "wake_from_isr l (kern s) = Some (y, k2)" "woke (kern s) k2" "cont k2 = first_woken l (kern s)"
    "y \<longleftrightarrow> (\<exists>i is. litems (kern s) l = i # is \<and> prio (kern s) (pxCurrentTCB (kern s)) \<le> prio (kern s) (task_of i))"
    using wake_from_isr_effect [OF k l'] by blast
  have "queue_changed q Q xs l s (s1\<lparr>kern := k2\<rparr>)"
    using sys_ok_woke [OF s1(1), of k2] s1 k2(2,3) by (simp add: queue_changed_def)
  then show "\<exists>y s'. map_option (\<lambda>(y, k). (y, s1\<lparr>kern := k\<rparr>)) (wake_from_isr l (kern s1)) = Some (y, s') \<and>
      queue_changed q Q xs l s s' \<and> (y \<longleftrightarrow> (\<exists>i is. litems (kern s) l = i # is \<and>
        prio (kern s) (pxCurrentTCB (kern s)) \<le> prio (kern s) (task_of i)))"
    using k2(1,4) s1(2) by (intro exI [of _ y] exI [of _ "s1\<lparr>kern := k2\<rparr>"]) simp
qed

text \<open>A send that may copy: the queue has room, or the call overwrites a queue of length 1.\<close>

definition may_send :: "xQUEUE \<Rightarrow> position \<Rightarrow> u8 list \<Rightarrow> bool" where
  "may_send Q pos item \<longleftrightarrow> \<not> is_mutex Q \<and> qsize Q \<le> length item \<and>
     (pos = queueOVERWRITE \<longrightarrow> uxLength Q = 1 \<and> uxItemSize Q \<noteq> 0)"

lemma copy_to_ok:
  assumes ok: "sys_ok s" and q: "queues s q = Some Q" and m: "may_send Q pos item"
    and room: "uxMessagesWaiting Q < uxLength Q \<or> pos = queueOVERWRITE"
  shows "\<exists>s1. prvCopyDataToQueue q item pos s = Some s1 \<and> sys_ok s1 \<and> kern s1 = kern s \<and>
    items_of s1 = (items_of s)(q := Some (fifo_put pos (take (qsize Q) item) (queue_items s Q))) \<and>
    (\<exists>Q'. queues s1 = (queues s)(q := Some Q') \<and> same_shape Q Q')"
proof -
  have nm: "\<not> is_mutex Q" using m by (simp add: may_send_def)
  obtain xs r where b: "blocks s (pcHead Q) = Some xs" "buffer_at Q xs r" using buffer_queue [OF ok q nm] .
  obtain s1 where s1: "prvCopyDataToQueue q item pos s = Some s1"
    "copied q Q (fifo_put pos (take (qsize Q) item)) s s1"
    using copy_to_effect [OF q b, of pos item] m room by (auto simp: may_send_def word_less_nat_alt)
  then show ?thesis using sys_ok_copied [OF ok q nm s1(2)] by blast
qed

lemma send_enter_effect:
  assumes ok: "sys_ok s" and q: "queues s q = Some Q" and m: "may_send Q pos item"
    and room: "uxMessagesWaiting Q < uxLength Q \<or> pos = queueOVERWRITE"
  shows "\<exists>s'. send_enter q item w pos tmo s = Some (Return True, s') \<and>
    queue_changed q Q (fifo_put pos (take (qsize Q) item) (queue_items s Q)) (TasksWaitingToReceive q) s s' \<and>
    (\<forall>i is. litems (kern s) (TasksWaitingToReceive q) = i # is \<longrightarrow>
        prio (kern s) (pxCurrentTCB (kern s)) \<le> prio (kern s) (task_of i) \<longrightarrow> pending_soft_sv (kern s'))"
proof -
  obtain s1 where s1: "prvCopyDataToQueue q item pos s = Some s1" "sys_ok s1" "kern s1 = kern s"
    "items_of s1 = (items_of s)(q := Some (fifo_put pos (take (qsize Q) item) (queue_items s Q)))"
    "\<exists>Q'. queues s1 = (queues s)(q := Some Q') \<and> same_shape Q Q'"
    using copy_to_ok [OF assms] by blast
  obtain s' where "on_kernel (wake_one portYIELD (TasksWaitingToReceive q)) s1 = Some s'"
    "queue_changed q Q (fifo_put pos (take (qsize Q) item) (queue_items s Q)) (TasksWaitingToReceive q) s s'"
    "\<forall>i is. litems (kern s) (TasksWaitingToReceive q) = i # is \<longrightarrow>
        prio (kern s) (pxCurrentTCB (kern s)) \<le> prio (kern s) (task_of i) \<longrightarrow> pending_soft_sv (kern s')"
    using wake_queue(1) [OF ok s1(2-5)] by blast
  then show ?thesis using q room s1(1) by (auto simp: send_enter_def)
qed

lemma copy_from_ok:
  assumes ok: "sys_ok s" and q: "queues s q = Some Q" and nm: "\<not> is_mutex Q" and n: "uxMessagesWaiting Q > 0"
  shows "\<exists>Q1. prvCopyDataFromQueue q s = Some (hd (queue_items s Q), set_queue q Q1 s) \<and>
    pcHead Q1 = pcHead Q \<and> Q1\<lparr>pcReadFrom := pcReadFrom Q\<rparr> = Q \<and>
    copied q Q tl s (set_queue q (Q1\<lparr>uxMessagesWaiting := uxMessagesWaiting Q1 - 1\<rparr>) s)"
proof -
  obtain xs r where b: "blocks s (pcHead Q) = Some xs" "buffer_at Q xs r" using buffer_queue [OF ok q nm] .
  have n': "0 < qcount Q" using n by (simp add: word_less_nat_alt)
  define Q1 where "Q1 = Q\<lparr>pcReadFrom := pcHead Q + of_nat ((r + 1) mod qlen Q * qsize Q)\<rparr>"
  define Q2 where "Q2 = Q1\<lparr>uxMessagesWaiting := uxMessagesWaiting Q1 - 1\<rparr>"
  note e = copy_from_effect [OF q b n', folded Q1_def]
  have Q2: "uxMessagesWaiting Q2 = uxMessagesWaiting Q - 1" "same_shape Q Q2" "buffer_at Q2 xs ((r + 1) mod qlen Q)"
    using e(2) by (simp_all add: Q2_def Q1_def same_shape_def)
  have "unat (uxMessagesWaiting Q - 1) = qcount Q - 1" using n' unat_pred_word [of "uxMessagesWaiting Q" "qcount Q - 1"] by simp
  then have "copied q Q tl s (s\<lparr>queues := (queues s)(q := Some Q2), blocks := (blocks s)(pcHead Q := Some xs)\<rparr>)"
    by (intro copiedI [OF Q2(2,3)]) (use e(3) in \<open>simp add: Q2(1)\<close>)
  moreover have "(blocks s)(pcHead Q := Some xs) = blocks s" using b(1) by (simp add: fun_upd_idem)
  ultimately have "copied q Q tl s (set_queue q Q2 s)" by (simp add: set_queue_def)
  then show ?thesis using e(1) unfolding Q2_def by (intro exI [of _ Q1]) (simp add: Q1_def)
qed

lemma receive_enter_effect:
  assumes ok: "sys_ok s" and q: "queues s q = Some Q" and nm: "\<not> is_mutex Q" and n: "uxMessagesWaiting Q > 0"
  shows "\<exists>s'. receive_enter q w False tmo s = Some (Return (Some (hd (queue_items s Q))), s') \<and>
      queue_changed q Q (tl (queue_items s Q)) (TasksWaitingToSend q) s s' \<and>
      (\<forall>i is. litems (kern s) (TasksWaitingToSend q) = i # is \<longrightarrow>
        prio (kern s) (pxCurrentTCB (kern s)) \<le> prio (kern s) (task_of i) \<longrightarrow> pending_soft_sv (kern s'))"
    and "\<exists>s'. receive_enter q w True tmo s = Some (Return (Some (hd (queue_items s Q))), s') \<and>
      queue_changed q Q (queue_items s Q) (TasksWaitingToReceive q) s s'"
proof -
  obtain Q1 where Q1: "prvCopyDataFromQueue q s = Some (hd (queue_items s Q), set_queue q Q1 s)"
    "pcHead Q1 = pcHead Q" "Q1\<lparr>pcReadFrom := pcReadFrom Q\<rparr> = Q"
    "copied q Q tl s (set_queue q (Q1\<lparr>uxMessagesWaiting := uxMessagesWaiting Q1 - 1\<rparr>) s)"
    using copy_from_ok [OF assms] by blast
  define s1 where "s1 = set_queue q (Q1\<lparr>uxMessagesWaiting := uxMessagesWaiting Q1 - 1\<rparr>) s"
  note c = sys_ok_copied [OF ok q nm Q1(4), folded s1_def]
  obtain s' where s': "on_kernel (wake_one portYIELD (TasksWaitingToSend q)) s1 = Some s'"
    "queue_changed q Q (tl (queue_items s Q)) (TasksWaitingToSend q) s s'"
    "\<forall>i is. litems (kern s) (TasksWaitingToSend q) = i # is \<longrightarrow>
        prio (kern s) (pxCurrentTCB (kern s)) \<le> prio (kern s) (task_of i) \<longrightarrow> pending_soft_sv (kern s')"
    using wake_queue(1) [OF ok c(1,3,2,4)] by blast
  have e1: "set_queue q (Q1\<lparr>uxMessagesWaiting := uxMessagesWaiting Q1 - 1\<rparr>) (set_queue q Q1 s) = s1"
    by (simp add: s1_def set_queue_def)
  have "receive_enter q w False tmo s = Some (Return (Some (hd (queue_items s Q))), s')"
    using q n Q1(1,2) nm s'(1) e1 by (simp add: receive_enter_def Let_def) (simp add: set_queue_def)
  with s'(2,3) show "\<exists>s'. receive_enter q w False tmo s = Some (Return (Some (hd (queue_items s Q))), s') \<and>
      queue_changed q Q (tl (queue_items s Q)) (TasksWaitingToSend q) s s' \<and>
      (\<forall>i is. litems (kern s) (TasksWaitingToSend q) = i # is \<longrightarrow>
        prio (kern s) (pxCurrentTCB (kern s)) \<le> prio (kern s) (task_of i) \<longrightarrow> pending_soft_sv (kern s'))" by blast
  have e2: "set_queue q (Q1\<lparr>pcReadFrom := pcReadFrom Q\<rparr>) (set_queue q Q1 s) = s"
    using Q1(3) q by (simp add: set_queue_def fun_upd_idem)
  have "items_of s = (items_of s)(q := Some (queue_items s Q))" using q by (auto simp: items_of_def)
  moreover have "\<exists>Q'. queues s = (queues s)(q := Some Q') \<and> same_shape Q Q'"
    using q by (intro exI [of _ Q]) (simp add: fun_upd_idem same_shape_def)
  ultimately obtain s2 where s2: "on_kernel (wake_one portYIELD (TasksWaitingToReceive q)) s = Some s2"
    "queue_changed q Q (queue_items s Q) (TasksWaitingToReceive q) s s2"
    using wake_queue(1) [OF ok ok refl] by blast
  have "receive_enter q w True tmo s = Some (Return (Some (hd (queue_items s Q))), s2)"
    using q n Q1(1) s2(1) e2 by (simp add: receive_enter_def Let_def) (simp add: set_queue_def)
  with s2(2) show "\<exists>s'. receive_enter q w True tmo s = Some (Return (Some (hd (queue_items s Q))), s') \<and>
      queue_changed q Q (queue_items s Q) (TasksWaitingToReceive q) s s'" by blast
qed

section \<open>Locking and unlocking\<close>

declare unlock_wake.simps [simp del]

lemma queue_locks [simp]:
  "queue_ok s (Q\<lparr>xTxLock := a\<rparr>) = queue_ok s Q" "queue_ok s (Q\<lparr>xRxLock := a\<rparr>) = queue_ok s Q"
  "queue_items s (Q\<lparr>xTxLock := a\<rparr>) = queue_items s Q" "queue_items s (Q\<lparr>xRxLock := a\<rparr>) = queue_items s Q"
  by (simp_all add: queue_ok_def mutex_ok_def buffer_at_def queue_items_def)

lemma items_same: "queues s q = Some Q \<Longrightarrow> (items_of s)(q := Some (queue_items s Q)) = items_of s"
  by (auto simp: items_of_def)

lemma sys_ok_locks:
  assumes ok: "sys_ok s" and q: "queues s q = Some Q"
    and Q': "Q' = Q\<lparr>xRxLock := a, xTxLock := b\<rparr>"
    and u: "uxSchedulerSuspended (kern s) = 0 \<Longrightarrow> unlocked Q'"
  shows "sys_ok (set_queue q Q' s)" and "items_of (set_queue q Q' s) = items_of s"
proof -
  have "queue_ok s Q'" "queue_items s Q' = queue_items s Q" using sys_okD(3) [OF ok q] by (simp_all add: Q')
  then show "sys_ok (set_queue q Q' s)" "items_of (set_queue q Q' s) = items_of s"
    using sys_ok_set_queue [OF ok q, of Q'] u items_same [OF q] by (simp_all add: Q')
qed

lemma prvLockQueue_effect:
  assumes ok: "sys_ok s" and q: "queues s q = Some Q" and su: "uxSchedulerSuspended (kern s) \<noteq> 0"
  shows "\<exists>a b. prvLockQueue q s = Some (set_queue q (Q\<lparr>xRxLock := a, xTxLock := b\<rparr>) s) \<and>
    sys_ok (set_queue q (Q\<lparr>xRxLock := a, xTxLock := b\<rparr>) s) \<and>
    items_of (set_queue q (Q\<lparr>xRxLock := a, xTxLock := b\<rparr>) s) = items_of s \<and>
    a = (if xRxLock Q = queueUNLOCKED then 0 else xRxLock Q) \<and> b = (if xTxLock Q = queueUNLOCKED then 0 else xTxLock Q)"
proof -
  let ?a = "if xRxLock Q = queueUNLOCKED then 0 else xRxLock Q" and ?b = "if xTxLock Q = queueUNLOCKED then 0 else xTxLock Q"
  have "prvLockQueue q s = Some (set_queue q (Q\<lparr>xRxLock := ?a, xTxLock := ?b\<rparr>) s)"
    using q by (simp add: prvLockQueue_def queueLOCKED_UNMODIFIED_def)
  then show ?thesis using sys_ok_locks [OF ok q refl] su by (intro exI [of _ ?a] exI [of _ ?b]) blast
qed

text \<open>What either critical section of \<open>prvUnlockQueue\<close> does: it wakes the first waiting tasks and resets one lock.\<close>

definition side_unlocked :: "lid \<Rightarrow> u32 \<Rightarrow> qid \<Rightarrow> xQUEUE \<Rightarrow> system \<Rightarrow> system \<Rightarrow> bool" where
  "side_unlocked l lock q Q' s s' \<longleftrightarrow> sys_ok s' \<and> items_of s' = items_of s \<and> woke (kern s) (kern s') \<and>
     queues s' = (queues s)(q := Some Q') \<and>
     (\<forall>i. cont (kern s') i =
       (if i \<in> set (take (nat (sint lock)) (litems (kern s) l)) then Some PendingReadyList else cont (kern s) i)) \<and>
     (\<forall>m. \<not> kernel_list m \<longrightarrow> litems (kern s') m = (if m = l then drop (nat (sint lock)) (litems (kern s) l) else litems (kern s) m))"

lemma unlock_side:
  assumes ok: "sys_ok s" and q: "queues s q = Some Q" and su: "uxSchedulerSuspended (kern s) \<noteq> 0"
    and l: "l \<in> {TasksWaitingToReceive q, TasksWaitingToSend q}" and Q': "Q' = Q\<lparr>xRxLock := a, xTxLock := b\<rparr>"
  obtains k where "unlock_wake l lock (kern s) = Some k" "side_unlocked l lock q Q' s (set_queue q Q' (s\<lparr>kern := k\<rparr>))"
proof -
  note kk = sys_okD(1,2) [OF ok] and li = sys_okD(4,5) [OF ok q]
  have ll: "\<not> kernel_list l" "l \<in> inits (kern s)" using l li by auto
  obtain k where k: "unlock_wake l lock (kern s) = Some k" "woke (kern s) k"
    "\<forall>i. cont k i = (if i \<in> set (take (nat (sint lock)) (litems (kern s) l)) then Some PendingReadyList else cont (kern s) i)"
    "\<forall>m. \<not> kernel_list m \<longrightarrow> litems k m = (if m = l then drop (nat (sint lock)) (litems (kern s) l) else litems (kern s) m)"
    using unlock_wake_effect [OF kk ll su, of lock] by auto
  have sq: "sys_ok (set_queue q Q' s)" "items_of (set_queue q Q' s) = items_of s"
    using sys_ok_locks [OF ok q Q'] su by simp_all
  have e: "set_queue q Q' (s\<lparr>kern := k\<rparr>) = (set_queue q Q' s)\<lparr>kern := k\<rparr>" "kern (set_queue q Q' s) = kern s"
    by (simp_all add: set_queue_def)
  have "sys_ok ((set_queue q Q' s)\<lparr>kern := k\<rparr>)" "items_of ((set_queue q Q' s)\<lparr>kern := k\<rparr>) = items_of s"
    using sys_ok_woke [of "set_queue q Q' s" k] sq k(2) e(2) by simp_all
  then have "side_unlocked l lock q Q' s (set_queue q Q' (s\<lparr>kern := k\<rparr>))"
    unfolding side_unlocked_def e(1) using k(2-4) by (simp add: set_queue_def)
  then show thesis using that k(1) by blast
qed

lemma unlock_tx_effect:
  assumes "sys_ok s" and "queues s q = Some Q" and "uxSchedulerSuspended (kern s) \<noteq> 0"
  obtains s' where "unlock_tx q s = Some s'"
    "side_unlocked (TasksWaitingToReceive q) (xTxLock Q) q (Q\<lparr>xTxLock := queueUNLOCKED\<rparr>) s s'"
proof -
  have e: "Q\<lparr>xTxLock := queueUNLOCKED\<rparr> = Q\<lparr>xRxLock := xRxLock Q, xTxLock := queueUNLOCKED\<rparr>" by simp
  obtain k where "unlock_wake (TasksWaitingToReceive q) (xTxLock Q) (kern s) = Some k"
    "side_unlocked (TasksWaitingToReceive q) (xTxLock Q) q (Q\<lparr>xTxLock := queueUNLOCKED\<rparr>) s
      (set_queue q (Q\<lparr>xTxLock := queueUNLOCKED\<rparr>) (s\<lparr>kern := k\<rparr>))"
    using unlock_side [OF assms _ e] by blast
  then show thesis using that assms(2) by (simp add: unlock_tx_def on_kernel_def)
qed

lemma unlock_rx_effect:
  assumes "sys_ok s" and "queues s q = Some Q" and "uxSchedulerSuspended (kern s) \<noteq> 0"
  obtains s' where "unlock_rx q s = Some s'"
    "side_unlocked (TasksWaitingToSend q) (xRxLock Q) q (Q\<lparr>xRxLock := queueUNLOCKED\<rparr>) s s'"
proof -
  have e: "Q\<lparr>xRxLock := queueUNLOCKED\<rparr> = Q\<lparr>xRxLock := queueUNLOCKED, xTxLock := xTxLock Q\<rparr>" by simp
  obtain k where "unlock_wake (TasksWaitingToSend q) (xRxLock Q) (kern s) = Some k"
    "side_unlocked (TasksWaitingToSend q) (xRxLock Q) q (Q\<lparr>xRxLock := queueUNLOCKED\<rparr>) s
      (set_queue q (Q\<lparr>xRxLock := queueUNLOCKED\<rparr>) (s\<lparr>kern := k\<rparr>))"
    using unlock_side [OF assms _ e] by blast
  then show thesis using that assms(2) by (simp add: unlock_rx_def on_kernel_def)
qed

lemma side_frame:
  assumes "side_unlocked l lock q Q' s s'"
  shows "sys_ok s'" "queues s' q = Some Q'" "uxSchedulerSuspended (kern s') = uxSchedulerSuspended (kern s)"
    "pxCurrentTCB (kern s') = pxCurrentTCB (kern s)"
  using assms by (simp_all add: side_unlocked_def woke_def same_env_def)

text \<open>Both sections without an interrupt between them.\<close>

lemma prvUnlockQueue_effect:
  assumes ok: "sys_ok s" and q: "queues s q = Some Q" and su: "uxSchedulerSuspended (kern s) \<noteq> 0"
  shows "\<exists>s'. prvUnlockQueue Some q s = Some s' \<and> sys_ok s' \<and> items_of s' = items_of s \<and> woke (kern s) (kern s') \<and>
    queues s' = (queues s)(q := Some (Q\<lparr>xRxLock := queueUNLOCKED, xTxLock := queueUNLOCKED\<rparr>)) \<and>
    (\<forall>i. cont (kern s') i =
      (if i \<in> set (take (nat (sint (xTxLock Q))) (litems (kern s) (TasksWaitingToReceive q))) \<or>
          i \<in> set (take (nat (sint (xRxLock Q))) (litems (kern s) (TasksWaitingToSend q)))
       then Some PendingReadyList else cont (kern s) i))"
proof -
  obtain s1 where s1: "unlock_tx q s = Some s1"
    "side_unlocked (TasksWaitingToReceive q) (xTxLock Q) q (Q\<lparr>xTxLock := queueUNLOCKED\<rparr>) s s1"
    using unlock_tx_effect [OF assms] .
  have su1: "uxSchedulerSuspended (kern s1) \<noteq> 0" using side_frame(3) [OF s1(2)] su by simp
  have e: "Q\<lparr>xTxLock := queueUNLOCKED\<rparr>\<lparr>xRxLock := queueUNLOCKED\<rparr> = Q\<lparr>xRxLock := queueUNLOCKED, xTxLock := queueUNLOCKED\<rparr>"
    "xRxLock (Q\<lparr>xTxLock := queueUNLOCKED\<rparr>) = xRxLock Q" by simp_all
  obtain s2 where s2: "unlock_rx q s1 = Some s2"
    "side_unlocked (TasksWaitingToSend q) (xRxLock Q) q (Q\<lparr>xRxLock := queueUNLOCKED, xTxLock := queueUNLOCKED\<rparr>) s1 s2"
    using unlock_rx_effect [OF side_frame(1,2) [OF s1(2)] su1] unfolding e .
  have "prvUnlockQueue Some q s = Some s2" using s1(1) s2(1) by (simp add: prvUnlockQueue_def)
  moreover have "woke (kern s) (kern s2)"
    using woke_trans [of "kern s" "kern s1" "kern s2"] s1(2) s2(2) by (simp add: side_unlocked_def)
  moreover have "queues s2 = (queues s)(q := Some (Q\<lparr>xRxLock := queueUNLOCKED, xTxLock := queueUNLOCKED\<rparr>))"
    "items_of s2 = items_of s" using s1(2) s2(2) by (simp_all add: side_unlocked_def)
  moreover have "litems (kern s1) (TasksWaitingToSend q) = litems (kern s) (TasksWaitingToSend q)"
    using s1(2) unfolding side_unlocked_def by simp
  then have "cont (kern s2) i = (if i \<in> set (take (nat (sint (xTxLock Q))) (litems (kern s) (TasksWaitingToReceive q))) \<or>
      i \<in> set (take (nat (sint (xRxLock Q))) (litems (kern s) (TasksWaitingToSend q)))
    then Some PendingReadyList else cont (kern s) i)" for i
    using s1(2) s2(2) unfolding side_unlocked_def by simp
  ultimately show ?thesis using side_frame(1) [OF s2(2)] by blast
qed

section \<open>Interrupts\<close>

lemma sendFromISR_effect:
  assumes ok: "sys_ok s" and q: "queues s q = Some Q" and m: "may_send Q pos item"
    and room: "uxMessagesWaiting Q < uxLength Q \<or> pos = queueOVERWRITE"
  defines "xs \<equiv> fifo_put pos (take (qsize Q) item) (queue_items s Q)"
  shows "xTxLock Q = queueUNLOCKED \<Longrightarrow> \<exists>y s'. xQueueGenericSendFromISR q item pos s = Some (True, y, s') \<and>
      queue_changed q Q xs (TasksWaitingToReceive q) s s' \<and>
      (y \<longleftrightarrow> (\<exists>i is. litems (kern s) (TasksWaitingToReceive q) = i # is \<and>
        prio (kern s) (pxCurrentTCB (kern s)) \<le> prio (kern s) (task_of i)))"
    and "xTxLock Q \<noteq> queueUNLOCKED \<Longrightarrow> \<exists>Q' s'. xQueueGenericSendFromISR q item pos s = Some (True, False, s') \<and>
      sys_ok s' \<and> kern s' = kern s \<and> items_of s' = (items_of s)(q := Some xs) \<and>
      queues s' = (queues s)(q := Some Q') \<and> same_shape (Q\<lparr>xTxLock := xTxLock Q + 1\<rparr>) Q'"
proof -
  obtain s1 Q1 where s1: "prvCopyDataToQueue q item pos s = Some s1" "sys_ok s1" "kern s1 = kern s"
    "items_of s1 = (items_of s)(q := Some xs)" "queues s1 = (queues s)(q := Some Q1)" "same_shape Q Q1"
    using copy_to_ok [OF ok q m room] unfolding xs_def by blast
  have ex: "\<exists>Q'. queues s1 = (queues s)(q := Some Q') \<and> same_shape Q Q'" using s1(5,6) by blast
  have q1: "queues s1 q = Some Q1" "xTxLock Q1 = xTxLock Q" using s1(5,6) by (simp_all add: same_shape_def)
  {
    assume u: "xTxLock Q = queueUNLOCKED"
    obtain y s' where w: "map_option (\<lambda>(y, k). (y, s1\<lparr>kern := k\<rparr>)) (wake_from_isr (TasksWaitingToReceive q) (kern s1)) = Some (y, s')"
      "queue_changed q Q xs (TasksWaitingToReceive q) s s'"
      "y \<longleftrightarrow> (\<exists>i is. litems (kern s) (TasksWaitingToReceive q) = i # is \<and>
        prio (kern s) (pxCurrentTCB (kern s)) \<le> prio (kern s) (task_of i))"
      using wake_queue(2) [OF ok s1(2-4) ex] by blast
    have "xQueueGenericSendFromISR q item pos s = Some (True, y, s')"
      using w(1) q room s1(1) q1 u by (auto simp: xQueueGenericSendFromISR_def unlocked_def)
    with w(2,3) show "\<exists>y s'. xQueueGenericSendFromISR q item pos s = Some (True, y, s') \<and>
      queue_changed q Q xs (TasksWaitingToReceive q) s s' \<and>
      (y \<longleftrightarrow> (\<exists>i is. litems (kern s) (TasksWaitingToReceive q) = i # is \<and>
        prio (kern s) (pxCurrentTCB (kern s)) \<le> prio (kern s) (task_of i)))" by blast
  next
    assume u: "xTxLock Q \<noteq> queueUNLOCKED"
    then have su: "uxSchedulerSuspended (kern s) \<noteq> 0" using sys_okD(6) [OF ok q] by (auto simp: unlocked_def)
    define Q' where "Q' = Q1\<lparr>xRxLock := xRxLock Q1, xTxLock := xTxLock Q1 + 1\<rparr>"
    have "xQueueGenericSendFromISR q item pos s = Some (True, False, set_queue q Q' s1)"
      using q room s1(1) q1 u by (simp add: xQueueGenericSendFromISR_def Q'_def)
    moreover have "sys_ok (set_queue q Q' s1)" "items_of (set_queue q Q' s1) = (items_of s)(q := Some xs)"
      using sys_ok_locks [OF s1(2) q1(1) Q'_def] su s1(3,4) by simp_all
    moreover have "same_shape (Q\<lparr>xTxLock := xTxLock Q + 1\<rparr>) Q'" using s1(6) by (simp add: same_shape_def Q'_def)
    ultimately show "\<exists>Q' s'. xQueueGenericSendFromISR q item pos s = Some (True, False, s') \<and>
      sys_ok s' \<and> kern s' = kern s \<and> items_of s' = (items_of s)(q := Some xs) \<and>
      queues s' = (queues s)(q := Some Q') \<and> same_shape (Q\<lparr>xTxLock := xTxLock Q + 1\<rparr>) Q'"
      using s1(3,5) by (intro exI [of _ Q'] exI [of _ "set_queue q Q' s1"]) (simp add: set_queue_def)
  }
qed

lemma receiveFromISR_effect:
  assumes ok: "sys_ok s" and q: "queues s q = Some Q" and nm: "\<not> is_mutex Q" and n: "uxMessagesWaiting Q > 0"
  defines "x \<equiv> hd (queue_items s Q)" and "xs \<equiv> tl (queue_items s Q)"
  shows "xRxLock Q = queueUNLOCKED \<Longrightarrow> \<exists>y s'. xQueueReceiveFromISR q s = Some (Some x, y, s') \<and>
      queue_changed q Q xs (TasksWaitingToSend q) s s' \<and>
      (y \<longleftrightarrow> (\<exists>i is. litems (kern s) (TasksWaitingToSend q) = i # is \<and>
        prio (kern s) (pxCurrentTCB (kern s)) \<le> prio (kern s) (task_of i)))"
    and "xRxLock Q \<noteq> queueUNLOCKED \<Longrightarrow> \<exists>Q' s'. xQueueReceiveFromISR q s = Some (Some x, False, s') \<and>
      sys_ok s' \<and> kern s' = kern s \<and> items_of s' = (items_of s)(q := Some xs) \<and>
      queues s' = (queues s)(q := Some Q') \<and> same_shape (Q\<lparr>xRxLock := xRxLock Q + 1\<rparr>) Q'"
proof -
  obtain Q1 where Q1: "prvCopyDataFromQueue q s = Some (x, set_queue q Q1 s)"
    "pcHead Q1 = pcHead Q" "Q1\<lparr>pcReadFrom := pcReadFrom Q\<rparr> = Q"
    "copied q Q tl s (set_queue q (Q1\<lparr>uxMessagesWaiting := uxMessagesWaiting Q1 - 1\<rparr>) s)"
    using copy_from_ok [OF assms(1-4)] unfolding x_def by blast
  define Q2 where "Q2 = Q1\<lparr>uxMessagesWaiting := uxMessagesWaiting Q1 - 1\<rparr>"
  define s1 where "s1 = set_queue q Q2 s"
  note c = sys_ok_copied [OF ok q nm Q1(4), folded Q2_def, folded s1_def xs_def]
  have q1: "queues s1 q = Some Q2" "queues (set_queue q Q1 s) q = Some Q1" by (simp_all add: s1_def set_queue_def)
  obtain Q3 where "queues s1 = (queues s)(q := Some Q3)" "same_shape Q Q3" using c(4) by blast
  then have sh: "same_shape Q Q2" using q1(1) by simp
  have s1': "set_queue q Q2 (set_queue q Q1 s) = s1" by (simp add: s1_def set_queue_def)
  {
    assume u: "xRxLock Q = queueUNLOCKED"
    obtain y s' where w: "map_option (\<lambda>(y, k). (y, s1\<lparr>kern := k\<rparr>)) (wake_from_isr (TasksWaitingToSend q) (kern s1)) = Some (y, s')"
      "queue_changed q Q xs (TasksWaitingToSend q) s s'"
      "y \<longleftrightarrow> (\<exists>i is. litems (kern s) (TasksWaitingToSend q) = i # is \<and>
        prio (kern s) (pxCurrentTCB (kern s)) \<le> prio (kern s) (task_of i))"
      using wake_queue(2) [OF ok c(1,3,2,4)] by blast
    have "xRxLock Q2 = queueUNLOCKED" "xRxLock Q1 = xRxLock Q2"
      using u sh by (simp_all add: same_shape_def unlocked_def Q2_def)
    then have "xQueueReceiveFromISR q s = Some (Some x, y, s')"
      using w(1) q n Q1(1) q1 s1' by (auto simp: xQueueReceiveFromISR_def Q2_def [symmetric] Let_def)
    with w(2,3) show "\<exists>y s'. xQueueReceiveFromISR q s = Some (Some x, y, s') \<and>
      queue_changed q Q xs (TasksWaitingToSend q) s s' \<and>
      (y \<longleftrightarrow> (\<exists>i is. litems (kern s) (TasksWaitingToSend q) = i # is \<and>
        prio (kern s) (pxCurrentTCB (kern s)) \<le> prio (kern s) (task_of i)))" by blast
  next
    assume u: "xRxLock Q \<noteq> queueUNLOCKED"
    then have su: "uxSchedulerSuspended (kern s) \<noteq> 0" using sys_okD(6) [OF ok q] by (auto simp: unlocked_def)
    define Q' where "Q' = Q2\<lparr>xRxLock := xRxLock Q2 + 1, xTxLock := xTxLock Q2\<rparr>"
    have "xRxLock Q2 \<noteq> queueUNLOCKED" "xRxLock Q1 = xRxLock Q2" using u sh by (simp_all add: same_shape_def Q2_def)
    then have "xQueueReceiveFromISR q s = Some (Some x, False, set_queue q Q' s1)"
      using q n Q1(1) q1 s1' by (simp add: xQueueReceiveFromISR_def Q2_def [symmetric] Q'_def Let_def)
    moreover have "sys_ok (set_queue q Q' s1)" "items_of (set_queue q Q' s1) = (items_of s)(q := Some xs)"
      using sys_ok_locks [OF c(1) q1(1) Q'_def] su c(2,3) by simp_all
    moreover have "same_shape (Q\<lparr>xRxLock := xRxLock Q + 1\<rparr>) Q'" using sh by (simp add: same_shape_def Q'_def)
    ultimately show "\<exists>Q' s'. xQueueReceiveFromISR q s = Some (Some x, False, s') \<and>
      sys_ok s' \<and> kern s' = kern s \<and> items_of s' = (items_of s)(q := Some xs) \<and>
      queues s' = (queues s)(q := Some Q') \<and> same_shape (Q\<lparr>xRxLock := xRxLock Q + 1\<rparr>) Q'"
      using c(3) by (intro exI [of _ Q'] exI [of _ "set_queue q Q' s1"]) (simp add: set_queue_def s1_def)
  }
qed

lemma peekFromISR_effect:
  assumes ok: "sys_ok s" and q: "queues s q = Some Q" and nm: "\<not> is_mutex Q"
  shows "xQueuePeekFromISR q s =
    Some (if queue_items s Q = [] then None else Some (hd (queue_items s Q)), s)"
proof (cases "uxMessagesWaiting Q > 0")
  case True
  obtain Q1 where Q1: "prvCopyDataFromQueue q s = Some (hd (queue_items s Q), set_queue q Q1 s)"
    "Q1\<lparr>pcReadFrom := pcReadFrom Q\<rparr> = Q" using copy_from_ok [OF assms True] by blast
  have "queue_items s Q \<noteq> []"
    using True queue_items_length [of s Q] by (auto simp: word_less_nat_alt simp del: queue_items_length)
  moreover have "set_queue q Q (set_queue q Q1 s) = s" using q by (simp add: set_queue_def fun_upd_idem)
  moreover have "queues (set_queue q Q1 s) q = Some Q1" by (simp add: set_queue_def)
  ultimately show ?thesis using q True Q1 by (simp add: xQueuePeekFromISR_def Let_def)
next
  case False
  then have "length (queue_items s Q) = 0" by (simp add: word_less_nat_alt)
  then have "queue_items s Q = []" by (simp only: length_0_conv)
  then show ?thesis using q False by (simp add: xQueuePeekFromISR_def)
qed

section \<open>A pass of the blocking calls, under interrupts\<close>

text \<open>What the interrupt handlers may do: use the interrupt functions of queue.c and let time pass.\<close>

definition shape :: "xQUEUE \<Rightarrow> u32 \<times> uBaseType \<times> uBaseType \<times> tid" where
  "shape Q = (pcHead Q, uxLength Q, uxItemSize Q, if is_mutex Q then pxMutexHolder Q else 0)"

definition shapes :: "system \<Rightarrow> qid \<Rightarrow> (u32 \<times> uBaseType \<times> uBaseType \<times> tid) option" where
  "shapes s q = map_option shape (queues s q)"

definition others_unlocked :: "qid \<Rightarrow> system \<Rightarrow> bool" where
  "others_unlocked q s \<longleftrightarrow> (\<forall>r R. r \<noteq> q \<longrightarrow> queues s r = Some R \<longrightarrow> unlocked R)"

definition tx_free :: "qid \<Rightarrow> system \<Rightarrow> bool" where
  "tx_free q s \<longleftrightarrow> (\<forall>Q. queues s q = Some Q \<longrightarrow> xTxLock Q = queueUNLOCKED)"

definition rx_free :: "qid \<Rightarrow> system \<Rightarrow> bool" where
  "rx_free q s \<longleftrightarrow> (\<forall>Q. queues s q = Some Q \<longrightarrow> xRxLock Q = queueUNLOCKED)"

lemma others_free: "others_unlocked q s \<longleftrightarrow> (\<forall>r. r \<noteq> q \<longrightarrow> tx_free r s \<and> rx_free r s)"
  by (auto simp: others_unlocked_def tx_free_def rx_free_def unlocked_def)

definition isr_step :: "system \<Rightarrow> system \<Rightarrow> bool" where
  "isr_step s s' \<longleftrightarrow> sys_ok s' \<and> pxCurrentTCB (kern s') = pxCurrentTCB (kern s) \<and>
     uxSchedulerSuspended (kern s') = uxSchedulerSuspended (kern s) \<and> dom (tcbs (kern s')) = dom (tcbs (kern s)) \<and>
     (running_ready (kern s) \<longrightarrow> running_ready (kern s')) \<and> shapes s' = shapes s \<and>
     (\<forall>q. tx_free q s \<longrightarrow> tx_free q s') \<and> (\<forall>q. rx_free q s \<longrightarrow> rx_free q s')"

definition irq_ok :: "(nat \<Rightarrow> system \<Rightarrow> system option) \<Rightarrow> bool" where
  "irq_ok irq \<longleftrightarrow> (\<forall>n s. sys_ok s \<longrightarrow> (\<exists>s'. irq n s = Some s' \<and> isr_step s s'))"

lemma no_irq_ok: "irq_ok no_irq"
  by (simp add: irq_ok_def no_irq_def isr_step_def)

lemma shape_queue:
  assumes "shapes s' = shapes s" and "queues s q = Some Q"
  obtains Q' where "queues s' q = Some Q'" "shape Q' = shape Q"
  using fun_cong [OF assms(1), of q] assms(2) by (auto simp: shapes_def)

lemma irqE:
  assumes "irq_ok irq" and "sys_ok s"
  obtains s' where "irq n s = Some s'" "isr_step s s'"
  using assms unfolding irq_ok_def by blast

lemma isr_stepD:
  assumes "isr_step s s'"
  shows "sys_ok s'" "pxCurrentTCB (kern s') = pxCurrentTCB (kern s)"
    "uxSchedulerSuspended (kern s') = uxSchedulerSuspended (kern s)" "dom (tcbs (kern s')) = dom (tcbs (kern s))"
    "running_ready (kern s) \<Longrightarrow> running_ready (kern s')" "shapes s' = shapes s"
    "others_unlocked q s \<Longrightarrow> others_unlocked q s'" "tx_free q s \<Longrightarrow> tx_free q s'" "rx_free q s \<Longrightarrow> rx_free q s'"
  using assms unfolding isr_step_def others_free by blast+

text \<open>The invariant of a pass: the scheduler suspended once and only the queue \<open>q\<close> locked.\<close>

definition in_pass :: "qid \<Rightarrow> tid \<Rightarrow> system \<Rightarrow> bool" where
  "in_pass q t s \<longleftrightarrow> sys_ok s \<and> uxSchedulerSuspended (kern s) = 1 \<and> pxCurrentTCB (kern s) = t \<and> others_unlocked q s"

lemma in_pass_irq: "in_pass q t s \<Longrightarrow> isr_step s s' \<Longrightarrow> in_pass q t s'"
  using isr_stepD [of s s'] unfolding in_pass_def by auto

text \<open>Interrupts at a point of a pass.\<close>

lemma pass_irqE:
  assumes "irq_ok irq" and "in_pass q t s" and "running_ready (kern s)" and "queues s q = Some Q"
  obtains s' Q' where "irq n s = Some s'" "in_pass q t s'" "running_ready (kern s')" "shapes s' = shapes s"
    "dom (tcbs (kern s')) = dom (tcbs (kern s))" "queues s' q = Some Q'" "shape Q' = shape Q"
proof -
  obtain s' where s': "irq n s = Some s'" "isr_step s s'" using irqE [OF assms(1), of s] assms(2) unfolding in_pass_def by blast
  note d = isr_stepD [OF s'(2)]
  obtain Q' where "queues s' q = Some Q'" "shape Q' = shape Q" using shape_queue [OF d(6) assms(4)] .
  then show thesis using that [OF s'(1) in_pass_irq [OF assms(2) s'(2)] d(5) [OF assms(3)] d(6,4)] by blast
qed

text \<open>The end of a pass: the system is consistent again and the scheduler runs.\<close>

definition pass_end :: "tid \<Rightarrow> system \<Rightarrow> system \<Rightarrow> bool" where
  "pass_end t s s' \<longleftrightarrow> sys_ok s' \<and> uxSchedulerSuspended (kern s') = 0 \<and> pxCurrentTCB (kern s') = t \<and> shapes s' = shapes s"

text \<open>\<open>prvUnlockQueue\<close> with interrupts between its sections: what was unlocked first stays unlocked.\<close>

lemma side_in_pass:
  assumes "in_pass q t s" and "side_unlocked l lock q Q' s s'" and "queues s q = Some Q" and "shape Q' = shape Q"
  shows "in_pass q t s'" and "shapes s' = shapes s"
  using assms side_frame [OF assms(2)]
  by (auto simp: in_pass_def others_unlocked_def shapes_def side_unlocked_def fun_eq_iff)

lemma unlock_interrupted:
  assumes i: "irq_ok irq" and p: "in_pass q t s" and q: "queues s q = Some Q"
  obtains s' where "prvUnlockQueue (irq n) q s = Some s'" "in_pass q t s'" "shapes s' = shapes s" "tx_free q s'" "rx_free q s'"
proof -
  have ok: "sys_ok s" and su: "uxSchedulerSuspended (kern s) \<noteq> 0" using p by (simp_all add: in_pass_def)
  obtain s1 where s1: "unlock_tx q s = Some s1"
    "side_unlocked (TasksWaitingToReceive q) (xTxLock Q) q (Q\<lparr>xTxLock := queueUNLOCKED\<rparr>) s s1"
    using unlock_tx_effect [OF ok q su] .
  note p1 = side_in_pass [OF p s1(2) q]
  have sh1: "shape (Q\<lparr>xTxLock := queueUNLOCKED\<rparr>) = shape Q" by (simp add: shape_def)
  have t1: "tx_free q s1" using side_frame(2) [OF s1(2)] by (simp add: tx_free_def)
  obtain s2 where s2: "irq n s1 = Some s2" "isr_step s1 s2" using irqE [OF i side_frame(1) [OF s1(2)]] .
  note d = isr_stepD [OF s2(2)]
  have p2: "in_pass q t s2" "shapes s2 = shapes s" using in_pass_irq [OF p1(1) [OF sh1] s2(2)] d(6) p1(2) [OF sh1] by simp_all
  obtain Q2 where q2: "queues s2 q = Some Q2" using shape_queue [OF p2(2) q] by blast
  have tx2: "xTxLock Q2 = queueUNLOCKED" using d(8) [OF t1] q2 by (simp add: tx_free_def)
  have ok2: "sys_ok s2" "uxSchedulerSuspended (kern s2) \<noteq> 0" using p2(1) by (simp_all add: in_pass_def)
  obtain s3 where s3: "unlock_rx q s2 = Some s3"
    "side_unlocked (TasksWaitingToSend q) (xRxLock Q2) q (Q2\<lparr>xRxLock := queueUNLOCKED\<rparr>) s2 s3"
    using unlock_rx_effect [OF ok2(1) q2 ok2(2)] .
  have sh3: "shape (Q2\<lparr>xRxLock := queueUNLOCKED\<rparr>) = shape Q2" by (simp add: shape_def)
  note p3 = side_in_pass [OF p2(1) s3(2) q2 sh3]
  have "prvUnlockQueue (irq n) q s = Some s3" using s1(1) s2(1) s3(1) by (simp add: prvUnlockQueue_def)
  then show thesis using that p3 p2(2) side_frame(2) [OF s3(2)] tx2 by (simp add: tx_free_def rx_free_def)
qed

lemma unlock_resume_effect:
  assumes i: "irq_ok irq" and p: "in_pass q t s" and q: "queues s q = Some Q"
  shows "\<exists>y s'. unlock_resume irq q s = Some (y, s') \<and> pass_end t s s' \<and> (y \<longrightarrow> pending_soft_sv (kern s'))"
proof -
  have ok: "sys_ok s" and su: "uxSchedulerSuspended (kern s) = 1" and cu: "pxCurrentTCB (kern s) = t"
    and ot: "others_unlocked q s" using p by (simp_all add: in_pass_def)
  have su0: "uxSchedulerSuspended (kern s) \<noteq> 0" using su by simp
  obtain s1 where s1: "prvUnlockQueue (irq 7) q s = Some s1" "in_pass q t s1" "shapes s1 = shapes s" "tx_free q s1" "rx_free q s1"
    using unlock_interrupted [OF i p q] .
  have e1: "uxSchedulerSuspended (kern s1) = 1" "pxCurrentTCB (kern s1) = t" "sys_ok s1" "others_unlocked q s1"
    using s1(2) by (simp_all add: in_pass_def)
  note sh1 = s1(3)
  obtain s2 where s2: "irq 8 s1 = Some s2" "isr_step s1 s2" using irqE [OF i e1(3)] .
  note d = isr_stepD [OF s2(2)]
  have u2: "unlocked R" if "queues s2 r = Some R" for r R
    using d(7) [OF e1(4)] d(8) [OF s1(4)] d(9) [OF s1(5)] that
    by (cases "r = q") (auto simp: others_unlocked_def tx_free_def rx_free_def unlocked_def)
  obtain y k where k: "xTaskResumeAll (kern s2) = Some (y, k)" "kernel_ok k"
    "same_env ((kern s2)\<lparr>uxSchedulerSuspended := 0\<rparr>) k" "y \<longrightarrow> pending_soft_sv k"
    using resume_all_effect [OF kernel_ok_kinv [OF sys_okD(1) [OF d(1)]] _ sys_okD(2) [OF d(1)]] d(3) e1(1) by auto
  have ek: "uxSchedulerSuspended k = 0" "pxCurrentTCB k = t" "pxCurrentTCB k \<noteq> 0"
    using k(3) d(2) e1(2) sys_okD(2) [OF d(1)] by (simp_all add: same_env_def)
  have "sys_ok (s2\<lparr>kern := k\<rparr>)"
    by (rule sys_ok_kern(1) [OF d(1) k(2) ek(3) xTaskResumeAll_inits [OF k(1)]]) (use u2 in auto)
  moreover have "shapes (s2\<lparr>kern := k\<rparr>) = shapes s" using d(6) sh1 by (simp add: shapes_def fun_eq_iff)
  ultimately show ?thesis using s1(1) s2(1) k(1,4) ek
    by (intro exI [of _ y] exI [of _ "s2\<lparr>kern := k\<rparr>"]) (simp add: unlock_resume_def pass_end_def)
qed

lemma time_out_left:
  assumes "xTaskCheckForTimeOut tmo w k = (False, tmo', w')" and "w \<noteq> 0"
  shows "0 < w'"
proof -
  have "w - e \<noteq> 0" if "e < w" for e using that by auto
  then show ?thesis using assms
    by (auto simp: xTaskCheckForTimeOut_def word_gt_0 portMAX_DELAY_def split: if_splits)
qed

lemma place_ok:
  assumes ok: "kernel_ok s" and run: "running_ready s" and l: "l = TasksWaitingToSend q \<or> l = TasksWaitingToReceive q" "l \<in> inits s" and n: "0 < n"
  shows "\<exists>s'. vTaskPlaceOnEventList l n s = Some s' \<and> kernel_ok s' \<and> same_env s s' \<and> inits s' = inits s \<and>
    cont s' = (cont s)(Event (pxCurrentTCB s) := Some l, Generic (pxCurrentTCB s) := Some (wait_list s n)) \<and>
    (n \<noteq> portMAX_DELAY \<longrightarrow> ival s' (Generic (pxCurrentTCB s)) = xTickCount s + n) \<and>
    xTickCount s' = xTickCount s \<and> uxPendedTicks s' = uxPendedTicks s"
proof -
  have h: "holds l (Event (pxCurrentTCB s))" "l \<noteq> PendingReadyList" using l(1) by auto
  have n': "n \<noteq> 0 \<or> xTickCount s \<noteq> portMAX_DELAY" and i: "listLIST_IS_INITIALISED l (heap s)"
    using n l(2) by (auto simp: inits_def)
  obtain s' where s': "vTaskPlaceOnEventList l n s = Some s'" "kinv_now {} s'"
    "cont s' = (cont s)(Event (pxCurrentTCB s) := Some l, Generic (pxCurrentTCB s) := Some (wait_list s n))"
    "n \<noteq> portMAX_DELAY \<longrightarrow> ival s' (Generic (pxCurrentTCB s)) = xTickCount s + n"
    "s' = s\<lparr>heap := heap s', xNextTaskUnblockTime := xNextTaskUnblockTime s'\<rparr>"
    using place_on_event_list_effect [OF kernel_ok_kinv [OF ok] run h(1) i n'] by blast
  obtain hp m where e: "s' = s\<lparr>heap := hp, xNextTaskUnblockTime := m\<rparr>" using s'(5) by blast
  have "kernel_ok s'"
    by (rule kernel_ok_frame [OF ok s'(2)]) (use s'(3) h(2) in \<open>auto simp: e pending_def split: if_splits\<close>)
  moreover have "same_env s s'" "xTickCount s' = xTickCount s" "uxPendedTicks s' = uxPendedTicks s"
    by (simp_all add: same_env_def e)
  ultimately show ?thesis using s'(1,3,4) place_inits [OF s'(1)] by blast
qed

text \<open>Placing the running task on an event list of the queue, within a pass.\<close>

lemma place_in_pass:
  assumes p: "in_pass q t s" and run: "running_ready (kern s)" and q: "queues s q = Some Q"
    and l: "l = TasksWaitingToSend q \<or> l = TasksWaitingToReceive q" and n: "0 < n"
  shows "\<exists>s'. on_kernel (vTaskPlaceOnEventList l n) s = Some s' \<and> in_pass q t s' \<and> shapes s' = shapes s \<and>
    queues s' = queues s"
proof -
  have ok: "sys_ok s" using p by (simp add: in_pass_def)
  have l': "l \<in> inits (kern s)" using l sys_okD(4,5) [OF ok q] by auto
  obtain k where k: "vTaskPlaceOnEventList l n (kern s) = Some k" "kernel_ok k" "same_env (kern s) k" "inits k = inits (kern s)"
    using place_ok [OF sys_okD(1) [OF ok] run l l' n] by blast
  have e: "pxCurrentTCB k = t" "uxSchedulerSuspended k = 1" "pxCurrentTCB k \<noteq> 0"
    using k(3) p sys_okD(2) [OF ok] by (auto simp: same_env_def in_pass_def)
  have "sys_ok (s\<lparr>kern := k\<rparr>)" by (rule sys_ok_kern(1) [OF ok k(2) e(3) k(4)]) (use e(2) in auto)
  then show ?thesis using k(1) e(1,2) p
    by (intro exI [of _ "s\<lparr>kern := k\<rparr>"]) (simp add: on_kernel_def in_pass_def others_unlocked_def shapes_def fun_eq_iff)
qed

text \<open>The common end of a pass that blocks.\<close>

lemma block_in_pass:
  assumes i: "irq_ok irq" and p: "in_pass q t s" and run: "running_ready (kern s)" and q: "queues s q = Some Q"
    and l: "l = TasksWaitingToSend q \<or> l = TasksWaitingToReceive q" and n: "0 < n"
  shows "\<exists>s'. block_on irq q l n s = Some s' \<and> pass_end t s s' \<and> pending_soft_sv (kern s')"
proof -
  obtain s1 where s1: "on_kernel (vTaskPlaceOnEventList l n) s = Some s1" "in_pass q t s1" "shapes s1 = shapes s"
    "queues s1 = queues s" using place_in_pass [OF p run q l n] by blast
  have ok1: "sys_ok s1" using s1(2) by (simp add: in_pass_def)
  obtain s2 where s2: "irq 6 s1 = Some s2" "isr_step s1 s2" using irqE [OF i ok1] .
  have q1: "queues s1 q = Some Q" using s1(4) q by simp
  obtain Q2 where q2: "queues s2 q = Some Q2" using shape_queue [OF isr_stepD(6) [OF s2(2)] q1] .
  obtain y s3 where s3: "unlock_resume irq q s2 = Some (y, s3)" "pass_end t s2 s3" "y \<longrightarrow> pending_soft_sv (kern s3)"
    using unlock_resume_effect [OF i in_pass_irq [OF s1(2) s2(2)] q2] by blast
  have e3: "pass_end t s s3" using s3(2) isr_stepD(6) [OF s2(2)] s1(3) by (simp add: pass_end_def)
  then have ok3: "sys_ok s3" "uxSchedulerSuspended (kern s3) = 0" by (simp_all add: pass_end_def)
  have py: "pxCurrentTCB (portYIELD (kern s3)) \<noteq> 0" "uxSchedulerSuspended (portYIELD (kern s3)) = 0"
    using sys_okD(2) [OF ok3(1)] ok3(2) by (simp_all add: portYIELD_def)
  have "sys_ok (s3\<lparr>kern := portYIELD (kern s3)\<rparr>)"
    by (rule sys_ok_kern(1) [OF ok3(1) kernel_ok_yield [OF sys_okD(1) [OF ok3(1)]] py(1)])
      (use sys_okD(6) [OF ok3(1)] ok3(2) in auto)
  then have "pass_end t s (s3\<lparr>kern := portYIELD (kern s3)\<rparr>)"
    using e3 by (simp add: pass_end_def portYIELD_def shapes_def fun_eq_iff)
  then show ?thesis using s1(1) s2(1) s3(1,3) e3
    by (intro exI [of _ "if y then s3 else s3\<lparr>kern := portYIELD (kern s3)\<rparr>"]) (simp add: block_on_def portYIELD_def)
qed

lemma suspend_lock_effect:
  assumes i: "irq_ok irq" and ok: "sys_ok s" and su: "uxSchedulerSuspended (kern s) = 0"
    and run: "running_ready (kern s)" and q: "queues s q = Some Q"
  shows "\<exists>s'. suspend_lock irq q s = Some s' \<and> in_pass q (pxCurrentTCB (kern s)) s' \<and> running_ready (kern s') \<and>
    shapes s' = shapes s \<and> dom (tcbs (kern s')) = dom (tcbs (kern s))"
proof -
  obtain s1 where s1: "irq 0 s = Some s1" "isr_step s s1" using irqE [OF i ok] .
  note d1 = isr_stepD [OF s1(2)]
  define s2 where "s2 = s1\<lparr>kern := vTaskSuspendAll (kern s1)\<rparr>"
  have f2: "uxSchedulerSuspended (kern s2) = 1" "pxCurrentTCB (kern s2) = pxCurrentTCB (kern s)"
    "heap (kern s2) = heap (kern s1)" "tcbs (kern s2) = tcbs (kern s1)" "queues s2 = queues s1"
    using d1(2,3) su by (simp_all add: s2_def vTaskSuspendAll_def)
  have k2: "kernel_ok (kern s2)"
  proof -
    have "kinv_now {} (kern s2)"
      by (rule kinv_now_frame [OF kernel_ok_kinv [OF sys_okD(1) [OF d1(1)]]]) (simp_all add: s2_def vTaskSuspendAll_def)
    then show ?thesis using f2(1) by (simp add: kernel_ok_def)
  qed
  have ok2: "sys_ok s2" unfolding s2_def
    by (rule sys_ok_kern(1) [OF d1(1)]) (use k2 f2 sys_okD(2) [OF ok] in \<open>simp_all add: s2_def\<close>)
  have u2: "unlocked R" if "queues s2 r = Some R" for r R
    using sys_okD(6) [OF d1(1), of r R] that d1(3) su f2(5) by simp
  obtain s3 where s3: "irq 1 s2 = Some s3" "isr_step s2 s3" using irqE [OF i ok2] .
  note d3 = isr_stepD [OF s3(2)]
  have "shapes s3 = shapes s" using d3(6) d1(6) f2(5) by (simp add: shapes_def [abs_def])
  then obtain Q3 where q3: "queues s3 q = Some Q3" "shape Q3 = shape Q" using shape_queue [OF _ q] by blast
  obtain a b where ab: "prvLockQueue q s3 = Some (set_queue q (Q3\<lparr>xRxLock := a, xTxLock := b\<rparr>) s3)"
    "sys_ok (set_queue q (Q3\<lparr>xRxLock := a, xTxLock := b\<rparr>) s3)"
    using prvLockQueue_effect [OF d3(1) q3(1)] d3(3) f2(1) by auto
  define s4 where "s4 = set_queue q (Q3\<lparr>xRxLock := a, xTxLock := b\<rparr>) s3"
  have "shapes s4 = shapes s3" using q3(1) by (auto simp: s4_def set_queue_def shapes_def shape_def)
  moreover have ou: "others_unlocked q s4"
    using d3(7) [of q] u2 by (auto simp: s4_def set_queue_def others_unlocked_def)
  ultimately have p4: "in_pass q (pxCurrentTCB (kern s)) s4" "shapes s4 = shapes s"
    using ab(2) d3(2,3) f2(1,2) \<open>shapes s3 = shapes s\<close> unfolding s4_def by (simp_all add: in_pass_def set_queue_def)
  obtain s5 where s5: "irq 2 s4 = Some s5" "isr_step s4 s5" using irqE [OF i ab(2) [folded s4_def]] .
  note d5 = isr_stepD [OF s5(2)]
  have "running_ready (kern s2)" using d1(5) [OF run] by (simp add: running_ready_def f2) (simp add: d1(2))
  then have "running_ready (kern s5)" using d3(5) d5(5) by (simp add: s4_def set_queue_def)
  moreover have "suspend_lock irq q s = Some s5"
    using s1(1) s3(1) ab(1) s5(1) by (simp add: suspend_lock_def s2_def s4_def)
  moreover have "dom (tcbs (kern s5)) = dom (tcbs (kern s))"
    using d5(4) d3(4) d1(4) f2(4) by (simp add: s4_def set_queue_def)
  ultimately show ?thesis using in_pass_irq [OF p4(1) s5(2)] d5(6) p4(2) by auto
qed

lemma same_shape_shapes:
  assumes "queues s q = Some Q" and "queues s' = (queues s)(q := Some Q')" and "same_shape Q Q'" and "\<not> is_mutex Q"
  shows "shapes s' = shapes s"
  using assms by (auto simp: shapes_def shape_def same_shape_def)

lemma changed_pass_end:
  assumes "sys_ok s" and "queues s q = Some Q" and "\<not> is_mutex Q" and "uxSchedulerSuspended (kern s) = 0"
    and "queue_changed q Q xs l s s'"
  shows "pass_end (pxCurrentTCB (kern s)) s s'"
  using assms same_shape_shapes [OF assms(2) _ _ assms(3)]
  unfolding queue_changed_def pass_end_def woke_def same_env_def by auto

lemma pass_end_shapes: "pass_end t s1 s' \<Longrightarrow> shapes s1 = shapes s \<Longrightarrow> pass_end t s s'"
  by (simp add: pass_end_def)

text \<open>The part with the queue locked, for any interrupts.\<close>

lemma send_block_effect:
  assumes i: "irq_ok irq" and p: "in_pass q t s" and run: "running_ready (kern s)" and q: "queues s q = Some Q"
    and w: "w \<noteq> 0"
  shows "\<exists>r s'. send_block irq q tmo w s = Some (r, s') \<and> pass_end t s s' \<and> r \<noteq> Done True \<and>
    (\<forall>tmo' w'. r = Again tmo' w' \<longrightarrow> 0 < w')"
proof -
  obtain e tmo' w' where c: "xTaskCheckForTimeOut tmo w (kern s) = (e, tmo', w')" using prod_cases3 [of "xTaskCheckForTimeOut tmo w (kern s)"] by blast
  obtain s1 Q1 where s1: "irq 3 s = Some s1" "in_pass q t s1" "running_ready (kern s1)" "shapes s1 = shapes s" "queues s1 q = Some Q1"
    using pass_irqE [OF i p run q] by metis
  show ?thesis
  proof (cases e)
    case True
    obtain y s' where "unlock_resume irq q s1 = Some (y, s')" "pass_end t s1 s'"
      using unlock_resume_effect [OF i s1(2,5)] by blast
    then show ?thesis using True c s1(1) pass_end_shapes [OF _ s1(4)]
      by (intro exI [of _ "Done False"] exI [of _ s']) (simp add: send_block_def)
  next
    case False
    then have w': "0 < w'" using time_out_left [of tmo w "kern s" tmo' w'] c w by simp
    obtain s2 Q2 where s2: "irq 4 s1 = Some s2" "in_pass q t s2" "running_ready (kern s2)" "shapes s2 = shapes s1" "queues s2 q = Some Q2"
      using pass_irqE [OF i s1(2,3,5)] by metis
    have sh: "shapes s2 = shapes s" using s2(4) s1(4) by simp
    have "\<exists>s'. send_block irq q tmo w s = Some (Again tmo' w', s') \<and> pass_end t s2 s'"
    proof (cases "uxMessagesWaiting Q1 = uxLength Q1")
      case True
      obtain s' where "block_on irq q (TasksWaitingToSend q) w' s2 = Some s'" "pass_end t s2 s'"
        using block_in_pass [OF i s2(2,3,5) _ w'] by blast
      then show ?thesis using \<open>\<not> e\<close> c s1(1,5) s2(1) True by (simp add: send_block_def prvIsQueueFull_def)
    next
      case False
      obtain y s' where "unlock_resume irq q s2 = Some (y, s')" "pass_end t s2 s'"
        using unlock_resume_effect [OF i s2(2,5)] by blast
      then show ?thesis using \<open>\<not> e\<close> c s1(1,5) s2(1) False by (simp add: send_block_def prvIsQueueFull_def)
    qed
    then show ?thesis using w' pass_end_shapes [OF _ sh] by blast
  qed
qed

lemma send_pass_effect:
  assumes i: "irq_ok irq" and ok: "sys_ok s" and su: "uxSchedulerSuspended (kern s) = 0"
    and run: "running_ready (kern s)" and q: "queues s q = Some Q" and m: "may_send Q pos item"
  shows "\<exists>r s'. xQueueGenericSend irq q item w pos tmo s = Some (r, s') \<and> pass_end (pxCurrentTCB (kern s)) s s' \<and>
    (r = Done True \<longleftrightarrow> uxMessagesWaiting Q < uxLength Q \<or> pos = queueOVERWRITE) \<and>
    (\<forall>tmo' w'. r = Again tmo' w' \<longrightarrow> 0 < w' \<and> w \<noteq> 0)"
proof (cases "uxMessagesWaiting Q < uxLength Q \<or> pos = queueOVERWRITE")
  case True
  have nm: "\<not> is_mutex Q" using m by (simp add: may_send_def)
  obtain s' where "send_enter q item w pos tmo s = Some (Return True, s')"
    "queue_changed q Q (fifo_put pos (take (qsize Q) item) (queue_items s Q)) (TasksWaitingToReceive q) s s'"
    using send_enter_effect [OF ok q m True] by blast
  then show ?thesis using True changed_pass_end [OF ok q nm su]
    by (intro exI [of _ "Done True"] exI [of _ s']) (simp add: xQueueGenericSend_def)
next
  case False
  have end0: "pass_end (pxCurrentTCB (kern s)) s s" using ok su by (simp add: pass_end_def)
  show ?thesis
  proof (cases "w = 0")
    case True
    then have "xQueueGenericSend irq q item w pos tmo s = Some (Done False, s)"
      using False q by (simp add: xQueueGenericSend_def send_enter_def)
    then show ?thesis using end0 False by (intro exI [of _ "Done False"] exI [of _ s]) simp
  next
    case w: False
    obtain s1 where s1: "suspend_lock irq q s = Some s1" "in_pass q (pxCurrentTCB (kern s)) s1"
      "running_ready (kern s1)" "shapes s1 = shapes s"
      using suspend_lock_effect [OF i ok su run q] by blast
    obtain Q1 where q1: "queues s1 q = Some Q1" using shape_queue [OF s1(4) q] .
    obtain r s' where r: "send_block irq q (entry_time tmo s) w s1 = Some (r, s')" "pass_end (pxCurrentTCB (kern s)) s1 s'"
      "r \<noteq> Done True" "\<forall>tmo' w'. r = Again tmo' w' \<longrightarrow> 0 < w'"
      using send_block_effect [OF i s1(2,3) q1 w] by blast
    have "xQueueGenericSend irq q item w pos tmo s = Some (r, s')"
      using False w q s1(1) r(1) by (simp add: xQueueGenericSend_def send_enter_def)
    then show ?thesis using r(2-4) pass_end_shapes [OF r(2) s1(4)] False w by blast
  qed
qed

text \<open>Waiting for a mutex: the holder inherits the priority before the task blocks.\<close>

lemma inherit_in_pass:
  assumes p: "in_pass q t s" and run: "running_ready (kern s)" and h: "h = 0 \<or> h \<in> dom (tcbs (kern s))"
  shows "\<exists>s'. on_kernel (vTaskPriorityInherit h) s = Some s' \<and> in_pass q t s' \<and> running_ready (kern s') \<and> queues s' = queues s"
proof (cases "h = 0")
  case True
  then show ?thesis using p run by (intro exI [of _ s]) (simp add: on_kernel_def vTaskPriorityInherit_def)
next
  case False
  then obtain c where c: "tcbs (kern s) h = Some c" using h by auto
  have ok: "sys_ok s" using p by (simp add: in_pass_def)
  obtain k where k: "vTaskPriorityInherit h (kern s) = Some k" "kernel_ok k"
    "cont k = (if cont (kern s) (Generic h) = Some (Ready (uxPriority c))
      then (cont (kern s))(Generic h := Some (Ready (max (uxPriority c) (prio (kern s) (pxCurrentTCB (kern s)))))) else cont (kern s))"
    "pxCurrentTCB k = pxCurrentTCB (kern s)" "uxSchedulerSuspended k = uxSchedulerSuspended (kern s)"
    using vTaskPriorityInherit_effect [OF sys_okD(1,2) [OF ok] False c] by blast
  have "sys_ok (s\<lparr>kern := k\<rparr>)"
    by (rule sys_ok_kern(1) [OF ok k(2) _ inherit_inits [OF k(1)]]) (use k(4,5) sys_okD(2) [OF ok] p in \<open>auto simp: in_pass_def\<close>)
  moreover have "running_ready k" using run k(3,4) by (auto simp: running_ready_def)
  ultimately show ?thesis using k(1,4,5) p
    by (intro exI [of _ "s\<lparr>kern := k\<rparr>"]) (simp add: on_kernel_def in_pass_def others_unlocked_def)
qed

text \<open>The inheritance and the interrupts after it.\<close>

lemma inherit_interrupted:
  assumes i: "irq_ok irq" and p: "in_pass q t s" and run: "running_ready (kern s)" and q: "queues s q = Some Q"
    and h: "is_mutex Q \<Longrightarrow> pxMutexHolder Q = 0 \<or> pxMutexHolder Q \<in> dom (tcbs (kern s))"
  obtains s' Q' where "(if is_mutex Q then on_kernel (vTaskPriorityInherit (pxMutexHolder Q)) s \<bind> irq n else Some s) = Some s'"
    "in_pass q t s'" "running_ready (kern s')" "shapes s' = shapes s" "queues s' q = Some Q'"
proof (cases "is_mutex Q")
  case True
  obtain s1 where s1: "on_kernel (vTaskPriorityInherit (pxMutexHolder Q)) s = Some s1" "in_pass q t s1" "running_ready (kern s1)"
    "queues s1 = queues s" using inherit_in_pass [OF p run h [OF True]] by blast
  have q1: "queues s1 q = Some Q" "shapes s1 = shapes s" using s1(4) q by (simp_all add: shapes_def fun_eq_iff)
  obtain s2 Q2 where s2: "irq n s1 = Some s2" "in_pass q t s2" "running_ready (kern s2)" "shapes s2 = shapes s1" "queues s2 q = Some Q2"
    using pass_irqE [OF i s1(2,3) q1(1)] by metis
  show thesis by (rule that [OF _ s2(2,3) _ s2(5)]) (use True s1(1) s2(1,4) q1(2) in simp_all)
next
  case False
  then show thesis using that [OF _ p run refl q] by simp
qed

lemma receive_block_effect:
  assumes i: "irq_ok irq" and p: "in_pass q t s" and run: "running_ready (kern s)" and q: "queues s q = Some Q"
    and w: "w \<noteq> 0" and h: "is_mutex Q \<Longrightarrow> pxMutexHolder Q = 0 \<or> pxMutexHolder Q \<in> dom (tcbs (kern s))"
  shows "\<exists>r s'. receive_block irq q tmo w s = Some (r, s') \<and> pass_end t s s' \<and> (\<forall>x. r \<noteq> Done (Some x)) \<and>
    (\<forall>tmo' w'. r = Again tmo' w' \<longrightarrow> 0 < w')"
proof -
  obtain e tmo' w' where c: "xTaskCheckForTimeOut tmo w (kern s) = (e, tmo', w')" using prod_cases3 [of "xTaskCheckForTimeOut tmo w (kern s)"] by blast
  obtain s1 Q1 where s1: "irq 3 s = Some s1" "in_pass q t s1" "running_ready (kern s1)" "shapes s1 = shapes s"
    "dom (tcbs (kern s1)) = dom (tcbs (kern s))" "queues s1 q = Some Q1" "shape Q1 = shape Q"
    by (rule pass_irqE [OF i p run q])
  show ?thesis
  proof (cases e)
    case True
    obtain y s' where "unlock_resume irq q s1 = Some (y, s')" "pass_end t s1 s'"
      using unlock_resume_effect [OF i s1(2,6)] by blast
    then show ?thesis using True c s1(1) pass_end_shapes [OF _ s1(4)]
      by (intro exI [of _ "Done None"] exI [of _ s']) (simp add: receive_block_def)
  next
    case False
    then have w': "0 < w'" using time_out_left [of tmo w "kern s" tmo' w'] c w by simp
    obtain s2 Q2 where s2: "irq 4 s1 = Some s2" "in_pass q t s2" "running_ready (kern s2)" "shapes s2 = shapes s1"
      "dom (tcbs (kern s2)) = dom (tcbs (kern s1))" "queues s2 q = Some Q2" "shape Q2 = shape Q1"
      by (rule pass_irqE [OF i s1(2,3,6)])
    have sh: "shapes s2 = shapes s" using s2(4) s1(4) by simp
    have h2: "is_mutex Q2 \<Longrightarrow> pxMutexHolder Q2 = 0 \<or> pxMutexHolder Q2 \<in> dom (tcbs (kern s2))"
      using h s1(5,7) s2(5,7) by (auto simp: shape_def split: if_splits)
    have "\<exists>s'. receive_block irq q tmo w s = Some (Again tmo' w', s') \<and> pass_end t s2 s'"
    proof (cases "uxMessagesWaiting Q1 = 0")
      case True
      obtain s3 Q3 where s3: "(if is_mutex Q2 then on_kernel (vTaskPriorityInherit (pxMutexHolder Q2)) s2 \<bind> irq 5 else Some s2) = Some s3"
        "in_pass q t s3" "running_ready (kern s3)" "shapes s3 = shapes s2" "queues s3 q = Some Q3"
        using inherit_interrupted [OF i s2(2,3,6) h2] .
      obtain s' where b: "block_on irq q (TasksWaitingToReceive q) w' s3 = Some s'" "pass_end t s3 s'"
        using block_in_pass [OF i s3(2,3,5) _ w'] by blast
      then have "receive_block irq q tmo w s = Some (Again tmo' w', s')"
        using \<open>\<not> e\<close> c s1(1,6) s2(1,6) s3(1) True by (simp add: receive_block_def prvIsQueueEmpty_def)
      then show ?thesis using pass_end_shapes [OF b(2) s3(4)] by blast
    next
      case False
      obtain y s' where "unlock_resume irq q s2 = Some (y, s')" "pass_end t s2 s'"
        using unlock_resume_effect [OF i s2(2,6)] by blast
      then show ?thesis using \<open>\<not> e\<close> c s1(1,6) s2(1) False by (simp add: receive_block_def prvIsQueueEmpty_def)
    qed
    then show ?thesis using w' pass_end_shapes [OF _ sh] by blast
  qed
qed

section \<open>Mutexes\<close>

lemma mutex_queue:
  assumes "sys_ok s" and "queues s q = Some Q" and "is_mutex Q"
  shows "uxLength Q = 1" "uxItemSize Q = 0" "qcount Q \<le> 1"
  using sys_okD(3) [OF assms(1,2)] assms(3) by (auto simp: queue_ok_def mutex_ok_def buffer_at_def)

lemma sys_ok_mutex:
  assumes ok: "sys_ok s" and q: "queues s q = Some Q" and m: "is_mutex Q" and n: "unat n \<le> 1"
  shows "sys_ok (set_queue q (Q\<lparr>pcTail := h, uxMessagesWaiting := n\<rparr>) s)"
proof (rule sys_ok_set_queue(1) [OF ok q])
  show "queue_ok s (Q\<lparr>pcTail := h, uxMessagesWaiting := n\<rparr>)"
    using mutex_queue [OF ok q m] m n by (simp add: queue_ok_def mutex_ok_def)
  show "unlocked (Q\<lparr>pcTail := h, uxMessagesWaiting := n\<rparr>)" if "uxSchedulerSuspended (kern s) = 0"
    using sys_okD(6) [OF ok q that] by (simp add: unlocked_def)
qed simp

lemma wake_kernel:
  assumes ok: "sys_ok s" and q: "queues s q = Some Q" and l: "l = TasksWaitingToSend q \<or> l = TasksWaitingToReceive q"
  shows "\<exists>k. on_kernel (wake_one portYIELD l) s = Some (s\<lparr>kern := k\<rparr>) \<and> sys_ok (s\<lparr>kern := k\<rparr>) \<and> woke (kern s) k \<and>
    cont k = first_woken l (kern s)"
proof -
  have l': "\<not> kernel_list l" "l \<in> inits (kern s)" using l sys_okD(4,5) [OF ok q] by auto
  obtain k where k: "wake_one portYIELD l (kern s) = Some k" "woke (kern s) k" "cont k = first_woken l (kern s)"
    using wake_one_effect [OF sys_okD(1,2) [OF ok] l'] by blast
  then show ?thesis using sys_ok_woke(1) [OF ok k(2)] by (intro exI [of _ k]) (simp add: on_kernel_def)
qed

lemma mutex_take_effect:
  assumes ok: "sys_ok s" and q: "queues s q = Some Q" and m: "is_mutex Q" and n: "uxMessagesWaiting Q > 0"
  shows "\<exists>k. receive_enter q w False tmo s = Some (Return (Some []),
      (set_queue q (Q\<lparr>pcTail := pxCurrentTCB (kern s), uxMessagesWaiting := 0\<rparr>) s)\<lparr>kern := k\<rparr>) \<and>
    sys_ok ((set_queue q (Q\<lparr>pcTail := pxCurrentTCB (kern s), uxMessagesWaiting := 0\<rparr>) s)\<lparr>kern := k\<rparr>) \<and>
    woke (kern s) k \<and> cont k = first_woken (TasksWaitingToSend q) (kern s)"
proof -
  have "uxMessagesWaiting Q = 1" using mutex_queue(3) [OF ok q m] n by (auto simp: word_unat_eq_iff word_less_nat_alt)
  then have z: "uxMessagesWaiting Q - 1 = 0" by simp
  let ?s = "set_queue q (Q\<lparr>pcTail := pxCurrentTCB (kern s), uxMessagesWaiting := 0\<rparr>) s"
  have ok1: "sys_ok ?s" by (rule sys_ok_mutex [OF ok q m]) simp
  have e: "queues ?s q = Some (Q\<lparr>pcTail := pxCurrentTCB (kern s), uxMessagesWaiting := 0\<rparr>)" "kern ?s = kern s"
    by (simp_all add: set_queue_def)
  obtain k where k: "on_kernel (wake_one portYIELD (TasksWaitingToSend q)) ?s = Some (?s\<lparr>kern := k\<rparr>)"
    "sys_ok (?s\<lparr>kern := k\<rparr>)" "woke (kern s) k" "cont k = first_woken (TasksWaitingToSend q) (kern s)"
    using wake_kernel [OF ok1 e(1)] unfolding e(2) by blast
  have c: "Q\<lparr>uxMessagesWaiting := 0, pcTail := pxCurrentTCB (kern s)\<rparr> = Q\<lparr>pcTail := pxCurrentTCB (kern s), uxMessagesWaiting := 0\<rparr>"
    by simp
  have "receive_enter q w False tmo s = Some (Return (Some []), ?s\<lparr>kern := k\<rparr>)"
    using q n m z k(1) by (simp add: receive_enter_def prvCopyDataFromQueue_def xTaskGetCurrentTaskHandle_def c Let_def)
  with k(2-4) show ?thesis by blast
qed

text \<open>Giving a mutex by its holder: the priority falls back to the base priority, then a waiting task is woken.\<close>

lemma mutex_give_effect:
  assumes ok: "sys_ok s" and q: "queues s q = Some Q" and m: "is_mutex Q" and n: "uxMessagesWaiting Q = 0"
    and h: "pxMutexHolder Q = pxCurrentTCB (kern s)" and run: "running_ready (kern s)"
    and c: "tcbs (kern s) (pxCurrentTCB (kern s)) = Some c"
  shows "\<exists>k k'. send_enter q item w queueSEND_TO_BACK tmo s = Some (Return True,
      (set_queue q (Q\<lparr>pcTail := 0, uxMessagesWaiting := 1\<rparr>) s)\<lparr>kern := k'\<rparr>) \<and>
    sys_ok ((set_queue q (Q\<lparr>pcTail := 0, uxMessagesWaiting := 1\<rparr>) s)\<lparr>kern := k'\<rparr>) \<and>
    vTaskPriorityDisinherit (pxCurrentTCB (kern s)) (kern s) = Some k \<and>
    tcbs k' = (tcbs (kern s))(pxCurrentTCB (kern s) := Some (c\<lparr>uxPriority := uxBasePriority c\<rparr>)) \<and>
    cont k = (cont (kern s))(Generic (pxCurrentTCB (kern s)) := Some (Ready (uxBasePriority c))) \<and>
    woke k k' \<and> cont k' = first_woken (TasksWaitingToReceive q) k"
proof -
  let ?t = "pxCurrentTCB (kern s)"
  obtain p where r: "cont (kern s) (Generic ?t) = Some (Ready p)" using run by (auto simp: running_ready_def)
  obtain k where k: "vTaskPriorityDisinherit ?t (kern s) = Some k" "kernel_ok k"
    "tcbs k = (tcbs (kern s))(?t := Some (c\<lparr>uxPriority := uxBasePriority c\<rparr>))"
    "cont k = (cont (kern s))(Generic ?t := Some (Ready (uxBasePriority c)))"
    "pxCurrentTCB k = ?t" "uxSchedulerSuspended k = uxSchedulerSuspended (kern s)"
    using vTaskPriorityDisinherit_effect [OF sys_okD(1,2) [OF ok] c r] by blast
  have ok1: "sys_ok (s\<lparr>kern := k\<rparr>)"
    by (rule sys_ok_kern(1) [OF ok k(2) _ disinherit_inits [OF k(1)]]) (use k(5,6) sys_okD(2,6) [OF ok] in auto)
  have q1: "queues (s\<lparr>kern := k\<rparr>) q = Some Q" using q by simp
  let ?s = "set_queue q (Q\<lparr>pcTail := 0, uxMessagesWaiting := 1\<rparr>) (s\<lparr>kern := k\<rparr>)"
  have ok2: "sys_ok ?s" by (rule sys_ok_mutex [OF ok1 q1 m]) simp
  have e: "queues ?s q = Some (Q\<lparr>pcTail := 0, uxMessagesWaiting := 1\<rparr>)" "kern ?s = k" by (simp_all add: set_queue_def)
  obtain k' where k': "on_kernel (wake_one portYIELD (TasksWaitingToReceive q)) ?s = Some (?s\<lparr>kern := k'\<rparr>)"
    "sys_ok (?s\<lparr>kern := k'\<rparr>)" "woke k k'" "cont k' = first_woken (TasksWaitingToReceive q) k"
    using wake_kernel [OF ok2 e(1)] unfolding e(2) by blast
  have s': "?s\<lparr>kern := k'\<rparr> = (set_queue q (Q\<lparr>pcTail := 0, uxMessagesWaiting := 1\<rparr>) s)\<lparr>kern := k'\<rparr>"
    by (simp add: set_queue_def)
  have dk: "on_kernel (vTaskPriorityDisinherit ?t) s = Some (s\<lparr>kern := k\<rparr>)" using k(1) by (simp add: on_kernel_def)
  have "uxMessagesWaiting Q < uxLength Q" using n mutex_queue(1) [OF ok q m] by simp
  then have "send_enter q item w queueSEND_TO_BACK tmo s = Some (Return True, ?s\<lparr>kern := k'\<rparr>)"
    using q m n k'(1) h mutex_queue(2) [OF ok q m] dk by (simp add: send_enter_def prvCopyDataToQueue_def)
  then show ?thesis using k(1,3,4) k'(2-4) unfolding s' by (auto simp: woke_def same_env_def)
qed

lemma receive_pass_effect:
  assumes i: "irq_ok irq" and ok: "sys_ok s" and su: "uxSchedulerSuspended (kern s) = 0"
    and run: "running_ready (kern s)" and q: "queues s q = Some Q"
    and h: "is_mutex Q \<Longrightarrow> pxMutexHolder Q = 0 \<or> pxMutexHolder Q \<in> dom (tcbs (kern s))"
    and n: "uxMessagesWaiting Q = 0"
  shows "\<exists>r s'. xQueueGenericReceive irq q w peek tmo s = Some (r, s') \<and> pass_end (pxCurrentTCB (kern s)) s s' \<and>
    (\<forall>x. r \<noteq> Done (Some x)) \<and> (\<forall>tmo' w'. r = Again tmo' w' \<longrightarrow> 0 < w' \<and> w \<noteq> 0)"
proof (cases "w = 0")
  case True
  then have "xQueueGenericReceive irq q w peek tmo s = Some (Done None, s)"
    using n q by (simp add: xQueueGenericReceive_def receive_enter_def)
  then show ?thesis using ok su by (intro exI [of _ "Done None"] exI [of _ s]) (simp add: pass_end_def)
next
  case w: False
  obtain s1 where s1: "suspend_lock irq q s = Some s1" "in_pass q (pxCurrentTCB (kern s)) s1"
    "running_ready (kern s1)" "shapes s1 = shapes s" "dom (tcbs (kern s1)) = dom (tcbs (kern s))"
    using suspend_lock_effect [OF i ok su run q] by blast
  obtain Q1 where q1: "queues s1 q = Some Q1" "shape Q1 = shape Q" using shape_queue [OF s1(4) q] .
  have h1: "is_mutex Q1 \<Longrightarrow> pxMutexHolder Q1 = 0 \<or> pxMutexHolder Q1 \<in> dom (tcbs (kern s1))"
    using q1(2) h s1(5) by (auto simp: shape_def split: if_splits)
  obtain r s' where r: "receive_block irq q (entry_time tmo s) w s1 = Some (r, s')"
    "pass_end (pxCurrentTCB (kern s)) s1 s'" "\<forall>x. r \<noteq> Done (Some x)" "\<forall>tmo' w'. r = Again tmo' w' \<longrightarrow> 0 < w'"
    using receive_block_effect [OF i s1(2,3) q1(1) w h1] by blast
  have "xQueueGenericReceive irq q w peek tmo s = Some (r, s')"
    using n w q s1(1) r(1) by (simp add: xQueueGenericReceive_def receive_enter_def)
  then show ?thesis using r(3,4) pass_end_shapes [OF r(2) s1(4)] w by blast
qed

end
