(* ===== verification/Queue_Properties.thy ===== *)
theory Queue_Properties
  imports Queue_Ops Kernel_Properties
begin

text \<open>
  The properties of the queues and mutexes: a queue refines a bounded first-in first-out list, the
  blocking calls keep the system consistent under interrupts, and no wake-up is lost.
\<close>

section \<open>Creating a queue\<close>

lemma kernel_ok_init_lists:
  assumes "kernel_ok k" and "litems k (TasksWaitingToSend q) = []" and "litems k (TasksWaitingToReceive q) = []"
  defines "k' \<equiv> k\<lparr>heap := vListInitialise (TasksWaitingToReceive q) (vListInitialise (TasksWaitingToSend q) (heap k))\<rparr>"
  shows "kernel_ok k'" and "inits k' = inits k \<union> {TasksWaitingToSend q, TasksWaitingToReceive q}"
    and "cont k' = cont k" and "ival k' = ival k" and "litems k' = litems k"
proof -
  let ?k = "k\<lparr>heap := vListInitialise (TasksWaitingToSend q) (heap k)\<rparr>"
  have 1: "kernel_ok ?k" by (rule kernel_ok_init_list [OF assms(1,2)]) simp
  note e1 = vListInitialise_effect [OF kinvD(1) [OF kernel_ok_kinv [OF assms(1)]] assms(2)]
  then have 2: "litems ?k (TasksWaitingToReceive q) = []" using assms(3) by simp
  have "kernel_ok (?k\<lparr>heap := vListInitialise (TasksWaitingToReceive q) (heap ?k)\<rparr>)"
    by (rule kernel_ok_init_list [OF 1 2]) simp
  then show "kernel_ok k'" by (simp add: k'_def)
  show "inits k' = inits k \<union> {TasksWaitingToSend q, TasksWaitingToReceive q}"
    by (auto simp: k'_def inits_def)
  show "cont k' = cont k" "ival k' = ival k" by (simp_all add: k'_def)
  show "litems k' = litems k"
    using vListInitialise_effect [OF kinvD(1) [OF kernel_ok_kinv [OF 1]] 2] e1 by (simp add: k'_def)
qed

text \<open>Adding a queue record whose lists have just been set up.\<close>

lemma sys_ok_new_queue:
  assumes ok: "sys_ok s" and q: "queues s q = None"
    and e: "litems (kern s) (TasksWaitingToSend q) = []" "litems (kern s) (TasksWaitingToReceive q) = []"
    and s': "s' = s\<lparr>kern := (kern s)\<lparr>heap := vListInitialise (TasksWaitingToReceive q)
        (vListInitialise (TasksWaitingToSend q) (heap (kern s)))\<rparr>, queues := (queues s)(q := Some Q), blocks := B\<rparr>"
    and B: "\<And>r R. queues s r = Some R \<Longrightarrow> B (pcHead R) = blocks s (pcHead R)"
    and h: "\<And>r R. queues s r = Some R \<Longrightarrow> pcHead R \<noteq> pcHead Q \<or> is_mutex R"
    and Q: "queue_ok s' Q" "unlocked Q"
  shows "sys_ok s'" and "items_of s' = (items_of s)(q := Some (queue_items s' Q))"
proof -
  note k = kernel_ok_init_lists [OF sys_okD(1) [OF ok] e]
  have c: "queue_ok s' R = queue_ok s R" "queue_items s' R = queue_items s R" if "queues s r = Some R" for r R
    using queue_view_cong [of s' R s] B [OF that] by (simp_all add: s')
  have f: "queues s' = (queues s)(q := Some Q)" "pxCurrentTCB (kern s') = pxCurrentTCB (kern s)"
    "uxSchedulerSuspended (kern s') = uxSchedulerSuspended (kern s)" by (simp_all add: s')
  have ks: "kernel_ok (kern s')" "inits (kern s') = inits (kern s) \<union> {TasksWaitingToSend q, TasksWaitingToReceive q}"
    using k(1,2) by (simp_all add: s')
  show "sys_ok s'"
    unfolding sys_ok_def
  proof (intro conjI allI impI)
    show "kernel_ok (kern s')" "pxCurrentTCB (kern s') \<noteq> 0" using ks(1) f(2) sys_okD(2) [OF ok] by simp_all
    fix r R
    assume r: "queues s' r = Some R"
    show "queue_ok s' R" using r f(1) Q(1) c(1) sys_okD(3) [OF ok] by (cases "r = q") auto
    show "TasksWaitingToSend r \<in> inits (kern s')" "TasksWaitingToReceive r \<in> inits (kern s')"
      using r f(1) ks(2) sys_okD(4,5) [OF ok] by (cases "r = q"; auto)+
    show "unlocked R" if "uxSchedulerSuspended (kern s') = 0"
      using r f(1,3) that Q(2) sys_okD(6) [OF ok] by (cases "r = q") auto
    fix p P
    assume a: "r \<noteq> p" "queues s' p = Some P" "\<not> is_mutex R"
    show "pcHead R \<noteq> pcHead P"
    proof (cases "r = q")
      case True
      then have "queues s p = Some P" "R = Q" using r a f(1) by auto
      then show ?thesis using h [of p P] a(3) by auto
    next
      case False
      then have R: "queues s r = Some R" using r f(1) by simp
      show ?thesis
      proof (cases "p = q")
        case True
        then show ?thesis using h [OF R] a(2,3) f(1) by auto
      next
        case False
        then show ?thesis using sys_okD(7) [OF ok a(1) R, of P] a(2,3) f(1) by simp
      qed
    qed
  qed
  show "items_of s' = (items_of s)(q := Some (queue_items s' Q))"
  proof
    fix r
    show "items_of s' r = ((items_of s)(q := Some (queue_items s' Q))) r"
      using c(2) by (cases "r = q"; cases "queues s r") (auto simp: items_of_def f(1))
  qed
qed

lemma reset_buffer:
  assumes "head \<noteq> 0" and "0 < n" and "unat head + unat n * unat z < 2 ^ 32" and "unat z \<le> unat head"
    and "length xs = unat n * unat z + 1" and "pcHead Q = head" "uxLength Q = n" "uxItemSize Q = z"
  shows "buffer_at (Q\<lparr>pcTail := head + n * z, uxMessagesWaiting := 0, pcWriteTo := head,
    pcReadFrom := head + (n - 1) * z, xRxLock := a, xTxLock := b\<rparr>) xs (unat n - 1)"
proof -
  have n: "0 < unat n" using assms(2) by (simp add: word_less_nat_alt)
  then have "of_nat (unat n - 1) = n - 1" by (simp add: of_nat_diff)
  then have "head + (n - 1) * z = head + of_nat ((unat n - 1) * unat z)" by simp
  moreover have "head + n * z = head + of_nat (unat n * unat z)" by simp
  ultimately show ?thesis using assms n by (simp add: buffer_at_def)
qed

lemma create_effect_queue:
  assumes ok: "sys_ok s" and fresh: "queues s q = None" "q \<noteq> 0" "head \<noteq> 0"
    "litems (kern s) (TasksWaitingToSend q) = []" "litems (kern s) (TasksWaitingToReceive q) = []"
    and heads: "\<And>r R. queues s r = Some R \<Longrightarrow> pcHead R \<noteq> head"
    and sz: "0 < n" "unat head + unat n * unat z < 2 ^ 32" "unat z \<le> unat head"
    and fill: "\<And>m. length (fill m) = m"
  shows "\<exists>s' Q. xQueueGenericCreate q head garbage fill n z s = Some (q, s') \<and> sys_ok s' \<and>
    items_of s' = (items_of s)(q := Some []) \<and> queues s' = (queues s)(q := Some Q) \<and>
    pcHead Q = head \<and> uxLength Q = n \<and> uxItemSize Q = z \<and> unlocked Q \<and> cont (kern s') = cont (kern s)"
proof -
  let ?B = "(blocks s)(head := Some (fill (unat (n * z + 1))))"
  define Q where "Q = garbage\<lparr>pcHead := head, uxLength := n, uxItemSize := z, pcTail := head + n * z,
    uxMessagesWaiting := 0, pcWriteTo := head, pcReadFrom := head + (n - 1) * z, xRxLock := queueUNLOCKED,
    xTxLock := queueUNLOCKED\<rparr>"
  define s' where "s' = s\<lparr>kern := (kern s)\<lparr>heap := vListInitialise (TasksWaitingToReceive q)
        (vListInitialise (TasksWaitingToSend q) (heap (kern s)))\<rparr>, queues := (queues s)(q := Some Q), blocks := ?B\<rparr>"
  have "xQueueGenericCreate q head garbage fill n z s = Some (q, s')"
    using fresh(2,3) sz(1)
    by (simp add: xQueueGenericCreate_def xQueueGenericReset_def set_queue_def Let_def s'_def Q_def)
  moreover have "unat n * unat z < 2 ^ 32" using sz(2) by linarith
  then have "unat (n * z) = unat n * unat z" by (simp add: unat_word_ariths)
  moreover have "Suc (unat n * unat z) < 2 ^ 32"
    using sz(2) fresh(3) unat_gt_0 [of head] by linarith
  ultimately have len: "length (fill (unat (n * z + 1))) = unat n * unat z + 1"
    by (simp add: fill unat_Suc_word)
  have "Q = (garbage\<lparr>pcHead := head, uxLength := n, uxItemSize := z\<rparr>)\<lparr>pcTail := head + n * z, uxMessagesWaiting := 0,
      pcWriteTo := head, pcReadFrom := head + (n - 1) * z, xRxLock := queueUNLOCKED, xTxLock := queueUNLOCKED\<rparr>"
    by (simp add: Q_def)
  then have at: "buffer_at Q (fill (unat (n * z + 1))) (unat n - 1)"
    using reset_buffer [OF fresh(3) sz len, of "garbage\<lparr>pcHead := head, uxLength := n, uxItemSize := z\<rparr>"] by simp
  have Q: "pcHead Q = head" "uxLength Q = n" "uxItemSize Q = z" "unlocked Q" "uxMessagesWaiting Q = 0"
    by (simp_all add: Q_def unlocked_def)
  have qo: "queue_ok s' Q" using at Q(1) by (auto simp: queue_ok_def s'_def)
  have "length (queue_items s' Q) = 0" using Q(5) by simp
  then have qi: "queue_items s' Q = []" by (simp only: length_0_conv)
  have "sys_ok s'" "items_of s' = (items_of s)(q := Some (queue_items s' Q))"
    using sys_ok_new_queue [OF ok fresh(1,4,5) s'_def _ _ qo Q(4)] heads Q(1) by auto
  moreover have "cont (kern s') = cont (kern s)"
    using kernel_ok_init_lists(3) [OF sys_okD(1) [OF ok] fresh(4,5)] by (simp add: s'_def)
  moreover have "queues s' = (queues s)(q := Some Q)" by (simp add: s'_def)
  ultimately show ?thesis using Q(1-4) qi \<open>xQueueGenericCreate q head garbage fill n z s = Some (q, s')\<close>
    by (intro exI [of _ s'] exI [of _ Q]) simp
qed

section \<open>A sample system\<close>

text \<open>The sample kernel with one queue at address 100: two items of one byte, stored at address 1000.\<close>

definition sample_garbage :: xQUEUE where
  "sample_garbage = \<lparr>pcHead = 7, pcTail = 7, pcWriteTo = 7, pcReadFrom = 7, uxMessagesWaiting = 7, uxLength = 7,
     uxItemSize = 7, xRxLock = 7, xTxLock = 7\<rparr>"

definition sample_sys0 :: system where
  "sample_sys0 = \<lparr>kern = sample, queues = (\<lambda>_. None), blocks = (\<lambda>_. None)\<rparr>"

definition sample_sys :: system where
  "sample_sys = snd (the (xQueueGenericCreate 100 1000 sample_garbage (\<lambda>n. replicate n 0) 2 1 sample_sys0))"

lemma sample_sys0_ok: "sys_ok sample_sys0"
  by (simp add: sample_sys0_def sys_ok_def)

lemma sample_event_lists:
  "litems (kern sample_sys0) (TasksWaitingToSend q) = []" "litems (kern sample_sys0) (TasksWaitingToReceive q) = []"
  by (simp_all add: sample_sys0_def no_event_empty)

lemma sample_sys_created:
  "\<exists>Q. xQueueGenericCreate 100 1000 sample_garbage (\<lambda>n. replicate n 0) 2 1 sample_sys0 = Some (100, sample_sys) \<and>
     sys_ok sample_sys \<and> items_of sample_sys = (\<lambda>_. None)(100 := Some []) \<and> queues sample_sys = (\<lambda>_. None)(100 := Some Q) \<and>
     pcHead Q = 1000 \<and> uxLength Q = 2 \<and> uxItemSize Q = 1 \<and> unlocked Q \<and> cont (kern sample_sys) = cont sample"
proof -
  have z: "items_of sample_sys0 = (\<lambda>_. None)" "queues sample_sys0 = (\<lambda>_. None)" "kern sample_sys0 = sample"
    by (simp_all add: sample_sys0_def items_of_def fun_eq_iff)
  obtain s' Q where c: "xQueueGenericCreate 100 1000 sample_garbage (\<lambda>n. replicate n 0) 2 1 sample_sys0 = Some (100, s')"
    "sys_ok s'" "items_of s' = (items_of sample_sys0)(100 := Some [])" "queues s' = (queues sample_sys0)(100 := Some Q)"
    "pcHead Q = 1000" "uxLength Q = 2" "uxItemSize Q = 1" "unlocked Q" "cont (kern s') = cont (kern sample_sys0)"
    using create_effect_queue [OF sample_sys0_ok _ _ _ sample_event_lists, of 100 1000 2 1 "\<lambda>n. replicate n 0" sample_garbage]
    by (auto simp: z)
  moreover have "sample_sys = s'" using c(1) by (simp add: sample_sys_def)
  ultimately show ?thesis by (auto simp: z)
qed

lemma sample_sys_kern:
  "kern sample_sys = sample_queue"
  by (simp add: sample_sys_def sample_sys0_def xQueueGenericCreate_def xQueueGenericReset_def set_queue_def Let_def sample_queue_def)

lemma sample_sys_facts:
  "sys_ok sample_sys" "pxCurrentTCB (kern sample_sys) = 3" "uxSchedulerSuspended (kern sample_sys) = 0"
  "running_ready (kern sample_sys)" "xTickCount (kern sample_sys) = 0"
  using sample_sys_created sample_queue_facts
  by (auto simp: sample_sys_kern running_ready_def) (simp_all add: sample_queue_def)

lemma sample_sys_queue:
  obtains Q where "queues sample_sys 100 = Some Q" "pcHead Q = 1000" "uxLength Q = 2" "uxItemSize Q = 1"
    "queue_items sample_sys Q = []" "uxMessagesWaiting Q = 0" "unlocked Q"
proof -
  obtain Q where Q: "items_of sample_sys = (\<lambda>_. None)(100 := Some [])" "queues sample_sys = (\<lambda>_. None)(100 := Some Q)"
    "pcHead Q = 1000" "uxLength Q = 2" "uxItemSize Q = 1" "unlocked Q" using sample_sys_created by blast
  have i: "queue_items sample_sys Q = []" using fun_cong [OF Q(1), of 100] Q(2) by (simp add: items_of_def)
  then have "length (queue_items sample_sys Q) = 0" by simp
  then have "qcount Q = 0" by simp
  then show ?thesis using that [of Q] Q i by (simp add: unat_eq_0)
qed

section \<open>A queue is a bounded first-in first-out list\<close>

datatype fifo_op = Send position "u8 list" | Receive | Peek

datatype fifo_result = Sent bool | Got "u8 list option"

text \<open>The abstract queue: a list with a capacity.\<close>

fun fifo_step :: "nat \<Rightarrow> fifo_op \<Rightarrow> u8 list list \<Rightarrow> fifo_result \<times> u8 list list" where
  "fifo_step cap (Send pos x) xs =
     (if length xs < cap \<or> pos = queueOVERWRITE then (Sent True, fifo_put pos x xs) else (Sent False, xs))"
| "fifo_step cap Receive xs = (case xs of [] \<Rightarrow> (Got None, []) | x # xs \<Rightarrow> (Got (Some x), xs))"
| "fifo_step cap Peek xs = (Got (case xs of [] \<Rightarrow> None | x # _ \<Rightarrow> Some x), xs)"

fun fifo_run :: "nat \<Rightarrow> fifo_op list \<Rightarrow> u8 list list \<Rightarrow> fifo_result list \<times> u8 list list" where
  "fifo_run cap [] xs = ([], xs)"
| "fifo_run cap (op # ops) xs =
     (let (r, ys) = fifo_step cap op xs; (rs, zs) = fifo_run cap ops ys in (r # rs, zs))"

fun run_ops :: "(fifo_op \<Rightarrow> 's \<Rightarrow> (fifo_result \<times> 's) option) \<Rightarrow> fifo_op list \<Rightarrow> 's \<Rightarrow> (fifo_result list \<times> 's) option" where
  "run_ops step [] s = Some ([], s)"
| "run_ops step (op # ops) s = do {
     (r, s) \<leftarrow> step op s;
     (rs, s) \<leftarrow> run_ops step ops s;
     Some (r # rs, s)
   }"

text \<open>The calls of the queue API that do not wait.\<close>

definition queue_step :: "qid \<Rightarrow> fifo_op \<Rightarrow> system \<Rightarrow> (fifo_result \<times> system) option" where
  "queue_step q op s = (case op of
     Send pos x \<Rightarrow> do {
       (r, s) \<leftarrow> xQueueGenericSend no_irq q x 0 pos None s;
       (case r of Done b \<Rightarrow> Some (Sent b, s) | Again _ _ \<Rightarrow> None)
     }
   | Receive \<Rightarrow> do {
       (r, s) \<leftarrow> xQueueGenericReceive no_irq q 0 False None s;
       (case r of Done x \<Rightarrow> Some (Got x, s) | Again _ _ \<Rightarrow> None)
     }
   | Peek \<Rightarrow> do {
       (r, s) \<leftarrow> xQueueGenericReceive no_irq q 0 True None s;
       (case r of Done x \<Rightarrow> Some (Got x, s) | Again _ _ \<Rightarrow> None)
     })"

text \<open>The same calls as an interrupt handler makes them.\<close>

definition isr_step_op :: "qid \<Rightarrow> fifo_op \<Rightarrow> system \<Rightarrow> (fifo_result \<times> system) option" where
  "isr_step_op q op s = (case op of
     Send pos x \<Rightarrow> map_option (\<lambda>(b, w, s). (Sent b, s)) (xQueueGenericSendFromISR q x pos s)
   | Receive \<Rightarrow> map_option (\<lambda>(x, w, s). (Got x, s)) (xQueueReceiveFromISR q s)
   | Peek \<Rightarrow> map_option (\<lambda>(x, s). (Got x, s)) (xQueuePeekFromISR q s))"

text \<open>An implementation of the bounded list, and what follows for sequences of calls.\<close>

locale bounded_fifo =
  fixes valid :: "'s \<Rightarrow> bool"
    and contents :: "'s \<Rightarrow> u8 list list"
    and capacity :: "'s \<Rightarrow> nat"
    and accepts :: "'s \<Rightarrow> fifo_op \<Rightarrow> bool"
    and step :: "fifo_op \<Rightarrow> 's \<Rightarrow> (fifo_result \<times> 's) option"
  assumes bounded: "valid s \<Longrightarrow> length (contents s) \<le> capacity s"
    and refines: "valid s \<Longrightarrow> accepts s op \<Longrightarrow>
      \<exists>s'. step op s = Some (fst (fifo_step (capacity s) op (contents s)), s') \<and> valid s' \<and>
        contents s' = snd (fifo_step (capacity s) op (contents s)) \<and>
        capacity s' = capacity s \<and> accepts s' = accepts s"
begin

lemma run_refines:
  "valid s \<Longrightarrow> list_all (accepts s) ops \<Longrightarrow>
    \<exists>s'. run_ops step ops s = Some (fst (fifo_run (capacity s) ops (contents s)), s') \<and> valid s' \<and>
      contents s' = snd (fifo_run (capacity s) ops (contents s)) \<and> capacity s' = capacity s"
proof (induction ops arbitrary: s)
  case (Cons op ops)
  obtain s1 where s1: "step op s = Some (fst (fifo_step (capacity s) op (contents s)), s1)" "valid s1"
    "contents s1 = snd (fifo_step (capacity s) op (contents s))" "capacity s1 = capacity s" "accepts s1 = accepts s"
    using refines [OF Cons.prems(1), of op] Cons.prems(2) by auto
  obtain s2 where s2: "run_ops step ops s1 = Some (fst (fifo_run (capacity s1) ops (contents s1)), s2)" "valid s2"
    "contents s2 = snd (fifo_run (capacity s1) ops (contents s1))" "capacity s2 = capacity s1"
    using Cons.IH [OF s1(2)] Cons.prems(2) s1(5) by auto
  then show ?case using s1(1,3,4) by (simp add: case_prod_unfold Let_def)
qed simp

text \<open>What is sent to a queue with room is received in order.\<close>

lemma sends_then_receives:
  assumes "valid s" and "list_all (\<lambda>x. accepts s (Send queueSEND_TO_BACK x)) xs" and "accepts s Receive"
    and "length (contents s) + length xs \<le> capacity s"
  shows "\<exists>s'. run_ops step (map (Send queueSEND_TO_BACK) xs @ replicate (length (contents s) + length xs) Receive) s =
    Some (map (\<lambda>_. Sent True) xs @ map (\<lambda>x. Got (Some x)) (contents s @ xs), s') \<and> contents s' = []"
proof -
  have recv: "fifo_run cap (replicate (length ys) Receive) ys = (map (\<lambda>x. Got (Some x)) ys, [])" for cap and ys :: "u8 list list"
    by (induction ys) auto
  have run: "fifo_run cap (map (Send queueSEND_TO_BACK) xs @ replicate (length ys + length xs) Receive) ys =
      (map (\<lambda>_. Sent True) xs @ map (\<lambda>x. Got (Some x)) (ys @ xs), [])"
    if "length ys + length xs \<le> cap" for cap ys xs
    using that
  proof (induction xs arbitrary: ys)
    case (Cons x xs)
    then show ?case using Cons.IH [of "ys @ [x]"] by simp
  qed (simp add: recv)
  have "list_all (accepts s) (map (Send queueSEND_TO_BACK) xs @ replicate (length (contents s) + length xs) Receive)"
    using assms(2,3) by (auto simp: list_all_iff set_replicate_conv_if split: if_splits)
  from run_refines [OF assms(1) this] run [OF assms(4)] show ?thesis by auto
qed

end

definition queue_valid :: "qid \<Rightarrow> system \<Rightarrow> bool" where
  "queue_valid q s \<longleftrightarrow> sys_ok s \<and> (\<exists>Q. queues s q = Some Q \<and> \<not> is_mutex Q \<and> unlocked Q)"

definition queue_contents :: "qid \<Rightarrow> system \<Rightarrow> u8 list list" where
  "queue_contents q s = (case items_of s q of None \<Rightarrow> [] | Some xs \<Rightarrow> xs)"

definition queue_capacity :: "qid \<Rightarrow> system \<Rightarrow> nat" where
  "queue_capacity q s = (case queues s q of None \<Rightarrow> 0 | Some Q \<Rightarrow> qlen Q)"

definition queue_accepts :: "qid \<Rightarrow> system \<Rightarrow> fifo_op \<Rightarrow> bool" where
  "queue_accepts q s op = (case (op, queues s q) of
     (Send pos x, Some Q) \<Rightarrow> length x = qsize Q \<and> (pos = queueOVERWRITE \<longrightarrow> uxLength Q = 1 \<and> uxItemSize Q \<noteq> 0)
   | _ \<Rightarrow> True)"

lemma queue_items_Nil: "queue_items s Q = [] \<longleftrightarrow> uxMessagesWaiting Q = 0"
  using length_0_conv [of "queue_items s Q"] by (simp add: unat_eq_0)

lemma changed_view:
  assumes ok: "queue_valid q s" and q: "queues s q = Some Q" and c: "queue_changed q Q xs l s s'"
  shows "queue_valid q s'" "queue_contents q s' = xs" "queue_capacity q s' = queue_capacity q s"
    "queue_accepts q s' = queue_accepts q s"
proof -
  obtain Q' where Q': "queues s' = (queues s)(q := Some Q')" "same_shape Q Q'" and i: "items_of s' q = Some xs"
    and sy: "sys_ok s'" using c by (auto simp: queue_changed_def)
  show "queue_valid q s'" using ok q Q' sy by (auto simp: queue_valid_def same_shape_def unlocked_def)
  show "queue_contents q s' = xs" using i by (simp add: queue_contents_def)
  show "queue_capacity q s' = queue_capacity q s" using q Q' by (simp add: queue_capacity_def same_shape_def)
  show "queue_accepts q s' = queue_accepts q s"
    using q Q' by (auto simp: queue_accepts_def same_shape_def fun_eq_iff split: fifo_op.splits)
qed

lemma queue_view:
  assumes "queue_valid q s"
  obtains Q where "queues s q = Some Q" "\<not> is_mutex Q" "unlocked Q" "queue_contents q s = queue_items s Q"
    "queue_capacity q s = qlen Q" "length (queue_items s Q) = qcount Q" "sys_ok s"
  using assms that unfolding queue_valid_def queue_contents_def queue_capacity_def items_of_def by auto

text \<open>The abstract step on the items of a queue, in terms of its record.\<close>

lemma fifo_step_queue:
  "fifo_step (qlen Q) (Send pos x) (queue_items s Q) =
     (if uxMessagesWaiting Q < uxLength Q \<or> pos = queueOVERWRITE
      then (Sent True, fifo_put pos x (queue_items s Q)) else (Sent False, queue_items s Q))"
  "fifo_step (qlen Q) Receive (queue_items s Q) =
     (if uxMessagesWaiting Q > 0 then (Got (Some (hd (queue_items s Q))), tl (queue_items s Q))
      else (Got None, queue_items s Q))"
  "fifo_step (qlen Q) Peek (queue_items s Q) =
     (Got (if uxMessagesWaiting Q > 0 then Some (hd (queue_items s Q)) else None), queue_items s Q)"
  using queue_items_Nil [of s Q] by (auto simp: word_less_nat_alt [of "uxMessagesWaiting Q" "uxLength Q"] word_gt_0 split: list.split)

text \<open>A call that changes nothing or changes the one queue gives the step of the abstract queue.\<close>

lemma fifo_outcome:
  assumes v: "queue_valid q s" and q: "queues s q = Some Q"
    and st: "case fifo_step (qlen Q) op (queue_items s Q) of (r, xs) \<Rightarrow>
      step op s = Some (r, s) \<and> xs = queue_items s Q \<or>
      (\<exists>s1 l. step op s = Some (r, s1) \<and> queue_changed q Q xs l s s1)"
  shows "\<exists>s'. step op s = Some (fst (fifo_step (queue_capacity q s) op (queue_contents q s)), s') \<and> queue_valid q s' \<and>
    queue_contents q s' = snd (fifo_step (queue_capacity q s) op (queue_contents q s)) \<and>
    queue_capacity q s' = queue_capacity q s \<and> queue_accepts q s' = queue_accepts q s"
proof -
  have e: "queue_capacity q s = qlen Q" "queue_contents q s = queue_items s Q"
    using q by (simp_all add: queue_capacity_def queue_contents_def items_of_def)
  obtain r xs where r: "fifo_step (qlen Q) op (queue_items s Q) = (r, xs)" by fastforce
  from st [unfolded r prod.case] show ?thesis
  proof (elim disjE conjE exE)
    assume "step op s = Some (r, s)" "xs = queue_items s Q"
    then show ?thesis using v r e by (intro exI [of _ s]) simp
  next
    fix s1 l
    assume s1: "step op s = Some (r, s1)" "queue_changed q Q xs l s s1"
    then show ?thesis using changed_view [OF v q s1(2)] r e by (intro exI [of _ s1]) simp
  qed
qed

lemma accepted_send:
  assumes "queue_accepts q s (Send pos x)" and "queues s q = Some Q" and "\<not> is_mutex Q"
  shows "may_send Q pos x" and "take (qsize Q) x = x"
  using assms by (auto simp: queue_accepts_def may_send_def)

interpretation task_fifo: bounded_fifo "queue_valid q" "queue_contents q" "queue_capacity q" "queue_accepts q" "queue_step q"
  for q
proof
  fix s
  assume v: "queue_valid q s"
  obtain Q where Q: "queues s q = Some Q" "\<not> is_mutex Q" "unlocked Q" "queue_contents q s = queue_items s Q"
    "queue_capacity q s = qlen Q" "length (queue_items s Q) = qcount Q" "sys_ok s" using queue_view [OF v] .
  show "length (queue_contents q s) \<le> queue_capacity q s" using Q queue_bound [OF Q(7,1)] by simp
  fix op
  assume a: "queue_accepts q s op"
  show "\<exists>s'. queue_step q op s = Some (fst (fifo_step (queue_capacity q s) op (queue_contents q s)), s') \<and>
      queue_valid q s' \<and> queue_contents q s' = snd (fifo_step (queue_capacity q s) op (queue_contents q s)) \<and>
      queue_capacity q s' = queue_capacity q s \<and> queue_accepts q s' = queue_accepts q s"
  proof (rule fifo_outcome [OF v Q(1)])
    show "case fifo_step (qlen Q) op (queue_items s Q) of (r, xs) \<Rightarrow>
        queue_step q op s = Some (r, s) \<and> xs = queue_items s Q \<or>
        (\<exists>s1 l. queue_step q op s = Some (r, s1) \<and> queue_changed q Q xs l s s1)"
    proof (cases op)
      case (Send pos x)
      note m = accepted_send [OF a [unfolded Send] Q(1,2)]
      then show ?thesis using send_enter_effect [OF Q(7,1) m(1), of 0 None] Q(1)
        by (cases "uxMessagesWaiting Q < uxLength Q \<or> pos = queueOVERWRITE")
          (auto simp: Send fifo_step_queue queue_step_def xQueueGenericSend_def simp del: fifo_step.simps,
            auto simp: send_enter_def)
    next
      case Receive
      then show ?thesis using receive_enter_effect(1) [OF Q(7,1,2), of 0 None] Q(1)
        by (cases "uxMessagesWaiting Q > 0")
          (auto simp: Receive fifo_step_queue queue_step_def xQueueGenericReceive_def simp del: fifo_step.simps,
            auto simp: receive_enter_def)
    next
      case Peek
      then show ?thesis using receive_enter_effect(2) [OF Q(7,1,2), of 0 None] Q(1)
        by (cases "uxMessagesWaiting Q > 0")
          (auto simp: Peek fifo_step_queue queue_step_def xQueueGenericReceive_def simp del: fifo_step.simps,
            auto simp: receive_enter_def)
    qed
  qed
qed

interpretation isr_fifo: bounded_fifo "queue_valid q" "queue_contents q" "queue_capacity q" "queue_accepts q" "isr_step_op q"
  for q
proof
  fix s
  assume v: "queue_valid q s"
  obtain Q where Q: "queues s q = Some Q" "\<not> is_mutex Q" "unlocked Q" "queue_contents q s = queue_items s Q"
    "queue_capacity q s = qlen Q" "length (queue_items s Q) = qcount Q" "sys_ok s" using queue_view [OF v] .
  show "length (queue_contents q s) \<le> queue_capacity q s" by (rule task_fifo.bounded [OF v])
  fix op
  assume a: "queue_accepts q s op"
  show "\<exists>s'. isr_step_op q op s = Some (fst (fifo_step (queue_capacity q s) op (queue_contents q s)), s') \<and>
      queue_valid q s' \<and> queue_contents q s' = snd (fifo_step (queue_capacity q s) op (queue_contents q s)) \<and>
      queue_capacity q s' = queue_capacity q s \<and> queue_accepts q s' = queue_accepts q s"
  proof (rule fifo_outcome [OF v Q(1)])
    show "case fifo_step (qlen Q) op (queue_items s Q) of (r, xs) \<Rightarrow>
        isr_step_op q op s = Some (r, s) \<and> xs = queue_items s Q \<or>
        (\<exists>s1 l. isr_step_op q op s = Some (r, s1) \<and> queue_changed q Q xs l s s1)"
    proof (cases op)
      case (Send pos x)
      note m = accepted_send [OF a [unfolded Send] Q(1,2)]
      then show ?thesis using sendFromISR_effect(1) [OF Q(7,1) m(1)] Q(1,3)
        by (cases "uxMessagesWaiting Q < uxLength Q \<or> pos = queueOVERWRITE")
          (auto simp: Send fifo_step_queue isr_step_op_def unlocked_def simp del: fifo_step.simps,
            auto simp: xQueueGenericSendFromISR_def)
    next
      case Receive
      then show ?thesis using receiveFromISR_effect(1) [OF Q(7,1,2)] Q(1,3)
        by (cases "uxMessagesWaiting Q > 0")
          (auto simp: Receive fifo_step_queue isr_step_op_def unlocked_def simp del: fifo_step.simps,
            auto simp: xQueueReceiveFromISR_def)
    next
      case Peek
      then show ?thesis using peekFromISR_effect [OF Q(7,1,2)]
        by (simp add: Peek fifo_step_queue isr_step_op_def queue_items_Nil word_gt_0 del: fifo_step.simps)
    qed
  qed
qed

section \<open>Properties of the queues\<close>

text \<open>
  C13: a queue refines a bounded first-in first-out list. For every sequence of sends (to the back, to
  the front, overwriting) and receives and peeks that do not wait, made by tasks or by interrupt
  handlers, the calls return what the abstract list of that capacity returns, the queue's ring
  buffer holds the items of the list, and the system stays consistent.
\<close>

theorem queue_refines_fifo:
  assumes "queue_valid q s" and "list_all (queue_accepts q s) ops"
  shows "(\<exists>s'. run_ops (queue_step q) ops s = Some (fst (fifo_run (queue_capacity q s) ops (queue_contents q s)), s') \<and>
      queue_valid q s' \<and> queue_contents q s' = snd (fifo_run (queue_capacity q s) ops (queue_contents q s)) \<and>
      length (queue_contents q s') \<le> queue_capacity q s) \<and>
    (\<exists>s'. run_ops (isr_step_op q) ops s = Some (fst (fifo_run (queue_capacity q s) ops (queue_contents q s)), s') \<and>
      queue_valid q s' \<and> queue_contents q s' = snd (fifo_run (queue_capacity q s) ops (queue_contents q s)) \<and>
      length (queue_contents q s') \<le> queue_capacity q s)"
  using task_fifo.run_refines [OF assms] isr_fifo.run_refines [OF assms] task_fifo.bounded [of q] by metis

lemma sample_valid: "queue_valid 100 sample_sys" "queue_contents 100 sample_sys = []" "queue_capacity 100 sample_sys = 2"
  "queue_accepts 100 sample_sys Receive" "queue_accepts 100 sample_sys (Send pos [x]) \<longleftrightarrow> pos \<noteq> queueOVERWRITE"
proof -
  obtain Q where "queues sample_sys 100 = Some Q" "pcHead Q = 1000" "uxLength Q = 2" "uxItemSize Q = 1"
    "queue_items sample_sys Q = []" "unlocked Q" by (rule sample_sys_queue)
  then show "queue_valid 100 sample_sys" "queue_contents 100 sample_sys = []" "queue_capacity 100 sample_sys = 2"
    "queue_accepts 100 sample_sys Receive" "queue_accepts 100 sample_sys (Send pos [x]) \<longleftrightarrow> pos \<noteq> queueOVERWRITE"
    using sample_sys_facts(1)
    by (simp_all add: queue_valid_def queue_contents_def queue_capacity_def queue_accepts_def items_of_def)
qed

theorem queue_refines_fifo_witness:
  "\<exists>s'. run_ops (queue_step 100) [Send queueSEND_TO_BACK [1], Send queueSEND_TO_FRONT [2], Send queueSEND_TO_BACK [3], Receive]
      sample_sys = Some ([Sent True, Sent True, Sent False, Got (Some [2])], s') \<and> queue_contents 100 s' = [[1]]"
  using queue_refines_fifo [OF sample_valid(1), of "[Send queueSEND_TO_BACK [1], Send queueSEND_TO_FRONT [2],
      Send queueSEND_TO_BACK [3], Receive]"] sample_valid by auto

text \<open>
  Creating a queue. With memory for the structure and for the storage, and a storage size that
  does not exceed the address space, \<open>xQueueGenericCreate\<close> adds an empty, unlocked queue of the given
  length and item size and leaves the other queues and the tasks alone; for length 0 or without
  memory it returns \<open>NULL\<close> and changes nothing.
\<close>

theorem xQueueGenericCreate_empty:
  assumes "sys_ok s" and "queues s q = None" and "q \<noteq> 0" and "head \<noteq> 0"
    and "litems (kern s) (TasksWaitingToSend q) = []" and "litems (kern s) (TasksWaitingToReceive q) = []"
    and "\<And>r R. queues s r = Some R \<Longrightarrow> pcHead R \<noteq> head"
    and "0 < n" and "unat head + unat n * unat z < 2 ^ 32" and "unat z \<le> unat head" and "\<And>m. length (fill m) = m"
  shows "(\<exists>s'. xQueueGenericCreate q head garbage fill n z s = Some (q, s') \<and> queue_valid q s' \<and>
      queue_contents q s' = [] \<and> queue_capacity q s' = unat n \<and> items_of s' = (items_of s)(q := Some []) \<and>
      cont (kern s') = cont (kern s)) \<and>
    xQueueGenericCreate q head garbage fill 0 z s = Some (0, s) \<and>
    xQueueGenericCreate 0 head garbage fill n z s = Some (0, s) \<and>
    xQueueGenericCreate q 0 garbage fill n z s = Some (0, s)"
proof -
  obtain s' Q where "xQueueGenericCreate q head garbage fill n z s = Some (q, s')" "sys_ok s'"
    "items_of s' = (items_of s)(q := Some [])" "queues s' = (queues s)(q := Some Q)"
    "pcHead Q = head" "uxLength Q = n" "unlocked Q" "cont (kern s') = cont (kern s)"
    using create_effect_queue [OF assms(1-6) _ assms(8-11), of garbage] assms(7) by blast
  then show ?thesis using assms(4)
    by (auto simp: queue_valid_def queue_contents_def queue_capacity_def xQueueGenericCreate_def)
qed

text \<open>
  The size computation of \<open>xQueueGenericCreate\<close> is not checked. When length times item size is a
  multiple of 2^32 the call succeeds with a storage block of a single byte, and every send of an item
  of more than one byte writes outside the block.
\<close>

theorem xQueueGenericCreate_size_overflow:
  assumes "q \<noteq> 0" and "head \<noteq> 0" and "0 < n" and "n * z = 0" and "1 < unat z" and "\<And>m. length (fill m) = m"
  shows "\<exists>s'. xQueueGenericCreate q head garbage fill n z s = Some (q, s') \<and>
    blocks s' head = Some (fill 1) \<and> (\<forall>item w tmo. send_enter q item w queueSEND_TO_BACK tmo s' = None)"
proof -
  have "z \<noteq> 0" using assms(5) by auto
  then show ?thesis using assms
    by (auto simp: xQueueGenericCreate_def xQueueGenericReset_def set_queue_def Let_def send_enter_def
        prvCopyDataToQueue_def block_write_def)
qed

text \<open>
  Overwriting a semaphore. On a full queue of item size 0 a send with \<open>queueOVERWRITE\<close> does not take
  the old item away: the count of messages passes the length of the queue.
\<close>

theorem overwrite_passes_length:
  assumes "sys_ok s" and "queues s q = Some Q" and "\<not> is_mutex Q" and "uxItemSize Q = 0"
    and "uxMessagesWaiting Q = uxLength Q" and "uxLength Q \<noteq> 0xffffffff"
  shows "\<exists>s' Q'. send_enter q item w queueOVERWRITE tmo s = Some (Return True, s') \<and> queues s' q = Some Q' \<and>
    uxLength Q' < uxMessagesWaiting Q'"
proof -
  let ?Q = "Q\<lparr>uxMessagesWaiting := uxMessagesWaiting Q + 1\<rparr>" and ?l = "TasksWaitingToReceive q"
  have l: "\<not> kernel_list ?l" "?l \<in> inits (kern s)" using sys_okD(5) [OF assms(1,2)] by auto
  obtain k where k: "wake_one portYIELD ?l (kern s) = Some k"
    using wake_one_effect [OF sys_okD(1,2) [OF assms(1)] l] by blast
  have "send_enter q item w queueOVERWRITE tmo s = Some (Return True, (set_queue q ?Q s)\<lparr>kern := k\<rparr>)"
    using assms(2-4) k by (simp add: send_enter_def prvCopyDataToQueue_def on_kernel_def set_queue_def)
  moreover have "uxLength Q < uxLength Q + 1"
  proof -
    have "uxLength Q + 1 \<noteq> 0" using assms(6) u32_suc_le(2) [of "uxLength Q"] by (simp add: portMAX_DELAY_def)
    then show ?thesis using u32_suc_le(1) [of "uxLength Q"] by (simp add: less_le)
  qed
  ultimately show ?thesis using assms(5) by (auto simp: set_queue_def)
qed

text \<open>A binary semaphore that has been given, at address 200.\<close>

definition sample_semaphore :: system where
  "sample_semaphore = snd (the (queue_step 200 (Send queueSEND_TO_BACK [])
     (snd (the (xQueueGenericCreate 200 2000 sample_garbage (\<lambda>n. replicate n 0) 1 0 sample_sys0)))))"

lemma sample_semaphore_facts:
  obtains Q where "sys_ok sample_semaphore" "queues sample_semaphore 200 = Some Q" "\<not> is_mutex Q" "uxItemSize Q = 0"
    "uxLength Q = 1" "uxMessagesWaiting Q = 1"
proof -
  obtain s1 Q1 where c: "xQueueGenericCreate 200 2000 sample_garbage (\<lambda>n. replicate n 0) 1 0 sample_sys0 = Some (200, s1)"
    "sys_ok s1" "items_of s1 = (items_of sample_sys0)(200 := Some [])" "queues s1 = (queues sample_sys0)(200 := Some Q1)"
    "pcHead Q1 = 2000" "uxLength Q1 = 1" "uxItemSize Q1 = 0" "unlocked Q1"
    using create_effect_queue [OF sample_sys0_ok _ _ _ sample_event_lists, of 200 2000 1 0 "\<lambda>n. replicate n 0" sample_garbage]
    by (auto simp: sample_sys0_def)
  have v: "queue_valid 200 s1" using c(2,4,5,8) by (auto simp: queue_valid_def)
  have a: "queue_accepts 200 s1 (Send queueSEND_TO_BACK [])" using c(4,7) by (simp add: queue_accepts_def)
  have e: "queue_contents 200 s1 = []" "queue_capacity 200 s1 = 1"
    using c(3,4,6) by (simp_all add: queue_contents_def queue_capacity_def)
  obtain s2 where s2: "queue_step 200 (Send queueSEND_TO_BACK []) s1 = Some (Sent True, s2)" "queue_valid 200 s2"
    "queue_contents 200 s2 = [[]]" "queue_capacity 200 s2 = 1" "queue_accepts 200 s2 = queue_accepts 200 s1"
    using task_fifo.refines [OF v a] e by auto
  have es: "sample_semaphore = s2" by (simp add: sample_semaphore_def c(1) s2(1))
  obtain Q where Q: "queues s2 200 = Some Q" "\<not> is_mutex Q" "queue_contents 200 s2 = queue_items s2 Q"
    "queue_capacity 200 s2 = qlen Q" "sys_ok s2" using queue_view [OF s2(2)] by blast
  have "length (queue_items s2 Q) = length [[] :: u8 list]" using Q(3) s2(3) by simp
  then have "qcount Q = 1" by (simp only: queue_items_length) simp
  moreover have "qlen Q = 1" using Q(4) s2(4) by simp
  moreover have "uxItemSize Q = 0"
    using fun_cong [OF s2(5), of "Send queueSEND_TO_BACK []"] a Q(1) by (simp add: queue_accepts_def unat_eq_0)
  ultimately show ?thesis using that [of Q] Q es by (simp add: word_unat_eq_iff)
qed
section \<open>Interrupt handlers\<close>

text \<open>
  An interrupt handler that runs interrupt-safe calls on queues, each on an existing queue with an
  item of its size, and the tick interrupt while the scheduler is suspended.
\<close>

datatype isr = IsrQueue qid fifo_op | IsrTick

definition isr_exec :: "isr \<Rightarrow> system \<Rightarrow> system option" where
  "isr_exec i s = (case i of
     IsrQueue q op \<Rightarrow>
       (if (\<exists>Q. queues s q = Some Q \<and> \<not> is_mutex Q) \<and> queue_accepts q s op then map_option snd (isr_step_op q op s)
        else Some s)
   | IsrTick \<Rightarrow>
       (if uxSchedulerSuspended (kern s) \<noteq> 0 then on_kernel xPortSysTickHandle s else Some s))"

fun isr_handler :: "isr list \<Rightarrow> system \<Rightarrow> system option" where
  "isr_handler [] s = Some s"
| "isr_handler (i # is) s = do { s \<leftarrow> isr_exec i s; isr_handler is s }"

lemma isr_step_refl: "sys_ok s \<Longrightarrow> isr_step s s"
  by (simp add: isr_step_def)

lemma isr_step_trans: "isr_step s s' \<Longrightarrow> isr_step s' s'' \<Longrightarrow> isr_step s s''"
  by (auto simp: isr_step_def)

lemma woken_running:
  assumes ok: "kernel_ok k" and run: "running_ready k" and w: "woke k k'" "cont k' = first_woken l k" and l: "\<not> kernel_list l"
  shows "running_ready k'"
proof -
  note r = running_event_free [OF kernel_ok_kinv [OF ok] run]
  have "pxCurrentTCB k \<noteq> task_of i" if c: "litems k l = i # is" for i "is"
  proof
    assume e: "pxCurrentTCB k = task_of i"
    obtain t where "i = Event t" using event_list_items [OF kernel_ok_kinv [OF ok] l, of i] c by auto
    then have "cont k (Event (pxCurrentTCB k)) = Some l"
      using delayed_items(1) [OF kernel_ok_kinv [OF ok], of i l] c e by simp
    then show False using r(1) by simp
  qed
  then show ?thesis using run w unfolding running_ready_def woke_def same_env_def
    by (auto simp: first_woken_def split: list.splits if_splits)
qed

lemma isr_changed:
  assumes ok: "sys_ok s" and q: "queues s q = Some Q" and nm: "\<not> is_mutex Q" and l: "\<not> kernel_list l"
    and c: "queue_changed q Q xs l s s'"
  shows "isr_step s s'"
proof -
  obtain Q' where Q': "queues s' = (queues s)(q := Some Q')" "same_shape Q Q'" using c by (auto simp: queue_changed_def)
  have w: "woke (kern s) (kern s')" "cont (kern s') = first_woken l (kern s)" "sys_ok s'"
    using c by (auto simp: queue_changed_def)
  have "tx_free r s \<longrightarrow> tx_free r s'" "rx_free r s \<longrightarrow> rx_free r s'" for r
    using q Q' by (auto simp: tx_free_def rx_free_def same_shape_def)
  moreover have "shapes s' = shapes s" by (rule same_shape_shapes [OF q Q' nm])
  moreover have "running_ready (kern s) \<longrightarrow> running_ready (kern s')"
    using woken_running [OF sys_okD(1) [OF ok] _ w(1,2) l] by blast
  ultimately show ?thesis using w(1,3) by (simp add: isr_step_def woke_def same_env_def)
qed

lemma isr_counted:
  assumes q: "queues s q = Some Q" and nm: "\<not> is_mutex Q" and s': "sys_ok s'" "kern s' = kern s"
    "queues s' = (queues s)(q := Some Q')" and sh: "same_shape P Q'" "pcHead P = pcHead Q" "uxLength P = uxLength Q"
    "uxItemSize P = uxItemSize Q" and u: "xTxLock Q = queueUNLOCKED \<longrightarrow> xTxLock P = queueUNLOCKED"
    "xRxLock Q = queueUNLOCKED \<longrightarrow> xRxLock P = queueUNLOCKED"
  shows "isr_step s s'"
proof -
  have "shapes s' = shapes s" using q nm s'(3) sh by (auto simp: shapes_def shape_def same_shape_def)
  moreover have "tx_free r s \<longrightarrow> tx_free r s'" "rx_free r s \<longrightarrow> rx_free r s'" for r
    using q u s'(3) sh(1) by (auto simp: tx_free_def rx_free_def same_shape_def)
  ultimately show ?thesis using s'(1,2) by (simp add: isr_step_def)
qed

lemma isr_queue_ok:
  assumes ok: "sys_ok s" and q: "queues s q = Some Q" and nm: "\<not> is_mutex Q" and a: "queue_accepts q s op"
  shows "\<exists>r s'. isr_step_op q op s = Some (r, s') \<and> isr_step s s'"
proof (cases op)
  case (Send pos x)
  note m = accepted_send(1) [OF a [unfolded Send] q nm]
  show ?thesis
  proof (cases "uxMessagesWaiting Q < uxLength Q \<or> pos = queueOVERWRITE")
    case room: True
    show ?thesis
    proof (cases "xTxLock Q = queueUNLOCKED")
      case True
      obtain y s' where "xQueueGenericSendFromISR q x pos s = Some (True, y, s')"
        "queue_changed q Q (fifo_put pos (take (qsize Q) x) (queue_items s Q)) (TasksWaitingToReceive q) s s'"
        using sendFromISR_effect(1) [OF ok q m room True] by blast
      then show ?thesis using isr_changed [OF ok q nm, of "TasksWaitingToReceive q"] by (auto simp: isr_step_op_def Send)
    next
      case False
      obtain Q' s' where s': "xQueueGenericSendFromISR q x pos s = Some (True, False, s')" "sys_ok s'" "kern s' = kern s"
        "queues s' = (queues s)(q := Some Q')" "same_shape (Q\<lparr>xTxLock := xTxLock Q + 1\<rparr>) Q'"
        using sendFromISR_effect(2) [OF ok q m room False] by blast
      have "isr_step s s'"
        by (rule isr_counted [OF q nm s'(2-5)]) (use False in simp_all)
      then show ?thesis using s'(1) by (simp add: isr_step_op_def Send)
    qed
  next
    case False
    then show ?thesis using isr_step_refl [OF ok] q by (simp add: isr_step_op_def Send xQueueGenericSendFromISR_def)
  qed
next
  case Receive
  show ?thesis
  proof (cases "uxMessagesWaiting Q > 0")
    case n: True
    show ?thesis
    proof (cases "xRxLock Q = queueUNLOCKED")
      case True
      obtain y s' where "xQueueReceiveFromISR q s = Some (Some (hd (queue_items s Q)), y, s')"
        "queue_changed q Q (tl (queue_items s Q)) (TasksWaitingToSend q) s s'"
        using receiveFromISR_effect(1) [OF ok q nm n True] by blast
      then show ?thesis using isr_changed [OF ok q nm, of "TasksWaitingToSend q"] by (auto simp: isr_step_op_def Receive)
    next
      case False
      obtain Q' s' where s': "xQueueReceiveFromISR q s = Some (Some (hd (queue_items s Q)), False, s')" "sys_ok s'"
        "kern s' = kern s" "queues s' = (queues s)(q := Some Q')" "same_shape (Q\<lparr>xRxLock := xRxLock Q + 1\<rparr>) Q'"
        using receiveFromISR_effect(2) [OF ok q nm n False] by blast
      have "isr_step s s'"
        by (rule isr_counted [OF q nm s'(2-5)]) (use False in simp_all)
      then show ?thesis using s'(1) by (simp add: isr_step_op_def Receive)
    qed
  next
    case False
    then show ?thesis using isr_step_refl [OF ok] q by (simp add: isr_step_op_def Receive xQueueReceiveFromISR_def)
  qed
next
  case Peek
  then show ?thesis using peekFromISR_effect [OF ok q nm] isr_step_refl [OF ok] by (simp add: isr_step_op_def)
qed

lemma isr_tick_ok:
  assumes ok: "sys_ok s" and su: "uxSchedulerSuspended (kern s) \<noteq> 0"
  shows "\<exists>s'. on_kernel xPortSysTickHandle s = Some s' \<and> isr_step s s'"
proof -
  define k where "k = (kern s)\<lparr>uxPendedTicks := uxPendedTicks (kern s) + 1\<rparr>"
  have "kinv_now {} k"
    by (rule kinv_now_frame [OF kernel_ok_kinv [OF sys_okD(1) [OF ok]]]) (simp_all add: k_def)
  then have "kernel_ok k" using su by (simp add: kernel_ok_def k_def)
  then have "sys_ok (s\<lparr>kern := k\<rparr>)"
    by (rule sys_ok_kern(1) [OF ok]) (use sys_okD(2) [OF ok] su in \<open>simp_all add: k_def\<close>)
  moreover have "on_kernel xPortSysTickHandle s = Some (s\<lparr>kern := k\<rparr>)"
    using su by (simp add: on_kernel_def xPortSysTickHandle_def xTaskIncrementTick_def k_def)
  ultimately show ?thesis
    by (intro exI [of _ "s\<lparr>kern := k\<rparr>"])
      (simp add: isr_step_def k_def running_ready_def shapes_def tx_free_def rx_free_def fun_eq_iff)
qed

lemma isr_exec_ok: "sys_ok s \<Longrightarrow> \<exists>s'. isr_exec i s = Some s' \<and> isr_step s s'"
  using isr_queue_ok isr_tick_ok isr_step_refl by (cases i) (fastforce simp: isr_exec_def)+

lemma isr_handler_ok: "sys_ok s \<Longrightarrow> \<exists>s'. isr_handler is s = Some s' \<and> isr_step s s'"
proof (induction "is" arbitrary: s)
  case (Cons i "is")
  obtain s1 where s1: "isr_exec i s = Some s1" "isr_step s s1" using isr_exec_ok [OF Cons.prems] by blast
  obtain s2 where "isr_handler is s1 = Some s2" "isr_step s1 s2" using Cons.IH [OF isr_stepD(1) [OF s1(2)]] by blast
  then show ?case using s1 isr_step_trans by auto
qed (simp add: isr_step_refl)

lemma isr_handlers_irq_ok: "irq_ok (\<lambda>n. isr_handler (h n))"
  using isr_handler_ok by (auto simp: irq_ok_def)

lemma sample_semaphore_running:
  "running_ready (kern sample_semaphore)" "uxSchedulerSuspended (kern sample_semaphore) = 0"
proof -
  let ?s = "snd (the (xQueueGenericCreate 200 2000 sample_garbage (\<lambda>n. replicate n 0) 1 0 sample_sys0))"
  obtain s1 Q1 where c: "xQueueGenericCreate 200 2000 sample_garbage (\<lambda>n. replicate n 0) 1 0 sample_sys0 = Some (200, s1)"
    "sys_ok s1" "items_of s1 = (items_of sample_sys0)(200 := Some [])" "queues s1 = (queues sample_sys0)(200 := Some Q1)"
    "pcHead Q1 = 2000" "uxLength Q1 = 1" "uxItemSize Q1 = 0" "cont (kern s1) = cont (kern sample_sys0)"
    using create_effect_queue [OF sample_sys0_ok _ _ _ sample_event_lists, of 200 2000 1 0 "\<lambda>n. replicate n 0" sample_garbage]
    by (auto simp: sample_sys0_def)
  have s1: "?s = s1" by (simp add: c(1))
  have "pxCurrentTCB (kern ?s) = 3" "uxSchedulerSuspended (kern ?s) = 0"
    by (simp_all add: sample_sys0_def xQueueGenericCreate_def xQueueGenericReset_def set_queue_def Let_def)
  then have k1: "running_ready (kern s1)" "uxSchedulerSuspended (kern s1) = 0"
    using c(8) unfolding s1 by (simp_all add: running_ready_def sample_sys0_def)
  have q1: "queues s1 200 = Some Q1" "\<not> is_mutex Q1" using c(4,5) by simp_all
  have "queue_items s1 Q1 = []" using fun_cong [OF c(3), of 200] q1(1) by (simp add: items_of_def)
  then have n: "uxMessagesWaiting Q1 < uxLength Q1 \<or> queueSEND_TO_BACK = queueOVERWRITE"
    using c(6) by (simp add: queue_items_Nil)
  have m: "may_send Q1 queueSEND_TO_BACK []" using c(5,7) by (simp add: may_send_def)
  obtain s2 where s2: "send_enter 200 [] 0 queueSEND_TO_BACK None s1 = Some (Return True, s2)"
    "queue_changed 200 Q1 (fifo_put queueSEND_TO_BACK (take (qsize Q1) []) (queue_items s1 Q1)) (TasksWaitingToReceive 200) s1 s2"
    using send_enter_effect [OF c(2) q1(1) m n] by blast
  have "sample_semaphore = s2"
    using s2(1) by (simp add: sample_semaphore_def s1 queue_step_def xQueueGenericSend_def)
  moreover have "isr_step s1 s2" by (rule isr_changed [OF c(2) q1 _ s2(2)]) simp
  ultimately show "running_ready (kern sample_semaphore)" "uxSchedulerSuspended (kern sample_semaphore) = 0"
    using isr_stepD(3,5) [of s1 s2] k1 by simp_all
qed

text \<open>
  C14: \<open>xQueueGenericSend\<close> under interrupts. Whatever interrupt-safe queue calls and, while the scheduler is suspended, ticks
  happen after each critical section of the call, between the two sections of \<open>prvUnlockQueue\<close> too, and after each
  kernel call it makes, a pass of the call by the running task ends, leaves the system consistent with the scheduler
  running, never changes the shape of a queue, and returns success exactly when there was room at
  the start; it asks for another pass only if the caller wanted to wait and time is left.
\<close>

theorem xQueueGenericSend_under_interrupts:
  assumes "irq_ok irq" and "sys_ok s" and "uxSchedulerSuspended (kern s) = 0" and "running_ready (kern s)"
    and "queues s q = Some Q" and "may_send Q pos item"
  shows "\<exists>r s'. xQueueGenericSend irq q item w pos tmo s = Some (r, s') \<and> sys_ok s' \<and>
    uxSchedulerSuspended (kern s') = 0 \<and> shapes s' = shapes s \<and> pxCurrentTCB (kern s') = pxCurrentTCB (kern s) \<and>
    (r = Done True \<longleftrightarrow> uxMessagesWaiting Q < uxLength Q \<or> pos = queueOVERWRITE) \<and>
    (\<forall>tmo' w'. r = Again tmo' w' \<longrightarrow> 0 < w' \<and> w \<noteq> 0)"
  using send_pass_effect [OF assms, of w tmo] unfolding pass_end_def by blast

theorem xQueueGenericSend_under_interrupts_witness:
  "\<exists>r s'. xQueueGenericSend (\<lambda>n. isr_handler [IsrTick, IsrQueue 200 Receive]) 200 [] 10 queueSEND_TO_BACK None sample_semaphore =
    Some (r, s') \<and> sys_ok s' \<and> uxSchedulerSuspended (kern s') = 0 \<and> r \<noteq> Done True"
proof -
  obtain Q where Q: "sys_ok sample_semaphore" "queues sample_semaphore 200 = Some Q" "\<not> is_mutex Q" "uxItemSize Q = 0"
    "uxLength Q = 1" "uxMessagesWaiting Q = 1" by (rule sample_semaphore_facts)
  have "may_send Q queueSEND_TO_BACK []" using Q by (simp add: may_send_def)
  from xQueueGenericSend_under_interrupts [OF isr_handlers_irq_ok [of "\<lambda>n. [IsrTick, IsrQueue 200 Receive]"]
      Q(1) sample_semaphore_running(2,1) Q(2) this, of 10 None] show ?thesis
    using Q(5,6) by auto
qed

text \<open>
  C15: \<open>xQueueGenericReceive\<close> under interrupts. Whatever interrupt-safe queue calls and, while the scheduler is suspended,
  ticks happen after each critical section of the call and each kernel call it makes, a pass of a receive, a peek or
  a mutex take that finds the queue empty ends, leaves the system consistent with the scheduler
  running, and returns failure or asks for another pass; the latter only if time is left.
\<close>

theorem xQueueGenericReceive_under_interrupts:
  assumes "irq_ok irq" and "sys_ok s" and "uxSchedulerSuspended (kern s) = 0" and "running_ready (kern s)"
    and "queues s q = Some Q" and "uxMessagesWaiting Q = 0"
    and "is_mutex Q \<longrightarrow> pxMutexHolder Q = 0 \<or> pxMutexHolder Q \<in> dom (tcbs (kern s))"
  shows "\<exists>r s'. xQueueGenericReceive irq q w peek tmo s = Some (r, s') \<and> sys_ok s' \<and>
    uxSchedulerSuspended (kern s') = 0 \<and> shapes s' = shapes s \<and>
    (r = Done None \<or> (\<exists>tmo' w'. r = Again tmo' w' \<and> 0 < w' \<and> w \<noteq> 0))"
proof -
  obtain r s' where r: "xQueueGenericReceive irq q w peek tmo s = Some (r, s')" "pass_end (pxCurrentTCB (kern s)) s s'"
    "\<forall>x. r \<noteq> Done (Some x)" "\<forall>tmo' w'. r = Again tmo' w' \<longrightarrow> 0 < w' \<and> w \<noteq> 0"
    using receive_pass_effect [OF assms(1-5) _ assms(6)] assms(7) by blast
  have "r = Done None \<or> (\<exists>tmo' w'. r = Again tmo' w' \<and> 0 < w' \<and> w \<noteq> 0)"
  proof (cases r)
    case (Done x)
    then show ?thesis using r(3) by (cases x) auto
  qed (use r(4) in auto)
  then show ?thesis using r(1,2) by (auto simp: pass_end_def)
qed

theorem xQueueGenericReceive_under_interrupts_witness:
  "\<exists>r s'. xQueueGenericReceive (\<lambda>n. isr_handler [IsrQueue 100 (Send queueSEND_TO_BACK [9])]) 100 10 False None sample_sys =
    Some (r, s') \<and> sys_ok s' \<and> uxSchedulerSuspended (kern s') = 0"
proof -
  obtain Q where Q: "queues sample_sys 100 = Some Q" "pcHead Q = 1000" "uxMessagesWaiting Q = 0" by (rule sample_sys_queue)
  then have "is_mutex Q \<longrightarrow> pxMutexHolder Q = 0 \<or> pxMutexHolder Q \<in> dom (tcbs (kern sample_sys))" by simp
  from xQueueGenericReceive_under_interrupts [OF isr_handlers_irq_ok [of "\<lambda>n. [IsrQueue 100 (Send queueSEND_TO_BACK [9])]"]
      sample_sys_facts(1,3,4) Q(1,3) this, of 10 False None] show ?thesis
    by blast
qed

section \<open>Wake-ups\<close>

text \<open>
  C17: unlocking. \<open>prvUnlockQueue\<close>, called with the scheduler suspended, ends and marks as pending exactly
  the first \<open>xTxLock\<close> tasks waiting to receive and the first \<open>xRxLock\<close> tasks waiting to send, and leaves the
  queue unlocked with its items.
\<close>

theorem prvUnlockQueue_wakes:
  assumes "sys_ok s" and "queues s q = Some Q" and "uxSchedulerSuspended (kern s) \<noteq> 0"
  shows "\<exists>s'. prvUnlockQueue Some q s = Some s' \<and> sys_ok s' \<and> items_of s' = items_of s \<and>
    queues s' = (queues s)(q := Some (Q\<lparr>xRxLock := queueUNLOCKED, xTxLock := queueUNLOCKED\<rparr>)) \<and>
    (\<forall>i. cont (kern s') i =
      (if i \<in> set (take (nat (sint (xTxLock Q))) (litems (kern s) (TasksWaitingToReceive q))) \<or>
          i \<in> set (take (nat (sint (xRxLock Q))) (litems (kern s) (TasksWaitingToSend q)))
       then Some PendingReadyList else cont (kern s) i))"
  using prvUnlockQueue_effect [OF assms] by blast

lemma sample_suspend_ok:
  "sys_ok (sample_sys\<lparr>kern := vTaskSuspendAll (kern sample_sys)\<rparr>)"
  "uxSchedulerSuspended (vTaskSuspendAll (kern sample_sys)) = 1"
proof -
  show one: "uxSchedulerSuspended (vTaskSuspendAll (kern sample_sys)) = 1"
    using sample_sys_facts(3) by (simp add: vTaskSuspendAll_def)
  have "kinv_now {} (vTaskSuspendAll (kern sample_sys))"
    by (rule kinv_now_frame [OF kernel_ok_kinv [OF sys_okD(1) [OF sample_sys_facts(1)]]]) (simp_all add: vTaskSuspendAll_def)
  then have "kernel_ok (vTaskSuspendAll (kern sample_sys))" using one by (simp add: kernel_ok_def)
  then show "sys_ok (sample_sys\<lparr>kern := vTaskSuspendAll (kern sample_sys)\<rparr>)"
    by (rule sys_ok_kern(1) [OF sample_sys_facts(1)]) (use one sample_sys_facts(2) in \<open>simp_all add: vTaskSuspendAll_def\<close>)
qed

theorem prvUnlockQueue_wakes_witness:
  "\<exists>s'. prvUnlockQueue Some 100 (sample_sys\<lparr>kern := vTaskSuspendAll (kern sample_sys)\<rparr>) = Some s' \<and> sys_ok s'"
proof -
  obtain Q where "queues sample_sys 100 = Some Q" by (rule sample_sys_queue)
  then show ?thesis
    using prvUnlockQueue_wakes [OF sample_suspend_ok(1), of 100 Q] sample_suspend_ok(2) by auto
qed

text \<open>
  C16: no lost wake-up. When an interrupt sends to a queue that a task has locked, the waiting tasks are
  left alone and the send is counted; when the queue is then unlocked and the scheduler resumed, the
  first waiting task is ready at its priority.
\<close>

theorem isr_send_not_lost:
  assumes "sys_ok s" and "queues s q = Some Q" and "may_send Q queueSEND_TO_BACK item"
    and "uxMessagesWaiting Q < uxLength Q" and "uxSchedulerSuspended (kern s) = 1"
    and "0 \<le> sint (xTxLock Q)" and "sint (xTxLock Q) < 2 ^ 31 - 1"
    and "litems (kern s) (TasksWaitingToReceive q) = i # is"
  shows "\<exists>s1 s2 y k. xQueueGenericSendFromISR q item queueSEND_TO_BACK s = Some (True, False, s1) \<and> kern s1 = kern s \<and>
    prvUnlockQueue Some q s1 = Some s2 \<and> xTaskResumeAll (kern s2) = Some (y, k) \<and> kernel_ok k \<and>
    cont k (Generic (task_of i)) = Some (Ready (prio (kern s) (task_of i)))"
proof -
  have nl: "xTxLock Q \<noteq> queueUNLOCKED" using assms(6) by (auto simp: queueUNLOCKED_def)
  obtain Q1 s1 where s1: "xQueueGenericSendFromISR q item queueSEND_TO_BACK s = Some (True, False, s1)" "sys_ok s1"
    "kern s1 = kern s" "queues s1 = (queues s)(q := Some Q1)" "same_shape (Q\<lparr>xTxLock := xTxLock Q + 1\<rparr>) Q1"
    using sendFromISR_effect(2) [OF assms(1-3) _ nl] assms(4) by blast
  have "sint (xTxLock Q + 1) = sint (xTxLock Q) + 1"
    using assms(6,7) by (simp add: sint_word_ariths signed_take_bit_int_eq_self)
  then have lock: "nat (sint (xTxLock Q1)) = Suc (nat (sint (xTxLock Q)))"
    using s1(5) assms(6) by (simp add: same_shape_def)
  obtain t where t: "i = Event t"
    using event_list_items [OF kernel_ok_kinv [OF sys_okD(1) [OF assms(1)]], of "TasksWaitingToReceive q" i] assms(8) by auto
  have q1: "queues s1 q = Some Q1" "uxSchedulerSuspended (kern s1) \<noteq> 0" using s1(3,4) assms(5) by simp_all
  obtain s2 where s2: "prvUnlockQueue Some q s1 = Some s2" "sys_ok s2" "woke (kern s1) (kern s2)"
    "\<forall>j. cont (kern s2) j =
      (if j \<in> set (take (nat (sint (xTxLock Q1))) (litems (kern s1) (TasksWaitingToReceive q))) \<or>
          j \<in> set (take (nat (sint (xRxLock Q1))) (litems (kern s1) (TasksWaitingToSend q)))
       then Some PendingReadyList else cont (kern s1) j)"
    using prvUnlockQueue_effect [OF s1(2) q1] by blast
  have "cont (kern s2) (Event t) = Some PendingReadyList" using s2(4) assms(8) t by (simp add: s1(3) lock)
  then have p: "pending (kern s2) t" by (simp add: pending_def)
  have e2: "uxSchedulerSuspended (kern s2) = 1" "tcbs (kern s2) = tcbs (kern s)"
    using s2(3) s1(3) assms(5) by (simp_all add: woke_def same_env_def)
  obtain y k where k: "xTaskResumeAll (kern s2) = Some (y, k)" "kernel_ok k"
    "\<forall>t. cont k (Generic t) = (if pending (kern s2) t \<or> due (kern s2) (uxPendedTicks (kern s2)) t
       then Some (Ready (prio (kern s2) t)) else cont (kern s2) (Generic t))"
    using resume_all_effect [OF kernel_ok_kinv [OF sys_okD(1) [OF s2(2)]] e2(1) sys_okD(2) [OF s2(2)]] by blast
  then show ?thesis using s1(1,3) s2(1) p e2(2) t by auto
qed

text \<open>A sample state: a task waits on the locked queue 100.\<close>

definition sample_blocked :: system where
  "sample_blocked = the (do {
     s \<leftarrow> suspend_lock no_irq 100 sample_sys;
     on_kernel (vTaskPlaceOnEventList (TasksWaitingToReceive 100) 7) s
   })"

lemma sample_blocked_facts:
  obtains Q i "is" where "sys_ok sample_blocked" "queues sample_blocked 100 = Some Q" "may_send Q queueSEND_TO_BACK [5]"
    "uxMessagesWaiting Q < uxLength Q" "uxSchedulerSuspended (kern sample_blocked) = 1" "xTxLock Q = 0"
    "litems (kern sample_blocked) (TasksWaitingToReceive 100) = i # is" "task_of i = 3"
proof -
  obtain Q where Q: "queues sample_sys 100 = Some Q" "pcHead Q = 1000" "uxLength Q = 2" "uxItemSize Q = 1"
    "uxMessagesWaiting Q = 0" "unlocked Q" by (rule sample_sys_queue)
  let ?l = "TasksWaitingToReceive 100"
  let ?s0 = "sample_sys\<lparr>kern := vTaskSuspendAll (kern sample_sys)\<rparr>"
  let ?Q = "Q\<lparr>xRxLock := 0, xTxLock := 0\<rparr>"
  let ?s1 = "set_queue 100 ?Q ?s0"
  have sl: "suspend_lock no_irq 100 sample_sys = Some ?s1"
    using Q(1,6) by (simp add: suspend_lock_def no_irq_def prvLockQueue_def queueLOCKED_UNMODIFIED_def unlocked_def)
  have ok1: "sys_ok ?s1"
    by (rule sys_ok_locks(1) [OF sample_suspend_ok(1), of 100 Q]) (use Q(1) sample_suspend_ok(2) in simp_all)
  have k1: "kern ?s1 = vTaskSuspendAll (kern sample_sys)" "queues ?s1 100 = Some ?Q" by (simp_all add: set_queue_def)
  have run: "running_ready (kern ?s1)" using sample_sys_facts(4) unfolding k1(1) by (simp add: vTaskSuspendAll_def running_ready_def)
  have cur: "pxCurrentTCB (kern ?s1) = 3" using sample_sys_facts(2) unfolding k1(1) by (simp add: vTaskSuspendAll_def)
  obtain k where k: "vTaskPlaceOnEventList ?l 7 (kern ?s1) = Some k" "kernel_ok k" "same_env (kern ?s1) k"
    "inits k = inits (kern ?s1)" "cont k = (cont (kern ?s1))(Event (pxCurrentTCB (kern ?s1)) := Some ?l,
       Generic (pxCurrentTCB (kern ?s1)) := Some (wait_list (kern ?s1) 7))"
    using place_ok [OF sys_okD(1) [OF ok1] run _ sys_okD(5) [OF ok1 k1(2)], of 100 7] by auto
  have e: "sample_blocked = ?s1\<lparr>kern := k\<rparr>" by (simp add: sample_blocked_def sl on_kernel_def k(1))
  have ek: "uxSchedulerSuspended k = 1" "pxCurrentTCB k \<noteq> 0"
    using k(3) k1(1) sample_suspend_ok(2) cur by (simp_all add: same_env_def)
  have "sys_ok sample_blocked" unfolding e by (rule sys_ok_kern(1) [OF ok1 k(2) ek(2) k(4)]) (use ek in simp_all)
  moreover have "cont k i = Some ?l \<longleftrightarrow> i = Event 3" for i
  proof -
    have "cont (kern ?s1) = cont sample" using sample_queue_facts(4) unfolding k1(1) by (simp add: vTaskSuspendAll_def sample_sys_kern)
    then show ?thesis using k(5) cur kinvD(3) [OF kernel_ok_kinv [OF k(2)], of i ?l] by (cases i) auto
  qed
  then have "set (litems k ?l) = {Event 3}" using delayed_items(1) [OF kernel_ok_kinv [OF k(2)], of _ ?l] by auto
  then obtain i "is" where "litems k ?l = i # is" "i = Event 3" by (cases "litems k ?l") auto
  moreover have "queues sample_blocked 100 = Some ?Q" "kern sample_blocked = k" by (simp_all add: e set_queue_def)
  moreover have "may_send ?Q queueSEND_TO_BACK [5]" using Q by (simp add: may_send_def)
  ultimately show ?thesis using that [of ?Q i "is"] ek(1) Q(3,5) by simp
qed

theorem isr_send_not_lost_witness:
  "\<exists>s1 s2 y k. xQueueGenericSendFromISR 100 [5] queueSEND_TO_BACK sample_blocked = Some (True, False, s1) \<and>
    prvUnlockQueue Some 100 s1 = Some s2 \<and> xTaskResumeAll (kern s2) = Some (y, k) \<and>
    (\<exists>p. cont k (Generic 3) = Some (Ready p))"
proof -
  obtain Q i "is" where "sys_ok sample_blocked" "queues sample_blocked 100 = Some Q" "may_send Q queueSEND_TO_BACK [5]"
    "uxMessagesWaiting Q < uxLength Q" "uxSchedulerSuspended (kern sample_blocked) = 1" "xTxLock Q = 0"
    "litems (kern sample_blocked) (TasksWaitingToReceive 100) = i # is" "task_of i = 3"
    by (rule sample_blocked_facts)
  then show ?thesis using isr_send_not_lost [of sample_blocked 100 Q "[5]" i "is"] by fastforce
qed

section \<open>Blocking\<close>

text \<open>A pass without interrupts: nothing happens while the queue is locked.\<close>

definition quiet_pass :: "qid \<Rightarrow> system \<Rightarrow> bool" where
  "quiet_pass q s \<longleftrightarrow> in_pass q (pxCurrentTCB (kern s)) s \<and> running_ready (kern s) \<and>
     (\<forall>t. \<not> pending (kern s) t) \<and> uxPendedTicks (kern s) = 0 \<and>
     (\<exists>Q. queues s q = Some Q \<and> xRxLock Q = 0 \<and> xTxLock Q = 0)"

lemma suspend_lock_quiet:
  assumes ok: "sys_ok s" and su: "uxSchedulerSuspended (kern s) = 0" and run: "running_ready (kern s)" and q: "queues s q = Some Q"
  defines "s' \<equiv> set_queue q (Q\<lparr>xRxLock := 0, xTxLock := 0\<rparr>) (s\<lparr>kern := vTaskSuspendAll (kern s)\<rparr>)"
  shows "suspend_lock no_irq q s = Some s'" and "quiet_pass q s'"
proof -
  have u: "unlocked Q" using sys_okD(6) [OF ok q su] .
  show sl: "suspend_lock no_irq q s = Some s'"
    using q u by (simp add: suspend_lock_def no_irq_def prvLockQueue_def queueLOCKED_UNMODIFIED_def unlocked_def s'_def)
  obtain s2 where s2: "suspend_lock no_irq q s = Some s2" "in_pass q (pxCurrentTCB (kern s)) s2" "running_ready (kern s2)"
    using suspend_lock_effect [OF no_irq_ok ok su run q] by blast
  have e: "s2 = s'" using sl s2(1) by simp
  have f: "cont (kern s') = cont (kern s)" "uxPendedTicks (kern s') = uxPendedTicks (kern s)"
    "pxCurrentTCB (kern s') = pxCurrentTCB (kern s)" "queues s' q = Some (Q\<lparr>xRxLock := 0, xTxLock := 0\<rparr>)"
    by (simp_all add: s'_def set_queue_def vTaskSuspendAll_def)
  show "quiet_pass q s'" using s2(2,3) kernel_ok_free [OF sys_okD(1) [OF ok] su]
    unfolding quiet_pass_def e f(2,3) by (simp add: f(4) pending_def f(1))
qed

text \<open>Unlocking the queue, resuming the scheduler and yielding when nothing happened in the pass.\<close>

lemma release_quiet:
  assumes ok: "sys_ok s" and su: "uxSchedulerSuspended (kern s) = 1" and ou: "others_unlocked q s"
    and Q: "queues s q = Some Q" "xRxLock Q = 0" "xTxLock Q = 0"
    and np: "\<And>t. \<not> pending (kern s) t" and nt: "uxPendedTicks (kern s) = 0"
  obtains s2 y k3 s' where "prvUnlockQueue Some q s = Some s2" "xTaskResumeAll (kern s2) = Some (y, k3)"
    "s' = s2\<lparr>kern := if y then k3 else portYIELD k3\<rparr>" "sys_ok s'" "uxSchedulerSuspended (kern s') = 0"
    "cont (kern s') = cont (kern s)" "ival (kern s') = ival (kern s)" "xTickCount (kern s') = xTickCount (kern s)"
    "tcbs (kern s') = tcbs (kern s)" "pxCurrentTCB (kern s') = pxCurrentTCB (kern s)" "items_of s' = items_of s"
    "pending_soft_sv (kern s')" "queues s' = (queues s)(q := Some (Q\<lparr>xRxLock := queueUNLOCKED, xTxLock := queueUNLOCKED\<rparr>))"
proof -
  obtain s2 where s2: "prvUnlockQueue Some q s = Some s2" "sys_ok s2" "items_of s2 = items_of s"
    "woke (kern s) (kern s2)" "queues s2 = (queues s)(q := Some (Q\<lparr>xRxLock := queueUNLOCKED, xTxLock := queueUNLOCKED\<rparr>))"
    "\<forall>i. cont (kern s2) i = cont (kern s) i"
    using prvUnlockQueue_effect [OF ok Q(1)] Q su by auto
  have e2: "uxSchedulerSuspended (kern s2) = 1" "pxCurrentTCB (kern s2) = pxCurrentTCB (kern s)" "uxPendedTicks (kern s2) = 0"
    "xTickCount (kern s2) = xTickCount (kern s)" "ival (kern s2) = ival (kern s)" "tcbs (kern s2) = tcbs (kern s)"
    using s2(4) su nt by (simp_all add: woke_def same_env_def)
  have c2: "cont (kern s2) = cont (kern s)" using s2(6) by (simp add: fun_eq_iff)
  have np2: "\<not> pending (kern s2) t" for t using np by (simp add: pending_def c2)
  obtain y k3 where k3: "xTaskResumeAll (kern s2) = Some (y, k3)" "kernel_ok k3"
    "same_env ((kern s2)\<lparr>uxSchedulerSuspended := 0\<rparr>) k3" "ival k3 = ival (kern s2)" "cont k3 = cont (kern s2)"
    "xTickCount k3 = xTickCount (kern s2)" "y \<longrightarrow> pending_soft_sv k3"
    using resume_all_quiet [OF kernel_ok_kinv [OF sys_okD(1) [OF s2(2)]] e2(1) sys_okD(2) [OF s2(2)] np2 e2(3)] by blast
  define k4 where "k4 = (if y then k3 else portYIELD k3)"
  have f4: "cont k4 = cont (kern s)" "ival k4 = ival (kern s)" "xTickCount k4 = xTickCount (kern s)" "tcbs k4 = tcbs (kern s)"
    "uxSchedulerSuspended k4 = 0" "pxCurrentTCB k4 = pxCurrentTCB (kern s)" "pending_soft_sv k4" "kernel_ok k4" "inits k4 = inits (kern s2)"
    using k3 c2 e2 kernel_ok_yield [OF k3(2)] xTaskResumeAll_inits [OF k3(1)]
    by (simp_all add: k4_def same_env_def) (simp_all add: portYIELD_def)
  have c4: "pxCurrentTCB k4 \<noteq> 0" using f4(6) sys_okD(2) [OF ok] by simp
  have u: "unlocked R" if "queues s2 r = Some R" for r R
    using that ou s2(5) by (auto simp: others_unlocked_def unlocked_def split: if_splits)
  have "sys_ok (s2\<lparr>kern := k4\<rparr>)" "items_of (s2\<lparr>kern := k4\<rparr>) = items_of s"
    using sys_ok_kern [OF s2(2) f4(8) c4 f4(9)] u s2(3) by simp_all
  then show thesis using that [OF s2(1) k3(1) refl] f4(1-7) s2(5) by (simp add: k4_def)
qed

lemma block_quiet:
  assumes p: "quiet_pass q s" and l: "l = TasksWaitingToSend q \<or> l = TasksWaitingToReceive q" and n: "0 < n"
  shows "\<exists>s'. block_on no_irq q l n s = Some s' \<and> sys_ok s' \<and> uxSchedulerSuspended (kern s') = 0 \<and>
    cont (kern s') = (cont (kern s))(Event (pxCurrentTCB (kern s)) := Some l,
      Generic (pxCurrentTCB (kern s)) := Some (wait_list (kern s) n)) \<and>
    (n \<noteq> portMAX_DELAY \<longrightarrow> ival (kern s') (Generic (pxCurrentTCB (kern s))) = xTickCount (kern s) + n) \<and>
    xTickCount (kern s') = xTickCount (kern s) \<and> tcbs (kern s') = tcbs (kern s) \<and>
    items_of s' = items_of s \<and> pending_soft_sv (kern s')"
proof -
  let ?t = "pxCurrentTCB (kern s)"
  have in_p: "in_pass q ?t s" and run: "running_ready (kern s)" and np: "\<And>t. \<not> pending (kern s) t"
    and nt: "uxPendedTicks (kern s) = 0" using p by (auto simp: quiet_pass_def)
  have ok: "sys_ok s" and su: "uxSchedulerSuspended (kern s) = 1" and ou: "others_unlocked q s"
    using in_p by (simp_all add: in_pass_def)
  obtain Q where Q: "queues s q = Some Q" "xRxLock Q = 0" "xTxLock Q = 0" using p by (auto simp: quiet_pass_def)
  have li: "l \<in> inits (kern s)" using l sys_okD(4,5) [OF ok Q(1)] by auto
  obtain k where k: "vTaskPlaceOnEventList l n (kern s) = Some k" "kernel_ok k" "same_env (kern s) k" "inits k = inits (kern s)"
    "cont k = (cont (kern s))(Event ?t := Some l, Generic ?t := Some (wait_list (kern s) n))"
    "n \<noteq> portMAX_DELAY \<longrightarrow> ival k (Generic ?t) = xTickCount (kern s) + n"
    "xTickCount k = xTickCount (kern s)" "uxPendedTicks k = uxPendedTicks (kern s)"
    using place_ok [OF sys_okD(1) [OF ok] run l li n] by blast
  let ?s = "s\<lparr>kern := k\<rparr>"
  have ek: "uxSchedulerSuspended (kern ?s) = 1" "pxCurrentTCB k \<noteq> 0" "tcbs k = tcbs (kern s)" "uxPendedTicks (kern ?s) = 0"
    using k(3,8) su nt sys_okD(2) [OF ok] by (simp_all add: same_env_def)
  have ok1: "sys_ok ?s" "items_of ?s = items_of s" using sys_ok_kern [OF ok k(2) ek(2) k(4)] ek(1) by simp_all
  have np1: "\<not> pending (kern ?s) t" for t using np [of t] l k(5) by (auto simp: pending_def)
  have ou1: "others_unlocked q ?s" and Q1: "queues ?s q = Some Q" using ou Q(1) by (simp_all add: others_unlocked_def)
  obtain s2 y k3 s' where r: "prvUnlockQueue Some q ?s = Some s2" "xTaskResumeAll (kern s2) = Some (y, k3)"
    "s' = s2\<lparr>kern := if y then k3 else portYIELD k3\<rparr>" "sys_ok s'" "uxSchedulerSuspended (kern s') = 0"
    "cont (kern s') = cont (kern ?s)" "ival (kern s') = ival (kern ?s)" "xTickCount (kern s') = xTickCount (kern ?s)"
    "tcbs (kern s') = tcbs (kern ?s)" "items_of s' = items_of ?s" "pending_soft_sv (kern s')"
    using release_quiet [OF ok1(1) ek(1) ou1 Q1 Q(2,3) np1 ek(4)] by metis
  have "block_on no_irq q l n s = Some s'"
    using k(1) r(1,2,3) by (simp add: block_on_def on_kernel_def no_irq_Some unlock_resume_def)
  then show ?thesis using r(4-11) k(5,6,7) ek(3) ok1(2) by simp
qed

text \<open>The first time-out check of a call that starts now finds no time passed.\<close>

lemma first_check:
  assumes "w \<noteq> 0" and "xNumOfOverflows k' = xNumOfOverflows k" "xTickCount k' = xTickCount k"
  shows "xTaskCheckForTimeOut (vTaskSetTimeOutState k) w k' = (False, vTaskSetTimeOutState k, w)"
  using assms by (auto simp: xTaskCheckForTimeOut_def vTaskSetTimeOutState_def word_gt_0)

lemma locked_items:
  assumes "queues s q = Some Q"
  shows "items_of (set_queue q (Q\<lparr>xRxLock := a, xTxLock := b\<rparr>) (s\<lparr>kern := k\<rparr>)) = items_of s"
proof -
  have e: "queue_items (set_queue q Q' (s\<lparr>kern := k\<rparr>)) = queue_items s" for Q'
    by (simp add: fun_eq_iff queue_items_def set_queue_def)
  show ?thesis
  proof
    fix r
    show "items_of (set_queue q (Q\<lparr>xRxLock := a, xTxLock := b\<rparr>) (s\<lparr>kern := k\<rparr>)) r = items_of s r"
      unfolding items_of_def e using assms by (cases "r = q") (simp_all add: set_queue_def)
  qed
qed

text \<open>
  C18: waiting for room. Without interrupts, \<open>xQueueGenericSend\<close> on a full queue with a waiting time blocks
  the running task: it waits in \<open>xTasksWaitingToSend\<close> and in the suspended list (unlimited wait) or the
  delayed list of its wake time, a context switch is requested, and queues and other tasks are unchanged.
\<close>

theorem xQueueGenericSend_blocks:
  assumes "sys_ok s" and "uxSchedulerSuspended (kern s) = 0" and "running_ready (kern s)" and "queues s q = Some Q"
    and "uxMessagesWaiting Q = uxLength Q" and "pos \<noteq> queueOVERWRITE" and "w \<noteq> 0"
  shows "\<exists>s'. xQueueGenericSend no_irq q item w pos None s = Some (Again (vTaskSetTimeOutState (kern s)) w, s') \<and>
    sys_ok s' \<and> uxSchedulerSuspended (kern s') = 0 \<and> items_of s' = items_of s \<and> pending_soft_sv (kern s') \<and>
    cont (kern s') = (cont (kern s))(Event (pxCurrentTCB (kern s)) := Some (TasksWaitingToSend q),
      Generic (pxCurrentTCB (kern s)) := Some (if w = portMAX_DELAY then SuspendedTaskList
        else if xTickCount (kern s) + w < xTickCount (kern s) then pxOverflowDelayedTaskList (kern s)
        else pxDelayedTaskList (kern s)))"
proof -
  let ?s = "set_queue q (Q\<lparr>xRxLock := 0, xTxLock := 0\<rparr>) (s\<lparr>kern := vTaskSuspendAll (kern s)\<rparr>)"
  note sl = suspend_lock_quiet [OF assms(1-4)]
  have f: "kern ?s = vTaskSuspendAll (kern s)" "queues ?s q = Some (Q\<lparr>xRxLock := 0, xTxLock := 0\<rparr>)"
    by (simp_all add: set_queue_def)
  have c: "xTaskCheckForTimeOut (vTaskSetTimeOutState (kern s)) w (kern ?s) = (False, vTaskSetTimeOutState (kern s), w)"
    unfolding f(1) by (rule first_check [OF assms(7)]) (simp_all add: vTaskSuspendAll_def)
  have w: "0 < w" using assms(7) by (simp add: word_gt_0)
  obtain s' where s': "block_on no_irq q (TasksWaitingToSend q) w ?s = Some s'" "sys_ok s'" "uxSchedulerSuspended (kern s') = 0"
    "cont (kern s') = (cont (kern ?s))(Event (pxCurrentTCB (kern ?s)) := Some (TasksWaitingToSend q),
      Generic (pxCurrentTCB (kern ?s)) := Some (wait_list (kern ?s) w))" "items_of s' = items_of ?s" "pending_soft_sv (kern s')"
    using block_quiet [OF sl(2) _ w] by blast
  have ik: "items_of ?s = items_of s" by (rule locked_items [OF assms(4)])
  have "xQueueGenericSend no_irq q item w pos None s = Some (Again (vTaskSetTimeOutState (kern s)) w, s')"
    using assms(4-7) sl(1) c s'(1) f(2)
    by (simp add: xQueueGenericSend_def send_enter_def entry_time_def send_block_def prvIsQueueFull_def no_irq_def)
  then show ?thesis using s' ik unfolding f(1) by (simp add: vTaskSuspendAll_def wait_list_def)
qed

theorem xQueueGenericSend_blocks_witness:
  "\<exists>tmo s'. xQueueGenericSend no_irq 200 [] 10 queueSEND_TO_BACK None sample_semaphore = Some (Again tmo 10, s') \<and>
    sys_ok s' \<and> (\<exists>t. cont (kern s') (Event t) = Some (TasksWaitingToSend 200))"
proof -
  obtain Q where "sys_ok sample_semaphore" "queues sample_semaphore 200 = Some Q" "uxLength Q = 1" "uxMessagesWaiting Q = 1"
    by (rule sample_semaphore_facts)
  then show ?thesis
    using xQueueGenericSend_blocks [of sample_semaphore 200 Q queueSEND_TO_BACK 10 "[]"] sample_semaphore_running by fastforce
qed

section \<open>Mutexes\<close>

lemma create_mutex_effect:
  assumes ok: "sys_ok s" and fresh: "queues s q = None" "q \<noteq> 0"
    and e: "litems (kern s) (TasksWaitingToSend q) = []" "litems (kern s) (TasksWaitingToReceive q) = []"
  shows "\<exists>s' Q. xQueueCreateMutex q s = Some (q, s') \<and> sys_ok s' \<and> queues s' = (queues s)(q := Some Q) \<and>
    is_mutex Q \<and> pxMutexHolder Q = 0 \<and> uxMessagesWaiting Q = 1 \<and> cont (kern s') = cont (kern s) \<and>
    litems (kern s') = litems (kern s) \<and> same_env (kern s) (kern s')"
proof -
  define Q where "Q = \<lparr>pcHead = 0, pcTail = 0, pcWriteTo = 0, pcReadFrom = 0, uxMessagesWaiting = 0,
      uxLength = 1, uxItemSize = 0, xRxLock = queueUNLOCKED, xTxLock = queueUNLOCKED\<rparr>"
  define k where "k = (kern s)\<lparr>heap := vListInitialise (TasksWaitingToReceive q)
      (vListInitialise (TasksWaitingToSend q) (heap (kern s)))\<rparr>"
  define s1 where "s1 = s\<lparr>kern := k, queues := (queues s)(q := Some Q), blocks := blocks s\<rparr>"
  have Q: "is_mutex Q" "uxLength Q = 1" "uxItemSize Q = 0" "uxMessagesWaiting Q = 0" "pxMutexHolder Q = 0" "unlocked Q"
    "mutex_ok Q" by (simp_all add: Q_def unlocked_def mutex_ok_def)
  note kk = kernel_ok_init_lists [OF sys_okD(1) [OF ok] e, folded k_def]
  have h: "pcHead R \<noteq> pcHead Q \<or> is_mutex R" for R using Q(1) by auto
  have ok1: "sys_ok s1"
    by (rule sys_ok_new_queue(1) [OF ok fresh(1) e s1_def [unfolded k_def] _ h _ Q(6)]) (use Q(7) in \<open>simp_all add: queue_ok_def\<close>)
  have q1: "queues s1 q = Some Q" by (simp add: s1_def)
  let ?s2 = "set_queue q (Q\<lparr>pcTail := 0, uxMessagesWaiting := 1\<rparr>) s1"
  have ok2: "sys_ok ?s2" by (rule sys_ok_mutex [OF ok1 q1 Q(1)]) simp
  have f2: "kern ?s2 = k" by (simp add: s1_def set_queue_def)
  have lr: "TasksWaitingToReceive q \<in> inits k" using kk(2) by simp
  have "listLIST_IS_EMPTY (TasksWaitingToReceive q) (heap k)"
    using event_list_empty [OF kk(1) lr] kk(5) e(2) by simp
  then have w: "on_kernel (wake_one portYIELD (TasksWaitingToReceive q)) ?s2 = Some ?s2"
    using f2 by (simp add: on_kernel_def wake_one_def)
  have d: "on_kernel (vTaskPriorityDisinherit 0) s1 = Some s1" by (simp add: on_kernel_def vTaskPriorityDisinherit_def)
  have "send_enter q [] 0 queueSEND_TO_BACK None s1 = Some (Return True, ?s2)"
    using q1 Q d w by (simp add: send_enter_def prvCopyDataToQueue_def)
  moreover have "s1 = (set_queue q Q s)\<lparr>kern := k\<rparr>" by (simp add: s1_def set_queue_def)
  ultimately have "xQueueCreateMutex q s = Some (q, ?s2)"
    using fresh(2) by (simp add: xQueueCreateMutex_def Q_def [symmetric] xQueueGenericSend_def)
      (simp add: set_queue_def k_def)
  moreover have "queues ?s2 = (queues s)(q := Some (Q\<lparr>pcTail := 0, uxMessagesWaiting := 1\<rparr>))"
    by (simp add: s1_def set_queue_def)
  moreover have "same_env (kern s) k" by (simp add: k_def same_env_def)
  ultimately show ?thesis using ok2 Q(1) kk(3,5) f2
    by (intro exI [of _ ?s2] exI [of _ "Q\<lparr>pcTail := 0, uxMessagesWaiting := 1\<rparr>"]) simp
qed

text \<open>
  C39: mutual exclusion. When the running task takes a free mutex it becomes the holder and the mutex
  has no message left, so that a second take without waiting fails and changes nothing. Giving it
  back with its priority still its base priority leaves the mutex free with no holder.
\<close>

theorem mutex_take_give:
  assumes "sys_ok s" and "uxSchedulerSuspended (kern s) = 0" and "queues s q = Some Q" and "is_mutex Q"
    and "0 < uxMessagesWaiting Q" and "litems (kern s) (TasksWaitingToSend q) = []" and "running_ready (kern s)"
  shows "\<exists>s1 s2 Q1 Q2. xQueueGenericReceive no_irq q w False tmo s = Some (Done (Some []), s1) \<and> sys_ok s1 \<and>
    queues s1 q = Some Q1 \<and> pxMutexHolder Q1 = pxCurrentTCB (kern s) \<and> uxMessagesWaiting Q1 = 0 \<and>
    xQueueGenericReceive no_irq q 0 False None s1 = Some (Done None, s1) \<and>
    xQueueGenericSend no_irq q [] 0 queueSEND_TO_BACK None s1 = Some (Done True, s2) \<and> sys_ok s2 \<and>
    queues s2 q = Some Q2 \<and> pxMutexHolder Q2 = 0 \<and> uxMessagesWaiting Q2 = 1"
proof -
  let ?t = "pxCurrentTCB (kern s)" and ?Q1 = "Q\<lparr>pcTail := pxCurrentTCB (kern s), uxMessagesWaiting := 0\<rparr>"
  obtain k where k: "receive_enter q w False tmo s = Some (Return (Some []), (set_queue q ?Q1 s)\<lparr>kern := k\<rparr>)"
    "sys_ok ((set_queue q ?Q1 s)\<lparr>kern := k\<rparr>)" "woke (kern s) k" "cont k = first_woken (TasksWaitingToSend q) (kern s)"
    using mutex_take_effect [OF assms(1,3,4,5)] by blast
  let ?s1 = "(set_queue q ?Q1 s)\<lparr>kern := k\<rparr>"
  have ck: "cont k = cont (kern s)" using k(4) assms(6) by (simp add: first_woken_def)
  have q1: "queues ?s1 q = Some ?Q1" "is_mutex ?Q1" "uxMessagesWaiting ?Q1 = 0" "pxMutexHolder ?Q1 = pxCurrentTCB (kern ?s1)"
    "running_ready (kern ?s1)"
    using assms(4,7) k(3) ck by (simp_all add: set_queue_def woke_def same_env_def running_ready_def)
  obtain c where c: "tcbs (kern ?s1) (pxCurrentTCB (kern ?s1)) = Some c"
    using running_event_free(2) [OF kernel_ok_kinv [OF sys_okD(1) [OF k(2)]] q1(5)] by auto
  obtain k' where k': "send_enter q [] 0 queueSEND_TO_BACK None ?s1 =
      Some (Return True, (set_queue q (?Q1\<lparr>pcTail := 0, uxMessagesWaiting := 1\<rparr>) ?s1)\<lparr>kern := k'\<rparr>)"
    "sys_ok ((set_queue q (?Q1\<lparr>pcTail := 0, uxMessagesWaiting := 1\<rparr>) ?s1)\<lparr>kern := k'\<rparr>)"
    using mutex_give_effect [OF k(2) q1(1-5) c, of "[]" 0 None] by blast
  let ?s2 = "(set_queue q (?Q1\<lparr>pcTail := 0, uxMessagesWaiting := 1\<rparr>) ?s1)\<lparr>kern := k'\<rparr>"
  have "xQueueGenericReceive no_irq q w False tmo s = Some (Done (Some []), ?s1)"
    "xQueueGenericSend no_irq q [] 0 queueSEND_TO_BACK None ?s1 = Some (Done True, ?s2)"
    "xQueueGenericReceive no_irq q 0 False None ?s1 = Some (Done None, ?s1)"
    using k(1) k'(1) q1(1) by (simp_all add: xQueueGenericReceive_def xQueueGenericSend_def)
      (simp add: receive_enter_def)
  moreover have "queues ?s2 q = Some (?Q1\<lparr>pcTail := 0, uxMessagesWaiting := 1\<rparr>)" by (simp add: set_queue_def)
  ultimately show ?thesis using k(2) k'(2) q1(1)
    by (intro exI [of _ ?s1] exI [of _ ?s2] exI [of _ ?Q1] exI [of _ "?Q1\<lparr>pcTail := 0, uxMessagesWaiting := 1\<rparr>"]) simp
qed

definition sample_mutex :: system where
  "sample_mutex = snd (the (xQueueCreateMutex 300 sample_sys0))"

lemma sample_mutex_facts:
  obtains Q where "xQueueCreateMutex 300 sample_sys0 = Some (300, sample_mutex)" "sys_ok sample_mutex"
    "queues sample_mutex 300 = Some Q" "is_mutex Q" "0 < uxMessagesWaiting Q"
    "litems (kern sample_mutex) (TasksWaitingToSend 300) = []" "litems (kern sample_mutex) (TasksWaitingToReceive 300) = []"
    "running_ready (kern sample_mutex)" "uxSchedulerSuspended (kern sample_mutex) = 0" "tcbs (kern sample_mutex) = tcbs sample"
    "cont (kern sample_mutex) = cont sample" "pxCurrentTCB (kern sample_mutex) = 3"
proof -
  obtain s Q where s: "xQueueCreateMutex 300 sample_sys0 = Some (300, s)" "sys_ok s"
    "queues s = (queues sample_sys0)(300 := Some Q)" "is_mutex Q" "uxMessagesWaiting Q = 1"
    "cont (kern s) = cont (kern sample_sys0)" "litems (kern s) = litems (kern sample_sys0)" "same_env (kern sample_sys0) (kern s)"
    using create_mutex_effect [OF sample_sys0_ok _ _ sample_event_lists, of 300] by (auto simp: sample_sys0_def)
  have e: "sample_mutex = s" by (simp add: sample_mutex_def s(1))
  show ?thesis using that [of Q] s sample_event_lists unfolding e
    by (simp add: same_env_def running_ready_def sample_sys0_def)
qed

theorem mutex_take_give_witness:
  "\<exists>s1. xQueueGenericReceive no_irq 300 0 False None sample_mutex = Some (Done (Some []), s1) \<and>
    xQueueGenericReceive no_irq 300 0 False None s1 = Some (Done None, s1)"
proof -
  obtain Q where "sys_ok sample_mutex" "queues sample_mutex 300 = Some Q" "is_mutex Q" "0 < uxMessagesWaiting Q"
    "litems (kern sample_mutex) (TasksWaitingToSend 300) = []" "running_ready (kern sample_mutex)"
    "uxSchedulerSuspended (kern sample_mutex) = 0" by (rule sample_mutex_facts)
  then show ?thesis using mutex_take_give [of sample_mutex 300 Q 0 None] by auto
qed

lemma inherit_pended: "vTaskPriorityInherit t s = Some s' \<Longrightarrow> uxPendedTicks s' = uxPendedTicks s"
  by (auto simp: vTaskPriorityInherit_def prvAddTaskToReadyList_def taskRECORD_READY_PRIORITY_def k_remove_def k_insert_end_def
      k_set_value_def set_tcb_def Let_def split: Option.bind_splits if_splits)

text \<open>
  C19: waiting for a mutex. When the running task waits for a mutex held by another task, the holder's
  priority is raised to at least that of the waiting task before the waiting task blocks, a ready
  holder moves to the ready list of that priority, and a context switch is requested.
\<close>

theorem mutex_wait_inherits:
  assumes "sys_ok s" and "uxSchedulerSuspended (kern s) = 0" and "running_ready (kern s)" and "queues s q = Some Q"
    and "is_mutex Q" and "uxMessagesWaiting Q = 0" and "w \<noteq> 0"
    and "pxMutexHolder Q \<noteq> 0" and "pxMutexHolder Q \<noteq> pxCurrentTCB (kern s)" and "tcbs (kern s) (pxMutexHolder Q) = Some c"
    and "cont (kern s) (Generic (pxMutexHolder Q)) = Some (Ready (uxPriority c))"
  shows "\<exists>s'. xQueueGenericReceive no_irq q w False None s = Some (Again (vTaskSetTimeOutState (kern s)) w, s') \<and> sys_ok s' \<and>
    prio (kern s') (pxMutexHolder Q) = max (uxPriority c) (prio (kern s) (pxCurrentTCB (kern s))) \<and>
    cont (kern s') (Generic (pxMutexHolder Q)) = Some (Ready (max (uxPriority c) (prio (kern s) (pxCurrentTCB (kern s))))) \<and>
    cont (kern s') (Event (pxCurrentTCB (kern s))) = Some (TasksWaitingToReceive q) \<and> pending_soft_sv (kern s')"
proof -
  let ?h = "pxMutexHolder Q" and ?Q = "Q\<lparr>xRxLock := 0, xTxLock := 0\<rparr>"
  let ?p = "max (uxPriority c) (prio (kern s) (pxCurrentTCB (kern s)))"
  let ?s = "set_queue q ?Q (s\<lparr>kern := vTaskSuspendAll (kern s)\<rparr>)"
  note sl = suspend_lock_quiet [OF assms(1-4)]
  have f: "kern ?s = vTaskSuspendAll (kern s)" "queues ?s q = Some ?Q" by (simp_all add: set_queue_def)
  have fk: "tcbs (kern ?s) = tcbs (kern s)" "cont (kern ?s) = cont (kern s)" "pxCurrentTCB (kern ?s) = pxCurrentTCB (kern s)"
    "xTickCount (kern ?s) = xTickCount (kern s)" "xNumOfOverflows (kern ?s) = xNumOfOverflows (kern s)"
    unfolding f(1) by (simp_all add: vTaskSuspendAll_def)
  have qp: "in_pass q (pxCurrentTCB (kern ?s)) ?s" "running_ready (kern ?s)" "\<forall>t. \<not> pending (kern ?s) t" "uxPendedTicks (kern ?s) = 0"
    using sl(2) by (simp_all add: quiet_pass_def)
  have ok1: "sys_ok ?s" using qp(1) by (simp add: in_pass_def)
  have c1: "tcbs (kern ?s) ?h = Some c" using assms(10) fk(1) by simp
  obtain k where k: "vTaskPriorityInherit ?h (kern ?s) = Some k"
    "tcbs k = (tcbs (kern ?s))(?h := Some (c\<lparr>uxPriority := max (uxPriority c) (prio (kern ?s) (pxCurrentTCB (kern ?s)))\<rparr>))"
    "cont k = (if cont (kern ?s) (Generic ?h) = Some (Ready (uxPriority c))
      then (cont (kern ?s))(Generic ?h := Some (Ready (max (uxPriority c) (prio (kern ?s) (pxCurrentTCB (kern ?s)))))) else cont (kern ?s))"
    "pxCurrentTCB k = pxCurrentTCB (kern ?s)"
    using vTaskPriorityInherit_effect [OF sys_okD(1,2) [OF ok1] assms(8) c1] by blast
  have k': "tcbs k ?h = Some (c\<lparr>uxPriority := ?p\<rparr>)" "cont k = (cont (kern s))(Generic ?h := Some (Ready ?p))"
    "pxCurrentTCB k = pxCurrentTCB (kern s)"
    using k(2-4) assms(11) unfolding fk(1-3) by simp_all
  define s2 where "s2 = ?s\<lparr>kern := k\<rparr>"
  have i2: "on_kernel (vTaskPriorityInherit ?h) ?s = Some s2" using k(1) by (simp add: on_kernel_def s2_def)
  have "?h = 0 \<or> ?h \<in> dom (tcbs (kern ?s))" using c1 by auto
  then have p2: "in_pass q (pxCurrentTCB (kern ?s)) s2" "running_ready (kern s2)"
    using inherit_in_pass [OF qp(1,2), of ?h] i2 by auto
  have q2: "queues s2 q = Some ?Q" "kern s2 = k" using f(2) by (simp_all add: s2_def)
  have "quiet_pass q s2"
    using p2 qp(3,4) inherit_pended [OF k(1)] k'(2,3) fk(2,3) q2 by (simp add: quiet_pass_def pending_def)
  then obtain s' where s': "block_on no_irq q (TasksWaitingToReceive q) w s2 = Some s'" "sys_ok s'"
    "cont (kern s') = (cont k)(Event (pxCurrentTCB k) := Some (TasksWaitingToReceive q),
      Generic (pxCurrentTCB k) := Some (wait_list k w))" "tcbs (kern s') = tcbs k" "pending_soft_sv (kern s')"
    using block_quiet [of q s2 "TasksWaitingToReceive q" w] assms(7) unfolding q2(2) by (auto simp: word_gt_0)
  have c: "xTaskCheckForTimeOut (vTaskSetTimeOutState (kern s)) w (kern ?s) = (False, vTaskSetTimeOutState (kern s), w)"
    by (rule first_check [OF assms(7) fk(5,4)])
  have "xQueueGenericReceive no_irq q w False None s = Some (Again (vTaskSetTimeOutState (kern s)) w, s')"
    using assms(4-7) sl(1) c s'(1) f(2) i2
    by (simp add: xQueueGenericReceive_def receive_enter_def entry_time_def receive_block_def prvIsQueueEmpty_def no_irq_def)
  moreover have "cont (kern s') (Generic ?h) = Some (Ready ?p)" using s'(3) k'(2,3) assms(9) by simp
  ultimately show ?thesis using s'(2-5) k' by auto
qed

text \<open>The sample mutex taken by task 3, then task 2 made the running task.\<close>

definition sample_taken :: system where
  "sample_taken = (let s = snd (the (receive_enter 300 0 False None sample_mutex)) in s\<lparr>kern := (kern s)\<lparr>pxCurrentTCB := 2\<rparr>\<rparr>)"

lemma kernel_ok_current:
  assumes ok: "kernel_ok k" and t: "t \<in> dom (tcbs k)"
  shows "kernel_ok (k\<lparr>pxCurrentTCB := t\<rparr>)"
proof -
  have "kinv_now {} (k\<lparr>pxCurrentTCB := t\<rparr>)"
    using kernel_ok_kinv [OF ok] t
    by (simp add: kinv_def lists_inv_def tcbs_inv_def top_inv_def time_inv_def wake_ok_def settled_def)
  then show ?thesis by (rule kernel_ok_frame [OF ok]) (simp_all add: pending_def)
qed

theorem mutex_wait_inherits_witness:
  "\<exists>tmo s'. xQueueGenericReceive no_irq 300 10 False None sample_taken = Some (Again tmo 10, s') \<and> sys_ok s' \<and>
    cont (kern s') (Event 2) = Some (TasksWaitingToReceive 300)"
proof -
  obtain Q where m: "sys_ok sample_mutex" "queues sample_mutex 300 = Some Q" "is_mutex Q" "0 < uxMessagesWaiting Q"
    "litems (kern sample_mutex) (TasksWaitingToSend 300) = []" "running_ready (kern sample_mutex)"
    "uxSchedulerSuspended (kern sample_mutex) = 0" "tcbs (kern sample_mutex) = tcbs sample"
    "cont (kern sample_mutex) = cont sample" "pxCurrentTCB (kern sample_mutex) = 3" by (rule sample_mutex_facts)
  let ?Q = "Q\<lparr>pcTail := 3, uxMessagesWaiting := 0\<rparr>"
  obtain k where k: "receive_enter 300 0 False None sample_mutex = Some (Return (Some []), (set_queue 300 ?Q sample_mutex)\<lparr>kern := k\<rparr>)"
    "sys_ok ((set_queue 300 ?Q sample_mutex)\<lparr>kern := k\<rparr>)" "woke (kern sample_mutex) k"
    "cont k = first_woken (TasksWaitingToSend 300) (kern sample_mutex)"
    using mutex_take_effect [OF m(1-4), of 0 None] unfolding m(10) by blast
  let ?s1 = "(set_queue 300 ?Q sample_mutex)\<lparr>kern := k\<rparr>" and ?k2 = "k\<lparr>pxCurrentTCB := 2\<rparr>"
  have ck: "cont k = cont sample" using k(4) m(5,9) by (simp add: first_woken_def)
  have tk: "tcbs k = tcbs sample" "uxSchedulerSuspended k = 0" using k(3) m(7,8) by (simp_all add: woke_def same_env_def)
  have e: "sample_taken = ?s1\<lparr>kern := ?k2\<rparr>" by (simp add: sample_taken_def k(1))
  have "kernel_ok ?k2" by (rule kernel_ok_current) (use sys_okD(1) [OF k(2)] tk(1) in \<open>simp_all\<close>)
  then have "sys_ok (?s1\<lparr>kern := ?k2\<rparr>)"
    by (rule sys_ok_kern(1) [OF k(2)]) (use sys_okD(6) [OF k(2)] tk(2) in \<open>simp_all\<close>)
  then have s: "sys_ok sample_taken" "kern sample_taken = ?k2" "queues sample_taken 300 = Some ?Q"
    unfolding e by (simp_all add: set_queue_def)
  obtain c where c: "tcbs sample 3 = Some c" "uxPriority c = 5" using sample_facts(8) by auto
  show ?thesis
    using mutex_wait_inherits [OF s(1), of 300 ?Q 10 c] s(2,3) m(3) tk ck c by (auto simp: running_ready_def)
qed

end
