(* ===== verification/Timers.thy ===== *)
theory Timers
  imports Queue_Properties
begin

text \<open>
  The software timers of FreeRTOS/Source/timers.c. A timer is a structure at an address (type \<open>timer\<close>, 0 for
  \<open>NULL\<close>); its \<open>xTimerListItem\<close> and the two active lists live in a list store of their own, since only
  timers.c links them. The state of the service holds the kernel with its queues (\<open>rtos\<close>), the static
  variables of timers.c and the state of the application (\<open>app\<close>). The callbacks are code of the
  application: the argument \<open>cb f t s\<close> is what the function at address \<open>f\<close> does when it is called for the timer
  \<open>t\<close>. Before \<open>prvCheckForValidListAndQueue\<close> has run both list pointers are \<open>NULL\<close>; nothing reads them before.
\<close>

section \<open>State\<close>

type_synonym timer = u32

datatype timer_list = xActiveTimerList1 | xActiveTimerList2

record xTIMER =
  pcTimerName :: u32
  xTimerPeriodInTicks :: portTickType
  uxAutoReload :: uBaseType
  pvTimerID :: u32
  pxCallbackFunction :: u32

record xTIMER_MESSAGE =
  xMessageID :: u32
  xMessageValue :: portTickType
  pxTimer :: timer

record 'a timer_service =
  rtos :: system
  timers :: "timer \<Rightarrow> xTIMER option"
  tlists :: "(timer_list, timer, timer) list_heap"
  pxCurrentTimerList :: timer_list
  pxOverflowTimerList :: timer_list
  xTimerQueue :: qid
  xTimerTaskHandle :: tid
  xLastTime :: portTickType
  app :: 'a

type_synonym 'a callbacks = "u32 \<Rightarrow> timer \<Rightarrow> 'a timer_service \<Rightarrow> 'a timer_service option"

text \<open>What the allocator gives a new queue: the two addresses and what the memory holds.\<close>

type_synonym queue_memory = "qid \<times> u32 \<times> xQUEUE \<times> (nat \<Rightarrow> u8 list)"

definition configTIMER_TASK_PRIORITY :: uBaseType where
  "configTIMER_TASK_PRIORITY = tskIDLE_PRIORITY + 2"

definition configTIMER_QUEUE_LENGTH :: uBaseType where
  "configTIMER_QUEUE_LENGTH = 10"

definition tmrCOMMAND_START :: u32 where
  "tmrCOMMAND_START = 0"

definition tmrCOMMAND_STOP :: u32 where
  "tmrCOMMAND_STOP = 1"

definition tmrCOMMAND_CHANGE_PERIOD :: u32 where
  "tmrCOMMAND_CHANGE_PERIOD = 2"

definition tmrCOMMAND_DELETE :: u32 where
  "tmrCOMMAND_DELETE = 3"

text \<open>A message as the queue copies it: three little-endian words.\<close>

definition word_bytes :: "u32 \<Rightarrow> u8 list" where
  "word_bytes w = map (\<lambda>i. ucast (drop_bit (8 * i) w)) [0, 1, 2, 3]"

definition bytes_word :: "u8 list \<Rightarrow> u32" where
  "bytes_word xs = foldr (\<lambda>b w. push_bit 8 w OR ucast b) xs 0"

definition message_bytes :: "xTIMER_MESSAGE \<Rightarrow> u8 list" where
  "message_bytes m = word_bytes (xMessageID m) @ word_bytes (xMessageValue m) @ word_bytes (pxTimer m)"

definition bytes_message :: "u8 list \<Rightarrow> xTIMER_MESSAGE" where
  "bytes_message xs = \<lparr>xMessageID = bytes_word (take 4 xs), xMessageValue = bytes_word (take 4 (drop 4 xs)),
     pxTimer = bytes_word (take 4 (drop 8 xs))\<rparr>"

section \<open>Creating the service and its timers\<close>

definition prvCheckForValidListAndQueue :: "queue_memory \<Rightarrow> 'a timer_service \<Rightarrow> 'a timer_service option" where
  "prvCheckForValidListAndQueue mem s =
     (if xTimerQueue s = 0 then do {
        let s = s\<lparr>tlists := vListInitialise xActiveTimerList2 (vListInitialise xActiveTimerList1 (tlists s)),
                  pxCurrentTimerList := xActiveTimerList1, pxOverflowTimerList := xActiveTimerList2\<rparr>;
        (q, r) \<leftarrow> (case mem of (q, head, garbage, fill) \<Rightarrow>
                    xQueueGenericCreate q head garbage fill configTIMER_QUEUE_LENGTH 12 (rtos s));
        Some (s\<lparr>rtos := r, xTimerQueue := q\<rparr>)
      }
      else Some s)"

definition xTimerCreateTimerTask ::
    "queue_memory \<Rightarrow> tid \<Rightarrow> u8 list \<Rightarrow> 'a timer_service \<Rightarrow> (bool \<times> 'a timer_service) option" where
  "xTimerCreateTimerTask mem pxNewTCB garbage s = do {
     s \<leftarrow> prvCheckForValidListAndQueue mem s;
     (if xTimerQueue s \<noteq> 0 then do {
        (ok, k) \<leftarrow> xTaskGenericCreate pxNewTCB garbage [0x54, 0x6d, 0x72, 0x20, 0x53, 0x76, 0x63, 0]
                    configTIMER_TASK_PRIORITY (kern (rtos s));
        Some (ok, s\<lparr>rtos := (rtos s)\<lparr>kern := k\<rparr>, xTimerTaskHandle := if ok then pxNewTCB else xTimerTaskHandle s\<rparr>)
      }
      else Some (False, s))
   }"

text \<open>\<open>pxNewTimer\<close> is the result of \<open>pvPortMalloc\<close>.\<close>

definition xTimerCreate ::
    "queue_memory \<Rightarrow> timer \<Rightarrow> u32 \<Rightarrow> portTickType \<Rightarrow> uBaseType \<Rightarrow> u32 \<Rightarrow> u32 \<Rightarrow> 'a timer_service \<Rightarrow>
     (timer \<times> 'a timer_service) option" where
  "xTimerCreate mem pxNewTimer name period reload ident callback s =
     (if period = 0 then Some (0, s)
      else if pxNewTimer = 0 then Some (0, s)
      else do {
        s \<leftarrow> prvCheckForValidListAndQueue mem s;
        Some (pxNewTimer, s\<lparr>timers := (timers s)(pxNewTimer \<mapsto> \<lparr>pcTimerName = name, xTimerPeriodInTicks = period,
            uxAutoReload = reload, pvTimerID = ident, pxCallbackFunction = callback\<rparr>),
          tlists := vListInitialiseItem pxNewTimer (tlists s)\<rparr>)
      })"

section \<open>Commands\<close>

text \<open>
  \<open>pxHigherPriorityTaskWoken\<close> is \<open>None\<close> for \<open>NULL\<close>, else the flag it points to. A send that has to wait is the
  first pass of the loop of \<open>xQueueGenericSend\<close>.
\<close>

definition xTimerGenericCommand ::
    "(nat \<Rightarrow> system \<Rightarrow> system option) \<Rightarrow> timer \<Rightarrow> u32 \<Rightarrow> portTickType \<Rightarrow> bool option \<Rightarrow> portTickType \<Rightarrow>
     'a timer_service \<Rightarrow> (bool pass \<times> bool option \<times> 'a timer_service) option" where
  "xTimerGenericCommand irq xTimer xCommandID xOptionalValue pxHigherPriorityTaskWoken xBlockTime s =
     (if xTimerQueue s \<noteq> 0 then do {
        let xMessage = message_bytes \<lparr>xMessageID = xCommandID, xMessageValue = xOptionalValue, pxTimer = xTimer\<rparr>;
        (case pxHigherPriorityTaskWoken of
           None \<Rightarrow> do {
             (r, y) \<leftarrow> (if xTaskGetSchedulerState (kern (rtos s)) = taskSCHEDULER_RUNNING
                then xQueueGenericSend irq (xTimerQueue s) xMessage xBlockTime queueSEND_TO_BACK None (rtos s)
                else xQueueGenericSend irq (xTimerQueue s) xMessage 0 queueSEND_TO_BACK None (rtos s));
             Some (r, None, s\<lparr>rtos := y\<rparr>)
           }
         | Some b \<Rightarrow> do {
             (r, woken, y) \<leftarrow> xQueueGenericSendFromISR (xTimerQueue s) xMessage queueSEND_TO_BACK (rtos s);
             Some (Done r, Some (b \<or> woken), s\<lparr>rtos := y\<rparr>)
           })
      }
      else Some (Done False, pxHigherPriorityTaskWoken, s))"

text \<open>The service sends a command to itself, without waiting, and does not look at the result.\<close>

definition resend :: "timer \<Rightarrow> portTickType \<Rightarrow> 'a timer_service \<Rightarrow> 'a timer_service option" where
  "resend t v s = do {
     (r, w, s) \<leftarrow> xTimerGenericCommand no_irq t tmrCOMMAND_START v None 0 s;
     Some s
   }"

text \<open>The interface of timers.h.\<close>

definition xTimerStart where
  "xTimerStart irq xTimer xBlockTime s =
     xTimerGenericCommand irq xTimer tmrCOMMAND_START (xTaskGetTickCount (kern (rtos s))) None xBlockTime s"

definition xTimerStop where
  "xTimerStop irq xTimer xBlockTime s = xTimerGenericCommand irq xTimer tmrCOMMAND_STOP 0 None xBlockTime s"

definition xTimerChangePeriod where
  "xTimerChangePeriod irq xTimer xNewPeriod xBlockTime s =
     xTimerGenericCommand irq xTimer tmrCOMMAND_CHANGE_PERIOD xNewPeriod None xBlockTime s"

definition xTimerDelete where
  "xTimerDelete irq xTimer xBlockTime s = xTimerGenericCommand irq xTimer tmrCOMMAND_DELETE 0 None xBlockTime s"

definition xTimerReset where
  "xTimerReset irq xTimer xBlockTime s =
     xTimerGenericCommand irq xTimer tmrCOMMAND_START (xTaskGetTickCount (kern (rtos s))) None xBlockTime s"

definition xTimerStartFromISR where
  "xTimerStartFromISR xTimer woken s =
     xTimerGenericCommand no_irq xTimer tmrCOMMAND_START (xTaskGetTickCountFromISR (kern (rtos s))) (Some woken) 0 s"

definition xTimerStopFromISR where
  "xTimerStopFromISR xTimer woken s = xTimerGenericCommand no_irq xTimer tmrCOMMAND_STOP 0 (Some woken) 0 s"

definition xTimerChangePeriodFromISR where
  "xTimerChangePeriodFromISR xTimer xNewPeriod woken s =
     xTimerGenericCommand no_irq xTimer tmrCOMMAND_CHANGE_PERIOD xNewPeriod (Some woken) 0 s"

definition xTimerResetFromISR where
  "xTimerResetFromISR xTimer woken s =
     xTimerGenericCommand no_irq xTimer tmrCOMMAND_START (xTaskGetTickCountFromISR (kern (rtos s))) (Some woken) 0 s"

definition xTimerGetTimerDaemonTaskHandle :: "'a timer_service \<Rightarrow> tid" where
  "xTimerGetTimerDaemonTaskHandle s = xTimerTaskHandle s"

definition xTimerIsTimerActive :: "timer \<Rightarrow> 'a timer_service \<Rightarrow> bool" where
  "xTimerIsTimerActive xTimer s \<longleftrightarrow> \<not> listIS_CONTAINED_WITHIN None xTimer (tlists s)"

definition pvTimerGetTimerID :: "timer \<Rightarrow> 'a timer_service \<Rightarrow> u32 option" where
  "pvTimerGetTimerID xTimer s = map_option pvTimerID (timers s xTimer)"

section \<open>The timer task\<close>

text \<open>The result says that the timer has to be processed now.\<close>

definition prvInsertTimerInActiveList ::
    "timer \<Rightarrow> portTickType \<Rightarrow> portTickType \<Rightarrow> portTickType \<Rightarrow> 'a timer_service \<Rightarrow> (bool \<times> 'a timer_service) option" where
  "prvInsertTimerInActiveList t xNextExpiryTime xTimeNow xCommandTime s = do {
     T \<leftarrow> timers s t;
     let h = listSET_LIST_ITEM_OWNER t t (listSET_LIST_ITEM_VALUE t xNextExpiryTime (tlists s));
     (if xNextExpiryTime \<le> xTimeNow
      then (if xTimeNow - xCommandTime \<ge> xTimerPeriodInTicks T then Some (True, s\<lparr>tlists := h\<rparr>)
            else do {
              h \<leftarrow> vListInsert (pxOverflowTimerList s) t h;
              Some (False, s\<lparr>tlists := h\<rparr>)
            })
      else (if xTimeNow < xCommandTime \<and> xNextExpiryTime \<ge> xCommandTime then Some (True, s\<lparr>tlists := h\<rparr>)
            else do {
              h \<leftarrow> vListInsert (pxCurrentTimerList s) t h;
              Some (False, s\<lparr>tlists := h\<rparr>)
            }))
   }"

definition call :: "'a callbacks \<Rightarrow> timer \<Rightarrow> 'a timer_service \<Rightarrow> 'a timer_service option" where
  "call cb t s = do {
     T \<leftarrow> timers s t;
     cb (pxCallbackFunction T) t s
   }"

definition prvProcessExpiredTimer ::
    "'a callbacks \<Rightarrow> portTickType \<Rightarrow> portTickType \<Rightarrow> 'a timer_service \<Rightarrow> 'a timer_service option" where
  "prvProcessExpiredTimer cb xNextExpireTime xTimeNow s = do {
     t \<leftarrow> listGET_OWNER_OF_HEAD_ENTRY (pxCurrentTimerList s) (tlists s);
     (n, h) \<leftarrow> uxListRemove t (tlists s);
     let s = s\<lparr>tlists := h\<rparr>;
     T \<leftarrow> timers s t;
     s \<leftarrow> (if uxAutoReload T = 1
           then do {
             (now, s) \<leftarrow> prvInsertTimerInActiveList t (xNextExpireTime + xTimerPeriodInTicks T) xTimeNow xNextExpireTime s;
             (if now then resend t xNextExpireTime s else Some s)
           }
           else Some s);
     call cb t s
   }"

definition prvGetNextExpireTime :: "'a timer_service \<Rightarrow> portTickType \<times> bool" where
  "prvGetNextExpireTime s =
     (let xListWasEmpty = listLIST_IS_EMPTY (pxCurrentTimerList s) (tlists s)
      in (if \<not> xListWasEmpty then listGET_ITEM_VALUE_OF_HEAD_ENTRY (pxCurrentTimerList s) (tlists s) else 0, xListWasEmpty))"

text \<open>The body of the loop of \<open>prvSwitchTimerLists\<close>, for the timer at the head of the list.\<close>

definition expire_head :: "'a callbacks \<Rightarrow> 'a timer_service \<Rightarrow> 'a timer_service option" where
  "expire_head cb s = do {
     let xNextExpireTime = listGET_ITEM_VALUE_OF_HEAD_ENTRY (pxCurrentTimerList s) (tlists s);
     t \<leftarrow> listGET_OWNER_OF_HEAD_ENTRY (pxCurrentTimerList s) (tlists s);
     (n, h) \<leftarrow> uxListRemove t (tlists s);
     s \<leftarrow> call cb t (s\<lparr>tlists := h\<rparr>);
     T \<leftarrow> timers s t;
     (if uxAutoReload T = 1
      then (let xReloadTime = xNextExpireTime + xTimerPeriodInTicks T in
            if xReloadTime > xNextExpireTime
            then do {
              h \<leftarrow> vListInsert (pxCurrentTimerList s) t
                    (listSET_LIST_ITEM_OWNER t t (listSET_LIST_ITEM_VALUE t xReloadTime (tlists s)));
              Some (s\<lparr>tlists := h\<rparr>)
            }
            else resend t xNextExpireTime s)
      else Some s)
   }"

partial_function (option) drain_timers :: "'a callbacks \<Rightarrow> 'a timer_service \<Rightarrow> 'a timer_service option" where
  "drain_timers cb s =
     (if listLIST_IS_EMPTY (pxCurrentTimerList s) (tlists s) then Some s
      else do {
        s \<leftarrow> expire_head cb s;
        drain_timers cb s
      })"

definition prvSwitchTimerLists :: "'a callbacks \<Rightarrow> 'a timer_service \<Rightarrow> 'a timer_service option" where
  "prvSwitchTimerLists cb s = do {
     s \<leftarrow> drain_timers cb s;
     Some (s\<lparr>pxCurrentTimerList := pxOverflowTimerList s, pxOverflowTimerList := pxCurrentTimerList s\<rparr>)
   }"

text \<open>The time now, and whether the lists were switched.\<close>

definition prvSampleTimeNow :: "'a callbacks \<Rightarrow> 'a timer_service \<Rightarrow> (portTickType \<times> bool \<times> 'a timer_service) option" where
  "prvSampleTimeNow cb s = do {
     let xTimeNow = xTaskGetTickCount (kern (rtos s));
     (switched, s) \<leftarrow> (if xTimeNow < xLastTime s
        then do {
          s \<leftarrow> prvSwitchTimerLists cb s;
          Some (True, s)
        }
        else Some (False, s));
     Some (xTimeNow, switched, s\<lparr>xLastTime := xTimeNow\<rparr>)
   }"

text \<open>\<open>irq n\<close> is what interrupts do at the n-th point where they may run.\<close>

definition on_rtos :: "(system \<Rightarrow> system option) \<Rightarrow> 'a timer_service \<Rightarrow> 'a timer_service option" where
  "on_rtos f s = map_option (\<lambda>r. s\<lparr>rtos := r\<rparr>) (f (rtos s))"

definition resume_scheduler :: "'a timer_service \<Rightarrow> (bool \<times> 'a timer_service) option" where
  "resume_scheduler s = do {
     (y, k) \<leftarrow> xTaskResumeAll (kern (rtos s));
     Some (y, s\<lparr>rtos := (rtos s)\<lparr>kern := k\<rparr>\<rparr>)
   }"

definition prvProcessTimerOrBlockTask ::
    "(nat \<Rightarrow> system \<Rightarrow> system option) \<Rightarrow> 'a callbacks \<Rightarrow> portTickType \<Rightarrow> bool \<Rightarrow> 'a timer_service \<Rightarrow> 'a timer_service option" where
  "prvProcessTimerOrBlockTask irq cb xNextExpireTime xListWasEmpty s = do {
     s \<leftarrow> on_rtos (irq 0) (s\<lparr>rtos := (rtos s)\<lparr>kern := vTaskSuspendAll (kern (rtos s))\<rparr>\<rparr>);
     (xTimeNow, switched, s) \<leftarrow> prvSampleTimeNow cb s;
     s \<leftarrow> on_rtos (irq 1) s;
     (if \<not> switched
      then (if \<not> xListWasEmpty \<and> xNextExpireTime \<le> xTimeNow
            then do {
              (y, s) \<leftarrow> resume_scheduler s;
              prvProcessExpiredTimer cb xNextExpireTime xTimeNow s
            }
            else do {
              s \<leftarrow> on_rtos (vQueueWaitForMessageRestricted (xTimerQueue s) (xNextExpireTime - xTimeNow)) s;
              s \<leftarrow> on_rtos (irq 2) s;
              (y, s) \<leftarrow> resume_scheduler s;
              Some (if y then s else s\<lparr>rtos := (rtos s)\<lparr>kern := portYIELD (kern (rtos s))\<rparr>\<rparr>)
            })
      else do {
        (y, s) \<leftarrow> resume_scheduler s;
        Some s
      })
   }"

text \<open>The body of the loop of \<open>prvProcessReceivedCommands\<close>, for a received message.\<close>

definition process_command :: "'a callbacks \<Rightarrow> xTIMER_MESSAGE \<Rightarrow> 'a timer_service \<Rightarrow> 'a timer_service option" where
  "process_command cb xMessage s = do {
     let t = pxTimer xMessage;
     h \<leftarrow> (if \<not> listIS_CONTAINED_WITHIN None t (tlists s) then map_option snd (uxListRemove t (tlists s)) else Some (tlists s));
     (xTimeNow, switched, s) \<leftarrow> prvSampleTimeNow cb (s\<lparr>tlists := h\<rparr>);
     (if xMessageID xMessage = tmrCOMMAND_START
      then do {
        T \<leftarrow> timers s t;
        (now, s) \<leftarrow> prvInsertTimerInActiveList t (xMessageValue xMessage + xTimerPeriodInTicks T) xTimeNow (xMessageValue xMessage) s;
        (if now
         then do {
           s \<leftarrow> call cb t s;
           T \<leftarrow> timers s t;
           (if uxAutoReload T = 1 then resend t (xMessageValue xMessage + xTimerPeriodInTicks T) s else Some s)
         }
         else Some s)
      }
      else if xMessageID xMessage = tmrCOMMAND_STOP then Some s
      else if xMessageID xMessage = tmrCOMMAND_CHANGE_PERIOD
      then do {
        T \<leftarrow> timers s t;
        let s = s\<lparr>timers := (timers s)(t \<mapsto> T\<lparr>xTimerPeriodInTicks := xMessageValue xMessage\<rparr>)\<rparr>;
        (now, s) \<leftarrow> prvInsertTimerInActiveList t (xTimeNow + xMessageValue xMessage) xTimeNow xTimeNow s;
        Some s
      }
      else if xMessageID xMessage = tmrCOMMAND_DELETE then Some (s\<lparr>timers := (timers s)(t := None)\<rparr>)
      else Some s)
   }"

definition receive_command :: "'a timer_service \<Rightarrow> (xTIMER_MESSAGE option \<times> 'a timer_service) option" where
  "receive_command s = do {
     (r, y) \<leftarrow> xQueueGenericReceive no_irq (xTimerQueue s) 0 False None (rtos s);
     (case r of Done m \<Rightarrow> Some (map_option bytes_message m, s\<lparr>rtos := y\<rparr>) | Again tmo w \<Rightarrow> None)
   }"

text \<open>\<open>env n\<close> is what interrupts and other tasks do before the n-th receive.\<close>

partial_function (option) prvProcessReceivedCommands ::
    "(nat \<Rightarrow> 'a timer_service \<Rightarrow> 'a timer_service option) \<Rightarrow> 'a callbacks \<Rightarrow> nat \<Rightarrow> 'a timer_service \<Rightarrow> 'a timer_service option" where
  "prvProcessReceivedCommands env cb n s = do {
     s \<leftarrow> env n s;
     (r, s) \<leftarrow> receive_command s;
     (case r of
        None \<Rightarrow> Some s
      | Some xMessage \<Rightarrow> do {
          s \<leftarrow> process_command cb xMessage s;
          prvProcessReceivedCommands env cb (Suc n) s
        })
   }"

text \<open>One turn of the endless loop of the task.\<close>

definition prvTimerTask ::
    "(nat \<Rightarrow> system \<Rightarrow> system option) \<Rightarrow> (nat \<Rightarrow> 'a timer_service \<Rightarrow> 'a timer_service option) \<Rightarrow> 'a callbacks \<Rightarrow>
     'a timer_service \<Rightarrow> 'a timer_service option" where
  "prvTimerTask irq env cb s =
     (let (xNextExpireTime, xListWasEmpty) = prvGetNextExpireTime s in do {
        s \<leftarrow> prvProcessTimerOrBlockTask irq cb xNextExpireTime xListWasEmpty s;
        prvProcessReceivedCommands env cb 0 s
      })"

end
