(* ===== verification/Timer_View.thy ===== *)
theory Timer_View
  imports Timers
begin

text \<open>
  The timer service seen in true time. The tick counter and the values of the list items have 32 bits; \<open>timer_expiry\<close>
  reads off the lists when each timer expires as a number that does not wrap, given the true time of the
  last sample of the tick counter. \<open>service_ok\<close> is the invariant of the service. Each operation of the timer task is
  characterised by its effect on this view.
\<close>

section \<open>Messages\<close>

lemma word_bytes_inverse: "bytes_word (word_bytes w) = w"
proof (rule bit_word_eqI)
  fix n
  assume "n < LENGTH(32)"
  then consider "n < 8" | "8 \<le> n" "n < 16" | "16 \<le> n" "n < 24" | "24 \<le> n" "n < 32" by fastforce
  then show "bit (bytes_word (word_bytes w)) n = bit w n"
    by cases (auto simp: bytes_word_def word_bytes_def bit_simps)
qed

lemma length_word_bytes [simp]: "length (word_bytes w) = 4"
  by (simp add: word_bytes_def)

lemma bytes_message_inverse: "bytes_message (message_bytes m) = m"
  by (simp add: bytes_message_def message_bytes_def word_bytes_inverse)

lemma length_message_bytes [simp]: "length (message_bytes m) = 12"
  by (simp add: message_bytes_def)

section \<open>The invariant and the view\<close>

definition lists_ok :: "'a timer_service \<Rightarrow> bool" where
  "lists_ok s \<longleftrightarrow> heap_wf (tlists s) \<and> (\<forall>l. listLIST_IS_INITIALISED l (tlists s)) \<and>
     pxCurrentTimerList s \<noteq> pxOverflowTimerList s \<and>
     (\<forall>l. sorted (map (item_value (tlists s)) (list_items (tlists s) l))) \<and>
     (\<forall>t. pvContainer (tlists s) t \<noteq> None \<longrightarrow>
        pvOwner (tlists s) t = t \<and> (\<exists>T. timers s t = Some T \<and> xTimerPeriodInTicks T \<noteq> 0)) \<and>
     timers s 0 = None"

lemma lists_okD:
  assumes "lists_ok s"
  shows "heap_wf (tlists s)" "listLIST_IS_INITIALISED l (tlists s)" "pxCurrentTimerList s \<noteq> pxOverflowTimerList s"
    "sorted (map (item_value (tlists s)) (list_items (tlists s) l))"
    "pvContainer (tlists s) t = Some l \<Longrightarrow> pvOwner (tlists s) t = t"
    "pvContainer (tlists s) t = Some l \<Longrightarrow> timers s t \<noteq> None" "timers s 0 = None"
    "pvContainer (tlists s) t = Some l \<Longrightarrow> timers s t = Some T \<Longrightarrow> xTimerPeriodInTicks T \<noteq> 0"
  using assms unfolding lists_ok_def by fastforce+

definition timer_expiry :: "nat \<Rightarrow> 'a timer_service \<Rightarrow> timer \<Rightarrow> nat option" where
  "timer_expiry L s t = map_option (\<lambda>l.
     (L div 2 ^ 32 + (if l = pxCurrentTimerList s then 0 else 1)) * 2 ^ 32 + unat (item_value (tlists s) t))
     (pvContainer (tlists s) t)"

text \<open>There is always room for a timer that is not in a list: addresses have 32 bits and 0 is none.\<close>

lemma card_timers: "card (UNIV - {0, t :: timer}) + 1 < 2 ^ 32" if "t \<noteq> 0"
proof -
  have "card (UNIV - {0, t}) = card (UNIV :: timer set) - card {0, t}" by (rule card_Diff_subset) simp_all
  moreover have "card (UNIV :: timer set) = 4294967296" by (simp add: card_word)
  ultimately show ?thesis using that by simp
qed

lemma room_for_timer:
  assumes ok: "lists_ok s" and t: "pvContainer (tlists s) t = None" "t \<noteq> 0"
  shows "length (list_items (tlists s) l) + 1 < 2 ^ 32"
proof -
  have "x \<noteq> 0 \<and> x \<noteq> t" if "x \<in> set (list_items (tlists s) l)" for x
  proof -
    have "pvContainer (tlists s) x = Some l" using that heap_wf_container [OF lists_okD(1) [OF ok]] by blast
    then show ?thesis using lists_okD(6,7) [OF ok] t(1) by fastforce
  qed
  then have "card (set (list_items (tlists s) l)) \<le> card (UNIV - {0, t})" by (intro card_mono) auto
  moreover have "card (set (list_items (tlists s) l)) = length (list_items (tlists s) l)"
    by (rule distinct_card [OF heap_wf_distinct [OF lists_okD(1) [OF ok]]])
  ultimately show ?thesis using card_timers [OF t(2)] by simp
qed

text \<open>Setting the value and the owner of an item, as every insertion does first.\<close>

abbreviation set_item :: "timer \<Rightarrow> portTickType \<Rightarrow> (timer_list, timer, timer) list_heap \<Rightarrow> (timer_list, timer, timer) list_heap" where
  "set_item t v h \<equiv> listSET_LIST_ITEM_OWNER t t (listSET_LIST_ITEM_VALUE t v h)"

lemma map_value_upd: "t \<notin> set xs \<Longrightarrow> map (f(t := v)) xs = map f xs"
  by (induction xs) auto

lemma lists_ok_unlinked:
  assumes ok: "lists_ok s" and c: "pvContainer (tlists s) t = None"
  shows "t \<notin> set (list_items (tlists s) l)"
  using heap_wf_container [OF lists_okD(1) [OF ok], of t l] c by simp

lemma insert_timer:
  assumes ok: "lists_ok s" and c: "pvContainer (tlists s) t = None" and T: "timers s t = Some T" "xTimerPeriodInTicks T \<noteq> 0"
  obtains h where "vListInsert l t (set_item t v (tlists s)) = Some h" "lists_ok (s\<lparr>tlists := h\<rparr>)"
    "pvContainer h = (pvContainer (tlists s))(t := Some l)" "item_value h = (item_value (tlists s))(t := v)"
proof -
  let ?g = "set_item t v (tlists s)"
  note o = lists_okD [OF ok]
  have t0: "t \<noteq> 0" using T(1) o(7) by auto
  have wf: "heap_wf ?g" using o(1) by simp
  have g: "listLIST_IS_INITIALISED l ?g" "pvContainer ?g t = None" "length (list_items ?g l) + 1 < 2 ^ 32"
    using o(2) c room_for_timer [OF ok c t0] by simp_all
  obtain h where h: "vListInsert l t ?g = Some h" "heap_wf h"
    "list_items h = (list_items ?g)(l := insert_by (item_value ?g) (item_value ?g t) t (list_items ?g l))"
    "xItemValue h = xItemValue ?g" "pvOwner h = pvOwner ?g" "pvContainer h = (pvContainer ?g)(t := Some l)"
    using vListInsert_effect [OF wf g] by blast
  have iv: "item_value h = (item_value (tlists s))(t := v)"
    using h(4) by (simp add: item_value_def fun_eq_iff listSET_LIST_ITEM_OWNER_def listSET_LIST_ITEM_VALUE_def)
  have "sorted (map (item_value h) (list_items h m))" for m
  proof -
    have so: "sorted (map (item_value h) (list_items (tlists s) m))"
      using o(4) [of m] lists_ok_unlinked [OF ok c, of m] by (simp add: iv map_value_upd)
    show ?thesis
    proof (cases "m = l")
      case True
      then show ?thesis using insert_by_sorted [OF so, of v t] by (simp add: h(3) iv)
    next
      case False
      then show ?thesis using so by (simp add: h(3))
    qed
  qed
  moreover have "listLIST_IS_INITIALISED m h" for m using insert_init [OF h(1)] o(2) by simp
  ultimately have "lists_ok (s\<lparr>tlists := h\<rparr>)"
    using o(3) ok T h(2,5,6) unfolding lists_ok_def by auto
  then show thesis using that h(1,6) iv by simp
qed

lemma set_item_ok:
  assumes ok: "lists_ok s" and c: "pvContainer (tlists s) t = None"
  shows "lists_ok (s\<lparr>tlists := set_item t v (tlists s)\<rparr>)"
proof -
  have "sorted (map ((item_value (tlists s))(t := v)) (list_items (tlists s) m))" for m
    using lists_okD(4) [OF ok, of m] lists_ok_unlinked [OF ok c, of m] by (simp add: map_value_upd)
  then show ?thesis using ok c unfolding lists_ok_def by auto
qed

lemma remove_timer:
  assumes ok: "lists_ok s" and c: "pvContainer (tlists s) t = Some l"
  obtains n h where "uxListRemove t (tlists s) = Some (n, h)" "lists_ok (s\<lparr>tlists := h\<rparr>)"
    "pvContainer h = (pvContainer (tlists s))(t := None)" "item_value h = item_value (tlists s)"
    "list_items h = (list_items (tlists s))(l := remove1 t (list_items (tlists s) l))"
proof -
  note o = lists_okD [OF ok]
  obtain n h where h: "uxListRemove t (tlists s) = Some (n, h)" "heap_wf h"
    "list_items h = (list_items (tlists s))(l := remove1 t (list_items (tlists s) l))"
    "xItemValue h = xItemValue (tlists s)" "pvOwner h = pvOwner (tlists s)" "pvContainer h = (pvContainer (tlists s))(t := None)"
    using uxListRemove_effect [OF o(1) c] by blast
  have iv: "item_value h = item_value (tlists s)" using h(4) by (simp add: item_value_def fun_eq_iff)
  have "sorted (map (item_value h) (list_items h m))" for m
    using o(4) [of m] by (auto simp: iv h(3) sorted_map intro: sorted_wrt_remove1)
  moreover have "listLIST_IS_INITIALISED m h" for m using remove_init [OF h(1)] o(2) by simp
  ultimately have "lists_ok (s\<lparr>tlists := h\<rparr>)"
    using o(3) ok h(2,5,6) unfolding lists_ok_def by (auto split: if_splits)
  then show thesis using that h(1,3,6) iv by blast
qed

lemma head_timer:
  assumes ok: "lists_ok s" and ne: "list_items (tlists s) l = t # ts"
  shows "pvContainer (tlists s) t = Some l" "listGET_OWNER_OF_HEAD_ENTRY l (tlists s) = Some t"
    "listGET_ITEM_VALUE_OF_HEAD_ENTRY l (tlists s) = item_value (tlists s) t"
    "\<And>x. x \<in> set (list_items (tlists s) l) \<Longrightarrow> item_value (tlists s) t \<le> item_value (tlists s) x"
proof -
  show c: "pvContainer (tlists s) t = Some l" using heap_wf_container [OF lists_okD(1) [OF ok]] ne by simp
  show "listGET_OWNER_OF_HEAD_ENTRY l (tlists s) = Some t"
    "listGET_ITEM_VALUE_OF_HEAD_ENTRY l (tlists s) = item_value (tlists s) t"
    using head_entry [OF lists_okD(1) [OF ok] ne] lists_okD(5) [OF ok c] by simp_all
  show "\<And>x. x \<in> set (list_items (tlists s) l) \<Longrightarrow> item_value (tlists s) t \<le> item_value (tlists s) x"
    using lists_okD(4) [OF ok, of l] ne by auto
qed

section \<open>Times that wrap\<close>

lemma of_nat_mod_u32: "unat (of_nat n :: u32) = n mod 4294967296"
  by (simp add: unat_of_nat take_bit_eq_mod)

text \<open>The comparisons of \<open>prvInsertTimerInActiveList\<close> decide whether the expiry time has passed, and in which turn of
  the counter it lies.\<close>

lemma insert_times:
  fixes C N P :: nat
  assumes C: "C \<le> N" "N < C + 4294967296" and P: "P < 4294967296"
  defines "e \<equiv> of_nat (C + P) :: u32" and "n \<equiv> of_nat N :: u32" and "c \<equiv> of_nat C :: u32"
  shows "e \<le> n \<Longrightarrow> (of_nat P \<le> n - c) = (C + P \<le> N)"
    and "e \<le> n \<Longrightarrow> N < C + P \<Longrightarrow> (C + P) div 4294967296 = N div 4294967296 + 1"
    and "\<not> e \<le> n \<Longrightarrow> (n < c \<and> c \<le> e) = (C + P \<le> N)"
    and "\<not> e \<le> n \<Longrightarrow> N < C + P \<Longrightarrow> (C + P) div 4294967296 = N div 4294967296"
proof -
  have u: "unat e = (C + P) mod 4294967296" "unat n = N mod 4294967296" "unat c = C mod 4294967296"
    by (simp_all add: e_def n_def c_def of_nat_mod_u32 del: of_nat_add)
  have d: "unat (n - c) = N - C"
  proof -
    have "n - c = of_nat (N - C)" using C(1) by (simp add: n_def c_def of_nat_diff)
    then show ?thesis using C by (simp only: of_nat_mod_u32) simp
  qed
  have p: "unat (of_nat P :: u32) = P" using P by (simp add: of_nat_mod_u32)
  show "e \<le> n \<Longrightarrow> (of_nat P \<le> n - c) = (C + P \<le> N)"
    using C(1) by (auto simp: word_le_nat_alt d p)
  obtain a x where a: "C = a * 4294967296 + x" "x < 4294967296" 
    using mod_less_divisor [of 4294967296 C] div_mult_mod_eq [of C 4294967296] by (metis zero_less_numeral)
  obtain b y where b: "N = b * 4294967296 + y" "y < 4294967296"
    using mod_less_divisor [of 4294967296 N] div_mult_mod_eq [of N 4294967296] by (metis zero_less_numeral)
  obtain g z where g: "C + P = g * 4294967296 + z" "z < 4294967296"
    using mod_less_divisor [of 4294967296 "C + P"] div_mult_mod_eq [of "C + P" 4294967296] by (metis zero_less_numeral)
  have m: "unat e = z" "unat n = y" "unat c = x" "(C + P) div 4294967296 = g" "N div 4294967296 = b"
    using a b g by (simp_all add: u)
  have ba: "b = a \<or> b = a + 1" and ga: "g = a \<or> g = a + 1" using a b g C P by linarith+
  show "e \<le> n \<Longrightarrow> N < C + P \<Longrightarrow> (C + P) div 4294967296 = N div 4294967296 + 1"
    unfolding word_le_nat_alt m using a b g C P by linarith
  show "\<not> e \<le> n \<Longrightarrow> (n < c \<and> c \<le> e) = (C + P \<le> N)"
    unfolding word_le_nat_alt word_less_nat_alt m using ba ga a b g C P by (elim disjE) auto
  show "\<not> e \<le> n \<Longrightarrow> N < C + P \<Longrightarrow> (C + P) div 4294967296 = N div 4294967296"
    unfolding word_le_nat_alt m using ba ga a b g C P by (elim disjE) auto
qed

text \<open>The effect of \<open>prvInsertTimerInActiveList\<close> in true time.\<close>

lemma expiry_upd:
  assumes "pvContainer h = (pvContainer (tlists s))(t := Some l)" and "item_value h = (item_value (tlists s))(t := of_nat E)"
    and "E div 4294967296 = N div 4294967296 + (if l = pxCurrentTimerList s then 0 else 1)"
  shows "timer_expiry N (s\<lparr>tlists := h\<rparr>) = (timer_expiry N s)(t \<mapsto> E)"
proof
  fix x
  have "(N div 4294967296 + (if l = pxCurrentTimerList s then 0 else 1)) * 4294967296 + unat (of_nat E :: u32) = E"
    unfolding assms(3) [symmetric] of_nat_mod_u32 by (rule div_mult_mod_eq)
  then show "timer_expiry N (s\<lparr>tlists := h\<rparr>) x = ((timer_expiry N s)(t \<mapsto> E)) x"
    by (simp add: timer_expiry_def assms(1,2))
qed

lemma insert_effect:
  assumes ok: "lists_ok s" and c: "pvContainer (tlists s) t = None" and T: "timers s t = Some T"
    and C: "C \<le> N" "N < C + 2 ^ 32" and P: "P = unat (xTimerPeriodInTicks T)"
  obtains h where "prvInsertTimerInActiveList t (of_nat (C + P)) (of_nat N) (of_nat C) s = Some (C + P \<le> N, s\<lparr>tlists := h\<rparr>)"
    "lists_ok (s\<lparr>tlists := h\<rparr>)" "pvContainer h t = None \<longleftrightarrow> C + P \<le> N"
    "timer_expiry N (s\<lparr>tlists := h\<rparr>) = (if C + P \<le> N then timer_expiry N s else (timer_expiry N s)(t \<mapsto> C + P))"
proof -
  have P': "P < 4294967296" "xTimerPeriodInTicks T = of_nat P" using unsigned_less [of "xTimerPeriodInTicks T", where ?'a = nat] by (simp_all add: P)
  have C': "N < C + 4294967296" using C(2) by simp
  note tm = insert_times [OF C(1) C' P'(1)]
  let ?e = "of_nat (C + P) :: u32" and ?n = "of_nat N :: u32" and ?c = "of_nat C :: u32"
  show thesis
  proof (cases "C + P \<le> N")
    case True
    let ?h = "set_item t ?e (tlists s)"
    have "timer_expiry N (s\<lparr>tlists := ?h\<rparr>) = timer_expiry N s" using c by (auto simp: timer_expiry_def fun_eq_iff)
    moreover have "prvInsertTimerInActiveList t ?e ?n ?c s = Some (True, s\<lparr>tlists := ?h\<rparr>)"
      using True tm(1,3) T P'(2) by (auto simp: prvInsertTimerInActiveList_def Let_def simp del: of_nat_add)
    ultimately show thesis using that [of ?h] True c set_item_ok [OF ok c] by simp
  next
    case False
    then have p0: "xTimerPeriodInTicks T \<noteq> 0" using C(1) P by auto
    define l where "l = (if ?e \<le> ?n then pxOverflowTimerList s else pxCurrentTimerList s)"
    obtain h where h: "vListInsert l t (set_item t ?e (tlists s)) = Some h" "lists_ok (s\<lparr>tlists := h\<rparr>)"
      "pvContainer h = (pvContainer (tlists s))(t := Some l)" "item_value h = (item_value (tlists s))(t := ?e)"
      using insert_timer [OF ok c T p0] by blast
    have "prvInsertTimerInActiveList t ?e ?n ?c s = Some (False, s\<lparr>tlists := h\<rparr>)"
      using False tm(1,3) T P'(2) h(1)
      by (auto simp: prvInsertTimerInActiveList_def Let_def l_def simp del: of_nat_add split: if_splits)
    moreover have "(C + P) div 4294967296 = N div 4294967296 + (if l = pxCurrentTimerList s then 0 else 1)"
      using False tm(2,4) lists_okD(3) [OF ok] by (auto simp: l_def)
    ultimately show thesis using that [of h] False h(2,3) expiry_upd [OF h(3,4)] by simp
  qed
qed

section \<open>The command queue\<close>

definition service_ok :: "'a timer_service \<Rightarrow> bool" where
  "service_ok s \<longleftrightarrow> lists_ok s \<and> xTimerQueue s \<noteq> 0 \<and> queue_valid (xTimerQueue s) (rtos s) \<and>
     (\<forall>Q. queues (rtos s) (xTimerQueue s) = Some Q \<longrightarrow> uxLength Q = configTIMER_QUEUE_LENGTH \<and> uxItemSize Q = 12)"

text \<open>The commands that wait in the queue, oldest first.\<close>

definition commands :: "'a timer_service \<Rightarrow> xTIMER_MESSAGE list" where
  "commands s = map bytes_message (queue_contents (xTimerQueue s) (rtos s))"

lemma service_queue:
  assumes "service_ok s"
  obtains Q where "queues (rtos s) (xTimerQueue s) = Some Q" "\<not> is_mutex Q" "unlocked Q" "sys_ok (rtos s)"
    "uxLength Q = configTIMER_QUEUE_LENGTH" "uxItemSize Q = 12" "commands s = map bytes_message (queue_items (rtos s) Q)"
    "length (queue_items (rtos s) Q) = qcount Q" "xTimerQueue s \<noteq> 0"
  using assms queue_view [of "xTimerQueue s" "rtos s"] unfolding service_ok_def commands_def by metis

lemma service_changed:
  assumes ok: "service_ok s" and q: "queues (rtos s) (xTimerQueue s) = Some Q"
    and c: "queue_changed (xTimerQueue s) Q xs l (rtos s) r"
  shows "service_ok (s\<lparr>rtos := r\<rparr>)" and "commands (s\<lparr>rtos := r\<rparr>) = map bytes_message xs"
    and "woke (kern (rtos s)) (kern r)"
proof -
  have v: "queue_valid (xTimerQueue s) (rtos s)" using ok by (simp add: service_ok_def)
  note cv = changed_view [OF v q c]
  have "lists_ok (s\<lparr>rtos := r\<rparr>)" using ok by (simp add: service_ok_def lists_ok_def)
  then show "service_ok (s\<lparr>rtos := r\<rparr>)"
    using ok q c cv(1) by (auto simp: service_ok_def queue_changed_def same_shape_def)
  show "commands (s\<lparr>rtos := r\<rparr>) = map bytes_message xs" using cv(2) by (simp add: commands_def)
  show "woke (kern (rtos s)) (kern r)" using c by (simp add: queue_changed_def)
qed

lemma service_idle: "service_ok s \<Longrightarrow> woke (kern (rtos s)) (kern (rtos s))"
  by (rule service_queue, assumption, rule woke_refl, rule sys_okD)

lemma send_command:
  assumes ok: "service_ok s"
  obtains r where
    "xTimerGenericCommand irq t cmd v None 0 s = Some (Done (length (commands s) < 10), None, s\<lparr>rtos := r\<rparr>)"
    "service_ok (s\<lparr>rtos := r\<rparr>)" "woke (kern (rtos s)) (kern r)"
    "commands (s\<lparr>rtos := r\<rparr>) = (if length (commands s) < 10
       then commands s @ [\<lparr>xMessageID = cmd, xMessageValue = v, pxTimer = t\<rparr>] else commands s)"
proof -
  let ?m = "\<lparr>xMessageID = cmd, xMessageValue = v, pxTimer = t\<rparr>" and ?q = "xTimerQueue s"
  obtain Q where Q: "queues (rtos s) ?q = Some Q" "\<not> is_mutex Q" "sys_ok (rtos s)"
    "uxLength Q = configTIMER_QUEUE_LENGTH" "uxItemSize Q = 12" "commands s = map bytes_message (queue_items (rtos s) Q)"
    "length (queue_items (rtos s) Q) = qcount Q" "?q \<noteq> 0" using service_queue [OF ok] by metis
  have m: "may_send Q queueSEND_TO_BACK (message_bytes ?m)" "take (qsize Q) (message_bytes ?m) = message_bytes ?m"
    using Q(2,5) by (simp_all add: may_send_def)
  have f: "uxMessagesWaiting Q < uxLength Q \<longleftrightarrow> length (commands s) < 10"
    using Q(4,6,7) by (simp add: word_less_nat_alt configTIMER_QUEUE_LENGTH_def)
  show thesis
  proof (cases "length (commands s) < 10")
    case True
    then have room: "uxMessagesWaiting Q < uxLength Q \<or> queueSEND_TO_BACK = queueOVERWRITE" using f by simp
    obtain r where r: "send_enter ?q (message_bytes ?m) 0 queueSEND_TO_BACK None (rtos s) = Some (Return True, r)"
      "queue_changed ?q Q (queue_items (rtos s) Q @ [message_bytes ?m]) (TasksWaitingToReceive ?q) (rtos s) r"
      using send_enter_effect [OF Q(3,1) m(1) room, of 0 None] m(2) by auto
    show thesis using that [of r] True service_changed [OF ok Q(1) r(2)] r(1) Q(6,8)
      by (simp add: xTimerGenericCommand_def Let_def xQueueGenericSend_def bytes_message_inverse)
  next
    case False
    then have "send_enter ?q (message_bytes ?m) 0 queueSEND_TO_BACK None (rtos s) = Some (Return False, rtos s)"
      using f Q(1) by (simp add: send_enter_def)
    then show thesis using that [of "rtos s"] False ok Q(8) service_idle [OF ok]
      by (simp add: xTimerGenericCommand_def Let_def xQueueGenericSend_def)
  qed
qed

lemma receive_none: "service_ok s \<Longrightarrow> commands s = [] \<Longrightarrow> receive_command s = Some (None, s)"
proof -
  assume ok: "service_ok s" and e: "commands s = []"
  obtain Q where Q: "queues (rtos s) (xTimerQueue s) = Some Q" "commands s = map bytes_message (queue_items (rtos s) Q)"
    using service_queue [OF ok] by metis
  then have "uxMessagesWaiting Q = 0" using e by (simp add: queue_items_Nil)
  then show ?thesis using Q(1) by (simp add: receive_command_def xQueueGenericReceive_def receive_enter_def)
qed

lemma receive_some:
  assumes ok: "service_ok s" and ne: "commands s = m # ms"
  obtains r where "receive_command s = Some (Some m, s\<lparr>rtos := r\<rparr>)" "service_ok (s\<lparr>rtos := r\<rparr>)"
    "commands (s\<lparr>rtos := r\<rparr>) = ms" "woke (kern (rtos s)) (kern r)"
proof -
  let ?q = "xTimerQueue s"
  obtain Q where Q: "queues (rtos s) ?q = Some Q" "\<not> is_mutex Q" "sys_ok (rtos s)"
    "commands s = map bytes_message (queue_items (rtos s) Q)" using service_queue [OF ok] by metis
  obtain x xs where x: "queue_items (rtos s) Q = x # xs" "m = bytes_message x" "ms = map bytes_message xs"
    using ne Q(4) by (cases "queue_items (rtos s) Q") auto
  then have "uxMessagesWaiting Q > 0" using queue_items_Nil [of "rtos s" Q] by (simp add: word_gt_0)
  then obtain r where r: "receive_enter ?q 0 False None (rtos s) = Some (Return (Some x), r)"
    "queue_changed ?q Q xs (TasksWaitingToSend ?q) (rtos s) r"
    using receive_enter_effect(1) [OF Q(3,1,2), of 0 None] x(1) by auto
  show thesis using that [of r] service_changed [OF ok Q(1) r(2)] r(1) x(2,3)
    by (simp add: receive_command_def xQueueGenericReceive_def)
qed

end
