(* ===== verification/Timer_Switch.thy ===== *)
theory Timer_Switch
  imports Timer_View
begin

text \<open>
  The switch of the timer lists when the tick counter wraps. The timers left in the current list have
  expired; an auto-reload timer may have expired several times. The callbacks are code of the application:
  \<open>callback_ok\<close> is what timers.c relies on, that they return and leave the private data of the service alone.
\<close>

section \<open>Callbacks\<close>

text \<open>What the service keeps while code of the application runs: the static variables of timers.c and the
  timers. The application may create timers and send commands.\<close>

definition service_frame :: "'a timer_service \<Rightarrow> 'a timer_service \<Rightarrow> bool" where
  "service_frame s s' \<longleftrightarrow> service_ok s' \<and> pxCurrentTimerList s' = pxCurrentTimerList s \<and>
     pxOverflowTimerList s' = pxOverflowTimerList s \<and> xTimerQueue s' = xTimerQueue s \<and> xLastTime s' = xLastTime s \<and>
     timers s \<subseteq>\<^sub>m timers s' \<and> uxSchedulerSuspended (kern (rtos s')) = uxSchedulerSuspended (kern (rtos s)) \<and>
     pxCurrentTCB (kern (rtos s')) = pxCurrentTCB (kern (rtos s)) \<and> (\<exists>ms. commands s' = commands s @ ms)"

text \<open>\<open>calls\<close> reads off the state of the application how often each timer's callback was called.\<close>

definition callback_ok :: "('a \<Rightarrow> timer \<Rightarrow> nat) \<Rightarrow> 'a callbacks \<Rightarrow> bool" where
  "callback_ok calls cb \<longleftrightarrow> (\<forall>f t s. service_ok s \<longrightarrow> (\<exists>s'. cb f t s = Some s' \<and> service_frame s s' \<and>
     tlists s' = tlists s \<and> calls (app s') = (calls (app s))(t := Suc (calls (app s) t))))"

lemma service_frame_trans:
  assumes "service_frame s s1" and "service_frame s1 s2"
  shows "service_frame s s2"
proof -
  have "timers s \<subseteq>\<^sub>m timers s2" using assms map_le_trans unfolding service_frame_def by blast
  then show ?thesis using assms by (auto simp: service_frame_def)
qed

lemma callE:
  assumes "callback_ok calls cb" and "service_ok s" and "timers s t = Some T"
  obtains s' where "call cb t s = Some s'" "service_frame s s'" "tlists s' = tlists s"
    "calls (app s') = (calls (app s))(t := Suc (calls (app s) t))"
proof -
  obtain s' where "cb (pxCallbackFunction T) t s = Some s'" "service_frame s s'" "tlists s' = tlists s"
    "calls (app s') = (calls (app s))(t := Suc (calls (app s) t))"
    using assms(1,2) unfolding callback_ok_def by blast
  then show thesis using that assms(3) by (simp add: call_def)
qed

lemma commands_lists [simp]: "commands (s\<lparr>tlists := h\<rparr>) = commands s"
  by (simp add: commands_def)

lemma service_frame_refl: "service_ok s \<Longrightarrow> service_frame s s"
  by (simp add: service_frame_def)

lemma map_le_lookup: "f \<subseteq>\<^sub>m g \<Longrightarrow> f x = Some y \<Longrightarrow> g x = Some y"
  by (metis domI map_le_def)

lemma service_frameD:
  assumes "service_frame s s'"
  shows "service_ok s'" "pxCurrentTimerList s' = pxCurrentTimerList s" "timers s t = Some T \<Longrightarrow> timers s' t = Some T"
  using assms by (auto simp: service_frame_def map_le_def dom_def)

lemma service_lists: "service_ok s \<Longrightarrow> lists_ok (s\<lparr>tlists := h\<rparr>) \<Longrightarrow> service_ok (s\<lparr>tlists := h\<rparr>)"
  by (simp add: service_ok_def)

lemma service_frame_lists:
  "service_frame s s' \<Longrightarrow> lists_ok (s'\<lparr>tlists := h\<rparr>) \<Longrightarrow> service_frame s (s'\<lparr>tlists := h\<rparr>)"
  by (simp add: service_frame_def service_lists)

lemma resend_effect:
  assumes ok: "service_ok s"
  obtains r where "resend t v s = Some (s\<lparr>rtos := r\<rparr>)" "service_frame s (s\<lparr>rtos := r\<rparr>)"
    "\<lparr>xMessageID = tmrCOMMAND_START, xMessageValue = v, pxTimer = t\<rparr> \<in> set (commands (s\<lparr>rtos := r\<rparr>)) \<or>
       10 \<le> length (commands (s\<lparr>rtos := r\<rparr>))"
    "woke (kern (rtos s)) (kern r)"
    "length (commands s) < 10 \<Longrightarrow>
       commands (s\<lparr>rtos := r\<rparr>) = commands s @ [\<lparr>xMessageID = tmrCOMMAND_START, xMessageValue = v, pxTimer = t\<rparr>]"
proof -
  obtain r where r: "xTimerGenericCommand no_irq t tmrCOMMAND_START v None 0 s = Some (Done (length (commands s) < 10), None, s\<lparr>rtos := r\<rparr>)"
    "service_ok (s\<lparr>rtos := r\<rparr>)" "woke (kern (rtos s)) (kern r)"
    "commands (s\<lparr>rtos := r\<rparr>) = (if length (commands s) < 10
       then commands s @ [\<lparr>xMessageID = tmrCOMMAND_START, xMessageValue = v, pxTimer = t\<rparr>] else commands s)"
    using send_command [OF ok] by blast
  have "service_frame s (s\<lparr>rtos := r\<rparr>)" using r(2-4) by (simp add: service_frame_def woke_def same_env_def)
  then show thesis using that [of r] r by (simp add: resend_def)
qed

section \<open>One expiry\<close>

definition period :: "xTIMER \<Rightarrow> nat" where
  "period T = unat (xTimerPeriodInTicks T)"

definition auto_reload :: "xTIMER \<Rightarrow> bool" where
  "auto_reload T \<longleftrightarrow> uxAutoReload T = 1"

text \<open>The end of the turn of the counter in which \<open>L\<close> lies.\<close>

definition wrap_time :: "nat \<Rightarrow> nat" where
  "wrap_time L = (L div 2 ^ 32 + 1) * 2 ^ 32"

lemma expiry_current:
  assumes "lists_ok s"
  shows "timer_expiry L s t = Some E \<and> E < wrap_time L \<longleftrightarrow>
    pvContainer (tlists s) t = Some (pxCurrentTimerList s) \<and> E = L div 2 ^ 32 * 2 ^ 32 + unat (item_value (tlists s) t)"
  using unsigned_less [of "item_value (tlists s) t", where ?'a = nat]
  by (auto simp: timer_expiry_def wrap_time_def)

lemma reload_time:
  fixes v p :: u32
  assumes "p \<noteq> 0"
  shows "v < v + p \<longleftrightarrow> unat v + unat p < 4294967296" and "unat v + unat p < 4294967296 \<Longrightarrow> unat (v + p) = unat v + unat p"
proof -
  have b: "unat v < 4294967296" "unat p < 4294967296" "0 < unat p"
    using unsigned_less [of v, where ?'a = nat] unsigned_less [of p, where ?'a = nat] assms
    by (simp_all add: unat_gt_0)
  have u: "unat (v + p) = (unat v + unat p) mod 4294967296" by (simp add: unat_word_ariths)
  show "unat v + unat p < 4294967296 \<Longrightarrow> unat (v + p) = unat v + unat p" by (simp add: u)
  show "v < v + p \<longleftrightarrow> unat v + unat p < 4294967296"
  proof (cases "unat v + unat p < 4294967296")
    case True
    then show ?thesis using b by (simp add: word_less_nat_alt u)
  next
    case False
    then have "unat (v + p) = unat v + unat p - 4294967296" using b unfolding u by (simp add: mod_if)
    then show ?thesis using False b by (simp add: word_less_nat_alt)
  qed
qed

text \<open>What becomes of the expiry time \<open>E\<close> of a timer whose callback is called before the counter wraps at \<open>B\<close>.\<close>

definition next_expiry :: "nat \<Rightarrow> xTIMER \<Rightarrow> nat \<Rightarrow> nat option" where
  "next_expiry B T E = (if auto_reload T \<and> E + period T < B then Some (E + period T) else None)"

definition start_command :: "timer \<Rightarrow> nat \<Rightarrow> xTIMER_MESSAGE" where
  "start_command t E = \<lparr>xMessageID = tmrCOMMAND_START, xMessageValue = of_nat E, pxTimer = t\<rparr>"

definition queued :: "xTIMER_MESSAGE \<Rightarrow> 'a timer_service \<Rightarrow> bool" where
  "queued m s \<longleftrightarrow> m \<in> set (commands s) \<or> 10 \<le> length (commands s)"

lemma queued_frame: "queued m s \<Longrightarrow> service_frame s s' \<Longrightarrow> queued m s'"
  by (auto simp: queued_def service_frame_def)

lemma expire_head_effect:
  assumes ok: "service_ok s" and cb: "callback_ok calls cb"
    and ne: "list_items (tlists s) (pxCurrentTimerList s) = t # ts" and T: "timers s t = Some T"
    and E: "timer_expiry L s t = Some E"
  obtains s' where "expire_head cb s = Some s'" "service_frame s s'"
    "timer_expiry L s' = (timer_expiry L s)(t := next_expiry (wrap_time L) T E)"
    "calls (app s') = (calls (app s))(t := Suc (calls (app s) t))"
    "auto_reload T \<Longrightarrow> \<not> E + period T < wrap_time L \<Longrightarrow> queued (start_command t E) s'"
proof -
  let ?v = "item_value (tlists s) t" and ?cur = "pxCurrentTimerList s" and ?p = "xTimerPeriodInTicks T"
  have lo: "lists_ok s" using ok by (simp add: service_ok_def)
  note hd = head_timer [OF lo ne]
  obtain n h where h: "uxListRemove t (tlists s) = Some (n, h)" "lists_ok (s\<lparr>tlists := h\<rparr>)"
    "pvContainer h = (pvContainer (tlists s))(t := None)" "item_value h = item_value (tlists s)"
    using remove_timer [OF lo hd(1)] by blast
  have f1: "service_frame s (s\<lparr>tlists := h\<rparr>)" by (rule service_frame_lists [OF service_frame_refl [OF ok] h(2)])
  obtain s2 where s2: "call cb t (s\<lparr>tlists := h\<rparr>) = Some s2" "service_frame (s\<lparr>tlists := h\<rparr>) s2" "tlists s2 = h"
    "calls (app s2) = (calls (app s))(t := Suc (calls (app s) t))"
    using callE [OF cb service_frameD(1) [OF f1], of t T] T by auto
  have f2: "service_frame s s2" by (rule service_frame_trans [OF f1 s2(2)])
  note d = service_frameD [OF f2]
  have T2: "timers s2 t = Some T" by (rule d(3) [OF T])
  have lo2: "lists_ok s2" using d(1) by (simp add: service_ok_def)
  have e2: "timer_expiry L s2 = (timer_expiry L s)(t := None)" by (auto simp: timer_expiry_def s2(3) h(3,4) d(2) fun_eq_iff)
  have p0: "?p \<noteq> 0" by (rule lists_okD(8) [OF lo hd(1) T])
  have Ev: "E = L div 4294967296 * 4294967296 + unat ?v" using E hd(1) by (simp add: timer_expiry_def)
  have iff: "?v < ?v + ?p \<longleftrightarrow> E + period T < wrap_time L"
    unfolding reload_time(1) [OF p0] Ev period_def wrap_time_def by simp
  have run: "expire_head cb s = (if uxAutoReload T = 1
      then (if ?v < ?v + ?p then map_option (\<lambda>h. s2\<lparr>tlists := h\<rparr>) (vListInsert ?cur t (set_item t (?v + ?p) h)) else resend t ?v s2)
      else Some s2)"
    using hd(2,3) h(1) s2(1,3) T2 d(2)
    by (simp add: expire_head_def Let_def) (auto simp: map_option_case split: option.splits)
  show thesis
  proof (cases "auto_reload T \<and> E + period T < wrap_time L")
    case True
    have c2: "pvContainer (tlists s2) t = None" by (simp add: s2(3) h(3))
    obtain g where g: "vListInsert ?cur t (set_item t (?v + ?p) (tlists s2)) = Some g" "lists_ok (s2\<lparr>tlists := g\<rparr>)"
      "pvContainer g = (pvContainer (tlists s2))(t := Some ?cur)" "item_value g = (item_value (tlists s2))(t := ?v + ?p)"
      using insert_timer [OF lo2 c2 T2 p0] by blast
    have "unat (?v + ?p) = unat ?v + period T"
      using True iff reload_time [OF p0, of ?v] by (simp add: period_def)
    then have "timer_expiry L (s2\<lparr>tlists := g\<rparr>) = (timer_expiry L s)(t := Some (E + period T))"
      using Ev by (auto simp: timer_expiry_def fun_eq_iff g(3,4) s2(3) h(3,4) d(2))
    then show thesis using that [of "s2\<lparr>tlists := g\<rparr>"] True iff run g(1) s2(3,4) service_frame_lists [OF f2 g(2)]
      by (simp add: auto_reload_def next_expiry_def)
  next
    case False
    then have ne: "next_expiry (wrap_time L) T E = None" by (simp add: next_expiry_def)
    show thesis
    proof (cases "auto_reload T")
      case True
      have "(4294967296 :: u32) = 0" by simp
      then have vE: "?v = of_nat E" unfolding Ev of_nat_add of_nat_mult by (simp only: of_nat_numeral) simp
      obtain r where r: "resend t ?v s2 = Some (s2\<lparr>rtos := r\<rparr>)" "service_frame s2 (s2\<lparr>rtos := r\<rparr>)"
        "\<lparr>xMessageID = tmrCOMMAND_START, xMessageValue = ?v, pxTimer = t\<rparr> \<in> set (commands (s2\<lparr>rtos := r\<rparr>)) \<or>
          10 \<le> length (commands (s2\<lparr>rtos := r\<rparr>))"
        using resend_effect [OF d(1)] by blast
      have "timer_expiry L (s2\<lparr>rtos := r\<rparr>) = timer_expiry L s2" by (auto simp: timer_expiry_def fun_eq_iff)
      moreover have "queued (start_command t E) (s2\<lparr>rtos := r\<rparr>)" using r(3) by (simp add: queued_def start_command_def vE)
      ultimately show thesis using that [of "s2\<lparr>rtos := r\<rparr>"] True False iff run r(1) s2(4) e2 ne service_frame_trans [OF f2 r(2)]
        by (simp add: auto_reload_def)
    next
      case False
      then show thesis using that [of s2] run s2(4) e2 ne f2 by (simp add: auto_reload_def)
    qed
  qed
qed

section \<open>Draining the current list\<close>

text \<open>How often a timer that expires at \<open>E\<close> expires before \<open>B\<close>, and when it does so last.\<close>

definition expiries :: "nat \<Rightarrow> xTIMER \<Rightarrow> nat \<Rightarrow> nat" where
  "expiries B T E = (if auto_reload T then (B - 1 - E) div period T + 1 else 1)"

definition last_expiry :: "nat \<Rightarrow> xTIMER \<Rightarrow> nat \<Rightarrow> nat" where
  "last_expiry B T E = E + period T * ((B - 1 - E) div period T)"

lemma expiries_step:
  assumes "0 < period T" and "E < B" and "auto_reload T"
  shows "E + period T < B \<Longrightarrow> expiries B T E = Suc (expiries B T (E + period T))"
    and "E + period T < B \<Longrightarrow> last_expiry B T (E + period T) = last_expiry B T E"
    and "\<not> E + period T < B \<Longrightarrow> expiries B T E = 1"
    and "\<not> E + period T < B \<Longrightarrow> last_expiry B T E = E"
proof -
  let ?P = "period T" and ?d = "B - 1 - E"
  have d: "?d div ?P = Suc ((B - 1 - (E + ?P)) div ?P)" if "E + ?P < B"
  proof -
    have "?P \<le> ?d" using that by linarith
    moreover have "?d - ?P = B - 1 - (E + ?P)" by simp
    ultimately show ?thesis using le_div_geq [OF assms(1), of ?d] by simp
  qed
  show "E + ?P < B \<Longrightarrow> expiries B T E = Suc (expiries B T (E + ?P))"
    using d assms(3) by (simp add: expiries_def)
  show "E + ?P < B \<Longrightarrow> last_expiry B T (E + ?P) = last_expiry B T E"
    using d by (simp add: last_expiry_def)
  have z: "?d div ?P = 0" if "\<not> E + ?P < B" using that assms(2) by (intro div_less) linarith
  show "\<not> E + ?P < B \<Longrightarrow> expiries B T E = 1" "\<not> E + ?P < B \<Longrightarrow> last_expiry B T E = E"
    using z assms(3) by (simp_all add: expiries_def last_expiry_def)
qed

text \<open>The calls a state of the view still owes to a timer before the counter wraps.\<close>

definition owed :: "nat \<Rightarrow> 'a timer_service \<Rightarrow> timer \<Rightarrow> nat" where
  "owed L s t = (case timer_expiry L s t of
     Some E \<Rightarrow> if E < wrap_time L then expiries (wrap_time L) (the (timers s t)) E else 0
   | None \<Rightarrow> 0)"

definition drained :: "('a \<Rightarrow> timer \<Rightarrow> nat) \<Rightarrow> nat \<Rightarrow> 'a timer_service \<Rightarrow> 'a timer_service \<Rightarrow> bool" where
  "drained calls L s s' \<longleftrightarrow> service_frame s s' \<and>
     (\<forall>t E. timer_expiry L s' t = Some E \<longleftrightarrow> timer_expiry L s t = Some E \<and> wrap_time L \<le> E) \<and>
     (\<forall>t. calls (app s') t = calls (app s) t + owed L s t) \<and>
     (\<forall>t T E. timers s t = Some T \<longrightarrow> timer_expiry L s t = Some E \<longrightarrow> E < wrap_time L \<longrightarrow> auto_reload T \<longrightarrow>
        queued (start_command t (last_expiry (wrap_time L) T E)) s')"

lemma drained_step:
  assumes ok: "service_ok s" and T: "timers s t = Some T" and E: "timer_expiry L s t = Some E" "E < wrap_time L"
    and s1: "service_frame s s1" "timer_expiry L s1 = (timer_expiry L s)(t := next_expiry (wrap_time L) T E)"
    "calls (app s1) = (calls (app s))(t := Suc (calls (app s) t))"
    "auto_reload T \<Longrightarrow> \<not> E + period T < wrap_time L \<Longrightarrow> queued (start_command t E) s1"
    and d: "drained calls L s1 s2"
  shows "drained calls L s s2"
proof -
  let ?B = "wrap_time L"
  have lo: "lists_ok s" using ok by (simp add: service_ok_def)
  have "xTimerPeriodInTicks T \<noteq> 0"
    using expiry_current [OF lo, of L t E] E lists_okD(8) [OF lo _ T] by blast
  then have P: "0 < period T" by (simp add: period_def unat_gt_0)
  have T1: "timers s1 x = Some X" if "timers s x = Some X" for x X by (rule service_frameD(3) [OF s1(1) that])
  have dom: "timers s x \<noteq> None" if "timer_expiry L s x = Some F" for x F
    using that lists_okD(6) [OF lo] by (auto simp: timer_expiry_def)
  have ow: "owed L s x = (if x = t then Suc (owed L s1 t) else owed L s1 x)" for x
  proof (cases "x = t")
    case True
    then show ?thesis using E T T1 [OF T] expiries_step(1,3) [OF P E(2)]
      by (auto simp: owed_def s1(2) next_expiry_def expiries_def)
  next
    case False
    show ?thesis
    proof (cases "timer_expiry L s x")
      case None
      then show ?thesis using False by (simp add: owed_def s1(2))
    next
      case (Some F)
      then obtain X where "timers s x = Some X" using dom by blast
      then show ?thesis using Some False T1 by (simp add: owed_def s1(2))
    qed
  qed
  have fr: "service_frame s s2" using service_frame_trans [OF s1(1)] d by (simp add: drained_def)
  have "calls (app s2) x = calls (app s) x + owed L s x" for x
    using d by (simp add: drained_def s1(3) ow)
  moreover have "timer_expiry L s2 x = Some F \<longleftrightarrow> timer_expiry L s x = Some F \<and> ?B \<le> F" for x F
    using d E by (auto simp: drained_def s1(2) next_expiry_def)
  moreover have "queued (start_command x (last_expiry ?B X F)) s2"
    if x: "timers s x = Some X" "timer_expiry L s x = Some F" "F < ?B" "auto_reload X" for x X F
  proof (cases "x = t")
    case True
    then have X: "X = T" "F = E" using x T E by auto
    show ?thesis
    proof (cases "E + period T < ?B")
      case True
      then have "timer_expiry L s1 t = Some (E + period T)" using x X by (simp add: s1(2) next_expiry_def)
      then have "queued (start_command t (last_expiry ?B T (E + period T))) s2"
        using d T1 [OF T] True x X by (simp add: drained_def)
      then show ?thesis using \<open>x = t\<close> X expiries_step(2) [OF P E(2)] True x(4) by simp
    next
      case False
      then have "queued (start_command t E) s2"
        using s1(4) x(4) X d queued_frame by (auto simp: drained_def)
      then show ?thesis using \<open>x = t\<close> X expiries_step(4) [OF P E(2)] False x(4) by simp
    qed
  next
    case False
    then show ?thesis using d x T1 [OF x(1)] by (simp add: drained_def s1(2))
  qed
  ultimately show ?thesis using fr by (simp add: drained_def)
qed

text \<open>The time the timers of the current list have left before the counter wraps.\<close>

definition time_left :: "nat \<Rightarrow> 'a timer_service \<Rightarrow> nat" where
  "time_left L s = (\<Sum>t\<in>UNIV. case timer_expiry L s t of Some E \<Rightarrow> wrap_time L - E | None \<Rightarrow> 0)"

lemma time_left_step:
  assumes "timer_expiry L s t = Some E" "E < wrap_time L" and "0 < period T"
    and "timer_expiry L s1 = (timer_expiry L s)(t := next_expiry (wrap_time L) T E)"
  shows "time_left L s1 < time_left L s"
proof -
  let ?f = "\<lambda>s t. case timer_expiry L s t of Some E \<Rightarrow> wrap_time L - E | None \<Rightarrow> 0"
  have "(\<Sum>x\<in>UNIV - {t}. ?f s1 x) = (\<Sum>x\<in>UNIV - {t}. ?f s x)" by (rule sum.cong) (simp_all add: assms(4))
  moreover have "?f s1 t < ?f s t" using assms by (auto simp: next_expiry_def intro: diff_less_mono2)
  ultimately show ?thesis unfolding time_left_def
    using sum.remove [of UNIV t "?f s"] sum.remove [of UNIV t "?f s1"] by simp
qed

lemma drain_effect:
  assumes "service_ok s" and cb: "callback_ok calls cb"
  shows "\<exists>s'. drain_timers cb s = Some s' \<and> drained calls L s s' \<and> list_items (tlists s') (pxCurrentTimerList s') = []"
  using assms(1)
proof (induction "time_left L s" arbitrary: s rule: less_induct)
  case less
  have lo: "lists_ok s" using less.prems by (simp add: service_ok_def)
  let ?cur = "pxCurrentTimerList s"
  have em: "listLIST_IS_EMPTY ?cur (tlists s) \<longleftrightarrow> list_items (tlists s) ?cur = []"
    by (rule is_empty_items(1) [OF lists_okD(1,2) [OF lo]])
  show ?case
  proof (cases "list_items (tlists s) ?cur")
    case Nil
    have no: "wrap_time L \<le> E" if "timer_expiry L s t = Some E" for t E
      using that expiry_current [OF lo, of L t E] Nil heap_wf_container [OF lists_okD(1) [OF lo], of t ?cur] by fastforce
    then have "owed L s t = 0" for t by (auto simp: owed_def dest: leD split: option.split)
    then have "drained calls L s s"
      using service_frame_refl [OF less.prems] no by (auto simp: drained_def dest: leD)
    then show ?thesis using Nil em by (subst drain_timers.simps) auto
  next
    case (Cons t ts)
    have c: "pvContainer (tlists s) t = Some ?cur" by (rule head_timer(1) [OF lo Cons])
    obtain T where T: "timers s t = Some T" using lists_okD(6) [OF lo c] by blast
    obtain E where E: "timer_expiry L s t = Some E" "E < wrap_time L" using expiry_current [OF lo, of L t] c by blast
    have P: "0 < period T" using lists_okD(8) [OF lo c T] by (simp add: period_def unat_gt_0)
    obtain s1 where s1: "expire_head cb s = Some s1" "service_frame s s1"
      "timer_expiry L s1 = (timer_expiry L s)(t := next_expiry (wrap_time L) T E)"
      "calls (app s1) = (calls (app s))(t := Suc (calls (app s) t))"
      "auto_reload T \<Longrightarrow> \<not> E + period T < wrap_time L \<Longrightarrow> queued (start_command t E) s1"
      using expire_head_effect [OF less.prems cb Cons T E(1)] by blast
    obtain s2 where s2: "drain_timers cb s1 = Some s2" "drained calls L s1 s2" "list_items (tlists s2) (pxCurrentTimerList s2) = []"
      using less.hyps [OF time_left_step [OF E P s1(3)] service_frameD(1) [OF s1(2)]] by blast
    have "drain_timers cb s = Some s2" using Cons em s1(1) s2(1) by (subst drain_timers.simps) simp
    then show ?thesis using drained_step [OF less.prems T E s1(2,3,4,5) s2(2)] s2(3) by blast
  qed
qed

end
