(* ===== verification/Timer_Task.thy ===== *)
theory Timer_Task
  imports Timer_Switch
begin

text \<open>
  The timer task: sampling the tick counter, processing a received command, and expiring the first timer, each by its
  effect on the view in true time. \<open>L\<close> is the true time of the last sample, \<open>N\<close> the true time now.
\<close>

section \<open>Sampling the time\<close>

definition sampled :: "('a \<Rightarrow> timer \<Rightarrow> nat) \<Rightarrow> nat \<Rightarrow> nat \<Rightarrow> 'a timer_service \<Rightarrow> 'a timer_service \<Rightarrow> bool" where
  "sampled calls L N s s' \<longleftrightarrow> service_ok s' \<and> xTimerQueue s' = xTimerQueue s \<and> xLastTime s' = of_nat N \<and>
     timers s \<subseteq>\<^sub>m timers s' \<and> uxSchedulerSuspended (kern (rtos s')) = uxSchedulerSuspended (kern (rtos s)) \<and>
     pxCurrentTCB (kern (rtos s')) = pxCurrentTCB (kern (rtos s)) \<and> (\<exists>ms. commands s' = commands s @ ms) \<and>
     (N div 2 ^ 32 = L div 2 ^ 32 \<longrightarrow> rtos s' = rtos s) \<and>
     (\<forall>t E. timer_expiry N s' t = Some E \<longleftrightarrow> timer_expiry L s t = Some E \<and> N div 2 ^ 32 * 2 ^ 32 \<le> E) \<and>
     (\<forall>t. calls (app s') t = calls (app s) t + (if N div 2 ^ 32 = L div 2 ^ 32 then 0 else owed L s t)) \<and>
     (N div 2 ^ 32 \<noteq> L div 2 ^ 32 \<longrightarrow> (\<forall>t T E. timers s t = Some T \<longrightarrow> timer_expiry L s t = Some E \<longrightarrow> E < wrap_time L \<longrightarrow>
        auto_reload T \<longrightarrow> queued (start_command t (last_expiry (wrap_time L) T E)) s'))"

lemma wrapped_iff:
  assumes "L \<le> N" "N < L + 4294967296"
  shows "(of_nat N :: u32) < of_nat L \<longleftrightarrow> N div 4294967296 \<noteq> L div 4294967296"
    and "N div 4294967296 \<noteq> L div 4294967296 \<Longrightarrow> N div 4294967296 = L div 4294967296 + 1"
proof -
  obtain a x where a: "L = a * 4294967296 + x" "x < 4294967296"
    using mod_less_divisor [of 4294967296 L] div_mult_mod_eq [of L 4294967296] by (metis zero_less_numeral)
  obtain b y where b: "N = b * 4294967296 + y" "y < 4294967296"
    using mod_less_divisor [of 4294967296 N] div_mult_mod_eq [of N 4294967296] by (metis zero_less_numeral)
  have m: "unat (of_nat N :: u32) = y" "unat (of_nat L :: u32) = x" "N div 4294967296 = b" "L div 4294967296 = a"
    unfolding of_nat_mod_u32 using a b by simp_all
  have ba: "b = a \<or> b = a + 1" using a b assms by linarith
  show "(of_nat N :: u32) < of_nat L \<longleftrightarrow> N div 4294967296 \<noteq> L div 4294967296"
    unfolding word_less_nat_alt m using ba a b assms by (elim disjE) auto
  show "N div 4294967296 \<noteq> L div 4294967296 \<Longrightarrow> N div 4294967296 = L div 4294967296 + 1" using ba m by simp
qed

lemma expiry_ge:
  "timer_expiry L s t = Some E \<Longrightarrow> L div 4294967296 * 4294967296 \<le> E"
  by (auto simp: timer_expiry_def)

lemma lists_ok_last [simp]: "lists_ok (s\<lparr>xLastTime := n\<rparr>) = lists_ok s"
  by (simp add: lists_ok_def)

lemma service_ok_last [simp]: "service_ok (s\<lparr>xLastTime := n\<rparr>) = service_ok s"
  by (simp add: service_ok_def)

lemma commands_last [simp]: "commands (s\<lparr>xLastTime := n\<rparr>) = commands s"
  by (simp add: commands_def)

lemma expiry_last [simp]: "timer_expiry L (s\<lparr>xLastTime := n\<rparr>) = timer_expiry L s"
  by (simp add: timer_expiry_def fun_eq_iff)

lemma queued_last [simp]: "queued m (s\<lparr>xLastTime := n\<rparr>) = queued m s"
  by (simp add: queued_def)

text \<open>The view after the lists have changed places: the current list was empty.\<close>

definition swap_lists :: "'a timer_service \<Rightarrow> 'a timer_service" where
  "swap_lists s = s\<lparr>pxCurrentTimerList := pxOverflowTimerList s, pxOverflowTimerList := pxCurrentTimerList s\<rparr>"

lemma swap_effect:
  assumes ok: "service_ok s" and e: "list_items (tlists s) (pxCurrentTimerList s) = []"
    and N: "N div 4294967296 = L div 4294967296 + 1"
  shows "service_ok (swap_lists s)" and "timer_expiry N (swap_lists s) = timer_expiry L s"
proof -
  have lo: "lists_ok s" using ok by (simp add: service_ok_def)
  show "service_ok (swap_lists s)"
    using ok lists_okD(3) [OF lo] by (auto simp: service_ok_def lists_ok_def swap_lists_def)
  have "pvContainer (tlists s) t \<noteq> Some (pxCurrentTimerList s)" for t
    using heap_wf_container [OF lists_okD(1) [OF lo], of t "pxCurrentTimerList s"] e by simp
  moreover have "l = pxOverflowTimerList s" if "l \<noteq> pxCurrentTimerList s" for l
    using that lists_okD(3) [OF lo] by (cases l; cases "pxCurrentTimerList s"; cases "pxOverflowTimerList s") auto
  ultimately show "timer_expiry N (swap_lists s) = timer_expiry L s"
    by (auto simp: timer_expiry_def swap_lists_def fun_eq_iff N map_option_case split: option.split)
qed

lemma sample_effect:
  assumes ok: "service_ok s" and cb: "callback_ok calls cb" and LN: "L \<le> N" "N < L + 2 ^ 32"
    and t: "xLastTime s = of_nat L" "xTickCount (kern (rtos s)) = of_nat N"
  obtains s' where "prvSampleTimeNow cb s = Some (of_nat N, N div 2 ^ 32 \<noteq> L div 2 ^ 32, s')" "sampled calls L N s s'"
proof (cases "N div 4294967296 = L div 4294967296")
  case True
  have w: "\<not> (of_nat N :: u32) < of_nat L" using wrapped_iff(1) [of L N] LN True by simp
  have e: "timer_expiry N s = timer_expiry L s" by (simp add: timer_expiry_def fun_eq_iff True)
  have "sampled calls L N s (s\<lparr>xLastTime := of_nat N\<rparr>)"
    using ok True expiry_ge [of L s] by (auto simp: sampled_def e)
  moreover have "prvSampleTimeNow cb s = Some (of_nat N, False, s\<lparr>xLastTime := of_nat N\<rparr>)"
    using w by (simp add: prvSampleTimeNow_def xTaskGetTickCount_def t Let_def)
  ultimately show thesis using that True by simp
next
  case False
  have w: "(of_nat N :: u32) < of_nat L" and s1: "N div 4294967296 = L div 4294967296 + 1"
    using wrapped_iff [of L N] LN False by simp_all
  have B: "wrap_time L = N div 4294967296 * 4294967296" by (simp add: wrap_time_def s1)
  obtain s' where s': "drain_timers cb s = Some s'" "drained calls L s s'" "list_items (tlists s') (pxCurrentTimerList s') = []"
    using drain_effect [OF ok cb] by blast
  have fr: "service_frame s s'" using s'(2) by (simp add: drained_def)
  note sw = swap_effect [OF service_frameD(1) [OF fr] s'(3) s1]
  have same: "commands (swap_lists s') = commands s'" "app (swap_lists s') = app s'" "rtos (swap_lists s') = rtos s'"
    "timers (swap_lists s') = timers s'" "xTimerQueue (swap_lists s') = xTimerQueue s'" "queued m (swap_lists s') = queued m s'" for m
    by (simp_all add: swap_lists_def commands_def queued_def)
  have "sampled calls L N s ((swap_lists s')\<lparr>xLastTime := of_nat N\<rparr>)"
    using sw fr s'(2) False unfolding sampled_def
    by (simp add: same drained_def service_frame_def B)
  moreover have "prvSampleTimeNow cb s = Some (of_nat N, True, (swap_lists s')\<lparr>xLastTime := of_nat N\<rparr>)"
    using w s'(1) by (simp add: prvSampleTimeNow_def xTaskGetTickCount_def t prvSwitchTimerLists_def swap_lists_def Let_def)
  ultimately show thesis using that False by simp
qed

section \<open>Processing a command\<close>

text \<open>The first step of every command: the timer leaves its list.\<close>

lemma unlink_effect:
  assumes ok: "service_ok s"
  obtains h where "(if \<not> listIS_CONTAINED_WITHIN None t (tlists s) then map_option snd (uxListRemove t (tlists s)) else Some (tlists s)) = Some h"
    "service_ok (s\<lparr>tlists := h\<rparr>)" "timer_expiry L (s\<lparr>tlists := h\<rparr>) = (timer_expiry L s)(t := None)"
proof (cases "pvContainer (tlists s) t")
  case None
  have "(timer_expiry L s)(t := None) = timer_expiry L s" using None by (auto simp: timer_expiry_def fun_eq_iff)
  then show thesis using that [of "tlists s"] None ok by (simp add: listIS_CONTAINED_WITHIN_def)
next
  case (Some l)
  have lo: "lists_ok s" using ok by (simp add: service_ok_def)
  obtain n h where h: "uxListRemove t (tlists s) = Some (n, h)" "lists_ok (s\<lparr>tlists := h\<rparr>)"
    "pvContainer h = (pvContainer (tlists s))(t := None)" "item_value h = item_value (tlists s)"
    using remove_timer [OF lo Some] by blast
  have "timer_expiry L (s\<lparr>tlists := h\<rparr>) = (timer_expiry L s)(t := None)"
    by (auto simp: timer_expiry_def h(3,4) fun_eq_iff)
  then show thesis using that [of h] h(1) service_lists [OF ok h(2)] Some by (simp add: listIS_CONTAINED_WITHIN_def)
qed

lemma expiry_container: "timer_expiry N s t = None \<longleftrightarrow> pvContainer (tlists s) t = None"
  by (simp add: timer_expiry_def)

lemma expiry_frame:
  "tlists s' = tlists s \<Longrightarrow> pxCurrentTimerList s' = pxCurrentTimerList s \<Longrightarrow> timer_expiry L s' = timer_expiry L s"
  by (simp add: timer_expiry_def fun_eq_iff)

text \<open>The state from which a command is carried out: the timer is in no list and the time is sampled.\<close>

lemma command_start:
  assumes ok: "service_ok s" and cb: "callback_ok calls cb" and LN: "L \<le> N" "N < L + 2 ^ 32"
    and tm: "xLastTime s = of_nat L" "xTickCount (kern (rtos s)) = of_nat N"
  obtains h s1 where
    "(if \<not> listIS_CONTAINED_WITHIN None t (tlists s) then map_option snd (uxListRemove t (tlists s)) else Some (tlists s)) = Some h"
    "prvSampleTimeNow cb (s\<lparr>tlists := h\<rparr>) = Some (of_nat N, N div 2 ^ 32 \<noteq> L div 2 ^ 32, s1)"
    "sampled calls L N (s\<lparr>tlists := h\<rparr>) s1" "timer_expiry L (s\<lparr>tlists := h\<rparr>) = (timer_expiry L s)(t := None)"
    "timer_expiry N s1 t = None" "service_ok s1"
proof -
  obtain h where h: "(if \<not> listIS_CONTAINED_WITHIN None t (tlists s) then map_option snd (uxListRemove t (tlists s)) else Some (tlists s)) = Some h"
    "service_ok (s\<lparr>tlists := h\<rparr>)" "timer_expiry L (s\<lparr>tlists := h\<rparr>) = (timer_expiry L s)(t := None)"
    using unlink_effect [OF ok] by blast
  obtain s1 where s1: "prvSampleTimeNow cb (s\<lparr>tlists := h\<rparr>) = Some (of_nat N, N div 2 ^ 32 \<noteq> L div 2 ^ 32, s1)"
    "sampled calls L N (s\<lparr>tlists := h\<rparr>) s1"
    using sample_effect [OF h(2) cb LN] tm by auto
  have "timer_expiry N s1 t \<noteq> Some E" for E using s1(2) h(3) by (simp add: sampled_def)
  then have "timer_expiry N s1 t = None" using option.exhaust_sel by blast
  then show thesis using that [OF h(1) s1 h(3)] s1(2) by (simp add: sampled_def)
qed

lemma owed_unlinked:
  "timer_expiry L s' = (timer_expiry L s)(t := None) \<Longrightarrow> timers s' = timers s \<Longrightarrow> owed L s' = (owed L s)(t := 0)"
  by (auto simp: owed_def split: option.split)

text \<open>Callbacks that use nothing of the kernel.\<close>

definition callback_quiet :: "'a callbacks \<Rightarrow> bool" where
  "callback_quiet cb \<longleftrightarrow> (\<forall>f t s s'. cb f t s = Some s' \<longrightarrow> rtos s' = rtos s)"

text \<open>The outcome of a start command given at the true time \<open>C\<close> and carried out at \<open>N\<close>.\<close>

definition started :: "('a \<Rightarrow> timer \<Rightarrow> nat) \<Rightarrow> timer \<Rightarrow> xTIMER \<Rightarrow> nat \<Rightarrow> nat \<Rightarrow> nat \<Rightarrow> 'a timer_service \<Rightarrow> 'a timer_service \<Rightarrow> bool" where
  "started calls t T C L N s s' \<longleftrightarrow> service_ok s' \<and> xTimerQueue s' = xTimerQueue s \<and> xLastTime s' = of_nat N \<and> timers s \<subseteq>\<^sub>m timers s' \<and>
     timer_expiry N s' t = (if C + period T \<le> N then None else Some (C + period T)) \<and>
     (\<forall>x E. x \<noteq> t \<longrightarrow> timer_expiry N s' x = Some E \<longleftrightarrow> timer_expiry L s x = Some E \<and> N div 2 ^ 32 * 2 ^ 32 \<le> E) \<and>
     (\<forall>x. x \<noteq> t \<longrightarrow> calls (app s') x = calls (app s) x + (if N div 2 ^ 32 = L div 2 ^ 32 then 0 else owed L s x)) \<and>
     calls (app s') t = calls (app s) t + (if C + period T \<le> N then 1 else 0) \<and>
     (C + period T \<le> N \<longrightarrow> auto_reload T \<longrightarrow> queued (start_command t (C + period T)) s')"

lemma process_start:
  assumes ok: "service_ok s" and cb: "callback_ok calls cb" and LN: "L \<le> N" "N < L + 2 ^ 32"
    and tm: "xLastTime s = of_nat L" "xTickCount (kern (rtos s)) = of_nat N"
    and T: "timers s t = Some T" and C: "C \<le> N" "N < C + 2 ^ 32"
  obtains s' where "process_command cb (start_command t C) s = Some s'" "started calls t T C L N s s'"
    "callback_quiet cb \<Longrightarrow> N div 2 ^ 32 = L div 2 ^ 32 \<Longrightarrow> length (commands s) < 10 \<Longrightarrow>
       xTickCount (kern (rtos s')) = of_nat N \<and>
       commands s' = commands s @ (if C + period T \<le> N \<and> auto_reload T then [start_command t (C + period T)] else [])"
proof -
  let ?P = "period T"
  obtain h s1 where s1:
    "(if \<not> listIS_CONTAINED_WITHIN None t (tlists s) then map_option snd (uxListRemove t (tlists s)) else Some (tlists s)) = Some h"
    "prvSampleTimeNow cb (s\<lparr>tlists := h\<rparr>) = Some (of_nat N, N div 2 ^ 32 \<noteq> L div 2 ^ 32, s1)"
    "sampled calls L N (s\<lparr>tlists := h\<rparr>) s1" "timer_expiry L (s\<lparr>tlists := h\<rparr>) = (timer_expiry L s)(t := None)"
    "timer_expiry N s1 t = None" "service_ok s1"
    using command_start [OF ok cb LN tm] by blast
  have T1: "timers s1 t = Some T" using s1(3) T map_le_lookup [of "timers s" "timers s1"] by (simp add: sampled_def)
  have lo: "lists_ok s1" using s1(6) by (simp add: service_ok_def)
  have c: "pvContainer (tlists s1) t = None" using s1(5) by (simp add: expiry_container)
  obtain g where g: "prvInsertTimerInActiveList t (of_nat (C + ?P)) (of_nat N) (of_nat C) s1 = Some (C + ?P \<le> N, s1\<lparr>tlists := g\<rparr>)"
    "lists_ok (s1\<lparr>tlists := g\<rparr>)"
    "timer_expiry N (s1\<lparr>tlists := g\<rparr>) = (if C + ?P \<le> N then timer_expiry N s1 else (timer_expiry N s1)(t \<mapsto> C + ?P))"
    using insert_effect [OF lo c T1 C] unfolding period_def by blast
  let ?s2 = "s1\<lparr>tlists := g\<rparr>"
  have ok2: "service_ok ?s2" by (rule service_lists [OF s1(6) g(2)])
  have ow: "owed L (s\<lparr>tlists := h\<rparr>) = (owed L s)(t := 0)" by (rule owed_unlinked [OF s1(4)]) simp
  have vp: "of_nat C + xTimerPeriodInTicks T = (of_nat (C + ?P) :: u32)" by (simp add: period_def)
  have run: "process_command cb (start_command t C) s = (if C + ?P \<le> N
      then do {
        s \<leftarrow> call cb t ?s2;
        T \<leftarrow> timers s t;
        (if uxAutoReload T = 1 then resend t (of_nat C + xTimerPeriodInTicks T) s else Some s)
      } else Some ?s2)"
    using s1(1,2) T1 g(1)
    by (simp add: process_command_def start_command_def Let_def vp del: of_nat_add split del: if_split cong: if_cong)
  show thesis
  proof (cases "C + ?P \<le> N")
    case False
    then have "started calls t T C L N s ?s2" using s1(3,4) ok2 g(3) by (simp add: started_def sampled_def ow)
    moreover have "commands ?s2 = commands s \<and> xTickCount (kern (rtos ?s2)) = of_nat N" if "N div 2 ^ 32 = L div 2 ^ 32"
      using s1(3) that tm(2) by (simp add: sampled_def commands_def)
    ultimately show thesis using that run False by simp
  next
    case True
    obtain s3 where s3: "call cb t ?s2 = Some s3" "service_frame ?s2 s3" "tlists s3 = g"
      "calls (app s3) = (calls (app s1))(t := Suc (calls (app s1) t))"
      using callE [OF cb ok2, of t T] T1 by auto
    have q3: "commands s3 = commands s \<and> xTickCount (kern (rtos s3)) = of_nat N" if "callback_quiet cb" "N div 2 ^ 32 = L div 2 ^ 32"
    proof -
      have "rtos s3 = rtos ?s2" using s3(1) that(1) T1 by (simp add: call_def callback_quiet_def)
      moreover have "rtos s1 = rtos s" "xTimerQueue s3 = xTimerQueue s"
        using s1(3) that(2) s3(2) by (simp_all add: sampled_def service_frame_def)
      ultimately show ?thesis using tm(2) by (simp add: commands_def)
    qed
    note d = service_frameD [OF s3(2)]
    have T3: "timers s3 t = Some T" using d(3) T1 by simp
    have e3: "timer_expiry N s3 = timer_expiry N s1" using g(3) True expiry_frame [of s3 ?s2 N] s3(3) d(2) by simp
    have mt: "timers s \<subseteq>\<^sub>m timers s3" using s1(3) s3(2) map_le_trans by (fastforce simp: sampled_def service_frame_def)
    have base: "started calls t T C L N s s4" if "service_frame s3 s4" "tlists s4 = tlists s3" "app s4 = app s3"
      "auto_reload T \<Longrightarrow> queued (start_command t (C + ?P)) s4" for s4
    proof -
      have e4: "timer_expiry N s4 = timer_expiry N s1" using e3 expiry_frame [of s4 s3 N] that(1,2) by (simp add: service_frame_def)
      have "timers s \<subseteq>\<^sub>m timers s4" using mt that(1) map_le_trans by (auto simp: service_frame_def)
      moreover have "xTimerQueue s4 = xTimerQueue s" "xLastTime s4 = of_nat N"
        using that(1) s3(2) s1(3) by (simp_all add: service_frame_def sampled_def)
      ultimately show ?thesis
        using True s1(3,4,5) e4 service_frameD(1) [OF that(1)] that(3,4) s3(4) by (auto simp: started_def sampled_def ow)
    qed
    show thesis
    proof (cases "auto_reload T")
      case reload: True
      obtain r where r: "resend t (of_nat (C + ?P)) s3 = Some (s3\<lparr>rtos := r\<rparr>)" "service_frame s3 (s3\<lparr>rtos := r\<rparr>)"
        "\<lparr>xMessageID = tmrCOMMAND_START, xMessageValue = of_nat (C + ?P), pxTimer = t\<rparr> \<in> set (commands (s3\<lparr>rtos := r\<rparr>)) \<or>
          10 \<le> length (commands (s3\<lparr>rtos := r\<rparr>))" "woke (kern (rtos s3)) (kern r)"
        "length (commands s3) < 10 \<Longrightarrow>
          commands (s3\<lparr>rtos := r\<rparr>) = commands s3 @ [\<lparr>xMessageID = tmrCOMMAND_START, xMessageValue = of_nat (C + ?P), pxTimer = t\<rparr>]"
        using resend_effect [OF d(1)] by blast
      have "queued (start_command t (C + ?P)) (s3\<lparr>rtos := r\<rparr>)" using r(3) by (simp only: queued_def start_command_def)
      moreover have "xTickCount (kern r) = xTickCount (kern (rtos s3))" using r(4) by (simp add: woke_def)
      ultimately show thesis using that [of "s3\<lparr>rtos := r\<rparr>"] run True reload s3(1) T3 r(1,5) base [OF r(2)] q3
        by (simp add: auto_reload_def vp start_command_def del: of_nat_add)
    next
      case False
      then show thesis using that [of s3] run True s3(1) T3 base [OF service_frame_refl [OF d(1)]] q3 by (simp add: auto_reload_def)
    qed
  qed
qed

section \<open>Catching up\<close>

text \<open>
  A start command for an auto-reload timer whose expiry time has passed, maybe several times, is carried out with one
  call for each expiry, and the timer is then set for its first expiry time after now.
\<close>

lemma option_eqI: "(\<And>x. a = Some x \<longleftrightarrow> b = Some x) \<Longrightarrow> a = b"
  by (cases a; cases b) auto

lemma catch_up:
  assumes cb: "callback_ok calls cb" "callback_quiet cb" and T: "auto_reload T" "0 < period T"
  shows "service_ok s \<Longrightarrow> timers s t = Some T \<Longrightarrow> commands s = [start_command t C] \<Longrightarrow> C \<le> N \<Longrightarrow> N < C + 2 ^ 32 \<Longrightarrow>
    L \<le> N \<Longrightarrow> N div 2 ^ 32 = L div 2 ^ 32 \<Longrightarrow> xLastTime s = of_nat L \<Longrightarrow> xTickCount (kern (rtos s)) = of_nat N \<Longrightarrow>
    \<exists>s'. prvProcessReceivedCommands (\<lambda>n s. Some s) cb n s = Some s' \<and> service_ok s' \<and> commands s' = [] \<and>
      timer_expiry N s' = (timer_expiry L s)(t := Some (C + period T * ((N - C) div period T + 1))) \<and>
      calls (app s') = (calls (app s))(t := calls (app s) t + (N - C) div period T)"
proof (induction "N - C" arbitrary: C L s n rule: less_induct)
  case less
  let ?P = "period T"
  have LN: "L \<le> N" "N < L + 2 ^ 32"
    using less.prems(6,7) div_mult_mod_eq [of N 4294967296] div_mult_mod_eq [of L 4294967296] mod_less_divisor [of 4294967296 N] by simp_all
  obtain r where r: "receive_command s = Some (Some (start_command t C), s\<lparr>rtos := r\<rparr>)" "service_ok (s\<lparr>rtos := r\<rparr>)"
    "commands (s\<lparr>rtos := r\<rparr>) = []" "woke (kern (rtos s)) (kern r)"
    using receive_some [OF less.prems(1,3)] by blast
  let ?s1 = "s\<lparr>rtos := r\<rparr>"
  have k: "xLastTime ?s1 = of_nat L" "xTickCount (kern (rtos ?s1)) = of_nat N" "timers ?s1 t = Some T"
    using less.prems(2,8,9) r(4) by (simp_all add: woke_def)
  have e1: "timer_expiry L ?s1 = timer_expiry L s" by (rule expiry_frame) simp_all
  have emp: "length (commands ?s1) < 10" using r(3) by simp
  obtain s2 where s2': "process_command cb (start_command t C) ?s1 = Some s2" "started calls t T C L N ?s1 s2"
    "xTickCount (kern (rtos s2)) = of_nat N \<and>
       commands s2 = commands ?s1 @ (if C + ?P \<le> N \<and> auto_reload T then [start_command t (C + ?P)] else [])"
    using process_start [OF r(2) cb(1) LN k less.prems(4,5)] cb(2) less.prems(7) emp by blast
  then have s2: "process_command cb (start_command t C) ?s1 = Some s2" "started calls t T C L N ?s1 s2"
    "xTickCount (kern (rtos s2)) = of_nat N" "commands s2 = (if C + ?P \<le> N then [start_command t (C + ?P)] else [])"
    using r(3) T(1) by simp_all
  have run: "prvProcessReceivedCommands (\<lambda>n s. Some s) cb n s = prvProcessReceivedCommands (\<lambda>n s. Some s) cb (Suc n) s2"
    using r(1) s2(1) by (subst prvProcessReceivedCommands.simps) simp
  have o2: "service_ok s2" "timers s2 t = Some T" "xLastTime s2 = of_nat N"
    using s2(2) k(3) map_le_lookup [of "timers ?s1" "timers s2"] by (simp_all add: started_def)
  have ge: "N div 4294967296 * 4294967296 \<le> E" if "timer_expiry L s x = Some E" for x E
    using expiry_ge [OF that] less.prems(7) by simp
  have ex: "timer_expiry N s2 x = timer_expiry L s x" if "x \<noteq> t" for x
    using s2(2) that ge e1 by (intro option_eqI) (auto simp: started_def)
  have cx: "calls (app s2) x = calls (app s) x + (if x = t \<and> C + ?P \<le> N then 1 else 0)" for x
    using s2(2) less.prems(7) by (cases "x = t") (simp_all add: started_def)
  show ?case
  proof (cases "C + ?P \<le> N")
    case True
    have dv: "(N - C) div ?P = Suc ((N - (C + ?P)) div ?P)" using True le_div_geq [OF T(2), of "N - C"] by simp
    have lt: "N - (C + ?P) < N - C" using True T(2) by simp
    obtain s3 where s3: "prvProcessReceivedCommands (\<lambda>n s. Some s) cb (Suc n) s2 = Some s3" "service_ok s3" "commands s3 = []"
      "timer_expiry N s3 = (timer_expiry N s2)(t := Some (C + ?P + ?P * ((N - (C + ?P)) div ?P + 1)))"
      "calls (app s3) = (calls (app s2))(t := calls (app s2) t + (N - (C + ?P)) div ?P)"
      using less.hyps [OF lt o2(1,2) _ True _ order_refl refl o2(3) s2(3)] s2(4) True less.prems(5) by auto
    have "timer_expiry N s3 = (timer_expiry L s)(t := Some (C + ?P * ((N - C) div ?P + 1)))"
      unfolding s3(4) dv using ex by (auto simp: fun_eq_iff)
    moreover have "calls (app s3) = (calls (app s))(t := calls (app s) t + (N - C) div ?P)"
      unfolding s3(5) dv using cx True by (auto simp: fun_eq_iff)
    ultimately show ?thesis using s3(1-3) run by simp
  next
    case False
    then have z: "(N - C) div ?P = 0" using less.prems(4) by simp
    have "prvProcessReceivedCommands (\<lambda>n s. Some s) cb (Suc n) s2 = Some s2"
      using receive_none [OF o2(1)] s2(4) False by (subst prvProcessReceivedCommands.simps) simp
    moreover have "timer_expiry N s2 = (timer_expiry L s)(t := Some (C + ?P))"
      using ex s2(2) False by (auto simp: fun_eq_iff started_def)
    moreover have "calls (app s2) = calls (app s)" using cx False by (auto simp: fun_eq_iff)
    ultimately show ?thesis using run o2(1) s2(4) False z by simp
  qed
qed

end
