(* ===== verification/Timer_Wait.thy ===== *)
theory Timer_Wait
  imports Timer_Task
begin

text \<open>
  How the timer task waits: when no timer has expired and no command waits it blocks on its queue until the tick at which
  its first timer expires.
\<close>

text \<open>The wait of \<open>vQueueWaitForMessageRestricted\<close> with the scheduler suspended, and what follows it.\<close>

lemma wait_restricted_quiet:
  assumes ok: "sys_ok s" and su: "uxSchedulerSuspended (kern s) = 1" and run: "running_ready (kern s)"
    and un: "\<And>r R. queues s r = Some R \<Longrightarrow> unlocked R" and Q: "queues s q = Some Q" "uxMessagesWaiting Q = 0"
    and np: "\<And>t. \<not> pending (kern s) t" and nt: "uxPendedTicks (kern s) = 0" and n: "n \<noteq> 0"
  obtains s2 y k3 s' where "vQueueWaitForMessageRestricted q n s = Some s2" "xTaskResumeAll (kern s2) = Some (y, k3)"
    "s' = s2\<lparr>kern := if y then k3 else portYIELD k3\<rparr>" "sys_ok s'" "uxSchedulerSuspended (kern s') = 0"
    "cont (kern s') = (cont (kern s))(Event (pxCurrentTCB (kern s)) := Some (TasksWaitingToReceive q),
      Generic (pxCurrentTCB (kern s)) := Some (if xTickCount (kern s) + n < xTickCount (kern s)
        then pxOverflowDelayedTaskList (kern s) else pxDelayedTaskList (kern s)))"
    "ival (kern s') (Generic (pxCurrentTCB (kern s))) = xTickCount (kern s) + n" "xTickCount (kern s') = xTickCount (kern s)"
    "tcbs (kern s') = tcbs (kern s)" "pxCurrentTCB (kern s') = pxCurrentTCB (kern s)" "items_of s' = items_of s"
    "pending_soft_sv (kern s')" "queues s' = queues s"
proof -
  let ?t = "pxCurrentTCB (kern s)" and ?l = "TasksWaitingToReceive q"
  have uq: "unlocked Q" by (rule un [OF Q(1)])
  let ?Q = "Q\<lparr>xRxLock := 0, xTxLock := 0\<rparr>"
  let ?s1 = "set_queue q ?Q s"
  have l1: "prvLockQueue q s = Some ?s1" "sys_ok ?s1" "items_of ?s1 = items_of s"
    using prvLockQueue_effect [OF ok Q(1)] su uq by (auto simp: unlocked_def)
  have k1: "kern ?s1 = kern s" "queues ?s1 q = Some ?Q" by (simp_all add: set_queue_def)
  have li: "?l \<in> inits (kern s)" using sys_okD(5) [OF ok Q(1)] .
  have n': "n \<noteq> 0 \<or> xTickCount (kern s) \<noteq> portMAX_DELAY" using n by simp
  obtain k where k: "vTaskPlaceOnEventListRestricted ?l n (kern s) = Some k" "kinv_now {} k"
    "cont k = (cont (kern s))(Event ?t := Some ?l, Generic ?t :=
      Some (if xTickCount (kern s) + n < xTickCount (kern s) then pxOverflowDelayedTaskList (kern s) else pxDelayedTaskList (kern s)))"
    "ival k = (ival (kern s))(Generic ?t := xTickCount (kern s) + n)"
    "k = (kern s)\<lparr>heap := heap k, xNextTaskUnblockTime := xNextTaskUnblockTime k\<rparr>"
    using place_on_event_list_restricted_effect [OF kernel_ok_kinv [OF sys_okD(1) [OF ok]] run _ _ n', of ?l] li
    by (auto simp: inits_def)
  obtain h m where e: "k = (kern s)\<lparr>heap := h, xNextTaskUnblockTime := m\<rparr>" using k(5) by blast
  have kok: "kernel_ok k"
    by (rule kernel_ok_frame [OF sys_okD(1) [OF ok] k(2)]) (use k(3) in \<open>auto simp: e pending_def split: if_splits\<close>)
  have ini: "inits k = inits (kern ?s1)" using place_restricted_inits [OF k(1)] by (simp add: k1)
  have c0: "pxCurrentTCB k \<noteq> 0" using sys_okD(2) [OF ok] by (simp add: e)
  let ?s = "?s1\<lparr>kern := k\<rparr>"
  have ok2: "sys_ok ?s" "items_of ?s = items_of ?s1"
    using sys_ok_kern [OF l1(2) kok c0 ini] su by (simp_all add: e)
  have f: "uxSchedulerSuspended (kern ?s) = 1" "uxPendedTicks (kern ?s) = 0" "queues ?s q = Some ?Q" "xTickCount k = xTickCount (kern s)"
    "tcbs k = tcbs (kern s)" "pxCurrentTCB k = ?t"
    using su nt by (simp_all add: e set_queue_def)
  have np2: "\<not> pending (kern ?s) t" for t using np [of t] k(3) by (auto simp: pending_def split: if_splits)
  have ou: "others_unlocked q ?s" using un by (auto simp: others_unlocked_def set_queue_def)
  obtain s2 y k3 s' where r: "prvUnlockQueue Some q ?s = Some s2" "xTaskResumeAll (kern s2) = Some (y, k3)"
    "s' = s2\<lparr>kern := if y then k3 else portYIELD k3\<rparr>" "sys_ok s'" "uxSchedulerSuspended (kern s') = 0"
    "cont (kern s') = cont (kern ?s)" "ival (kern s') = ival (kern ?s)" "xTickCount (kern s') = xTickCount (kern ?s)"
    "tcbs (kern s') = tcbs (kern ?s)" "pxCurrentTCB (kern s') = pxCurrentTCB (kern ?s)" "items_of s' = items_of ?s"
    "pending_soft_sv (kern s')" "queues s' = (queues ?s)(q := Some (?Q\<lparr>xRxLock := queueUNLOCKED, xTxLock := queueUNLOCKED\<rparr>))"
    using release_quiet [OF ok2(1) f(1) ou f(3) _ _ np2 f(2)] by simp metis
  have "vQueueWaitForMessageRestricted q n s = Some s2"
    using l1(1) k1 Q(2) k(1) r(1) by (simp add: vQueueWaitForMessageRestricted_def on_kernel_def)
  moreover have "queues s' = queues s"
    using r(13) Q(1) uq by (auto simp: set_queue_def unlocked_def fun_eq_iff)
  ultimately show thesis using that [OF _ r(2,3,4,5)] r(6-12) f(4,5,6) k(3,4) ok2(2) l1(3) by simp
qed

lemma suspend_all_ok:
  assumes ok: "sys_ok s" and su: "uxSchedulerSuspended (kern s) = 0"
  shows "sys_ok (s\<lparr>kern := vTaskSuspendAll (kern s)\<rparr>)" and "items_of (s\<lparr>kern := vTaskSuspendAll (kern s)\<rparr>) = items_of s"
proof -
  have "kinv_now {} (vTaskSuspendAll (kern s))"
    by (rule kinv_now_frame [OF kernel_ok_kinv [OF sys_okD(1) [OF ok]]]) (simp_all add: vTaskSuspendAll_def)
  then have k: "kernel_ok (vTaskSuspendAll (kern s))" using su by (simp add: kernel_ok_def vTaskSuspendAll_def)
  show "sys_ok (s\<lparr>kern := vTaskSuspendAll (kern s)\<rparr>)" "items_of (s\<lparr>kern := vTaskSuspendAll (kern s)\<rparr>) = items_of s"
    using sys_ok_kern [OF ok k] sys_okD(2,6) [OF ok] su by (simp_all add: vTaskSuspendAll_def)
qed

lemma sample_same_turn:
  assumes "L \<le> N" "N div 2 ^ 32 = L div 2 ^ 32" "xLastTime s = of_nat L" "xTickCount (kern (rtos s)) = of_nat N"
  shows "prvSampleTimeNow cb s = Some (of_nat N, False, s\<lparr>xLastTime := of_nat N\<rparr>)"
proof -
  have "N < L + 4294967296"
    using assms(2) div_mult_mod_eq [of N 4294967296] div_mult_mod_eq [of L 4294967296] mod_less_divisor [of 4294967296 N] by simp
  then have "\<not> (of_nat N :: u32) < of_nat L" using wrapped_iff(1) [OF assms(1)] assms(2) by simp
  then show ?thesis using assms(3,4) by (simp add: prvSampleTimeNow_def xTaskGetTickCount_def Let_def)
qed

lemma of_nat_sub_u32: "N \<le> E \<Longrightarrow> (of_nat E :: u32) - of_nat N = of_nat (E - N)"
  by (simp add: of_nat_diff)

text \<open>The first timer, with the true expiry time \<open>E\<close>, has not expired: what the code computes from the 32-bit values.\<close>

lemma next_expire_time:
  assumes lo: "lists_ok s" and ne: "list_items (tlists s) (pxCurrentTimerList s) = t # ts" and E: "timer_expiry L s t = Some E"
  shows "prvGetNextExpireTime s = (of_nat E, False)" and "E div 4294967296 = L div 4294967296"
proof -
  note hd = head_timer [OF lo ne]
  have Ev: "E = L div 4294967296 * 4294967296 + unat (item_value (tlists s) t)" using E hd(1) by (simp add: timer_expiry_def)
  have "(4294967296 :: u32) = 0" by simp
  then have v: "item_value (tlists s) t = of_nat E" unfolding Ev of_nat_add of_nat_mult by (simp only: of_nat_numeral) simp
  show "prvGetNextExpireTime s = (of_nat E, False)"
    using is_empty_items(1) [OF lists_okD(1,2) [OF lo], of "pxCurrentTimerList s"] ne hd(3)
    by (simp add: prvGetNextExpireTime_def v)
  show "E div 4294967296 = L div 4294967296"
    using Ev unsigned_less [of "item_value (tlists s) t", where ?'a = nat] by simp
qed

lemma not_expired:
  assumes "N < E" and "E div 4294967296 = N div 4294967296"
  shows "\<not> (of_nat E :: u32) \<le> of_nat N" and "(of_nat E :: u32) - of_nat N = of_nat (E - N)"
    and "of_nat (E - N) \<noteq> (0 :: u32)"
proof -
  have m: "E mod 4294967296 = E - E div 4294967296 * 4294967296" "N mod 4294967296 = N - N div 4294967296 * 4294967296"
    by (simp_all add: minus_div_mult_eq_mod)
  have le: "N div 4294967296 * 4294967296 \<le> N" by simp
  then have lt: "N mod 4294967296 < E mod 4294967296" using assms(1) unfolding m assms(2) by linarith
  then show "\<not> (of_nat E :: u32) \<le> of_nat N" by (simp only: word_le_nat_alt of_nat_mod_u32 not_le)
  show "(of_nat E :: u32) - of_nat N = of_nat (E - N)" using assms(1) by (intro of_nat_sub_u32) simp
  have "E mod 4294967296 < 4294967296" by simp
  then have "E - N < 4294967296" using le unfolding m assms(2) by linarith
  then have "unat (of_nat (E - N) :: u32) = E - N" by (simp only: of_nat_mod_u32 mod_less)
  then show "of_nat (E - N) \<noteq> (0 :: u32)" using assms(1) by auto
qed

text \<open>The kernel when the timer task starts its pass: the scheduler suspended, the command queue empty.\<close>

lemma suspended_pass:
  assumes ok: "sys_ok r" and su: "uxSchedulerSuspended (kern r) = 0" and run: "running_ready (kern r)"
  defines "r' \<equiv> r\<lparr>kern := vTaskSuspendAll (kern r)\<rparr>"
  shows "uxSchedulerSuspended (kern r') = 1" "running_ready (kern r')" "uxPendedTicks (kern r') = 0" "queues r' = queues r"
    "\<not> pending (kern r') x" "xTickCount (kern r') = xTickCount (kern r)" "pxCurrentTCB (kern r') = pxCurrentTCB (kern r)"
    "cont (kern r') = cont (kern r)" "tcbs (kern r') = tcbs (kern r)"
    "delayed_list (pxOverflowDelayedTaskList (kern r'))" "delayed_list (pxDelayedTaskList (kern r'))"
proof -
  show "uxSchedulerSuspended (kern r') = 1" "running_ready (kern r')" "uxPendedTicks (kern r') = 0" "queues r' = queues r"
    "\<not> pending (kern r') x" "xTickCount (kern r') = xTickCount (kern r)" "pxCurrentTCB (kern r') = pxCurrentTCB (kern r)"
    "cont (kern r') = cont (kern r)" "tcbs (kern r') = tcbs (kern r)"
    using su run kernel_ok_free [OF sys_okD(1) [OF ok] su]
    by (simp_all add: r'_def vTaskSuspendAll_def running_ready_def pending_def)
  show "delayed_list (pxOverflowDelayedTaskList (kern r'))" "delayed_list (pxDelayedTaskList (kern r'))"
    using kinv_delayed(1,2) [OF kernel_ok_kinv [OF sys_okD(1) [OF suspend_all_ok(1) [OF ok su]]]] by (simp_all add: r'_def)
qed

text \<open>The task waits on the queue \<open>q\<close> for at most \<open>n\<close> ticks; nothing else has changed.\<close>

definition waits_for :: "qid \<Rightarrow> portTickType \<Rightarrow> system \<Rightarrow> system \<Rightarrow> bool" where
  "waits_for q n r r' \<longleftrightarrow> (let d = pxCurrentTCB (kern r) in
     sys_ok r' \<and> uxSchedulerSuspended (kern r') = 0 \<and> pxCurrentTCB (kern r') = d \<and> pending_soft_sv (kern r') \<and>
     cont (kern r') (Event d) = Some (TasksWaitingToReceive q) \<and>
     (\<exists>l. cont (kern r') (Generic d) = Some l \<and> delayed_list l) \<and> ival (kern r') (Generic d) = xTickCount (kern r') + n \<and>
     (\<forall>x. x \<noteq> d \<longrightarrow> cont (kern r') (Generic x) = cont (kern r) (Generic x)) \<and> tcbs (kern r') = tcbs (kern r) \<and>
     xTickCount (kern r') = xTickCount (kern r) \<and> items_of r' = items_of r \<and> queues r' = queues r)"

lemma suspended_wait:
  assumes ok: "sys_ok r" and su: "uxSchedulerSuspended (kern r) = 0" and run: "running_ready (kern r)"
    and Q: "queues r q = Some Q" "uxMessagesWaiting Q = 0" and n: "n \<noteq> 0"
  obtains r2 y k3 where "vQueueWaitForMessageRestricted q n (r\<lparr>kern := vTaskSuspendAll (kern r)\<rparr>) = Some r2"
    "xTaskResumeAll (kern r2) = Some (y, k3)" "waits_for q n r (r2\<lparr>kern := if y then k3 else portYIELD k3\<rparr>)"
proof -
  let ?r = "r\<lparr>kern := vTaskSuspendAll (kern r)\<rparr>"
  note so = suspend_all_ok [OF ok su] and f = suspended_pass [OF ok su run]
  have un: "unlocked R" if "queues ?r x = Some R" for x R using sys_okD(6) [OF ok] su that by simp
  have Q': "queues ?r q = Some Q" using Q(1) by simp
  show thesis
  proof (rule wait_restricted_quiet [OF so(1) f(1,2) un Q' Q(2) f(5) f(3) n])
    fix r2 y k3 r'
    assume w: "vQueueWaitForMessageRestricted q n ?r = Some r2" "xTaskResumeAll (kern r2) = Some (y, k3)"
      "r' = r2\<lparr>kern := if y then k3 else portYIELD k3\<rparr>" "sys_ok r'" "uxSchedulerSuspended (kern r') = 0"
      "cont (kern r') = (cont (kern ?r))(Event (pxCurrentTCB (kern ?r)) := Some (TasksWaitingToReceive q),
        Generic (pxCurrentTCB (kern ?r)) := Some (if xTickCount (kern ?r) + n < xTickCount (kern ?r)
          then pxOverflowDelayedTaskList (kern ?r) else pxDelayedTaskList (kern ?r)))"
      "ival (kern r') (Generic (pxCurrentTCB (kern ?r))) = xTickCount (kern ?r) + n" "xTickCount (kern r') = xTickCount (kern ?r)"
      "tcbs (kern r') = tcbs (kern ?r)" "pxCurrentTCB (kern r') = pxCurrentTCB (kern ?r)" "items_of r' = items_of ?r"
      "pending_soft_sv (kern r')" "queues r' = queues ?r"
    have "waits_for q n r r'" unfolding waits_for_def Let_def
    proof (intro conjI allI impI)
      show "\<exists>l. cont (kern r') (Generic (pxCurrentTCB (kern r))) = Some l \<and> delayed_list l"
        using f(7,10,11) by (simp add: w(6))
    qed (use w(4-13) f(4,6-9) so(2) in simp_all)
    then show thesis using that w(1,2,3) by blast
  qed
qed

lemma task_waits:
  assumes ok: "service_ok s" and su: "uxSchedulerSuspended (kern (rtos s)) = 0" and run: "running_ready (kern (rtos s))"
    and em: "commands s = []" and LN: "L \<le> N" "N div 2 ^ 32 = L div 2 ^ 32"
    and tm: "xLastTime s = of_nat L" "xTickCount (kern (rtos s)) = of_nat N"
    and ne: "list_items (tlists s) (pxCurrentTimerList s) = t # ts" and E: "timer_expiry L s t = Some E" "N < E"
  obtains r where "prvGetNextExpireTime s = (of_nat E, False)"
    "prvProcessTimerOrBlockTask no_irq cb (of_nat E) False s = Some (s\<lparr>xLastTime := of_nat N, rtos := r\<rparr>)"
    "service_ok (s\<lparr>xLastTime := of_nat N, rtos := r\<rparr>)" "waits_for (xTimerQueue s) (of_nat (E - N)) (rtos s) r"
proof -
  have lo: "lists_ok s" using ok by (simp add: service_ok_def)
  note ne' = next_expire_time [OF lo ne E(1)]
  have "E div 4294967296 = N div 4294967296" using ne'(2) LN(2) by simp
  note x = not_expired [OF E(2) this]
  obtain Q where Q: "queues (rtos s) (xTimerQueue s) = Some Q" "sys_ok (rtos s)" "commands s = map bytes_message (queue_items (rtos s) Q)"
    using service_queue [OF ok] by metis
  have qe: "uxMessagesWaiting Q = 0" using Q(3) em by (simp add: queue_items_Nil)
  let ?r = "(rtos s)\<lparr>kern := vTaskSuspendAll (kern (rtos s))\<rparr>"
  obtain r2 y k3 where w: "vQueueWaitForMessageRestricted (xTimerQueue s) (of_nat (E - N)) ?r = Some r2"
    "xTaskResumeAll (kern r2) = Some (y, k3)"
    "waits_for (xTimerQueue s) (of_nat (E - N)) (rtos s) (r2\<lparr>kern := if y then k3 else portYIELD k3\<rparr>)"
    using suspended_wait [OF Q(2) su run Q(1) qe x(3)] by blast
  define r where "r = r2\<lparr>kern := if y then k3 else portYIELD k3\<rparr>"
  let ?s1 = "s\<lparr>rtos := ?r\<rparr>"
  have smp: "prvSampleTimeNow cb ?s1 = Some (of_nat N, False, ?s1\<lparr>xLastTime := of_nat N\<rparr>)"
    by (rule sample_same_turn [OF LN]) (use tm in \<open>simp_all add: vTaskSuspendAll_def\<close>)
  have run': "prvProcessTimerOrBlockTask no_irq cb (of_nat E) False s = Some (s\<lparr>xLastTime := of_nat N, rtos := r\<rparr>)"
    using smp x(1) w(1,2) unfolding r_def
    by (cases y) (simp_all add: prvProcessTimerOrBlockTask_def on_rtos_def no_irq_def resume_scheduler_def x(2))
  have wf: "sys_ok r" "queues r = queues (rtos s)" using w(3) by (simp_all add: waits_for_def r_def [symmetric] Let_def)
  have v: "queue_valid (xTimerQueue s) r" using ok wf Q(1) by (simp add: service_ok_def queue_valid_def)
  have "lists_ok (s\<lparr>xLastTime := of_nat N, rtos := r\<rparr>)" using lo by (simp add: lists_ok_def)
  then have "service_ok (s\<lparr>xLastTime := of_nat N, rtos := r\<rparr>)" using ok v wf(2) by (simp add: service_ok_def)
  then show thesis using that [OF ne'(1) run'] w(3) by (simp add: r_def)
qed

text \<open>While another task is ready, ticks make a waiting task ready exactly when its time has passed.\<close>

lemma wait_ends:
  assumes w: "waits_for q (of_nat D) r r'" and D: "0 < D" "D < 2 ^ 32" and n: "n < 2 ^ 32"
    and t0: "t0 \<noteq> pxCurrentTCB (kern r)" "cont (kern r) (Generic t0) = Some (Ready p0)"
  obtains k where "systicks n (kern r') = Some k"
    "cont k (Generic (pxCurrentTCB (kern r))) = Some (Ready (prio (kern r) (pxCurrentTCB (kern r)))) \<longleftrightarrow> D \<le> n"
    "xTickCount k = xTickCount (kern r) + of_nat n"
proof -
  let ?d = "pxCurrentTCB (kern r)"
  obtain l where c: "cont (kern r') (Generic ?d) = Some l" "delayed_list l" using w by (auto simp: waits_for_def Let_def)
  have f: "sys_ok r'" "uxSchedulerSuspended (kern r') = 0" "pxCurrentTCB (kern r') = ?d" "tcbs (kern r') = tcbs (kern r)"
    "cont (kern r') (Generic t0) = Some (Ready p0)" "xTickCount (kern r') = xTickCount (kern r)"
    "ival (kern r') (Generic ?d) = xTickCount (kern r') + of_nat D"
    using w t0 by (simp_all add: waits_for_def Let_def)
  have k: "kinv_now {} (kern r')" "pxCurrentTCB (kern r') \<noteq> 0"
    using kernel_ok_kinv [OF sys_okD(1) [OF f(1)]] sys_okD(2) [OF f(1)] by auto
  have u: "unat (of_nat n :: u32) = n" "unat (of_nat D :: u32) = D" using n D by (simp_all add: unat_of_nat_u32)
  have du: "due (kern r') (of_nat n) ?d \<longleftrightarrow> D \<le> n"
    using c D(1) by (auto simp: due_def f(7) word_le_nat_alt word_less_nat_alt u)
  have nr: "l \<noteq> Ready p" for p using c(2) by (cases l) auto
  obtain k' where "systicks n (kern r') = Some k'" "xTickCount k' = xTickCount (kern r') + of_nat n"
    "\<forall>t. cont k' (Generic t) = (if due (kern r') (of_nat n) t then Some (Ready (prio (kern r') t)) else cont (kern r') (Generic t))"
    using systicks_effect [OF k(1) f(2) k(2) f(5) n] by blast
  then show thesis using that [of k'] du c(1) nr f(4,6) by simp
qed

end
