(* ===== verification/Timer_Commands.thy ===== *)
theory Timer_Commands
  imports Timer_Wait
begin

text \<open>
  The remaining operations of the timer service: every command for an existing timer is carried out and keeps the
  invariant, an expired timer is reloaded and its callback called, and creating timers sets the service up.
\<close>

section \<open>Every command keeps the invariant\<close>

text \<open>An insertion with the values of the code, for any values of the clock: a timer of period 0 is never linked.\<close>

lemma insert_keeps:
  assumes ok: "lists_ok s" and c: "pvContainer (tlists s) t = None" and T: "timers s t = Some T"
  obtains b h where "prvInsertTimerInActiveList t (v + xTimerPeriodInTicks T) n v s = Some (b, s\<lparr>tlists := h\<rparr>)"
    "lists_ok (s\<lparr>tlists := h\<rparr>)"
proof -
  let ?p = "xTimerPeriodInTicks T"
  let ?h = "set_item t (v + ?p) (tlists s)"
  define now where "now = (if v + ?p \<le> n then ?p \<le> n - v else n < v \<and> v \<le> v + ?p)"
  define l where "l = (if v + ?p \<le> n then pxOverflowTimerList s else pxCurrentTimerList s)"
  show thesis
  proof (cases now)
    case True
    then show thesis using that [of True ?h] set_item_ok [OF ok c] T
      by (auto simp: prvInsertTimerInActiveList_def Let_def now_def split: if_splits)
  next
    case False
    then have p: "?p \<noteq> 0" by (auto simp: now_def split: if_splits)
    obtain h where h: "vListInsert l t ?h = Some h" "lists_ok (s\<lparr>tlists := h\<rparr>)"
      using insert_timer [OF ok c T p] by blast
    then show thesis using that [of False h] False T
      by (auto simp: prvInsertTimerInActiveList_def Let_def now_def l_def split: if_splits)
  qed
qed

lemma lists_ok_timers:
  assumes ok: "lists_ok s" and c: "pvContainer (tlists s) t = None" and t: "t \<noteq> 0"
  shows "lists_ok (s\<lparr>timers := (timers s)(t := X)\<rparr>)"
  using ok c t unfolding lists_ok_def by auto

lemma process_keeps:
  assumes ok: "service_ok s" and cb: "callback_ok calls cb" and LN: "L \<le> N" "N < L + 2 ^ 32"
    and tm: "xLastTime s = of_nat L" "xTickCount (kern (rtos s)) = of_nat N" and T: "timers s (pxTimer m) = Some T"
  obtains s' where "process_command cb m s = Some s'" "service_ok s'" "xLastTime s' = of_nat N"
proof -
  let ?t = "pxTimer m" and ?v = "xMessageValue m"
  obtain h s1 where s1:
    "(if \<not> listIS_CONTAINED_WITHIN None ?t (tlists s) then map_option snd (uxListRemove ?t (tlists s)) else Some (tlists s)) = Some h"
    "prvSampleTimeNow cb (s\<lparr>tlists := h\<rparr>) = Some (of_nat N, N div 2 ^ 32 \<noteq> L div 2 ^ 32, s1)"
    "sampled calls L N (s\<lparr>tlists := h\<rparr>) s1" "timer_expiry N s1 ?t = None" "service_ok s1"
    using command_start [OF ok cb LN tm] by blast
  have T1: "timers s1 ?t = Some T" and x1: "xLastTime s1 = of_nat N"
    using s1(3) T map_le_lookup [of "timers s" "timers s1"] by (simp_all add: sampled_def)
  have lo: "lists_ok s1" using s1(5) by (simp add: service_ok_def)
  have c: "pvContainer (tlists s1) ?t = None" using s1(4) by (simp add: expiry_container)
  have t0: "?t \<noteq> 0" using T1 lists_okD(7) [OF lo] by auto
  note run = process_command_def Let_def s1(1,2)
  consider "xMessageID m = tmrCOMMAND_START" | "xMessageID m = tmrCOMMAND_CHANGE_PERIOD"
    | "xMessageID m \<noteq> tmrCOMMAND_START" "xMessageID m \<noteq> tmrCOMMAND_CHANGE_PERIOD" by blast
  then show thesis
  proof cases
    case 1
    obtain b g where g: "prvInsertTimerInActiveList ?t (?v + xTimerPeriodInTicks T) (of_nat N) ?v s1 = Some (b, s1\<lparr>tlists := g\<rparr>)"
      "lists_ok (s1\<lparr>tlists := g\<rparr>)" using insert_keeps [OF lo c T1] by blast
    have ok2: "service_ok (s1\<lparr>tlists := g\<rparr>)" by (rule service_lists [OF s1(5) g(2)])
    show thesis
    proof (cases b)
      case False
      then show thesis using that [of "s1\<lparr>tlists := g\<rparr>"] 1 g(1) T1 ok2 x1 by (simp add: run)
    next
      case True
      obtain s3 where s3: "call cb ?t (s1\<lparr>tlists := g\<rparr>) = Some s3" "service_frame (s1\<lparr>tlists := g\<rparr>) s3"
        using callE [OF cb ok2, of ?t T] T1 by auto
      note d = service_frameD [OF s3(2)]
      have T3: "timers s3 ?t = Some T" using d(3) T1 by simp
      obtain r where r: "resend ?t (?v + xTimerPeriodInTicks T) s3 = Some (s3\<lparr>rtos := r\<rparr>)" "service_frame s3 (s3\<lparr>rtos := r\<rparr>)"
        using resend_effect [OF d(1)] by blast
      have "xLastTime s3 = of_nat N" using s3(2) x1 by (simp add: service_frame_def)
      then show thesis
        using that [of "if uxAutoReload T = 1 then s3\<lparr>rtos := r\<rparr> else s3"] 1 g(1) T1 True s3(1) T3 r(1) d(1) service_frameD(1) [OF r(2)]
        by (simp add: run)
    qed
  next
    case 2
    let ?T = "T\<lparr>xTimerPeriodInTicks := ?v\<rparr>"
    let ?s2 = "s1\<lparr>timers := (timers s1)(?t \<mapsto> ?T)\<rparr>"
    have lo2: "lists_ok ?s2" by (rule lists_ok_timers [OF lo c t0])
    have p2: "pvContainer (tlists ?s2) ?t = None" "timers ?s2 ?t = Some ?T" using c by simp_all
    obtain b g where g: "prvInsertTimerInActiveList ?t (of_nat N + xTimerPeriodInTicks ?T) (of_nat N) (of_nat N) ?s2 = Some (b, ?s2\<lparr>tlists := g\<rparr>)"
      "lists_ok (?s2\<lparr>tlists := g\<rparr>)" using insert_keeps [OF lo2 p2] by blast
    have "service_ok (?s2\<lparr>tlists := g\<rparr>)" using s1(5) g(2) by (simp add: service_ok_def)
    then show thesis using that [of "?s2\<lparr>tlists := g\<rparr>"] 2 g(1) T1 x1
      by (simp add: run tmrCOMMAND_START_def tmrCOMMAND_CHANGE_PERIOD_def tmrCOMMAND_STOP_def)
  next
    case 3
    have "service_ok (s1\<lparr>timers := (timers s1)(?t := None)\<rparr>)"
      using s1(5) lists_ok_timers [OF lo c t0] by (simp add: service_ok_def)
    then show thesis
      using that [of "if xMessageID m = tmrCOMMAND_DELETE then s1\<lparr>timers := (timers s1)(?t := None)\<rparr> else s1"] 3 s1(5) x1
      by (simp add: run tmrCOMMAND_DELETE_def tmrCOMMAND_STOP_def)
  qed
qed

section \<open>An expired timer\<close>

lemma expired_effect:
  assumes ok: "service_ok s" and cb: "callback_ok calls cb"
    and ne: "list_items (tlists s) (pxCurrentTimerList s) = t # ts" and T: "timers s t = Some T"
    and E: "timer_expiry N s t = Some E" "E \<le> N"
  obtains s' where "prvProcessExpiredTimer cb (of_nat E) (of_nat N) s = Some s'" "service_frame s s'"
    "timer_expiry N s' = (timer_expiry N s)(t := if auto_reload T \<and> N < E + period T then Some (E + period T) else None)"
    "calls (app s') = (calls (app s))(t := Suc (calls (app s) t))"
    "auto_reload T \<Longrightarrow> E + period T \<le> N \<Longrightarrow> queued (start_command t E) s'"
proof -
  have lo: "lists_ok s" using ok by (simp add: service_ok_def)
  note hd = head_timer [OF lo ne] and nx = next_expire_time(2) [OF lo ne E(1)]
  have NE: "N < E + 2 ^ 32"
    using nx div_mult_mod_eq [of N 4294967296] div_mult_mod_eq [of E 4294967296] mod_less_divisor [of 4294967296 N] by simp
  obtain n h where h: "uxListRemove t (tlists s) = Some (n, h)" "lists_ok (s\<lparr>tlists := h\<rparr>)"
    "pvContainer h = (pvContainer (tlists s))(t := None)" "item_value h = item_value (tlists s)"
    using remove_timer [OF lo hd(1)] by blast
  let ?s1 = "s\<lparr>tlists := h\<rparr>"
  have f1: "service_frame s ?s1" by (rule service_frame_lists [OF service_frame_refl [OF ok] h(2)])
  have e1: "timer_expiry N ?s1 = (timer_expiry N s)(t := None)" by (auto simp: timer_expiry_def h(3,4) fun_eq_iff)
  have c1: "pvContainer (tlists ?s1) t = None" and T1: "timers ?s1 t = Some T" using h(3) T by simp_all
  have vp: "of_nat E + xTimerPeriodInTicks T = (of_nat (E + period T) :: u32)" by (simp add: period_def)
  obtain s2 where s2: "(if uxAutoReload T = 1
      then do {
        (now, s) \<leftarrow> prvInsertTimerInActiveList t (of_nat E + xTimerPeriodInTicks T) (of_nat N) (of_nat E) ?s1;
        (if now then resend t (of_nat E) s else Some s)
      } else Some ?s1) = Some s2" "service_frame ?s1 s2" "app s2 = app s"
    "timer_expiry N s2 = (timer_expiry N s)(t := if auto_reload T \<and> N < E + period T then Some (E + period T) else None)"
    "auto_reload T \<Longrightarrow> E + period T \<le> N \<Longrightarrow> queued (start_command t E) s2"
  proof (cases "auto_reload T")
    case False
    then show thesis using that [of ?s1] e1 service_frame_refl [OF service_frameD(1) [OF f1]] by (simp add: auto_reload_def)
  next
    case True
    obtain g where g: "prvInsertTimerInActiveList t (of_nat (E + period T)) (of_nat N) (of_nat E) ?s1 = Some (E + period T \<le> N, ?s1\<lparr>tlists := g\<rparr>)"
      "lists_ok (?s1\<lparr>tlists := g\<rparr>)"
      "timer_expiry N (?s1\<lparr>tlists := g\<rparr>) = (if E + period T \<le> N then timer_expiry N ?s1 else (timer_expiry N ?s1)(t \<mapsto> E + period T))"
      using insert_effect [OF h(2) c1 T1 E(2) NE] unfolding period_def by blast
    have f2: "service_frame ?s1 (?s1\<lparr>tlists := g\<rparr>)"
      by (rule service_frame_lists [OF service_frame_refl [OF service_frameD(1) [OF f1]] g(2)])
    show thesis
    proof (cases "E + period T \<le> N")
      case now: True
      obtain r where r: "resend t (of_nat E) (?s1\<lparr>tlists := g\<rparr>) = Some (?s1\<lparr>tlists := g, rtos := r\<rparr>)"
        "service_frame (?s1\<lparr>tlists := g\<rparr>) (?s1\<lparr>tlists := g, rtos := r\<rparr>)"
        "\<lparr>xMessageID = tmrCOMMAND_START, xMessageValue = of_nat E, pxTimer = t\<rparr> \<in> set (commands (?s1\<lparr>tlists := g, rtos := r\<rparr>)) \<or>
          10 \<le> length (commands (?s1\<lparr>tlists := g, rtos := r\<rparr>))"
        using resend_effect [OF service_frameD(1) [OF f2]] by metis
      have "timer_expiry N (?s1\<lparr>tlists := g, rtos := r\<rparr>) = timer_expiry N (?s1\<lparr>tlists := g\<rparr>)" by (rule expiry_frame) simp_all
      then show thesis
        using that [OF _ service_frame_trans [OF f2 r(2)]] True now g(1,3) r(1,3) e1
        by (simp add: auto_reload_def vp queued_def start_command_def del: of_nat_add)
    next
      case False
      then show thesis using that [OF _ f2] True g(1,3) e1 by (simp add: auto_reload_def vp del: of_nat_add)
    qed
  qed
  have f: "service_frame s s2" by (rule service_frame_trans [OF f1 s2(2)])
  note d = service_frameD [OF f]
  obtain s3 where s3: "call cb t s2 = Some s3" "service_frame s2 s3" "tlists s3 = tlists s2"
    "calls (app s3) = (calls (app s2))(t := Suc (calls (app s2) t))"
    using callE [OF cb d(1) d(3) [OF T]] by blast
  have e3: "timer_expiry N s3 = timer_expiry N s2" by (rule expiry_frame) (use s3 in \<open>simp_all add: service_frame_def\<close>)
  have "prvProcessExpiredTimer cb (of_nat E) (of_nat N) s = Some s3"
    using hd(2) h(1) T s2(1) s3(1) by (simp add: prvProcessExpiredTimer_def Let_def)
  then show thesis using that [OF _ service_frame_trans [OF f s3(2)]] e3 s2(3,4,5) s3(4) queued_frame [OF _ s3(2)] by simp
qed

section \<open>Creating timers\<close>

text \<open>The service before its first timer is created: no list is set up.\<close>

definition service_reset :: "'a timer_service \<Rightarrow> bool" where
  "service_reset s \<longleftrightarrow> xTimerQueue s = 0 \<and> heap_wf (tlists s) \<and> (\<forall>l. list_items (tlists s) l = []) \<and> timers s 0 = None"

lemma setup_lists:
  assumes "heap_wf h" and "\<And>l. list_items h l = []"
  defines "h' \<equiv> vListInitialise xActiveTimerList2 (vListInitialise xActiveTimerList1 h)"
  shows "heap_wf h'" "list_items h' l = []" "pvContainer h' t = None" "listLIST_IS_INITIALISED l h'"
proof -
  have e: "h' = fold vListInitialise [xActiveTimerList1, xActiveTimerList2] h" by (simp add: h'_def)
  have f: "heap_wf h'" "\<And>l. list_items h' l = []" "pvContainer h' = pvContainer h"
    "\<And>l. listLIST_IS_INITIALISED l h' \<longleftrightarrow> l \<in> set [xActiveTimerList1, xActiveTimerList2] \<or> listLIST_IS_INITIALISED l h"
    unfolding e using initialise_empty [OF assms(1,2), of "[xActiveTimerList1, xActiveTimerList2]"] by blast+
  show "heap_wf h'" "list_items h' l = []" by (fact f)+
  show "listLIST_IS_INITIALISED l h'" using f(4) [of l] by (cases l) auto
  show "pvContainer h' t = None"
    using heap_wf_container [OF f(1), of t] f(2) by (metis empty_iff list.set(1) option.exhaust)
qed

lemma create_first:
  assumes reset: "service_reset s" and ok: "sys_ok (rtos s)" and fresh: "queues (rtos s) q = None" "q \<noteq> 0" "head \<noteq> 0"
    "litems (kern (rtos s)) (TasksWaitingToSend q) = []" "litems (kern (rtos s)) (TasksWaitingToReceive q) = []"
    and heads: "\<And>r R. queues (rtos s) r = Some R \<Longrightarrow> pcHead R \<noteq> head"
    and sz: "unat head + 120 < 2 ^ 32" "12 \<le> unat head" and fill: "\<And>m. length (fill m) = m"
    and t: "t \<noteq> 0" "P \<noteq> 0"
  obtains r s' where "xTimerCreate (q, head, garbage, fill) t name P reload ident f s = Some (t, s')" "service_ok s'"
    "xQueueGenericCreate q head garbage fill 10 12 (rtos s) = Some (q, r)" "rtos s' = r" "cont (kern r) = cont (kern (rtos s))"
    "commands s' = []" "timer_expiry L s' = (\<lambda>_. None)" "app s' = app s" "xLastTime s' = xLastTime s"
    "timers s' = (timers s)(t \<mapsto> \<lparr>pcTimerName = name, xTimerPeriodInTicks = P, uxAutoReload = reload, pvTimerID = ident, pxCallbackFunction = f\<rparr>)"
proof -
  let ?h = "vListInitialise xActiveTimerList2 (vListInitialise xActiveTimerList1 (tlists s))"
  let ?T = "\<lparr>pcTimerName = name, xTimerPeriodInTicks = P, uxAutoReload = reload, pvTimerID = ident, pxCallbackFunction = f\<rparr>"
  have wf: "heap_wf (tlists s)" "\<And>l. list_items (tlists s) l = []" using reset by (simp_all add: service_reset_def)
  note sl = setup_lists [OF wf]
  have u: "unat (10 :: uBaseType) = 10" "unat (12 :: uBaseType) = 12" by simp_all
  obtain r Q where r: "xQueueGenericCreate q head garbage fill 10 12 (rtos s) = Some (q, r)" "sys_ok r"
    "items_of r = (items_of (rtos s))(q := Some [])" "queues r = (queues (rtos s))(q := Some Q)"
    "pcHead Q = head" "uxLength Q = 10" "uxItemSize Q = 12" "unlocked Q" "cont (kern r) = cont (kern (rtos s))"
    using create_effect_queue [OF ok fresh, of 10 12 fill garbage] heads sz fill u by auto
  define s' where "s' = s\<lparr>tlists := ?h, pxCurrentTimerList := xActiveTimerList1, pxOverflowTimerList := xActiveTimerList2,
    rtos := r, xTimerQueue := q, timers := (timers s)(t \<mapsto> ?T)\<rparr>"
  have vi: "vListInitialiseItem t ?h = ?h" by (rule initialise_item_effect [OF sl(1,3)])
  have run: "xTimerCreate (q, head, garbage, fill) t name P reload ident f s = Some (t, s')"
    using reset t r(1) vi
    by (simp add: xTimerCreate_def prvCheckForValidListAndQueue_def service_reset_def configTIMER_QUEUE_LENGTH_def Let_def s'_def)
  have lo: "lists_ok s'" using sl reset t(1) by (simp add: lists_ok_def s'_def service_reset_def)
  have "queue_valid q r" using r(2,4,5,8) fresh(3) by (simp add: queue_valid_def)
  then have so: "service_ok s'" using lo r(4,6,7) fresh(2) by (simp add: service_ok_def s'_def configTIMER_QUEUE_LENGTH_def)
  have cm: "commands s' = []" using r(3) by (simp add: commands_def queue_contents_def s'_def)
  have ex: "timer_expiry L s' = (\<lambda>_. None)" using sl(3) by (simp add: timer_expiry_def s'_def fun_eq_iff)
  show thesis by (rule that [OF run so r(1) _ r(9) cm ex]) (simp_all add: s'_def)
qed

lemma create_more:
  assumes ok: "service_ok s" and t: "t \<noteq> 0" "P \<noteq> 0" "timers s t = None"
  obtains s' where "xTimerCreate mem t name P reload ident f s = Some (t, s')" "service_frame s s'" "tlists s' = tlists s"
    "timers s' t = Some \<lparr>pcTimerName = name, xTimerPeriodInTicks = P, uxAutoReload = reload, pvTimerID = ident, pxCallbackFunction = f\<rparr>"
proof -
  let ?T = "\<lparr>pcTimerName = name, xTimerPeriodInTicks = P, uxAutoReload = reload, pvTimerID = ident, pxCallbackFunction = f\<rparr>"
  let ?s = "s\<lparr>timers := (timers s)(t \<mapsto> ?T)\<rparr>"
  have lo: "lists_ok s" "xTimerQueue s \<noteq> 0" using ok by (simp_all add: service_ok_def)
  have c: "pvContainer (tlists s) t = None" using lists_okD(6) [OF lo(1)] t(3) by (metis option.exhaust)
  have "xTimerCreate mem t name P reload ident f s = Some (t, ?s)"
    using t(1,2) lo(2) initialise_item_effect [OF lists_okD(1) [OF lo(1)] c]
    by (simp add: xTimerCreate_def prvCheckForValidListAndQueue_def)
  moreover have "service_ok ?s" using ok lists_ok_timers [OF lo(1) c t(1)] by (simp add: service_ok_def)
  moreover have "timers s \<subseteq>\<^sub>m (timers s)(t \<mapsto> ?T)" using t(3) by (simp add: map_le_def dom_def)
  ultimately show thesis using that [of ?s] by (simp add: service_frame_def commands_def)
qed

end
