(* ===== verification/Timer_Properties.thy ===== *)
theory Timer_Properties
  imports Timer_Commands
begin

text \<open>The properties of the timer service, with a sample service for the witnesses.\<close>

section \<open>A sample service\<close>

text \<open>
  The sample kernel with one auto-reload timer at address 50 with a period of 30 ticks; its callback counts its calls in
  the state of the application.
\<close>

definition sample_cb :: "(timer \<Rightarrow> nat) callbacks" where
  "sample_cb f t s = Some (s\<lparr>app := (app s)(t := Suc (app s t))\<rparr>)"

definition sample_service0 :: "(timer \<Rightarrow> nat) timer_service" where
  "sample_service0 = \<lparr>rtos = sample_sys0, timers = (\<lambda>_. None), tlists = bss_heap 0, pxCurrentTimerList = xActiveTimerList1,
     pxOverflowTimerList = xActiveTimerList1, xTimerQueue = 0, xTimerTaskHandle = 3, xLastTime = 0, app = (\<lambda>_. 0)\<rparr>"

definition sample_timer :: xTIMER where
  "sample_timer = \<lparr>pcTimerName = 0, xTimerPeriodInTicks = 30, uxAutoReload = 1, pvTimerID = 0, pxCallbackFunction = 77\<rparr>"

definition sample_service :: "(timer \<Rightarrow> nat) timer_service" where
  "sample_service = snd (the (xTimerCreate (300, 3000, sample_garbage, \<lambda>n. replicate n 0) 50 0 30 1 0 77 sample_service0))"

lemma sample_cb_ok: "callback_ok (\<lambda>a. a) sample_cb" "callback_quiet sample_cb"
proof -
  have "service_frame s (s\<lparr>app := a\<rparr>)" if "service_ok s" for s :: "(timer \<Rightarrow> nat) timer_service" and a
    using that by (simp add: service_frame_def service_ok_def lists_ok_def commands_def)
  then show "callback_ok (\<lambda>a. a) sample_cb" by (simp add: callback_ok_def sample_cb_def)
  show "callback_quiet sample_cb" by (auto simp: callback_quiet_def sample_cb_def)
qed

lemma sample_timer_simps [simp]: "period sample_timer = 30" "auto_reload sample_timer" "xTimerPeriodInTicks sample_timer = 30"
  by (simp_all add: sample_timer_def period_def auto_reload_def)

lemma sample_service_facts:
  "service_ok sample_service" "commands sample_service = []" "timer_expiry L sample_service = (\<lambda>_. None)"
  "app sample_service = (\<lambda>_. 0)" "xLastTime sample_service = 0" "timers sample_service 50 = Some sample_timer"
  "cont (kern (rtos sample_service)) = cont sample" "xTickCount (kern (rtos sample_service)) = 0"
  "uxSchedulerSuspended (kern (rtos sample_service)) = 0" "pxCurrentTCB (kern (rtos sample_service)) = 3"
  "tcbs (kern (rtos sample_service)) = tcbs sample"
proof -
  have z: "service_reset sample_service0" "rtos sample_service0 = sample_sys0" "queues sample_sys0 = (\<lambda>_. None)" "kern sample_sys0 = sample"
    by (simp_all add: service_reset_def sample_service0_def sample_sys0_def)
  have re: "sys_ok (rtos sample_service0)" "litems (kern (rtos sample_service0)) (TasksWaitingToSend 300) = []"
    "litems (kern (rtos sample_service0)) (TasksWaitingToReceive 300) = []"
    using sample_sys0_ok sample_event_lists by (simp_all add: z)
  obtain r s' where c: "xTimerCreate (300, 3000, sample_garbage, \<lambda>n. replicate n 0) 50 0 30 1 0 77 sample_service0 = Some (50, s')"
    "service_ok s'" "xQueueGenericCreate 300 3000 sample_garbage (\<lambda>n. replicate n 0) 10 12 (rtos sample_service0) = Some (300, r)"
    "rtos s' = r" "cont (kern r) = cont (kern (rtos sample_service0))" "commands s' = []" "timer_expiry L s' = (\<lambda>_. None)"
    "app s' = app sample_service0" "xLastTime s' = xLastTime sample_service0"
    "timers s' = (timers sample_service0)(50 \<mapsto> \<lparr>pcTimerName = 0, xTimerPeriodInTicks = 30, uxAutoReload = 1, pvTimerID = 0, pxCallbackFunction = 77\<rparr>)"
    by (rule create_first [OF z(1) re(1) _ _ _ re(2,3), of 3000 "\<lambda>n. replicate n 0" 50 30 sample_garbage 0 1 0 77 L])
      (use z in simp_all)
  have e: "sample_service = s'" using c(1) by (simp add: sample_service_def)
  have k: "kern r = sample\<lparr>heap := heap (kern r)\<rparr>"
    using c(3) by (auto simp: z xQueueGenericCreate_def xQueueGenericReset_def set_queue_def Let_def)
  show "service_ok sample_service" "commands sample_service = []" "timer_expiry L sample_service = (\<lambda>_. None)"
    "app sample_service = (\<lambda>_. 0)" "xLastTime sample_service = 0" "timers sample_service 50 = Some sample_timer"
    "cont (kern (rtos sample_service)) = cont sample"
    using c z by (simp_all add: e sample_service0_def sample_timer_def)
  obtain h where "kern r = sample\<lparr>heap := h\<rparr>" using k by blast
  then show "xTickCount (kern (rtos sample_service)) = 0" "uxSchedulerSuspended (kern (rtos sample_service)) = 0"
    "pxCurrentTCB (kern (rtos sample_service)) = 3" "tcbs (kern (rtos sample_service)) = tcbs sample"
    using c(4) sample_facts by (simp_all add: e)
qed

lemma sample_unlinked: "lists_ok sample_service" "pvContainer (tlists sample_service) 50 = None"
proof -
  show "lists_ok sample_service" using sample_service_facts(1) by (simp add: service_ok_def)
  have "timer_expiry 0 sample_service 50 = None" by (simp add: sample_service_facts(3))
  then show "pvContainer (tlists sample_service) 50 = None" by (simp add: expiry_container)
qed

lemma same_turn: "N div 2 ^ 32 = L div 2 ^ 32 \<Longrightarrow> timer_expiry N s = timer_expiry L s"
  by (simp add: timer_expiry_def fun_eq_iff)

text \<open>The sample timer started at the true time \<open>C\<close>, with the last sample at \<open>C\<close>.\<close>

lemma sample_started:
  obtains s :: "(timer \<Rightarrow> nat) timer_service" where "service_ok s" "commands s = []" "timer_expiry C s = (\<lambda>_. None)(50 \<mapsto> C + 30)" "app s = (\<lambda>_. 0)"
    "xLastTime s = of_nat C" "timers s 50 = Some sample_timer" "rtos s = rtos sample_service"
proof -
  note f = sample_service_facts
  obtain h where h: "lists_ok (sample_service\<lparr>tlists := h\<rparr>)"
    "timer_expiry C (sample_service\<lparr>tlists := h\<rparr>) = (timer_expiry C sample_service)(50 \<mapsto> C + 30)"
    using insert_effect [OF sample_unlinked f(6), of C C] by (simp add: sample_timer_def) metis
  have "service_ok (sample_service\<lparr>tlists := h\<rparr>)" by (rule service_lists [OF f(1) h(1)])
  then show thesis
    using that [of "sample_service\<lparr>tlists := h, xLastTime := of_nat C\<rparr>"] h(2) f by (simp add: commands_def)
qed

section \<open>Inserting a timer\<close>

text \<open>
  C20: where a timer goes. For a command given at the true time \<open>C\<close> and carried out at \<open>N\<close>, at most \<open>2 ^ 32 - 1\<close> ticks later,
  \<open>prvInsertTimerInActiveList\<close>, which sees both times and the expiry time in 32 bits only, reports that the timer has to be
  processed now exactly when its true expiry time, \<open>C\<close> plus the period, has come; otherwise it links the timer, in order,
  into the list of the turn of the counter in which it expires, so that its expiry time is exact. Other timers keep
  theirs.
\<close>

theorem prvInsertTimerInActiveList_exact:
  assumes "lists_ok s" and "pvContainer (tlists s) t = None" and "timers s t = Some T" and "C \<le> N" and "N < C + 2 ^ 32"
  shows "\<exists>s'. prvInsertTimerInActiveList t (of_nat C + xTimerPeriodInTicks T) (of_nat N) (of_nat C) s = Some (C + period T \<le> N, s') \<and>
    lists_ok s' \<and> timer_expiry N s' = (if C + period T \<le> N then timer_expiry N s else (timer_expiry N s)(t \<mapsto> C + period T))"
proof -
  have "of_nat C + xTimerPeriodInTicks T = (of_nat (C + period T) :: u32)" by (simp add: period_def)
  then show ?thesis using insert_effect [OF assms refl] unfolding period_def by metis
qed

theorem prvInsertTimerInActiveList_exact_witness:
  "\<exists>s'. prvInsertTimerInActiveList 50 (of_nat 4294967290 + 30) (of_nat 4294967300) (of_nat 4294967290) sample_service = Some (False, s') \<and>
    timer_expiry 4294967300 s' = (\<lambda>_. None)(50 \<mapsto> 4294967320)"
proof -
  note f = sample_service_facts
  show ?thesis
    using prvInsertTimerInActiveList_exact [OF sample_unlinked f(6), of 4294967290 4294967300] f(3) [of 4294967300]
    by (auto simp: sample_timer_def period_def)
qed

section \<open>The counter wraps\<close>

text \<open>
  C21: the switch of the lists. \<open>prvSampleTimeNow\<close>, called at the true time \<open>N\<close> less than \<open>2 ^ 32\<close> ticks after its last call at
  \<open>L\<close>, ends. If the counter has not wrapped in between nothing but the time of the last sample changes. If it has, the
  callback of every timer that expired before the wrap is called once for each of its expiry times before the wrap,
  the timer is taken off its list and, if it is an auto-reload timer, a command to start it from the last of these
  times is put into the queue (unless the queue is full); every other timer keeps its exact expiry time.
\<close>

theorem prvSampleTimeNow_exact:
  assumes "service_ok s" and "callback_ok calls cb" and "L \<le> N" and "N < L + 2 ^ 32"
    and "xLastTime s = of_nat L" and "xTickCount (kern (rtos s)) = of_nat N"
  shows "\<exists>s'. prvSampleTimeNow cb s = Some (of_nat N, N div 2 ^ 32 \<noteq> L div 2 ^ 32, s') \<and> service_ok s' \<and> xLastTime s' = of_nat N \<and>
    (\<forall>t E. timer_expiry N s' t = Some E \<longleftrightarrow> timer_expiry L s t = Some E \<and> N div 2 ^ 32 * 2 ^ 32 \<le> E) \<and>
    (\<forall>t. calls (app s') t = calls (app s) t + (if N div 2 ^ 32 = L div 2 ^ 32 then 0 else owed L s t)) \<and>
    (N div 2 ^ 32 \<noteq> L div 2 ^ 32 \<longrightarrow> (\<forall>t T E. timers s t = Some T \<longrightarrow> timer_expiry L s t = Some E \<longrightarrow> E < wrap_time L \<longrightarrow>
       auto_reload T \<longrightarrow> queued (start_command t (last_expiry (wrap_time L) T E)) s'))"
proof -
  obtain s' where s': "prvSampleTimeNow cb s = Some (of_nat N, N div 2 ^ 32 \<noteq> L div 2 ^ 32, s')" "sampled calls L N s s'"
    using sample_effect [OF assms] by blast
  show ?thesis using s' unfolding sampled_def by (intro exI [of _ s']) simp
qed

theorem prvSampleTimeNow_exact_witness:
  "\<exists>s s'. timer_expiry 4294967290 s 50 = Some 4294967200 \<and> prvSampleTimeNow sample_cb s = Some (0, True, s') \<and>
    timer_expiry 4294967296 s' 50 = None \<and> app s' 50 = 4 \<and> queued (start_command 50 4294967290) s'"
proof -
  obtain s :: "(timer \<Rightarrow> nat) timer_service" where s: "service_ok s" "timer_expiry 4294967170 s = (\<lambda>_. None)(50 \<mapsto> 4294967200)" "app s = (\<lambda>_. 0)"
    "timers s 50 = Some sample_timer" "rtos s = rtos sample_service"
    using sample_started [of 4294967170] by auto
  let ?s = "s\<lparr>xLastTime := of_nat 4294967290\<rparr>"
  have e: "timer_expiry 4294967290 ?s = (\<lambda>_. None)(50 \<mapsto> 4294967200)"
    using s(2) same_turn [of 4294967290 4294967170 s] by simp
  have ow: "owed 4294967290 ?s 50 = 4"
    using e s(4) by (simp add: owed_def wrap_time_def expiries_def)
  have la: "last_expiry (wrap_time 4294967290) sample_timer 4294967200 = 4294967290"
    by (simp add: last_expiry_def wrap_time_def)
  have k: "xTickCount (kern (rtos ?s)) = of_nat 4294967296" using s(5) sample_service_facts(8) by simp
  obtain s' where s': "prvSampleTimeNow sample_cb ?s = Some (0, True, s')"
    "\<forall>t E. timer_expiry 4294967296 s' t = Some E \<longleftrightarrow> timer_expiry 4294967290 ?s t = Some E \<and> 4294967296 \<le> E"
    "\<forall>t. app s' t = app ?s t + owed 4294967290 ?s t"
    "\<forall>t T E. timers ?s t = Some T \<longrightarrow> timer_expiry 4294967290 ?s t = Some E \<longrightarrow> E < wrap_time 4294967290 \<longrightarrow>
       auto_reload T \<longrightarrow> queued (start_command t (last_expiry (wrap_time 4294967290) T E)) s'"
    using prvSampleTimeNow_exact [OF _ sample_cb_ok(1), of ?s 4294967290 4294967296] s(1) k by auto
  have "timer_expiry 4294967296 s' 50 \<noteq> Some E" for E using s'(2) e by simp
  then have "timer_expiry 4294967296 s' 50 = None" by blast
  moreover have "app s' 50 = 4" using s'(3) s(3) ow by simp
  moreover have "queued (start_command 50 4294967290) s'"
    using s'(4) [rule_format, of 50 sample_timer 4294967200] s(4) e la by (simp add: wrap_time_def)
  ultimately show ?thesis using e s'(1) by (intro exI [of _ ?s] exI [of _ s']) simp
qed

section \<open>Expired timers\<close>

text \<open>
  C24: an expired timer. \<open>prvProcessExpiredTimer\<close> on a current list whose first timer has expired at the true time \<open>E\<close>, not
  after the time \<open>N\<close>, ends, calls the callback of that timer once, and sets an auto-reload timer for \<open>E\<close> plus its period, not
  for \<open>N\<close> plus its period, so that its expiry times do not drift; if that time has come too, a command to start the timer from
  \<open>E\<close> is put into the queue (unless the queue is full). A one-shot timer becomes inactive, other timers keep their times.
\<close>

theorem prvProcessExpiredTimer_exact:
  assumes "service_ok s" and "callback_ok calls cb" and "list_items (tlists s) (pxCurrentTimerList s) = t # ts"
    and "timers s t = Some T" and "timer_expiry N s t = Some E" and "E \<le> N"
  shows "\<exists>s'. prvProcessExpiredTimer cb (of_nat E) (of_nat N) s = Some s' \<and> service_ok s' \<and>
    timer_expiry N s' = (timer_expiry N s)(t := if auto_reload T \<and> N < E + period T then Some (E + period T) else None) \<and>
    calls (app s') = (calls (app s))(t := Suc (calls (app s) t)) \<and>
    (auto_reload T \<longrightarrow> E + period T \<le> N \<longrightarrow> queued (start_command t E) s')"
proof -
  obtain s' where "prvProcessExpiredTimer cb (of_nat E) (of_nat N) s = Some s'" "service_frame s s'"
    "timer_expiry N s' = (timer_expiry N s)(t := if auto_reload T \<and> N < E + period T then Some (E + period T) else None)"
    "calls (app s') = (calls (app s))(t := Suc (calls (app s) t))"
    "auto_reload T \<Longrightarrow> E + period T \<le> N \<Longrightarrow> queued (start_command t E) s'"
    using expired_effect [OF assms] by blast
  then show ?thesis using service_frameD(1) by blast
qed

lemma single_timer:
  assumes ok: "service_ok s" and e: "timer_expiry L s = (\<lambda>_. None)(t \<mapsto> E)" and "E < wrap_time L"
  shows "list_items (tlists s) (pxCurrentTimerList s) = [t]"
proof -
  let ?xs = "list_items (tlists s) (pxCurrentTimerList s)"
  have lo: "lists_ok s" using ok by (simp add: service_ok_def)
  note m = heap_wf_container [OF lists_okD(1) [OF lo], of _ "pxCurrentTimerList s", symmetric]
  have "x = t" if "x \<in> set ?xs" for x
  proof (rule ccontr)
    assume "x \<noteq> t"
    then have "timer_expiry L s x = None" by (simp add: e)
    then show False using that m [of x] by (simp add: expiry_container)
  qed
  moreover have "pvContainer (tlists s) t = Some (pxCurrentTimerList s)"
    using expiry_current [OF lo, of L t E] e assms(3) by simp
  ultimately have "set ?xs = {t}" using m [of t] by blast
  moreover have "distinct ?xs" by (rule heap_wf_distinct [OF lists_okD(1) [OF lo]])
  ultimately have "length ?xs = 1" using distinct_card [of ?xs] by simp
  then obtain a where "?xs = [a]" by (auto simp: length_Suc_conv)
  then show ?thesis using \<open>set ?xs = {t}\<close> by simp
qed

theorem prvProcessExpiredTimer_exact_witness:
  "\<exists>s s'. timer_expiry 45 s 50 = Some 30 \<and> prvProcessExpiredTimer sample_cb 30 45 s = Some s' \<and>
    timer_expiry 45 s' 50 = Some 60 \<and> app s' 50 = 1"
proof -
  obtain s :: "(timer \<Rightarrow> nat) timer_service" where s: "service_ok s" "timer_expiry 0 s = (\<lambda>_. None)(50 \<mapsto> 30)"
    "app s = (\<lambda>_. 0)" "timers s 50 = Some sample_timer" using sample_started [of 0] by auto
  have l: "list_items (tlists s) (pxCurrentTimerList s) = [50]" by (rule single_timer [OF s(1,2)]) (simp add: wrap_time_def)
  have e: "timer_expiry 45 s = (\<lambda>_. None)(50 \<mapsto> 30)" using s(2) same_turn [of 45 0 s] by simp
  have "\<exists>s'. prvProcessExpiredTimer sample_cb 30 45 s = Some s' \<and> timer_expiry 45 s' 50 = Some 60 \<and> app s' 50 = 1"
    using prvProcessExpiredTimer_exact [OF s(1) sample_cb_ok(1) l s(4), of 45 30] s(3) e by auto
  moreover have "timer_expiry 45 s 50 = Some 30" by (simp add: e)
  ultimately show ?thesis by blast
qed

text \<open>
  C22: catching up. When the queue holds one command, to start an auto-reload timer from the true time \<open>C\<close>, and callbacks use
  nothing of the kernel, \<open>prvProcessReceivedCommands\<close> ends with an empty queue; the callback has been called once for each of
  the expiry times \<open>C + P\<close>, \<open>C + 2 P\<close>, ... that have come, and the timer is set for the first of them that has not, whatever
  the time between the command and its execution.
\<close>

theorem prvProcessReceivedCommands_catches_up:
  assumes "callback_ok calls cb" and "callback_quiet cb" and "auto_reload T" and "0 < period T"
    and "service_ok s" and "timers s t = Some T" and "commands s = [start_command t C]" and "C \<le> N" and "N < C + 2 ^ 32"
    and "L \<le> N" and "N div 2 ^ 32 = L div 2 ^ 32" and "xLastTime s = of_nat L" and "xTickCount (kern (rtos s)) = of_nat N"
  shows "\<exists>s'. prvProcessReceivedCommands (\<lambda>n s. Some s) cb 0 s = Some s' \<and> service_ok s' \<and> commands s' = [] \<and>
    timer_expiry N s' = (timer_expiry L s)(t := Some (C + period T * ((N - C) div period T + 1))) \<and>
    calls (app s') = (calls (app s))(t := calls (app s) t + (N - C) div period T)"
  by (rule catch_up [OF assms])

theorem prvProcessReceivedCommands_catches_up_witness:
  "\<exists>s s'. commands s = [start_command 50 4294967196] \<and> prvProcessReceivedCommands (\<lambda>n s. Some s) sample_cb 0 s = Some s' \<and>
    timer_expiry 4294967296 s' 50 = Some 4294967316 \<and> app s' 50 = 3"
proof -
  note f = sample_service_facts
  obtain r where r: "service_ok (sample_service\<lparr>rtos := r\<rparr>)" "woke (kern (rtos sample_service)) (kern r)"
    "commands (sample_service\<lparr>rtos := r\<rparr>) = [start_command 50 4294967196]"
    using send_command [OF f(1), of no_irq 50 tmrCOMMAND_START "of_nat 4294967196"] f(2) by (auto simp: start_command_def)
  let ?s = "sample_service\<lparr>rtos := r\<rparr>"
  have k: "xLastTime ?s = of_nat 4294967296" "xTickCount (kern (rtos ?s)) = of_nat 4294967296" "timers ?s 50 = Some sample_timer"
    "app ?s = (\<lambda>_. 0)"
    using f r(2) by (simp_all add: woke_def)
  obtain s' where s': "prvProcessReceivedCommands (\<lambda>n s. Some s) sample_cb 0 ?s = Some s'"
    "timer_expiry 4294967296 s' = (timer_expiry 4294967296 ?s)(50 := Some (4294967196 + 30 * ((4294967296 - 4294967196) div 30 + 1)))"
    "app s' = (app ?s)(50 := app ?s 50 + (4294967296 - 4294967196) div 30)"
    using prvProcessReceivedCommands_catches_up [OF sample_cb_ok, of sample_timer ?s 50 4294967196 4294967296 4294967296] r(1,3) k by auto
  then show ?thesis using r(3) k(4) by (intro exI [of _ ?s] exI [of _ s']) simp
qed

section \<open>Waiting\<close>

text \<open>The first timer of the current list is the one that expires first.\<close>

lemma first_expiry:
  assumes ok: "lists_ok s" and ne: "list_items (tlists s) (pxCurrentTimerList s) = t # ts"
    and E: "timer_expiry L s t = Some E" and F: "timer_expiry L s x = Some F"
  shows "E \<le> F"
proof -
  note hd = head_timer [OF ok ne]
  have Ev: "E = L div 4294967296 * 4294967296 + unat (item_value (tlists s) t)" using E hd(1) by (simp add: timer_expiry_def)
  obtain l where l: "pvContainer (tlists s) x = Some l" using F by (auto simp: timer_expiry_def)
  show ?thesis
  proof (cases "l = pxCurrentTimerList s")
    case True
    then have "x \<in> set (list_items (tlists s) (pxCurrentTimerList s))"
      using l heap_wf_container [OF lists_okD(1) [OF ok]] by blast
    then have "unat (item_value (tlists s) t) \<le> unat (item_value (tlists s) x)"
      using hd(4) by (simp add: word_le_nat_alt)
    then show ?thesis using F l True Ev by (simp add: timer_expiry_def)
  next
    case False
    then show ?thesis using F l Ev unsigned_less [of "item_value (tlists s) t", where ?'a = nat] by (auto simp: timer_expiry_def)
  qed
qed

text \<open>
  C23: the timer task sleeps until its first timer expires. When no command waits and the first timer of the current list
  expires at the true time \<open>E\<close> after now, \<open>E\<close> is the earliest expiry time of all timers, and the pass of the timer task blocks it:
  it waits for a command on its queue, no timer changes, and after \<open>n\<close> further ticks, for any \<open>n\<close> up to \<open>2 ^ 32 - 1\<close> and
  as long as another task is ready to run meanwhile, the task is ready exactly when the time \<open>E\<close> has come.
\<close>

theorem timer_task_wakes_at_expiry:
  assumes "service_ok s" and "uxSchedulerSuspended (kern (rtos s)) = 0" and "running_ready (kern (rtos s))"
    and "commands s = []" and "L \<le> N" and "N div 2 ^ 32 = L div 2 ^ 32"
    and "xLastTime s = of_nat L" and "xTickCount (kern (rtos s)) = of_nat N"
    and "list_items (tlists s) (pxCurrentTimerList s) = t # ts" and "timer_expiry L s t = Some E" and "N < E"
    and "t0 \<noteq> pxCurrentTCB (kern (rtos s))" and "cont (kern (rtos s)) (Generic t0) = Some (Ready p0)" and "n < 2 ^ 32"
  shows "(\<forall>x F. timer_expiry L s x = Some F \<longrightarrow> E \<le> F) \<and>
    (\<exists>s' k. prvProcessTimerOrBlockTask no_irq cb (fst (prvGetNextExpireTime s)) (snd (prvGetNextExpireTime s)) s = Some s' \<and>
      service_ok s' \<and> timer_expiry N s' = timer_expiry L s \<and> pending_soft_sv (kern (rtos s')) \<and>
      cont (kern (rtos s')) (Event (pxCurrentTCB (kern (rtos s)))) = Some (TasksWaitingToReceive (xTimerQueue s)) \<and>
      systicks n (kern (rtos s')) = Some k \<and>
      (cont k (Generic (pxCurrentTCB (kern (rtos s)))) =
         Some (Ready (prio (kern (rtos s)) (pxCurrentTCB (kern (rtos s))))) \<longleftrightarrow> E \<le> N + n))"
proof -
  have lo: "lists_ok s" using assms(1) by (simp add: service_ok_def)
  obtain r where r: "prvGetNextExpireTime s = (of_nat E, False)"
    "prvProcessTimerOrBlockTask no_irq cb (of_nat E) False s = Some (s\<lparr>xLastTime := of_nat N, rtos := r\<rparr>)"
    "service_ok (s\<lparr>xLastTime := of_nat N, rtos := r\<rparr>)" "waits_for (xTimerQueue s) (of_nat (E - N)) (rtos s) r"
    using task_waits [OF assms(1-11)] by blast
  have D: "0 < E - N" using assms(11) by simp
  have "E - N < 2 ^ 32"
    using next_expire_time(2) [OF lo assms(9,10)] assms(6) div_mult_mod_eq [of N 4294967296] div_mult_mod_eq [of E 4294967296]
      mod_less_divisor [of 4294967296 E] by simp
  then obtain k where k: "systicks n (kern r) = Some k"
    "cont k (Generic (pxCurrentTCB (kern (rtos s)))) = Some (Ready (prio (kern (rtos s)) (pxCurrentTCB (kern (rtos s))))) \<longleftrightarrow> E - N \<le> n"
    using wait_ends [OF r(4) D _ assms(14,12,13)] by blast
  have "timer_expiry N (s\<lparr>xLastTime := of_nat N, rtos := r\<rparr>) = timer_expiry L s"
    using same_turn [OF assms(6), of s] expiry_frame [of "s\<lparr>xLastTime := of_nat N, rtos := r\<rparr>" s N] by simp
  moreover have "E - N \<le> n \<longleftrightarrow> E \<le> N + n" by linarith
  moreover have "pending_soft_sv (kern r)" "cont (kern r) (Event (pxCurrentTCB (kern (rtos s)))) = Some (TasksWaitingToReceive (xTimerQueue s))"
    using r(4) by (simp_all add: waits_for_def Let_def)
  ultimately show ?thesis
    using r(1-3) k first_expiry [OF lo assms(9,10)]
    by (intro conjI allI impI exI [of _ "s\<lparr>xLastTime := of_nat N, rtos := r\<rparr>"] exI [of _ k]) simp_all
qed

theorem timer_task_wakes_at_expiry_witness:
  "\<exists>s s' k. prvProcessTimerOrBlockTask no_irq sample_cb 30 False s = Some s' \<and> systicks 30 (kern (rtos s')) = Some k \<and>
    cont k (Generic 3) = Some (Ready 5)"
proof -
  note f = sample_service_facts
  obtain s :: "(timer \<Rightarrow> nat) timer_service" where s: "service_ok s" "commands s = []" "timer_expiry 0 s = (\<lambda>_. None)(50 \<mapsto> 30)"
    "xLastTime s = of_nat 0" "rtos s = rtos sample_service" using sample_started [of 0] by auto
  have l: "list_items (tlists s) (pxCurrentTimerList s) = [50]" by (rule single_timer [OF s(1,3)]) (simp add: wrap_time_def)
  have lo: "lists_ok s" using s(1) by (simp add: service_ok_def)
  have g: "prvGetNextExpireTime s = (30, False)" using next_expire_time(1) [OF lo l, of 0 30] s(3) by simp
  have k: "uxSchedulerSuspended (kern (rtos s)) = 0" "running_ready (kern (rtos s))" "xTickCount (kern (rtos s)) = of_nat 0"
    "1 \<noteq> pxCurrentTCB (kern (rtos s))" "cont (kern (rtos s)) (Generic 1) = Some (Ready 0)" "prio (kern (rtos s)) 3 = 5"
    "pxCurrentTCB (kern (rtos s)) = 3"
    using f(7-11) sample_facts(7,8) by (auto simp: s(5) running_ready_def)
  have "\<exists>s' k. prvProcessTimerOrBlockTask no_irq sample_cb 30 False s = Some s' \<and> systicks 30 (kern (rtos s')) = Some k \<and>
    cont k (Generic 3) = Some (Ready 5)"
    using timer_task_wakes_at_expiry [OF s(1) k(1,2) s(2) _ _ s(4) k(3) l _ _ k(4,5), of 30 30 sample_cb] s(3) g k(6,7) by auto
  then show ?thesis by (rule exI)
qed

section \<open>The invariant\<close>

text \<open>
  C25: the timer service stays well formed. Whatever command a message names and whatever value it carries, also an unknown
  command or a new period of 0, carrying it out for an existing timer ends and keeps the invariant of the service:
  two distinct, well-formed lists sorted by expiry time, whose items are existing timers with a period that is not 0,
  and a valid queue of 10 messages.
\<close>

theorem process_command_keeps_service:
  assumes "service_ok s" and "callback_ok calls cb" and "L \<le> N" and "N < L + 2 ^ 32"
    and "xLastTime s = of_nat L" and "xTickCount (kern (rtos s)) = of_nat N" and "timers s (pxTimer m) = Some T"
  shows "\<exists>s'. process_command cb m s = Some s' \<and> service_ok s' \<and> xLastTime s' = of_nat N"
  using process_keeps [OF assms] by blast

theorem process_command_keeps_service_witness:
  "\<exists>s'. process_command sample_cb \<lparr>xMessageID = tmrCOMMAND_CHANGE_PERIOD, xMessageValue = 0, pxTimer = 50\<rparr> sample_service = Some s' \<and>
    service_ok s'"
  using process_command_keeps_service [OF sample_service_facts(1) sample_cb_ok(1), of 0 0
      "\<lparr>xMessageID = tmrCOMMAND_CHANGE_PERIOD, xMessageValue = 0, pxTimer = 50\<rparr>" sample_timer] sample_service_facts(5,6,8) by auto

end
