(* ===== verification/Sys_Arch.thy ===== *)
theory Sys_Arch
  imports Timer_View
begin

text \<open>
  The lwIP port: lwip/sys_arch.c on top of the queues, semaphores and tasks of the kernel, and the critical sections of the port it uses. A
  mailbox is a queue of pointers, four bytes each. A call that waits runs the passes of its queue call: \<open>irq n\<close> is what interrupts do in the n-th
  pass, \<open>others n\<close> what the other tasks do between that pass and the moment the caller runs again. \<open>xInsideISR\<close> is an argument, as are the
  addresses the allocator returns.
\<close>

section \<open>Critical sections of the port\<close>

text \<open>\<open>enabled\<close> is the interrupt level of the processor, \<open>cpu_sr\<close> its copy that \<open>portENABLE_INTERRUPTS\<close> restores.\<close>

record port_state =
  enabled :: bool
  cpu_sr :: bool
  level1_int_disabled :: bool
  sdk_NMIIrqIsOn :: bool
  uxCriticalNesting :: uBaseType

definition portDISABLE_INTERRUPTS :: "port_state \<Rightarrow> port_state" where
  "portDISABLE_INTERRUPTS c =
     (if \<not> sdk_NMIIrqIsOn c \<and> \<not> level1_int_disabled c
      then c\<lparr>cpu_sr := enabled c, enabled := False, level1_int_disabled := True\<rparr> else c)"

definition portENABLE_INTERRUPTS :: "port_state \<Rightarrow> port_state" where
  "portENABLE_INTERRUPTS c =
     (if \<not> sdk_NMIIrqIsOn c \<and> level1_int_disabled c
      then c\<lparr>level1_int_disabled := False, enabled := cpu_sr c\<rparr> else c)"

definition vPortEnterCritical :: "port_state \<Rightarrow> port_state" where
  "vPortEnterCritical c = (let c = portDISABLE_INTERRUPTS c in c\<lparr>uxCriticalNesting := uxCriticalNesting c + 1\<rparr>)"

definition vPortExitCritical :: "port_state \<Rightarrow> port_state" where
  "vPortExitCritical c = (let c = c\<lparr>uxCriticalNesting := uxCriticalNesting c - 1\<rparr>
     in if uxCriticalNesting c = 0 then portENABLE_INTERRUPTS c else c)"

definition sys_arch_protect :: "bool \<Rightarrow> port_state \<Rightarrow> u32 \<times> port_state" where
  "sys_arch_protect xInsideISR c = (1, if \<not> xInsideISR then vPortEnterCritical c else c)"

definition sys_arch_unprotect :: "bool \<Rightarrow> u32 \<Rightarrow> port_state \<Rightarrow> port_state" where
  "sys_arch_unprotect xInsideISR xValue c = (if \<not> xInsideISR then vPortExitCritical c else c)"

section \<open>Calls with all their passes\<close>

text \<open>\<open>xQueueReceive\<close> and \<open>xQueueSendToBack\<close> until they return; the number is that of the next pass.\<close>

type_synonym passes = "nat \<Rightarrow> nat \<Rightarrow> system \<Rightarrow> system option"

type_synonym tasks = "nat \<Rightarrow> system \<Rightarrow> system option"

partial_function (option) receive_call ::
    "passes \<Rightarrow> tasks \<Rightarrow> qid \<Rightarrow> nat \<Rightarrow> portTickType \<Rightarrow> xTimeOutType option \<Rightarrow> system \<Rightarrow> (u8 list option \<times> nat \<times> system) option" where
  "receive_call irq others q n w tmo s = do {
     (p, s) \<leftarrow> xQueueGenericReceive (irq n) q w False tmo s;
     (case p of
        Done r \<Rightarrow> Some (r, n + 1, s)
      | Again tmo w \<Rightarrow> do {
          s \<leftarrow> others n s;
          receive_call irq others q (n + 1) w (Some tmo) s
        })
   }"

partial_function (option) send_call ::
    "passes \<Rightarrow> tasks \<Rightarrow> qid \<Rightarrow> u8 list \<Rightarrow> nat \<Rightarrow> portTickType \<Rightarrow> xTimeOutType option \<Rightarrow> system \<Rightarrow> (bool \<times> nat \<times> system) option" where
  "send_call irq others q item n w tmo s = do {
     (p, s) \<leftarrow> xQueueGenericSend (irq n) q item w queueSEND_TO_BACK tmo s;
     (case p of
        Done r \<Rightarrow> Some (r, n + 1, s)
      | Again tmo w \<Rightarrow> do {
          s \<leftarrow> others n s;
          send_call irq others q item (n + 1) w (Some tmo) s
        })
   }"

section \<open>Mailboxes\<close>

definition ERR_OK :: int where
  "ERR_OK = 0"

definition ERR_MEM :: int where
  "ERR_MEM = -1"

definition SYS_ARCH_TIMEOUT :: u32 where
  "SYS_ARCH_TIMEOUT = 0xFFFFFFFF"

definition portTICK_RATE_MS :: portTickType where
  "portTICK_RATE_MS = 1000 div 100"

definition sys_mbox_new ::
    "qid \<Rightarrow> u32 \<Rightarrow> xQUEUE \<Rightarrow> (nat \<Rightarrow> u8 list) \<Rightarrow> u32 \<Rightarrow> system \<Rightarrow> (int \<times> qid \<times> system) option" where
  "sys_mbox_new q head garbage fill iSize s = do {
     (pxMailBox, s) \<leftarrow> xQueueGenericCreate q head garbage fill iSize 4 s;
     Some (if pxMailBox \<noteq> 0 then ERR_OK else ERR_MEM, pxMailBox, s)
   }"

definition sys_mbox_free :: "qid \<Rightarrow> system \<Rightarrow> system option" where
  "sys_mbox_free pxMailBox s = do {
     ulMessagesWaiting \<leftarrow> uxQueueMessagesWaiting pxMailBox s;
     vQueueDelete pxMailBox s
   }"

partial_function (option) post_loop :: "passes \<Rightarrow> tasks \<Rightarrow> qid \<Rightarrow> u32 \<Rightarrow> nat \<Rightarrow> system \<Rightarrow> system option" where
  "post_loop irq others q p n s = do {
     (r, n, s) \<leftarrow> send_call irq others q (word_bytes p) n portMAX_DELAY None s;
     (if \<not> r then post_loop irq others q p n s else Some s)
   }"

definition sys_mbox_post :: "passes \<Rightarrow> tasks \<Rightarrow> qid \<Rightarrow> u32 \<Rightarrow> system \<Rightarrow> system option" where
  "sys_mbox_post irq others pxMailBox pxMessageToPost s = post_loop irq others pxMailBox pxMessageToPost 0 s"

text \<open>A call with no waiting time has a single pass that is not interrupted.\<close>

definition sys_mbox_trypost :: "bool \<Rightarrow> qid \<Rightarrow> u32 \<Rightarrow> system \<Rightarrow> (int \<times> system) option" where
  "sys_mbox_trypost xInsideISR pxMailBox pxMessageToPost s = do {
     (xReturn, s) \<leftarrow>
       (if xInsideISR
        then do {
          (r, woken, s) \<leftarrow> xQueueGenericSendFromISR pxMailBox (word_bytes pxMessageToPost) queueSEND_TO_BACK s;
          Some (r, s)
        }
        else do {
          (r, s) \<leftarrow> xQueueGenericSend no_irq pxMailBox (word_bytes pxMessageToPost) 0 queueSEND_TO_BACK None s;
          (case r of Done b \<Rightarrow> Some (b, s) | Again _ _ \<Rightarrow> None)
        });
     Some (if xReturn then ERR_OK else ERR_MEM, s)
   }"

partial_function (option) fetch_loop :: "passes \<Rightarrow> tasks \<Rightarrow> qid \<Rightarrow> nat \<Rightarrow> system \<Rightarrow> (u8 list \<times> system) option" where
  "fetch_loop irq others q n s = do {
     (r, n, s) \<leftarrow> receive_call irq others q n portMAX_DELAY None s;
     (case r of None \<Rightarrow> fetch_loop irq others q n s | Some x \<Rightarrow> Some (x, s))
   }"

definition elapsed_ms :: "portTickType \<Rightarrow> system \<Rightarrow> u32" where
  "elapsed_ms xStartTime s = (xTaskGetTickCount (kern s) - xStartTime) * portTICK_RATE_MS"

text \<open>The result: the return value and what is stored through \<open>ppvBuffer\<close>, or in the dummy if that is \<open>NULL\<close>.\<close>

definition sys_arch_mbox_fetch :: "passes \<Rightarrow> tasks \<Rightarrow> qid \<Rightarrow> u32 \<Rightarrow> system \<Rightarrow> (u32 \<times> u32 \<times> system) option" where
  "sys_arch_mbox_fetch irq others pxMailBox ulTimeOut s =
     (let xStartTime = xTaskGetTickCount (kern s)
      in if ulTimeOut \<noteq> 0
         then do {
           (r, n, s) \<leftarrow> receive_call irq others pxMailBox 0 (ulTimeOut div portTICK_RATE_MS) None s;
           Some (case r of Some x \<Rightarrow> (elapsed_ms xStartTime s, bytes_word x, s) | None \<Rightarrow> (SYS_ARCH_TIMEOUT, 0, s))
         }
         else do {
           (x, s) \<leftarrow> fetch_loop irq others pxMailBox 0 s;
           let xElapsed = elapsed_ms xStartTime s;
           Some (if xElapsed = 0 then 1 else xElapsed, bytes_word x, s)
         })"

text \<open>Without a message the buffer is left alone.\<close>

definition sys_arch_mbox_tryfetch :: "bool \<Rightarrow> qid \<Rightarrow> system \<Rightarrow> (u32 \<times> u32 option \<times> system) option" where
  "sys_arch_mbox_tryfetch xInsideISR pxMailBox s = do {
     (lResult, s) \<leftarrow>
       (if xInsideISR
        then do {
          (r, woken, s) \<leftarrow> xQueueReceiveFromISR pxMailBox s;
          Some (r, s)
        }
        else do {
          (r, s) \<leftarrow> xQueueGenericReceive no_irq pxMailBox 0 False None s;
          (case r of Done x \<Rightarrow> Some (x, s) | Again _ _ \<Rightarrow> None)
        });
     Some (case lResult of Some x \<Rightarrow> (0, Some (bytes_word x), s) | None \<Rightarrow> (SYS_ARCH_TIMEOUT, None, s))
   }"

section \<open>Semaphores and mutexes\<close>

definition xSemaphoreGive :: "qid \<Rightarrow> system \<Rightarrow> (bool \<times> system) option" where
  "xSemaphoreGive q s = do {
     (r, s) \<leftarrow> xQueueGenericSend no_irq q [] 0 queueSEND_TO_BACK None s;
     (case r of Done b \<Rightarrow> Some (b, s) | Again _ _ \<Rightarrow> None)
   }"

definition vSemaphoreCreateBinary :: "qid \<Rightarrow> u32 \<Rightarrow> xQUEUE \<Rightarrow> (nat \<Rightarrow> u8 list) \<Rightarrow> system \<Rightarrow> (qid \<times> system) option" where
  "vSemaphoreCreateBinary q head garbage fill s = do {
     (x, s) \<leftarrow> xQueueGenericCreate q head garbage fill 1 0 s;
     (if x \<noteq> 0 then do { (r, s) \<leftarrow> xSemaphoreGive x s; Some (x, s) } else Some (x, s))
   }"

definition sys_sem_new ::
    "passes \<Rightarrow> tasks \<Rightarrow> qid \<Rightarrow> u32 \<Rightarrow> xQUEUE \<Rightarrow> (nat \<Rightarrow> u8 list) \<Rightarrow> u8 \<Rightarrow> system \<Rightarrow> (int \<times> qid \<times> system) option" where
  "sys_sem_new irq others q head garbage fill ucCount s = do {
     (pxSemaphore, s) \<leftarrow> vSemaphoreCreateBinary q head garbage fill s;
     (if pxSemaphore \<noteq> 0
      then do {
        s \<leftarrow> (if ucCount = 0 then do { (r, n, s) \<leftarrow> receive_call irq others pxSemaphore 0 1 None s; Some s } else Some s);
        Some (ERR_OK, pxSemaphore, s)
      }
      else Some (ERR_MEM, pxSemaphore, s))
   }"

definition sys_arch_sem_wait :: "passes \<Rightarrow> tasks \<Rightarrow> qid \<Rightarrow> u32 \<Rightarrow> system \<Rightarrow> (u32 \<times> system) option" where
  "sys_arch_sem_wait irq others pxSemaphore ulTimeout s =
     (let xStartTime = xTaskGetTickCount (kern s)
      in if ulTimeout \<noteq> 0
         then do {
           (r, n, s) \<leftarrow> receive_call irq others pxSemaphore 0 (ulTimeout div portTICK_RATE_MS) None s;
           Some (if r \<noteq> None then elapsed_ms xStartTime s else SYS_ARCH_TIMEOUT, s)
         }
         else do {
           (x, s) \<leftarrow> fetch_loop irq others pxSemaphore 0 s;
           let xElapsed = elapsed_ms xStartTime s;
           Some (if xElapsed = 0 then 1 else xElapsed, s)
         })"

definition sys_sem_signal :: "bool \<Rightarrow> qid \<Rightarrow> system \<Rightarrow> system option" where
  "sys_sem_signal xInsideISR pxSemaphore s =
     (if xInsideISR then map_option (\<lambda>(r, woken, s). s) (xQueueGenericSendFromISR pxSemaphore [] queueSEND_TO_BACK s)
      else map_option snd (xSemaphoreGive pxSemaphore s))"

definition sys_sem_free :: "qid \<Rightarrow> system \<Rightarrow> system option" where
  "sys_sem_free pxSemaphore s = vQueueDelete pxSemaphore s"

definition sys_mutex_new :: "qid \<Rightarrow> system \<Rightarrow> (int \<times> qid \<times> system) option" where
  "sys_mutex_new q s = do {
     (pxMutex, s) \<leftarrow> xQueueCreateMutex q s;
     Some (if pxMutex \<noteq> 0 then ERR_OK else ERR_MEM, pxMutex, s)
   }"

definition sys_mutex_lock :: "passes \<Rightarrow> tasks \<Rightarrow> qid \<Rightarrow> system \<Rightarrow> system option" where
  "sys_mutex_lock irq others pxMutex s = do { (x, s) \<leftarrow> fetch_loop irq others pxMutex 0 s; Some s }"

definition sys_mutex_unlock :: "qid \<Rightarrow> system \<Rightarrow> system option" where
  "sys_mutex_unlock pxMutex s = map_option snd (xSemaphoreGive pxMutex s)"

definition sys_mutex_free :: "qid \<Rightarrow> system \<Rightarrow> system option" where
  "sys_mutex_free pxMutex s = vQueueDelete pxMutex s"

section \<open>Time and threads\<close>

definition sys_now :: "system \<Rightarrow> u32" where
  "sys_now s = xTaskGetTickCount (kern s)"

definition sys_thread_new :: "tid \<Rightarrow> u8 list \<Rightarrow> u8 list \<Rightarrow> u32 \<Rightarrow> system \<Rightarrow> (tid \<times> system) option" where
  "sys_thread_new tcb garbage pcName iPriority s = do {
     (xResult, k) \<leftarrow> xTaskGenericCreate tcb garbage pcName iPriority (kern s);
     Some (if xResult then tcb else 0, s\<lparr>kern := k\<rparr>)
   }"

end
