(* ===== verification/Sys_Arch_Properties.thy ===== *)
theory Sys_Arch_Properties
  imports Sys_Arch
begin

text \<open>
  The properties of the lwIP port: critical sections nest, mailboxes are bounded lists of pointers, semaphores start with the count they are given, and
  a thread that waits for a mailbox or a semaphore returns, with the time it waited.
\<close>

section \<open>Critical sections\<close>

text \<open>Interrupts stay off until the last of nested sections is left, which restores the state before the first.\<close>

lemma enter_critical:
  assumes "\<not> sdk_NMIIrqIsOn c" "\<not> level1_int_disabled c" "uxCriticalNesting c = 0"
  shows "(vPortEnterCritical ^^ Suc n) c = c\<lparr>cpu_sr := enabled c, enabled := False, level1_int_disabled := True, uxCriticalNesting := of_nat (Suc n)\<rparr>"
  using assms by (induction n) (simp_all add: vPortEnterCritical_def portDISABLE_INTERRUPTS_def Let_def add.commute)

lemma exit_critical:
  assumes "\<not> sdk_NMIIrqIsOn c" "level1_int_disabled c" "uxCriticalNesting c = of_nat (Suc n)" "Suc n < 2 ^ 32"
  shows "(vPortExitCritical ^^ Suc n) c = c\<lparr>level1_int_disabled := False, enabled := cpu_sr c, uxCriticalNesting := 0\<rparr>"
  using assms
proof (induction n arbitrary: c)
  case 0
  then show ?case by (simp add: vPortExitCritical_def portENABLE_INTERRUPTS_def Let_def)
next
  case (Suc n)
  have "unat (of_nat (Suc n) :: u32) = Suc n" by (rule unat_of_nat_u32) (use Suc.prems(4) in simp)
  then have "of_nat (Suc n) \<noteq> (0 :: u32)" by (metis nat.distinct(1) unat_0)
  then have "vPortExitCritical c = c\<lparr>uxCriticalNesting := of_nat (Suc n)\<rparr>"
    using Suc.prems(3) by (simp add: vPortExitCritical_def Let_def)
  then show ?case using Suc.IH [of "c\<lparr>uxCriticalNesting := of_nat (Suc n)\<rparr>"] Suc.prems
    by (simp add: funpow_Suc_right del: funpow.simps)
qed

lemma protect_nests:
  assumes "\<not> sdk_NMIIrqIsOn c" "\<not> level1_int_disabled c" "uxCriticalNesting c = 0" "Suc n < 2 ^ 32"
  shows "\<not> enabled (((\<lambda>c. snd (sys_arch_protect False c)) ^^ Suc n) c)"
    and "((\<lambda>c. sys_arch_unprotect False 1 c) ^^ Suc n) (((\<lambda>c. snd (sys_arch_protect False c)) ^^ Suc n) c) = c\<lparr>cpu_sr := enabled c\<rparr>"
  using enter_critical [OF assms(1-3), of n]
    exit_critical [of "c\<lparr>cpu_sr := enabled c, enabled := False, level1_int_disabled := True, uxCriticalNesting := of_nat (Suc n)\<rparr>" n] assms
  by (simp_all add: sys_arch_protect_def sys_arch_unprotect_def del: funpow.simps)

section \<open>Mailboxes\<close>

text \<open>A mailbox that holds the pointers \<open>ps\<close>, of at most \<open>cap\<close>.\<close>

definition mailbox :: "qid \<Rightarrow> nat \<Rightarrow> u32 list \<Rightarrow> system \<Rightarrow> bool" where
  "mailbox q cap ps s \<longleftrightarrow> queue_valid q s \<and> queue_contents q s = map word_bytes ps \<and> queue_capacity q s = cap \<and>
     (\<forall>p. queue_accepts q s (Send queueSEND_TO_BACK (word_bytes p)))"

datatype mbox_op = Post bool u32 | Fetch bool

fun mbox_run :: "qid \<Rightarrow> mbox_op list \<Rightarrow> system \<Rightarrow> ((int + u32 option) list \<times> system) option" where
  "mbox_run q [] s = Some ([], s)"
| "mbox_run q (Post isr p # ops) s = do {
     (r, s) \<leftarrow> sys_mbox_trypost isr q p s;
     (rs, s) \<leftarrow> mbox_run q ops s;
     Some (Inl r # rs, s)
   }"
| "mbox_run q (Fetch isr # ops) s = do {
     (r, b, s) \<leftarrow> sys_arch_mbox_tryfetch isr q s;
     (rs, s) \<leftarrow> mbox_run q ops s;
     Some (Inr b # rs, s)
   }"

fun list_run :: "nat \<Rightarrow> mbox_op list \<Rightarrow> u32 list \<Rightarrow> (int + u32 option) list \<times> u32 list" where
  "list_run cap [] ps = ([], ps)"
| "list_run cap (Post isr p # ops) ps =
     (if length ps < cap then (let (rs, qs) = list_run cap ops (ps @ [p]) in (Inl ERR_OK # rs, qs))
      else (let (rs, qs) = list_run cap ops ps in (Inl ERR_MEM # rs, qs)))"
| "list_run cap (Fetch isr # ops) ps =
     (case ps of [] \<Rightarrow> (let (rs, qs) = list_run cap ops [] in (Inr None # rs, qs))
      | p # ps \<Rightarrow> (let (rs, qs) = list_run cap ops ps in (Inr (Some p) # rs, qs)))"

text \<open>One step of the queue, by a task or an interrupt handler, with the view of it as a mailbox.\<close>

definition mbox_step :: "bool \<Rightarrow> qid \<Rightarrow> fifo_op \<Rightarrow> system \<Rightarrow> (fifo_result \<times> system) option" where
  "mbox_step isr q op s = (if isr then isr_step_op q op s else queue_step q op s)"

lemma mbox_refines:
  assumes "queue_valid q s" "queue_accepts q s op"
  obtains s' where "mbox_step isr q op s = Some (fst (fifo_step (queue_capacity q s) op (queue_contents q s)), s')" "queue_valid q s'"
    "queue_contents q s' = snd (fifo_step (queue_capacity q s) op (queue_contents q s))"
    "queue_capacity q s' = queue_capacity q s" "queue_accepts q s' = queue_accepts q s"
  using task_fifo.refines [OF assms] isr_fifo.refines [OF assms] by (cases isr) (auto simp: mbox_step_def)

lemma trypost_step:
  "sys_mbox_trypost isr q p s = map_option (\<lambda>(r, s). (if r = Sent True then ERR_OK else ERR_MEM, s))
     (mbox_step isr q (Send queueSEND_TO_BACK (word_bytes p)) s)"
  by (auto simp: sys_mbox_trypost_def mbox_step_def isr_step_op_def queue_step_def map_option_case
    split: option.splits pass.splits Option.bind_split)

lemma tryfetch_step:
  "sys_arch_mbox_tryfetch isr q s = map_option (\<lambda>(r, s). (case r of Got (Some x) \<Rightarrow> (0, Some (bytes_word x), s) | _ \<Rightarrow> (SYS_ARCH_TIMEOUT, None, s)))
     (mbox_step isr q Receive s)"
  by (auto simp: sys_arch_mbox_tryfetch_def mbox_step_def isr_step_op_def queue_step_def map_option_case
    split: option.splits pass.splits Option.bind_split)

lemma post_mailbox:
  assumes "mailbox q cap ps s"
  obtains s' where "sys_mbox_trypost isr q p s = Some (if length ps < cap then ERR_OK else ERR_MEM, s')"
    "mailbox q cap (if length ps < cap then ps @ [p] else ps) s'"
proof -
  have m: "queue_valid q s" "queue_contents q s = map word_bytes ps" "queue_capacity q s = cap"
    and a: "\<And>p. queue_accepts q s (Send queueSEND_TO_BACK (word_bytes p))" using assms by (auto simp: mailbox_def)
  from mbox_refines [OF m(1) a, of isr p] obtain s' where s':
    "mbox_step isr q (Send queueSEND_TO_BACK (word_bytes p)) s =
      Some (fst (fifo_step cap (Send queueSEND_TO_BACK (word_bytes p)) (map word_bytes ps)), s')" "queue_valid q s'"
    "queue_contents q s' = snd (fifo_step cap (Send queueSEND_TO_BACK (word_bytes p)) (map word_bytes ps))"
    "queue_capacity q s' = cap" "queue_accepts q s' = queue_accepts q s" unfolding m(2,3) .
  have "mailbox q cap (if length ps < cap then ps @ [p] else ps) s'" using s'(2-5) a by (auto simp: mailbox_def)
  then show thesis using that s'(1) by (simp add: trypost_step)
qed

lemma fetch_mailbox:
  assumes "mailbox q cap ps s"
  obtains s' where "sys_arch_mbox_tryfetch isr q s = Some (case ps of [] \<Rightarrow> (SYS_ARCH_TIMEOUT, None, s') | p # _ \<Rightarrow> (0, Some p, s'))"
    "mailbox q cap (tl ps) s'"
proof -
  have m: "queue_valid q s" "queue_contents q s = map word_bytes ps" "queue_capacity q s = cap"
    and a: "\<And>p. queue_accepts q s (Send queueSEND_TO_BACK (word_bytes p))" using assms by (auto simp: mailbox_def)
  have r: "queue_accepts q s Receive" by (simp add: queue_accepts_def)
  from mbox_refines [OF m(1) r, of isr] obtain s' where s':
    "mbox_step isr q Receive s = Some (fst (fifo_step cap Receive (map word_bytes ps)), s')" "queue_valid q s'"
    "queue_contents q s' = snd (fifo_step cap Receive (map word_bytes ps))"
    "queue_capacity q s' = cap" "queue_accepts q s' = queue_accepts q s" unfolding m(2,3) .
  have "mailbox q cap (tl ps) s'" using s'(2-5) a by (cases ps) (auto simp: mailbox_def)
  then show thesis using that s'(1) by (cases ps) (simp_all add: tryfetch_step word_bytes_inverse)
qed

lemma mbox_run_list:
  "mailbox q cap ps s \<Longrightarrow> \<exists>s'. mbox_run q ops s = Some (fst (list_run cap ops ps), s') \<and> mailbox q cap (snd (list_run cap ops ps)) s'"
proof (induction ops arbitrary: ps s)
  case (Cons op ops)
  show ?case
  proof (cases op)
    case (Post isr p)
    obtain s1 where s1: "sys_mbox_trypost isr q p s = Some (if length ps < cap then ERR_OK else ERR_MEM, s1)"
      "mailbox q cap (if length ps < cap then ps @ [p] else ps) s1" using post_mailbox [OF Cons.prems] .
    from Cons.IH [OF s1(2)] show ?thesis using s1(1) Post by (cases "length ps < cap") (auto simp: case_prod_unfold Let_def)
  next
    case (Fetch isr)
    obtain s1 where s1: "sys_arch_mbox_tryfetch isr q s = Some (case ps of [] \<Rightarrow> (SYS_ARCH_TIMEOUT, None, s1) | p # _ \<Rightarrow> (0, Some p, s1))"
      "mailbox q cap (tl ps) s1" using fetch_mailbox [OF Cons.prems] .
    from Cons.IH [OF s1(2)] show ?thesis using s1(1) Fetch by (cases ps) (auto simp: case_prod_unfold Let_def)
  qed
qed simp

lemma mbox_new_empty:
  assumes "sys_ok s" and "queues s q = None" and "q \<noteq> 0" and "head \<noteq> 0"
    and "litems (kern s) (TasksWaitingToSend q) = []" and "litems (kern s) (TasksWaitingToReceive q) = []"
    and "\<And>r R. queues s r = Some R \<Longrightarrow> pcHead R \<noteq> head"
    and "0 < n" and "unat head + unat n * unat (4 :: u32) < 2 ^ 32" and "unat (4 :: u32) \<le> unat head" and "\<And>m. length (fill m) = m"
  obtains s' where "sys_mbox_new q head garbage fill n s = Some (ERR_OK, q, s')" "mailbox q (unat n) [] s'"
proof -
  obtain s' Q where c: "xQueueGenericCreate q head garbage fill n 4 s = Some (q, s')" "sys_ok s'"
    "items_of s' = (items_of s)(q := Some [])" "queues s' = (queues s)(q := Some Q)"
    "pcHead Q = head" "uxLength Q = n" "uxItemSize Q = 4" "unlocked Q"
    using create_effect_queue [OF assms(1-6) _ assms(8-11), of garbage] assms(7) by blast
  then have "mailbox q (unat n) [] s'" using assms(4)
    by (auto simp: mailbox_def queue_valid_def queue_contents_def queue_capacity_def queue_accepts_def word_bytes_def)
  then show thesis using that c(1) assms(3) by (simp add: sys_mbox_new_def)
qed

section \<open>Semaphores\<close>

text \<open>A new semaphore has the count 1, or 0 if that was asked for; the take that sets it to 0 does not wait.\<close>

lemma sem_new_count:
  assumes "sys_ok s" and "queues s q = None" and "q \<noteq> 0" and "head \<noteq> 0"
    and "litems (kern s) (TasksWaitingToSend q) = []" and "litems (kern s) (TasksWaitingToReceive q) = []"
    and "\<And>r R. queues s r = Some R \<Longrightarrow> pcHead R \<noteq> head" and "\<And>m. length (fill m) = m"
  shows "\<exists>s'. sys_sem_new irq others q head garbage fill count s = Some (ERR_OK, q, s') \<and> queue_valid q s' \<and>
    queue_capacity q s' = 1 \<and> queue_contents q s' = (if count = 0 then [] else [[]])"
proof -
  have sz: "0 < (1 :: u32)" "unat head + unat (1 :: u32) * unat (0 :: u32) < 2 ^ 32" "unat (0 :: u32) \<le> unat head"
    using unsigned_less [of head, where ?'a = nat] by simp_all
  obtain s1 Q where c: "xQueueGenericCreate q head garbage fill 1 0 s = Some (q, s1)" "sys_ok s1"
    "items_of s1 = (items_of s)(q := Some [])" "queues s1 = (queues s)(q := Some Q)"
    "pcHead Q = head" "uxLength Q = 1" "uxItemSize Q = 0" "unlocked Q"
    using create_effect_queue [OF assms(1-6) _ sz assms(8), of garbage] assms(7) by blast
  have v: "queue_valid q s1" "queue_contents q s1 = []" "queue_capacity q s1 = 1" "queue_accepts q s1 (Send queueSEND_TO_BACK [])"
    using c assms(4) by (simp_all add: queue_valid_def queue_contents_def queue_capacity_def queue_accepts_def)
  obtain s2 where s2: "queue_step q (Send queueSEND_TO_BACK []) s1 = Some (Sent True, s2)" "queue_valid q s2"
    "queue_contents q s2 = [[]]" "queue_capacity q s2 = 1"
    using task_fifo.refines [OF v(1,4)] v(2,3) by auto
  have b: "vSemaphoreCreateBinary q head garbage fill s = Some (q, s2)"
    using c(1) s2(1) assms(3)
    by (auto simp: vSemaphoreCreateBinary_def xSemaphoreGive_def queue_step_def bind_eq_Some_conv split: pass.splits)
  obtain Q2 where Q2: "queues s2 q = Some Q2" "\<not> is_mutex Q2" "queue_contents q s2 = queue_items s2 Q2" "sys_ok s2"
    using queue_view [OF s2(2)] by metis
  have qi: "queue_items s2 Q2 = [[]]" by (rule trans [OF Q2(3) [symmetric] s2(3)])
  then have "uxMessagesWaiting Q2 > 0" using queue_items_Nil [of s2 Q2] by (simp add: word_gt_0)
  then obtain s3 where s3: "receive_enter q 1 False None s2 = Some (Return (Some []), s3)"
    "queue_changed q Q2 [] (TasksWaitingToSend q) s2 s3"
    using receive_enter_effect(1) [OF Q2(4,1,2), of 1 None] qi by auto
  have r: "receive_call irq others q 0 1 None s2 = Some (Some [], 1, s3)"
    using s3(1) by (subst receive_call.simps) (simp add: xQueueGenericReceive_def)
  note v3 = changed_view [OF s2(2) Q2(1) s3(2)]
  show ?thesis using b r v3(1-3) s2(2-4) assms(3) by (cases "count = 0") (simp_all add: sys_sem_new_def)
qed

section \<open>Waiting\<close>

text \<open>The caller runs: the system is consistent, the queue is not a mutex and the running task is ready.\<close>

definition runnable :: "qid \<Rightarrow> system \<Rightarrow> bool" where
  "runnable q s \<longleftrightarrow> queue_valid q s \<and> uxSchedulerSuspended (kern s) = 0 \<and> running_ready (kern s)"

text \<open>
  The other tasks leave the system consistent and keep the queue, whatever they do, and the caller runs again afterwards; the step \<open>k\<close> leaves
  something in the queue.
\<close>

definition resumes :: "qid \<Rightarrow> tasks \<Rightarrow> bool" where
  "resumes q others \<longleftrightarrow> (\<forall>n s. queue_valid q s \<and> uxSchedulerSuspended (kern s) = 0 \<longrightarrow>
     (\<exists>s'. others n s = Some s' \<and> runnable q s'))"

definition refills :: "qid \<Rightarrow> nat \<Rightarrow> tasks \<Rightarrow> bool" where
  "refills q k others \<longleftrightarrow> (\<forall>s s'. others k s = Some s' \<longrightarrow> queue_contents q s' \<noteq> [])"

text \<open>
  The run of a blocking call. A configuration is the number of the next pass, the local variables and the system; one step is a pass
  that asks for another one, followed by what the other tasks do.
\<close>

type_synonym 'a waiting_pass = "nat \<Rightarrow> portTickType \<Rightarrow> xTimeOutType option \<Rightarrow> system \<Rightarrow> ('a pass \<times> system) option"

type_synonym waiting = "nat \<times> portTickType \<times> xTimeOutType option \<times> system"

inductive waits :: "'a waiting_pass \<Rightarrow> tasks \<Rightarrow> waiting \<Rightarrow> waiting \<Rightarrow> bool" for pass others where
  here: "waits pass others c c"
| later: "waits pass others (n, w, tmo, s) c"
    if "pass n w tmo s = Some (Again t v, s1)" and "others n s1 = Some s2" and "waits pass others (Suc n, v, Some t, s2) c"

definition receive_pass :: "passes \<Rightarrow> qid \<Rightarrow> u8 list option waiting_pass" where
  "receive_pass irq q n w tmo s = xQueueGenericReceive (irq n) q w False tmo s"

definition send_pass :: "passes \<Rightarrow> qid \<Rightarrow> u8 list \<Rightarrow> bool waiting_pass" where
  "send_pass irq q item n w tmo s = xQueueGenericSend (irq n) q item w queueSEND_TO_BACK tmo s"

text \<open>
  The run from \<open>c\<close> comes to a pass that returns \<open>r\<close> in \<open>s'\<close>: the oldest item of the queue as that pass found it, which leaves the others,
  or nothing, and then the pass found the queue empty.
\<close>

definition takes :: "passes \<Rightarrow> tasks \<Rightarrow> qid \<Rightarrow> waiting \<Rightarrow> u8 list option \<Rightarrow> system \<Rightarrow> bool" where
  "takes irq others q c r s' \<longleftrightarrow> (\<exists>m v t s1. waits (receive_pass irq q) others c (m, v, t, s1) \<and> runnable q s1 \<and>
     receive_pass irq q m v t s1 = Some (Done r, s') \<and>
     (case r of None \<Rightarrow> queue_contents q s1 = [] | Some x \<Rightarrow> queue_contents q s1 = x # queue_contents q s'))"

lemma takes_now:
  assumes "runnable q s" and "receive_pass irq q n w tmo s = Some (Done r, s')"
    and "case r of None \<Rightarrow> queue_contents q s = [] | Some x \<Rightarrow> queue_contents q s = x # queue_contents q s'"
  shows "takes irq others q (n, w, tmo, s) r s'"
  unfolding takes_def using assms waits.here by blast

lemma takes_later:
  assumes "receive_pass irq q n w tmo s = Some (Again t v, s1)" and "others n s1 = Some s2"
    and "takes irq others q (Suc n, v, Some t, s2) r s'"
  shows "takes irq others q (n, w, tmo, s) r s'"
  using assms(3) waits.later [where pass = "receive_pass irq q" and others = others, OF assms(1,2)] unfolding takes_def by blast

lemma enter_return:
  "receive_enter q w peek tmo s = Some (Return r, s') \<Longrightarrow> w \<noteq> 0 \<Longrightarrow> r \<noteq> None"
  unfolding receive_enter_def Let_def by (cases "queues s q") (auto simp: bind_eq_Some_conv split: if_splits)

lemma block_forever:
  "receive_block irq q tmo portMAX_DELAY s = Some (r, s') \<Longrightarrow> r = Again tmo portMAX_DELAY"
  unfolding receive_block_def xTaskCheckForTimeOut_def by (auto simp: bind_eq_Some_conv split: if_splits)

lemma receive_forever:
  assumes "xQueueGenericReceive irq q portMAX_DELAY peek tmo s = Some (r, s')"
  shows "r \<noteq> Done None" and "r = Again t w \<Longrightarrow> w = portMAX_DELAY"
proof -
  have m: "portMAX_DELAY \<noteq> 0" by (simp add: portMAX_DELAY_def)
  obtain e s1 where e: "receive_enter q portMAX_DELAY peek tmo s = Some (e, s1)"
    using assms by (auto simp: xQueueGenericReceive_def bind_eq_Some_conv)
  have "r \<noteq> Done None \<and> (r = Again t w \<longrightarrow> w = portMAX_DELAY)"
  proof (cases e)
    case (Return x)
    then show ?thesis using assms e enter_return [of q portMAX_DELAY peek tmo s x s1] m by (auto simp: xQueueGenericReceive_def)
  next
    case (Wait tm)
    then obtain s2 where "receive_block irq q tm portMAX_DELAY s2 = Some (r, s')"
      using assms e by (auto simp: xQueueGenericReceive_def bind_eq_Some_conv)
    then show ?thesis using block_forever by blast
  qed
  then show "r \<noteq> Done None" "r = Again t w \<Longrightarrow> w = portMAX_DELAY" by simp_all
qed

lemma receive_present:
  assumes r: "runnable q s" and x: "queue_contents q s = x # xs"
  obtains s' where "xQueueGenericReceive irq q w False tmo s = Some (Done (Some x), s')" "queue_valid q s'" "queue_contents q s' = xs"
proof -
  have v: "queue_valid q s" using r by (simp add: runnable_def)
  obtain Q where Q: "queues s q = Some Q" "\<not> is_mutex Q" "queue_contents q s = queue_items s Q" "sys_ok s"
    using queue_view [OF v] by metis
  have qi: "queue_items s Q = x # xs" by (rule trans [OF Q(3) [symmetric] x])
  then have "uxMessagesWaiting Q > 0" using queue_items_Nil [of s Q] by (simp add: word_gt_0)
  then obtain s' where s': "receive_enter q w False tmo s = Some (Return (Some x), s')"
    "queue_changed q Q xs (TasksWaitingToSend q) s s'"
    using receive_enter_effect(1) [OF Q(4,1,2), of w tmo] qi by auto
  note v' = changed_view [OF v Q(1) s'(2)]
  show thesis using that s'(1) v'(1,2) by (simp add: xQueueGenericReceive_def)
qed

lemma receive_empty:
  assumes i: "irq_ok irq" and r: "runnable q s" and e: "queue_contents q s = []"
  obtains s' where "xQueueGenericReceive irq q w False tmo s = Some (Done None, s')" "queue_valid q s'"
  | t v s' where "xQueueGenericReceive irq q w False tmo s = Some (Again t v, s')" "queue_valid q s'" "uxSchedulerSuspended (kern s') = 0"
proof -
  have rr: "uxSchedulerSuspended (kern s) = 0" "running_ready (kern s)" "queue_valid q s" using r by (simp_all add: runnable_def)
  obtain Q where Q: "queues s q = Some Q" "\<not> is_mutex Q" "queue_contents q s = queue_items s Q" "sys_ok s"
    using queue_view [OF rr(3)] by metis
  have n: "uxMessagesWaiting Q = 0" using queue_items_Nil [of s Q] Q(3) e by simp
  obtain p s' where p: "xQueueGenericReceive irq q w False tmo s = Some (p, s')" "pass_end (pxCurrentTCB (kern s)) s s'"
    "\<forall>x. p \<noteq> Done (Some x)"
    using receive_pass_effect [OF i Q(4) rr(1,2) Q(1) _ n, of w False tmo] Q(2) by blast
  have s': "sys_ok s'" "uxSchedulerSuspended (kern s') = 0" "shapes s' = shapes s" using p(2) by (simp_all add: pass_end_def)
  obtain Q' where Q': "queues s' q = Some Q'" "shape Q' = shape Q" using shape_queue [OF s'(3) Q(1)] .
  have "queue_valid q s'" using s'(1) Q' Q(2) sys_okD(6) [OF s'(1) Q'(1) s'(2)]
    by (auto simp: queue_valid_def shape_def)
  moreover consider "p = Done None" | t v where "p = Again t v" using p(3) by (metis option.exhaust pass.exhaust)
  ultimately show thesis using that p(1) s'(2) by cases auto
qed

lemma receive_call_returns:
  assumes i: "\<forall>n. irq_ok (irq n)" and o: "resumes q others" "refills q k others" and r: "runnable q s" and n: "n \<le> k \<or> queue_contents q s \<noteq> []"
  shows "\<exists>x m s'. receive_call irq others q n w tmo s = Some (x, m, s') \<and> queue_valid q s' \<and>
    (w = portMAX_DELAY \<longrightarrow> x \<noteq> None) \<and> takes irq others q (n, w, tmo, s) x s'"
  using r n
proof (induction "Suc k - n" arbitrary: n w tmo s rule: less_induct)
  case less
  have ii: "irq_ok (irq n)" using i by simp
  show ?case
  proof (cases "queue_contents q s")
    case (Cons x xs)
    obtain s' where s': "xQueueGenericReceive (irq n) q w False tmo s = Some (Done (Some x), s')" "queue_valid q s'" "queue_contents q s' = xs"
      using receive_present [OF less.prems(1) Cons] .
    then have "takes irq others q (n, w, tmo, s) (Some x) s'" using less.prems(1) Cons by (intro takes_now) (simp_all add: receive_pass_def)
    then show ?thesis using s'(1,2) by (subst receive_call.simps) auto
  next
    case Nil
    then have nk: "n \<le> k" using less.prems(2) by simp
    from ii less.prems(1) Nil show ?thesis
    proof (cases rule: receive_empty [of "irq n" q s w tmo])
      case (1 s')
      have "w \<noteq> portMAX_DELAY" using receive_forever(1) 1(1) by blast
      moreover have "takes irq others q (n, w, tmo, s) None s'" using less.prems(1) Nil 1(1) by (intro takes_now) (simp_all add: receive_pass_def)
      ultimately show ?thesis using 1 by (subst receive_call.simps) simp
    next
      case (2 t v s')
      obtain s2 where s2: "others n s' = Some s2" "runnable q s2" using o(1) 2(2,3) by (auto simp: resumes_def)
      have "Suc n \<le> k \<or> queue_contents q s2 \<noteq> []" using nk o(2) s2(1) by (cases "n = k") (auto simp: refills_def)
      moreover have "Suc k - Suc n < Suc k - n" using nk by simp
      ultimately obtain x m s3 where c: "receive_call irq others q (Suc n) v (Some t) s2 = Some (x, m, s3)" "queue_valid q s3"
        "v = portMAX_DELAY \<longrightarrow> x \<noteq> None" "takes irq others q (Suc n, v, Some t, s2) x s3"
        using less.hyps [of "Suc n" s2 v "Some t"] s2(2) by blast
      have "w = portMAX_DELAY \<longrightarrow> v = portMAX_DELAY" using receive_forever(2) 2(1) by blast
      moreover have "takes irq others q (n, w, tmo, s) x s3" by (rule takes_later [OF _ s2(1) c(4)]) (simp add: receive_pass_def 2(1))
      ultimately show ?thesis using 2(1) s2(1) c(1-3) by (subst receive_call.simps) auto
    qed
  qed
qed

text \<open>The times a wait can return: an even number of milliseconds, or 1, and so never \<open>SYS_ARCH_TIMEOUT\<close>.\<close>

lemma elapsed_no_timeout: "elapsed_ms t s \<noteq> SYS_ARCH_TIMEOUT" "(if elapsed_ms t s = 0 then 1 else elapsed_ms t s) \<noteq> SYS_ARCH_TIMEOUT"
proof -
  have "even (elapsed_ms t s)" by (simp add: elapsed_ms_def portTICK_RATE_MS_def)
  moreover have "odd SYS_ARCH_TIMEOUT" by (simp add: SYS_ARCH_TIMEOUT_def)
  ultimately show e: "elapsed_ms t s \<noteq> SYS_ARCH_TIMEOUT" by metis
  show "(if elapsed_ms t s = 0 then 1 else elapsed_ms t s) \<noteq> SYS_ARCH_TIMEOUT" using e by (simp add: SYS_ARCH_TIMEOUT_def)
qed

lemma fetch_loop_returns:
  assumes "\<forall>n. irq_ok (irq n)" "resumes q others" "refills q k others" "runnable q s"
  obtains x s' where "fetch_loop irq others q 0 s = Some (x, s')" "queue_valid q s'"
    "takes irq others q (0, portMAX_DELAY, None, s) (Some x) s'"
proof -
  obtain x m s' where "receive_call irq others q 0 portMAX_DELAY None s = Some (Some x, m, s')" "queue_valid q s'"
    "takes irq others q (0, portMAX_DELAY, None, s) (Some x) s'"
    using receive_call_returns [OF assms, of 0 portMAX_DELAY None] by auto
  then show thesis using that by (subst (asm) fetch_loop.simps) auto
qed

text \<open>
  The milliseconds that a wait from \<open>s\<close> to \<open>s'\<close> reports, where a wait without a limit reports at least 1, and the ticks that the
  queue call may wait.
\<close>

definition reported_ms :: "u32 \<Rightarrow> system \<Rightarrow> system \<Rightarrow> u32" where
  "reported_ms timeout s s' =
     (let ms = (xTickCount (kern s') - xTickCount (kern s)) * 10 in if timeout = 0 \<and> ms = 0 then 1 else ms)"

definition wait_ticks :: "u32 \<Rightarrow> portTickType" where
  "wait_ticks timeout = (if timeout = 0 then portMAX_DELAY else timeout div 10)"

text \<open>How a wait from \<open>s\<close> that stores \<open>p\<close> and returns \<open>ms\<close> in \<open>s'\<close> ends: with the time-out of the queue call, or with an item.\<close>

definition wait_result :: "passes \<Rightarrow> tasks \<Rightarrow> qid \<Rightarrow> u32 \<Rightarrow> system \<Rightarrow> u32 \<Rightarrow> u8 list option \<Rightarrow> system \<Rightarrow> bool" where
  "wait_result irq others q timeout s ms r s' \<longleftrightarrow> takes irq others q (0, wait_ticks timeout, None, s) r s' \<and>
     (case r of None \<Rightarrow> timeout \<noteq> 0 \<and> ms = SYS_ARCH_TIMEOUT | Some x \<Rightarrow> ms = reported_ms timeout s s' \<and> ms \<noteq> SYS_ARCH_TIMEOUT)"

lemma mbox_fetch_returns:
  assumes "\<forall>n. irq_ok (irq n)" "resumes q others" "refills q k others" "runnable q s"
  shows "\<exists>ms r s'. sys_arch_mbox_fetch irq others q timeout s = Some (ms, case r of None \<Rightarrow> 0 | Some x \<Rightarrow> bytes_word x, s') \<and>
    queue_valid q s' \<and> wait_result irq others q timeout s ms r s'"
proof (cases "timeout = 0")
  case True
  obtain x s' where x: "fetch_loop irq others q 0 s = Some (x, s')" "queue_valid q s'"
    "takes irq others q (0, portMAX_DELAY, None, s) (Some x) s'" using fetch_loop_returns [OF assms] .
  have ms: "(if elapsed_ms (xTickCount (kern s)) s' = 0 then 1 else elapsed_ms (xTickCount (kern s)) s') = reported_ms timeout s s'"
    by (simp add: True reported_ms_def elapsed_ms_def portTICK_RATE_MS_def xTaskGetTickCount_def Let_def)
  have "sys_arch_mbox_fetch irq others q timeout s = Some (reported_ms timeout s s', bytes_word x, s')"
    using x(1) True ms by (simp add: sys_arch_mbox_fetch_def xTaskGetTickCount_def Let_def)
  moreover have "wait_result irq others q timeout s (reported_ms timeout s s') (Some x) s'"
    using x(3) True elapsed_no_timeout(2) [of "xTickCount (kern s)" s'] unfolding ms by (simp add: wait_result_def wait_ticks_def)
  ultimately show ?thesis using x(2) by (intro exI [of _ "reported_ms timeout s s'"] exI [of _ "Some x"] exI [of _ s']) simp
next
  case False
  obtain r m s' where r: "receive_call irq others q 0 (timeout div 10) None s = Some (r, m, s')" "queue_valid q s'"
    "takes irq others q (0, timeout div 10, None, s) r s'"
    using receive_call_returns [OF assms, of 0 "timeout div 10" None] by auto
  have ms: "elapsed_ms (xTickCount (kern s)) s' = reported_ms timeout s s'"
    using False by (simp add: reported_ms_def elapsed_ms_def portTICK_RATE_MS_def xTaskGetTickCount_def Let_def)
  define ms where "ms = (case r of None \<Rightarrow> SYS_ARCH_TIMEOUT | Some x \<Rightarrow> reported_ms timeout s s')"
  have "sys_arch_mbox_fetch irq others q timeout s = Some (ms, case r of None \<Rightarrow> 0 | Some x \<Rightarrow> bytes_word x, s')"
    using r(1) False ms by (cases r) (simp_all add: sys_arch_mbox_fetch_def portTICK_RATE_MS_def xTaskGetTickCount_def Let_def ms_def)
  moreover have "wait_result irq others q timeout s ms r s'"
    using r(3) False elapsed_no_timeout(1) [of "xTickCount (kern s)" s'] unfolding ms
    by (cases r) (simp_all add: wait_result_def wait_ticks_def ms_def)
  ultimately show ?thesis using r(2) by blast
qed

lemma sem_wait_returns:
  assumes "\<forall>n. irq_ok (irq n)" "resumes q others" "refills q k others" "runnable q s"
  shows "\<exists>ms r s'. sys_arch_sem_wait irq others q timeout s = Some (ms, s') \<and> queue_valid q s' \<and>
    wait_result irq others q timeout s ms r s'"
proof -
  have "sys_arch_sem_wait irq others q timeout s = map_option (\<lambda>(ms, p, s'). (ms, s')) (sys_arch_mbox_fetch irq others q timeout s)"
    unfolding sys_arch_sem_wait_def sys_arch_mbox_fetch_def Let_def
    by (auto simp: map_option_case split: option.splits Option.bind_split prod.splits)
  then show ?thesis using mbox_fetch_returns [OF assms, of timeout] by auto
qed

text \<open>Posting waits in the same way, for room in a queue of pointers.\<close>

definition pointer_queue :: "qid \<Rightarrow> system \<Rightarrow> bool" where
  "pointer_queue q s \<longleftrightarrow> (case queues s q of None \<Rightarrow> False | Some Q \<Rightarrow> uxItemSize Q = 4)"

definition resumes_post :: "qid \<Rightarrow> tasks \<Rightarrow> bool" where
  "resumes_post q others \<longleftrightarrow> (\<forall>n s. queue_valid q s \<and> pointer_queue q s \<and> uxSchedulerSuspended (kern s) = 0 \<longrightarrow>
     (\<exists>s'. others n s = Some s' \<and> runnable q s' \<and> pointer_queue q s'))"

definition makes_room :: "qid \<Rightarrow> nat \<Rightarrow> tasks \<Rightarrow> bool" where
  "makes_room q k others \<longleftrightarrow> (\<forall>s s'. others k s = Some s' \<longrightarrow> length (queue_contents q s') < queue_capacity q s')"

text \<open>The run from \<open>c\<close> comes to a pass that puts \<open>p\<close> behind what it finds in the queue.\<close>

definition posts :: "passes \<Rightarrow> tasks \<Rightarrow> qid \<Rightarrow> u32 \<Rightarrow> waiting \<Rightarrow> system \<Rightarrow> bool" where
  "posts irq others q p c s' \<longleftrightarrow> (\<exists>m v t s1. waits (send_pass irq q (word_bytes p)) others c (m, v, t, s1) \<and> runnable q s1 \<and>
     send_pass irq q (word_bytes p) m v t s1 = Some (Done True, s') \<and>
     queue_contents q s' = queue_contents q s1 @ [word_bytes p])"

lemma send_forever:
  assumes "xQueueGenericSend irq q item portMAX_DELAY pos tmo s = Some (r, s')"
  shows "r \<noteq> Done False" and "r = Again t w \<Longrightarrow> w = portMAX_DELAY"
proof -
  have m: "portMAX_DELAY \<noteq> 0" by (simp add: portMAX_DELAY_def)
  obtain e s1 where e: "send_enter q item portMAX_DELAY pos tmo s = Some (e, s1)"
    using assms by (auto simp: xQueueGenericSend_def bind_eq_Some_conv)
  have "r \<noteq> Done False \<and> (r = Again t w \<longrightarrow> w = portMAX_DELAY)"
  proof (cases e)
    case (Return x)
    then have "x" using e m unfolding send_enter_def by (auto simp: bind_eq_Some_conv split: if_splits)
    then show ?thesis using assms e Return by (auto simp: xQueueGenericSend_def)
  next
    case (Wait tm)
    then obtain s2 where "send_block irq q tm portMAX_DELAY s2 = Some (r, s')"
      using assms e by (auto simp: xQueueGenericSend_def bind_eq_Some_conv)
    then have "r = Again tm portMAX_DELAY"
      unfolding send_block_def xTaskCheckForTimeOut_def by (auto simp: bind_eq_Some_conv split: if_splits)
    then show ?thesis by simp
  qed
  then show "r \<noteq> Done False" "r = Again t w \<Longrightarrow> w = portMAX_DELAY" by simp_all
qed

lemma send_pointer:
  assumes i: "irq_ok irq" and r: "runnable q s" and z: "pointer_queue q s"
  obtains s' where "length (queue_contents q s) < queue_capacity q s"
      "xQueueGenericSend irq q (word_bytes p) portMAX_DELAY queueSEND_TO_BACK tmo s = Some (Done True, s')" "queue_valid q s'"
      "queue_contents q s' = queue_contents q s @ [word_bytes p]"
  | t s' where "\<not> length (queue_contents q s) < queue_capacity q s"
      "xQueueGenericSend irq q (word_bytes p) portMAX_DELAY queueSEND_TO_BACK tmo s = Some (Again t portMAX_DELAY, s')"
      "queue_valid q s'" "pointer_queue q s'" "uxSchedulerSuspended (kern s') = 0"
proof -
  have rr: "uxSchedulerSuspended (kern s) = 0" "running_ready (kern s)" "queue_valid q s" using r by (simp_all add: runnable_def)
  obtain Q where Q: "queues s q = Some Q" "\<not> is_mutex Q" "queue_contents q s = queue_items s Q" "queue_capacity q s = qlen Q"
    "length (queue_items s Q) = qcount Q" "sys_ok s" using queue_view [OF rr(3)] by metis
  have sz: "uxItemSize Q = 4" using z Q(1) by (simp add: pointer_queue_def)
  have l: "length (word_bytes p) = 4" by (simp add: word_bytes_def)
  have m: "may_send Q queueSEND_TO_BACK (word_bytes p)" using Q(2) sz l by (simp add: may_send_def)
  have room: "length (queue_contents q s) < queue_capacity q s \<longleftrightarrow> uxMessagesWaiting Q < uxLength Q"
    using Q(3-5) by (simp add: word_less_nat_alt)
  show thesis
  proof (cases "uxMessagesWaiting Q < uxLength Q")
    case True
    then obtain s' where s': "send_enter q (word_bytes p) portMAX_DELAY queueSEND_TO_BACK tmo s = Some (Return True, s')"
      "queue_changed q Q (queue_items s Q @ [word_bytes p]) (TasksWaitingToReceive q) s s'"
      using send_enter_effect [OF Q(6,1) m, of portMAX_DELAY tmo] sz l by auto
    note v = changed_view [OF rr(3) Q(1) s'(2)]
    show thesis using that(1) True room s'(1) v(1,2) Q(3) by (simp add: xQueueGenericSend_def)
  next
    case False
    obtain x s' where x: "xQueueGenericSend irq q (word_bytes p) portMAX_DELAY queueSEND_TO_BACK tmo s = Some (x, s')"
      "pass_end (pxCurrentTCB (kern s)) s s'" "x \<noteq> Done True"
      using send_pass_effect [OF i Q(6) rr(1,2) Q(1) m, of portMAX_DELAY tmo] False by auto
    have s': "sys_ok s'" "uxSchedulerSuspended (kern s') = 0" "shapes s' = shapes s" using x(2) by (simp_all add: pass_end_def)
    obtain Q' where Q': "queues s' q = Some Q'" "shape Q' = shape Q" using shape_queue [OF s'(3) Q(1)] .
    have v: "queue_valid q s'" "pointer_queue q s'" using s'(1) Q' Q(2) sz sys_okD(6) [OF s'(1) Q'(1) s'(2)]
      by (auto simp: queue_valid_def pointer_queue_def shape_def)
    obtain t where "x = Again t portMAX_DELAY"
      using x(3) send_forever [OF x(1)] by (cases x) auto
    then show thesis using that(2) False room x(1) v s'(2) by simp
  qed
qed

lemma send_call_returns:
  assumes i: "\<forall>n. irq_ok (irq n)" and o: "resumes_post q others" "makes_room q k others" and r: "runnable q s" "pointer_queue q s"
    and n: "n \<le> k \<or> length (queue_contents q s) < queue_capacity q s"
  shows "\<exists>m s'. send_call irq others q (word_bytes p) n portMAX_DELAY tmo s = Some (True, m, s') \<and> queue_valid q s' \<and>
    posts irq others q p (n, portMAX_DELAY, tmo, s) s'"
  using r n
proof (induction "Suc k - n" arbitrary: n tmo s rule: less_induct)
  case less
  have ii: "irq_ok (irq n)" using i by simp
  from ii less.prems(1,2) show ?case
  proof (cases rule: send_pointer [of "irq n" q s p tmo])
    case (1 s')
    then have "posts irq others q p (n, portMAX_DELAY, tmo, s) s'"
      unfolding posts_def send_pass_def using less.prems(1) waits.here by blast
    then show ?thesis using 1 by (subst send_call.simps) simp
  next
    case (2 t s')
    then have nk: "n \<le> k" using less.prems(3) by simp
    obtain s2 where s2: "others n s' = Some s2" "runnable q s2" "pointer_queue q s2" using o(1) 2(3-5) by (auto simp: resumes_post_def)
    have "Suc n \<le> k \<or> length (queue_contents q s2) < queue_capacity q s2"
      using nk o(2) s2(1) by (cases "n = k") (auto simp: makes_room_def)
    moreover have "Suc k - Suc n < Suc k - n" using nk by simp
    ultimately obtain m s3 where c: "send_call irq others q (word_bytes p) (Suc n) portMAX_DELAY (Some t) s2 = Some (True, m, s3)"
      "queue_valid q s3" "posts irq others q p (Suc n, portMAX_DELAY, Some t, s2) s3" using less.hyps [of "Suc n" s2 "Some t"] s2(2,3) by blast
    have "send_pass irq q (word_bytes p) n portMAX_DELAY tmo s = Some (Again t portMAX_DELAY, s')" using 2(2) by (simp add: send_pass_def)
    then have "posts irq others q p (n, portMAX_DELAY, tmo, s) s3"
      using c(3) waits.later [where pass = "send_pass irq q (word_bytes p)" and others = others, OF _ s2(1)] unfolding posts_def by blast
    then show ?thesis using 2(2) s2(1) c(1,2) by (subst send_call.simps) simp
  qed
qed

lemma mbox_post_returns:
  assumes "\<forall>n. irq_ok (irq n)" "resumes_post q others" "makes_room q k others" "runnable q s" "pointer_queue q s"
  shows "\<exists>s'. sys_mbox_post irq others q p s = Some s' \<and> queue_valid q s' \<and> posts irq others q p (0, portMAX_DELAY, None, s) s'"
proof -
  obtain m s' where "send_call irq others q (word_bytes p) 0 portMAX_DELAY None s = Some (True, m, s')" "queue_valid q s'"
    "posts irq others q p (0, portMAX_DELAY, None, s) s'"
    using send_call_returns [OF assms, of 0 p None] by auto
  then show ?thesis unfolding sys_mbox_post_def by (subst post_loop.simps) simp
qed

section \<open>Properties of the port\<close>

text \<open>A mailbox for two pointers on the sample kernel, and tasks that post to the sample queue.\<close>

definition sample_mbox :: system where
  "sample_mbox = snd (snd (the (sys_mbox_new 300 3000 sample_garbage (\<lambda>n. replicate n 0) 2 sample_sys0)))"

definition sample_tasks_post :: tasks where
  "sample_tasks_post n s = map_option snd (queue_step 100 (Send queueSEND_TO_BACK [5]) sample_sys)"

lemma sample_mbox_empty: "mailbox 300 2 [] sample_mbox"
proof -
  obtain s' where "sys_mbox_new 300 3000 sample_garbage (\<lambda>n. replicate n 0) 2 sample_sys0 = Some (ERR_OK, 300, s')"
    "mailbox 300 (unat (2 :: u32)) [] s'"
    using mbox_new_empty [OF sample_sys0_ok _ _ _ sample_event_lists, of 300 3000 2 "\<lambda>n. replicate n 0" sample_garbage]
    by (auto simp: sample_sys0_def)
  then show ?thesis by (simp add: sample_mbox_def)
qed

lemma sample_sys_runnable: "runnable 100 sample_sys"
  using sample_valid(1) sample_sys_facts(3,4) by (simp add: runnable_def)

lemma sample_posted:
  obtains s' where "queue_step 100 (Send queueSEND_TO_BACK [5]) sample_sys = Some (Sent True, s')" "runnable 100 s'"
    "queue_contents 100 s' = [[5]]"
proof -
  obtain Q where Q: "queues sample_sys 100 = Some Q" "pcHead Q = 1000" "uxLength Q = 2" "uxItemSize Q = 1"
    "queue_items sample_sys Q = []" "uxMessagesWaiting Q = 0" by (rule sample_sys_queue)
  have m: "may_send Q queueSEND_TO_BACK [5]" using Q by (simp add: may_send_def)
  obtain s' where s': "send_enter 100 [5] 0 queueSEND_TO_BACK None sample_sys = Some (Return True, s')"
    "queue_changed 100 Q (fifo_put queueSEND_TO_BACK (take (qsize Q) [5]) (queue_items sample_sys Q)) (TasksWaitingToReceive 100) sample_sys s'"
    using send_enter_effect [OF sample_sys_facts(1) Q(1) m, of 0 None] Q(3,6) by auto
  have i: "isr_step sample_sys s'" by (rule isr_changed [OF sample_sys_facts(1) Q(1) _ _ s'(2)]) (use Q in simp_all)
  note v = changed_view [OF sample_valid(1) Q(1) s'(2)]
  have "runnable 100 s'" using v(1) isr_stepD(3,5) [OF i] sample_sys_facts(3,4) by (simp add: runnable_def)
  then show thesis using that s'(1) v(2) Q(4,5) by (simp add: queue_step_def xQueueGenericSend_def)
qed

lemma sample_tasks_facts: "resumes 100 sample_tasks_post" "refills 100 0 sample_tasks_post"
  by (rule sample_posted, auto simp: resumes_def refills_def sample_tasks_post_def)+

text \<open>
  C27: A mailbox of lwIP is a bounded list of pointers: for any sequence of \<open>sys_mbox_trypost\<close> and \<open>sys_arch_mbox_tryfetch\<close>, each called by a
  task or by an interrupt handler, a post returns \<open>ERR_OK\<close> while there is room and \<open>ERR_MEM\<close> otherwise, a fetch returns the oldest pointer
  or reports an empty mailbox, and every pointer arrives as it was posted, through the bytes of the queue.
\<close>

lemma mailbox_is_list:
  assumes "mailbox q cap ps s"
  shows "\<exists>s'. mbox_run q ops s = Some (fst (list_run cap ops ps), s') \<and> mailbox q cap (snd (list_run cap ops ps)) s'"
  by (rule mbox_run_list [OF assms])

lemma mailbox_is_list_witness:
  "\<exists>s'. mbox_run 300 [Post False 0xDEADBEEF, Post True 7, Post False 8, Fetch True, Fetch False, Fetch False] sample_mbox =
    Some ([Inl ERR_OK, Inl ERR_OK, Inl ERR_MEM, Inr (Some 0xDEADBEEF), Inr (Some 7), Inr None], s')"
  using mailbox_is_list [OF sample_mbox_empty, of "[Post False 0xDEADBEEF, Post True 7, Post False 8, Fetch True, Fetch False, Fetch False]"]
  by auto

text \<open>
  C26: A thread that waits returns. Assume that interrupts use the interrupt-safe queue calls and the tick at the interruptible points of a pass, that
  the other tasks, between two passes, keep the system consistent, keep the queue and let the caller run again, and that after pass \<open>k\<close> they leave
  something in the queue. Then \<open>sys_arch_mbox_fetch\<close> and \<open>sys_arch_sem_wait\<close> return, and the way there is the run of the queue call from the
  caller's state: passes that ask for another one and the other tasks after each, up to a pass that returns. Either this pass
  takes the oldest item that it finds in the queue and leaves the others; then a fetch stores that item as a pointer, and the
  result is the time between the tick counts of entry and return in milliseconds, at least 1 without a limit, and never
  \<open>SYS_ARCH_TIMEOUT\<close>. Or the wait has a limit, the pass finds the queue empty, the result is \<open>SYS_ARCH_TIMEOUT\<close>, and a fetch stores \<open>NULL\<close>.
\<close>

lemma sys_arch_waits_return:
  assumes "\<forall>n. irq_ok (irq n)" and "resumes q others" and "refills q k others" and "runnable q s"
  shows "(\<exists>ms r s'. sys_arch_mbox_fetch irq others q timeout s = Some (ms, case r of None \<Rightarrow> 0 | Some x \<Rightarrow> bytes_word x, s') \<and>
      queue_valid q s' \<and> wait_result irq others q timeout s ms r s') \<and>
    (\<exists>ms r s'. sys_arch_sem_wait irq others q timeout s = Some (ms, s') \<and> queue_valid q s' \<and>
      wait_result irq others q timeout s ms r s')"
  using mbox_fetch_returns [OF assms] sem_wait_returns [OF assms] by blast

lemma sys_arch_waits_return_witness:
  "\<exists>ms x s'. sys_arch_mbox_fetch (\<lambda>n m. isr_handler [IsrTick]) sample_tasks_post 100 0 sample_sys = Some (ms, bytes_word x, s') \<and>
    ms \<noteq> SYS_ARCH_TIMEOUT \<and>
    takes (\<lambda>n m. isr_handler [IsrTick]) sample_tasks_post 100 (0, portMAX_DELAY, None, sample_sys) (Some x) s'"
proof -
  have i: "\<forall>n. irq_ok ((\<lambda>n m. isr_handler [IsrTick]) n)" using isr_handlers_irq_ok by simp
  show ?thesis using sys_arch_waits_return [OF i sample_tasks_facts sample_sys_runnable, of 0]
    by (auto simp: wait_result_def wait_ticks_def split: option.splits)
qed

end
