(* ===== verification/Coap_Message.thy ===== *)
theory Coap_Message
  imports Prelude
begin

text \<open>
  The CoAP message codec, coap/er-coap-13.c and er-coap-13.h: the parsed message, the option
  header and option value encodings, \<open>coap_serialize_message\<close>, \<open>coap_parse_message\<close> and the
  getters and setters of the REST framework.

  Memory is explicit.  A packet of type \<open>'p coap_packet\<close> has pointers of type \<open>'p\<close>, \<open>None\<close> being
  NULL.  A packet to be serialised has pointers of type \<open>u8 list\<close>, the bytes that can be read from
  the pointer; a parsed packet has pointers of type \<open>nat\<close>, offsets into the received data, a list
  of bytes which the parser changes in place.  A read outside these lists, or a write outside the
  option bitmap of the packet, is the value \<open>None\<close> of the operation.  Widths are those of the
  structure; \<open>size_t\<close> and \<open>unsigned int\<close> locals are naturals with the reduction modulo \<open>2 ^ 32\<close>
  written where it can happen.
\<close>

section \<open>Constants and types\<close>

definition COAP_HEADER_LEN :: nat where "COAP_HEADER_LEN = 4"
definition COAP_ETAG_LEN :: nat where "COAP_ETAG_LEN = 8"
definition COAP_TOKEN_LEN :: nat where "COAP_TOKEN_LEN = 8"
definition COAP_MAX_ACCEPT_NUM :: nat where "COAP_MAX_ACCEPT_NUM = 2"
definition COAP_DEFAULT_MAX_AGE :: u32 where "COAP_DEFAULT_MAX_AGE = 60"

definition COAP_MAX_HEADER_SIZE :: nat where
  "COAP_MAX_HEADER_SIZE = 4 + 3 + 5 + 1 + COAP_ETAG_LEN + 3 + 1 + COAP_TOKEN_LEN + 4 + 30"

definition OPTION_MAP_SIZE :: nat where "OPTION_MAP_SIZE = 8"

datatype coap_message_type = COAP_TYPE_CON | COAP_TYPE_NON | COAP_TYPE_ACK | COAP_TYPE_RST

datatype coap_status =
    NO_ERROR
  | CREATED_2_01 | DELETED_2_02 | VALID_2_03 | CHANGED_2_04 | CONTENT_2_05
  | BAD_REQUEST_4_00 | UNAUTHORIZED_4_01 | BAD_OPTION_4_02 | FORBIDDEN_4_03 | NOT_FOUND_4_04
  | METHOD_NOT_ALLOWED_4_05 | NOT_ACCEPTABLE_4_06 | PRECONDITION_FAILED_4_12
  | REQUEST_ENTITY_TOO_LARGE_4_13 | UNSUPPORTED_MEDIA_TYPE_4_15
  | INTERNAL_SERVER_ERROR_5_00 | NOT_IMPLEMENTED_5_01 | BAD_GATEWAY_5_02
  | SERVICE_UNAVAILABLE_5_03 | GATEWAY_TIMEOUT_5_04 | PROXYING_NOT_SUPPORTED_5_05
  | MEMORY_ALLOCATION_ERROR | PACKET_SERIALIZATION_ERROR | MANUAL_RESPONSE

definition COAP_OPTION_IF_MATCH :: nat where "COAP_OPTION_IF_MATCH = 1"
definition COAP_OPTION_URI_HOST :: nat where "COAP_OPTION_URI_HOST = 3"
definition COAP_OPTION_ETAG :: nat where "COAP_OPTION_ETAG = 4"
definition COAP_OPTION_IF_NONE_MATCH :: nat where "COAP_OPTION_IF_NONE_MATCH = 5"
definition COAP_OPTION_OBSERVE :: nat where "COAP_OPTION_OBSERVE = 6"
definition COAP_OPTION_URI_PORT :: nat where "COAP_OPTION_URI_PORT = 7"
definition COAP_OPTION_LOCATION_PATH :: nat where "COAP_OPTION_LOCATION_PATH = 8"
definition COAP_OPTION_URI_PATH :: nat where "COAP_OPTION_URI_PATH = 11"
definition COAP_OPTION_CONTENT_TYPE :: nat where "COAP_OPTION_CONTENT_TYPE = 12"
definition COAP_OPTION_MAX_AGE :: nat where "COAP_OPTION_MAX_AGE = 14"
definition COAP_OPTION_URI_QUERY :: nat where "COAP_OPTION_URI_QUERY = 15"
definition COAP_OPTION_ACCEPT :: nat where "COAP_OPTION_ACCEPT = 16"
definition COAP_OPTION_TOKEN :: nat where "COAP_OPTION_TOKEN = 19"
definition COAP_OPTION_LOCATION_QUERY :: nat where "COAP_OPTION_LOCATION_QUERY = 20"
definition COAP_OPTION_BLOCK2 :: nat where "COAP_OPTION_BLOCK2 = 23"
definition COAP_OPTION_BLOCK1 :: nat where "COAP_OPTION_BLOCK1 = 27"
definition COAP_OPTION_SIZE :: nat where "COAP_OPTION_SIZE = 28"
definition COAP_OPTION_PROXY_URI :: nat where "COAP_OPTION_PROXY_URI = 35"

lemmas coap_option_defs =
  COAP_OPTION_IF_MATCH_def COAP_OPTION_URI_HOST_def COAP_OPTION_ETAG_def
  COAP_OPTION_IF_NONE_MATCH_def COAP_OPTION_OBSERVE_def COAP_OPTION_URI_PORT_def
  COAP_OPTION_LOCATION_PATH_def COAP_OPTION_URI_PATH_def COAP_OPTION_CONTENT_TYPE_def
  COAP_OPTION_MAX_AGE_def COAP_OPTION_URI_QUERY_def COAP_OPTION_ACCEPT_def
  COAP_OPTION_TOKEN_def COAP_OPTION_LOCATION_QUERY_def COAP_OPTION_BLOCK2_def
  COAP_OPTION_BLOCK1_def COAP_OPTION_SIZE_def COAP_OPTION_PROXY_URI_def

record 'p coap_packet =
  buffer :: "'p option"
  version :: u8
  mtype :: coap_message_type
  code :: u8
  mid :: u16
  options :: "u8 list"
  url :: "'p option"
  url_len :: nat
  content_type :: u32
  max_age :: u32
  proxy_uri_len :: nat
  proxy_uri :: "'p option"
  etag_len :: u8
  etag :: "u8 list"
  uri_host_len :: nat
  uri_host :: "'p option"
  location_path_len :: nat
  location_path :: "'p option"
  uri_port :: u16
  location_query_len :: nat
  location_query :: "'p option"
  uri_path_len :: nat
  uri_path :: "'p option"
  observe :: u16
  token_len :: u8
  token :: "u8 list"
  accept_num :: u8
  accept :: "u16 list"
  if_match_len :: u8
  if_match :: "u8 list"
  block2_num :: u32
  block2_more :: u8
  block2_size :: u16
  block2_offset :: u32
  block1_num :: u32
  block1_more :: u8
  block1_size :: u16
  block1_offset :: u32
  psize :: u32
  uri_query_len :: nat
  uri_query :: "'p option"
  if_none_match :: u8
  payload_len :: u16
  payload :: "'p option"

text \<open>\<open>memset(coap_pkt, 0, sizeof(coap_packet_t))\<close>, which does not depend on the old content.\<close>

definition memset_packet :: "'p coap_packet \<Rightarrow> 'p coap_packet" where
  "memset_packet p = \<lparr> buffer = None, version = 0, mtype = COAP_TYPE_CON, code = 0, mid = 0,
     options = replicate (COAP_OPTION_PROXY_URI div OPTION_MAP_SIZE + 1) 0,
     url = None, url_len = 0, content_type = 0, max_age = 0, proxy_uri_len = 0, proxy_uri = None,
     etag_len = 0, etag = replicate COAP_ETAG_LEN 0, uri_host_len = 0, uri_host = None,
     location_path_len = 0, location_path = None, uri_port = 0, location_query_len = 0,
     location_query = None, uri_path_len = 0, uri_path = None, observe = 0, token_len = 0,
     token = replicate COAP_TOKEN_LEN 0, accept_num = 0, accept = replicate COAP_MAX_ACCEPT_NUM 0,
     if_match_len = 0, if_match = replicate COAP_ETAG_LEN 0, block2_num = 0, block2_more = 0,
     block2_size = 0, block2_offset = 0, block1_num = 0, block1_more = 0, block1_size = 0,
     block1_offset = 0, psize = 0, uri_query_len = 0, uri_query = None, if_none_match = 0,
     payload_len = 0, payload = None \<rparr>"

definition SET_OPTION :: "'p coap_packet \<Rightarrow> nat \<Rightarrow> 'p coap_packet" where
  "SET_OPTION p opt = p\<lparr>options := (options p)[opt div OPTION_MAP_SIZE :=
     options p ! (opt div OPTION_MAP_SIZE) OR push_bit (opt mod OPTION_MAP_SIZE) 1]\<rparr>"

definition IS_OPTION :: "'p coap_packet \<Rightarrow> nat \<Rightarrow> bool" where
  "IS_OPTION p opt \<longleftrightarrow>
     options p ! (opt div OPTION_MAP_SIZE) AND push_bit (opt mod OPTION_MAP_SIZE) 1 \<noteq> 0"

section \<open>Reading and copying bytes\<close>

definition rd :: "'a list \<Rightarrow> nat \<Rightarrow> 'a option" where
  "rd bs i = (if i < length bs then Some (bs ! i) else None)"

definition slice :: "'a list \<Rightarrow> nat \<Rightarrow> nat \<Rightarrow> 'a list option" where
  "slice bs i n = (if i + n \<le> length bs then Some (take n (drop i bs)) else None)"

text \<open>\<open>memcpy\<close> and \<open>memmove\<close> of the bytes \<open>src\<close> to the offset \<open>i\<close> of \<open>bs\<close>.\<close>

definition put :: "'a list \<Rightarrow> nat \<Rightarrow> 'a list \<Rightarrow> 'a list option" where
  "put bs i src = (if i + length src \<le> length bs
     then Some (take i bs @ src @ drop (i + length src) bs) else None)"

definition strlen :: "u8 list \<Rightarrow> nat option" where
  "strlen s = (if 0 \<in> set s then Some (length (takeWhile (\<lambda>c. c \<noteq> 0) s)) else None)"

section \<open>Local help functions\<close>

fun log_2_loop :: "nat \<Rightarrow> u16 \<Rightarrow> u16 \<Rightarrow> u16" where
  "log_2_loop 0 val result = result"
| "log_2_loop (Suc n) val result =
     (let val' = drop_bit 1 val; result' = result + 1
      in if val' \<noteq> 0 then log_2_loop n val' result' else result')"

text \<open>Sixteen rounds empty a 16-bit value.\<close>

definition coap_log_2 :: "u16 \<Rightarrow> u16" where
  "coap_log_2 val = (let result = log_2_loop 16 val 0 in if result \<noteq> 0 then result - 1 else result)"

fun parse_int_loop :: "u8 list \<Rightarrow> nat \<Rightarrow> nat \<Rightarrow> u32 \<Rightarrow> u32 option" where
  "parse_int_loop bs i 0 var = Some var"
| "parse_int_loop bs i (Suc n) var = do {
     b \<leftarrow> rd bs i;
     parse_int_loop bs (i + 1) n (push_bit 8 var OR ucast b) }"

definition coap_parse_int_option :: "u8 list \<Rightarrow> nat \<Rightarrow> nat \<Rightarrow> u32 option" where
  "coap_parse_int_option bs i len = parse_int_loop bs i len 0"

definition coap_option_nibble :: "nat \<Rightarrow> u8" where
  "coap_option_nibble v = (if v < 13 then of_nat v else if v \<le> 0xFF + 13 then 13 else 14)"

definition option_extension :: "nat \<Rightarrow> u8 list" where
  "option_extension x =
     (if x > 268 then [of_nat ((x - 269) div 256), of_nat (x - 269)]
      else if x > 12 then [of_nat (x - 13)] else [])"

definition coap_set_option_header :: "nat \<Rightarrow> nat \<Rightarrow> u8 list" where
  "coap_set_option_header delta len =
     [push_bit 4 (coap_option_nibble delta) OR coap_option_nibble len] @
     option_extension delta @ option_extension len"

text \<open>\<open>number - current_number\<close> on 32-bit unsigned integers.\<close>

definition option_delta :: "nat \<Rightarrow> nat \<Rightarrow> nat" where
  "option_delta number current_number =
     (if current_number \<le> number then number - current_number
      else 2 ^ 32 - (current_number - number))"

definition int_option_bytes :: "u32 \<Rightarrow> u8 list" where
  "int_option_bytes v =
     (if 0xFF000000 AND v \<noteq> 0 then [ucast (drop_bit 24 v)] else []) @
     (if 0xFFFF0000 AND v \<noteq> 0 then [ucast (drop_bit 16 v)] else []) @
     (if 0xFFFFFF00 AND v \<noteq> 0 then [ucast (drop_bit 8 v)] else []) @
     (if 0xFFFFFFFF AND v \<noteq> 0 then [ucast v] else [])"

definition int_option_length :: "u32 \<Rightarrow> nat" where
  "int_option_length v =
     (if 0xFF000000 AND v \<noteq> 0 then 1 else 0) + (if 0xFFFF0000 AND v \<noteq> 0 then 1 else 0) +
     (if 0xFFFFFF00 AND v \<noteq> 0 then 1 else 0) + (if 0xFFFFFFFF AND v \<noteq> 0 then 1 else 0)"

definition coap_serialize_int_option :: "nat \<Rightarrow> nat \<Rightarrow> u32 \<Rightarrow> u8 list" where
  "coap_serialize_int_option number current_number v =
     coap_set_option_header (option_delta number current_number) (int_option_length v) @
     int_option_bytes v"

text \<open>The loop over the parts of a string; \<open>j\<close> skips the character after a splitter.\<close>

function array_loop :: "nat \<Rightarrow> u8 list \<Rightarrow> nat \<Rightarrow> u8 \<Rightarrow> nat \<Rightarrow> nat \<Rightarrow> nat \<Rightarrow> u8 list option" where
  "array_loop number array len split_char current_number part_start j =
     (if j \<le> len then do {
        c \<leftarrow> rd array j;
        if c = split_char \<or> j = len then do {
          part \<leftarrow> slice array part_start (j - part_start);
          rest \<leftarrow> array_loop number array len split_char number (j + 1) (j + 2);
          Some (coap_set_option_header (option_delta number current_number) (j - part_start) @
                part @ rest) }
        else array_loop number array len split_char current_number part_start (j + 1) }
      else Some [])"
  by pat_completeness auto
termination
  by (relation "measure (\<lambda>(number, array, len, split_char, current_number, part_start, j). Suc len - j)") auto

declare array_loop.simps [simp del]

definition coap_serialize_array_option ::
  "nat \<Rightarrow> nat \<Rightarrow> u8 list \<Rightarrow> nat \<Rightarrow> u8 \<Rightarrow> u8 list option" where
  "coap_serialize_array_option number current_number array len split_char =
     (if split_char \<noteq> 0 then array_loop number array len split_char current_number 0 0
      else do {
        bs \<leftarrow> slice array 0 len;
        Some (coap_set_option_header (option_delta number current_number) len @ bs) })"

definition coap_merge_multi_option ::
  "u8 list \<Rightarrow> nat option \<Rightarrow> nat \<Rightarrow> nat \<Rightarrow> nat \<Rightarrow> u8 \<Rightarrow> (u8 list \<times> nat option \<times> nat) option" where
  "coap_merge_multi_option data dst dst_len opt option_len separator =
     (if dst_len > 0 then do {
        d \<leftarrow> dst;
        data1 \<leftarrow> put data (d + dst_len) [separator];
        src \<leftarrow> slice data1 opt option_len;
        data2 \<leftarrow> put data1 (d + (dst_len + 1)) src;
        Some (data2, dst, dst_len + 1 + option_len) }
      else Some (data, Some opt, option_len))"

text \<open>
  \<open>coap_get_variable\<close>: the offset and length of the value of the variable, or \<open>None\<close> as offset.
  The name is a C string without its terminator.
\<close>

definition is_variable_at :: "u8 list \<Rightarrow> u8 list \<Rightarrow> nat \<Rightarrow> bool" where
  "is_variable_at buf name start \<longleftrightarrow>
     (start = 0 \<or> buf ! (start - 1) = 0x26) \<and> buf ! (start + length name) = 0x3D \<and>
     take (length name) (drop start buf) = name"

function get_variable_loop :: "u8 list \<Rightarrow> nat \<Rightarrow> u8 list \<Rightarrow> nat \<Rightarrow> nat option \<times> nat" where
  "get_variable_loop buf len name start =
     (if start + length name < len then
        if is_variable_at buf name start then
          let v = start + length name + 1 in
          (Some v, length (takeWhile (\<lambda>c. c \<noteq> 0x26) (take (len - v) (drop v buf))))
        else get_variable_loop buf len name (start + 1)
      else (None, 0))"
  by pat_completeness auto
termination
  by (relation "measure (\<lambda>(buf, len, name, start). len - start)") auto

declare get_variable_loop.simps [simp del]

definition coap_get_variable :: "u8 list \<Rightarrow> nat \<Rightarrow> u8 list \<Rightarrow> (nat option \<times> nat) option" where
  "coap_get_variable buf len name =
     (if len \<le> length buf then Some (get_variable_loop buf len name 0) else None)"

definition coap_get_mid :: "u16 \<Rightarrow> u16 \<times> u16" where
  "coap_get_mid current_mid = (let m = current_mid + 1 in (m, m))"

section \<open>Serialising\<close>

definition coap_init_message ::
  "'p coap_packet \<Rightarrow> coap_message_type \<Rightarrow> u8 \<Rightarrow> u16 \<Rightarrow> 'p coap_packet" where
  "coap_init_message p t c m = (memset_packet p)\<lparr>mtype := t, code := c, mid := m\<rparr>"

fun type_bits :: "coap_message_type \<Rightarrow> u8" where
  "type_bits COAP_TYPE_CON = 0"
| "type_bits COAP_TYPE_NON = 1"
| "type_bits COAP_TYPE_ACK = 2"
| "type_bits COAP_TYPE_RST = 3"

text \<open>
  The options are written behind one another: the state of the writer is \<open>current_number\<close> and the
  bytes written so far.
\<close>

type_synonym writer = "nat \<times> u8 list"

definition COAP_SERIALIZE_INT_OPTION ::
  "'p coap_packet \<Rightarrow> nat \<Rightarrow> u32 \<Rightarrow> writer \<Rightarrow> writer option" where
  "COAP_SERIALIZE_INT_OPTION p number v w =
     (if IS_OPTION p number
      then Some (number, snd w @ coap_serialize_int_option number (fst w) v) else Some w)"

definition COAP_SERIALIZE_BYTE_OPTION ::
  "'p coap_packet \<Rightarrow> nat \<Rightarrow> u8 list \<Rightarrow> u8 \<Rightarrow> writer \<Rightarrow> writer option" where
  "COAP_SERIALIZE_BYTE_OPTION p number field field_len w =
     (if IS_OPTION p number then do {
        bs \<leftarrow> coap_serialize_array_option number (fst w) field (unat field_len) 0;
        Some (number, snd w @ bs) }
      else Some w)"

definition COAP_SERIALIZE_STRING_OPTION ::
  "u8 list coap_packet \<Rightarrow> nat \<Rightarrow> u8 list option \<Rightarrow> nat \<Rightarrow> u8 \<Rightarrow> writer \<Rightarrow> writer option" where
  "COAP_SERIALIZE_STRING_OPTION p number field field_len splitter w =
     (if IS_OPTION p number then do {
        bs \<leftarrow> coap_serialize_array_option number (fst w)
               (case field of None \<Rightarrow> [] | Some s \<Rightarrow> s) field_len splitter;
        Some (number, snd w @ bs) }
      else Some w)"

fun accept_loop :: "nat \<Rightarrow> u16 list \<Rightarrow> nat \<Rightarrow> nat \<Rightarrow> writer \<Rightarrow> writer option" where
  "accept_loop number acc i 0 w = Some w"
| "accept_loop number acc i (Suc n) w = do {
     v \<leftarrow> rd acc i;
     accept_loop number acc (i + 1) n
       (number, snd w @ coap_serialize_int_option number (fst w) (ucast v)) }"

definition COAP_SERIALIZE_ACCEPT_OPTION :: "'p coap_packet \<Rightarrow> nat \<Rightarrow> writer \<Rightarrow> writer option" where
  "COAP_SERIALIZE_ACCEPT_OPTION p number w =
     (if IS_OPTION p number
      then accept_loop number (accept p) 0 (unat (accept_num p)) w else Some w)"

definition block_value :: "u32 \<Rightarrow> u8 \<Rightarrow> u16 \<Rightarrow> u32" where
  "block_value num mor sz =
     (let block = push_bit 4 num;
          block = (if mor \<noteq> 0 then block OR 0x8 else block)
      in block OR (0xF AND ucast (coap_log_2 (sz div 16))))"

definition COAP_SERIALIZE_BLOCK_OPTION ::
  "'p coap_packet \<Rightarrow> nat \<Rightarrow> u32 \<Rightarrow> u8 \<Rightarrow> u16 \<Rightarrow> writer \<Rightarrow> writer option" where
  "COAP_SERIALIZE_BLOCK_OPTION p number num mor sz w =
     (if IS_OPTION p number
      then Some (number, snd w @ coap_serialize_int_option number (fst w) (block_value num mor sz))
      else Some w)"

definition header_bytes :: "'p coap_packet \<Rightarrow> u8 list" where
  "header_bytes p =
     [(0xC0 AND push_bit 6 (version p)) OR (0x30 AND push_bit 4 (type_bits (mtype p))) OR
        (0x0F AND push_bit 0 (token_len p)),
      code p, ucast (drop_bit 8 (mid p)), ucast (mid p)]"

definition serialize_options :: "u8 list coap_packet \<Rightarrow> writer \<Rightarrow> writer option" where
  "serialize_options p w = do {
     w \<leftarrow> COAP_SERIALIZE_BYTE_OPTION p COAP_OPTION_IF_MATCH (if_match p) (if_match_len p) w;
     w \<leftarrow> COAP_SERIALIZE_STRING_OPTION p COAP_OPTION_URI_HOST (uri_host p) (uri_host_len p) 0 w;
     w \<leftarrow> COAP_SERIALIZE_BYTE_OPTION p COAP_OPTION_ETAG (etag p) (etag_len p) w;
     w \<leftarrow> COAP_SERIALIZE_INT_OPTION p COAP_OPTION_IF_NONE_MATCH (content_type p - content_type p) w;
     w \<leftarrow> COAP_SERIALIZE_INT_OPTION p COAP_OPTION_OBSERVE (ucast (observe p)) w;
     w \<leftarrow> COAP_SERIALIZE_INT_OPTION p COAP_OPTION_URI_PORT (ucast (uri_port p)) w;
     w \<leftarrow> COAP_SERIALIZE_STRING_OPTION p COAP_OPTION_LOCATION_PATH (location_path p) (location_path_len p) 0x2F w;
     w \<leftarrow> COAP_SERIALIZE_STRING_OPTION p COAP_OPTION_URI_PATH (uri_path p) (uri_path_len p) 0x2F w;
     w \<leftarrow> COAP_SERIALIZE_INT_OPTION p COAP_OPTION_CONTENT_TYPE (content_type p) w;
     w \<leftarrow> COAP_SERIALIZE_INT_OPTION p COAP_OPTION_MAX_AGE (max_age p) w;
     w \<leftarrow> COAP_SERIALIZE_STRING_OPTION p COAP_OPTION_URI_QUERY (uri_query p) (uri_query_len p) 0x26 w;
     w \<leftarrow> COAP_SERIALIZE_ACCEPT_OPTION p COAP_OPTION_ACCEPT w;
     w \<leftarrow> COAP_SERIALIZE_STRING_OPTION p COAP_OPTION_LOCATION_QUERY (location_query p) (location_query_len p) 0x26 w;
     w \<leftarrow> COAP_SERIALIZE_BLOCK_OPTION p COAP_OPTION_BLOCK2 (block2_num p) (block2_more p) (block2_size p) w;
     w \<leftarrow> COAP_SERIALIZE_BLOCK_OPTION p COAP_OPTION_BLOCK1 (block1_num p) (block1_more p) (block1_size p) w;
     w \<leftarrow> COAP_SERIALIZE_INT_OPTION p COAP_OPTION_SIZE (psize p) w;
     COAP_SERIALIZE_STRING_OPTION p COAP_OPTION_PROXY_URI (proxy_uri p) (proxy_uri_len p) 0 w }"

text \<open>
  \<open>coap_serialize_message\<close> returns the packet length, the bytes it wrote from the start of the
  buffer on, and the packet; the length 0 is the error.  \<open>coap_free_header\<close> does nothing without
  \<open>OMA_LWM2M\<close>.
\<close>

definition coap_serialize_message ::
  "u8 list coap_packet \<Rightarrow> (nat \<times> u8 list \<times> u8 list coap_packet) option" where
  "coap_serialize_message p = do {
     let p = p\<lparr>version := 1\<rparr>;
     tok \<leftarrow> slice (token p) 0 (unat (token_len p));
     (cur, out) \<leftarrow> serialize_options p (0, header_bytes p @ tok);
     if length out \<le> COAP_MAX_HEADER_SIZE then do {
       let out = (if payload_len p \<noteq> 0 then out @ [0xFF] else out);
       bs \<leftarrow> slice (case payload p of None \<Rightarrow> [] | Some bs \<Rightarrow> bs) 0 (unat (payload_len p));
       let out = out @ bs;
       Some (length out, out, p\<lparr>buffer := Some out\<rparr>) }
     else Some (0, out, p\<lparr>buffer := None\<rparr>) }"

section \<open>Parsing\<close>

text \<open>
  The header of an option at offset \<open>i\<close>: the extension bytes of the delta come before those of the
  length.
\<close>

definition read_extension :: "u8 list \<Rightarrow> nat \<Rightarrow> nat \<Rightarrow> (nat \<times> nat) option" where
  "read_extension data i x =
     (if x = 13 then do { b \<leftarrow> rd data i; Some (x + unat b, i + 1) }
      else if x = 14 then do {
        b1 \<leftarrow> rd data i;
        b2 \<leftarrow> rd data (i + 1);
        Some (x + 255 + unat b1 * 256 + unat b2, i + 2) }
      else Some (x, i))"

definition read_option_header :: "u8 list \<Rightarrow> nat \<Rightarrow> (nat \<times> nat \<times> nat) option" where
  "read_option_header data i = do {
     b \<leftarrow> rd data i;
     let delta = unat (drop_bit 4 b);
     let len = unat (b AND 0x0F);
     (delta, i) \<leftarrow> read_extension data (i + 1) delta;
     (len, i) \<leftarrow> read_extension data i len;
     Some (delta, len, i) }"

definition parse_block :: "u32 \<Rightarrow> u32 \<times> u8 \<times> u16 \<times> u32" where
  "parse_block v =
     (drop_bit 4 v, ucast (drop_bit 3 (v AND 0x08)), push_bit (unat (v AND 0x07)) 16,
      push_bit (unat (v AND 0x07)) (v AND NOT 0x0000000F))"

text \<open>
  The \<open>switch\<close> over the option number.  The result has the status of an early return, if any, the
  packet and the received data.
\<close>

definition parse_option ::
  "nat coap_packet \<Rightarrow> u8 list \<Rightarrow> nat \<Rightarrow> nat \<Rightarrow> nat \<Rightarrow>
     (coap_status option \<times> nat coap_packet \<times> u8 list) option" where
  "parse_option p data number cur len =
     (if number = COAP_OPTION_CONTENT_TYPE then do {
        v \<leftarrow> coap_parse_int_option data cur len;
        Some (None, p\<lparr>content_type := v\<rparr>, data) }
      else if number = COAP_OPTION_MAX_AGE then do {
        v \<leftarrow> coap_parse_int_option data cur len;
        Some (None, p\<lparr>max_age := v\<rparr>, data) }
      else if number = COAP_OPTION_ETAG then do {
        let n = min COAP_ETAG_LEN len;
        bs \<leftarrow> slice data cur n;
        e \<leftarrow> put (etag p) 0 bs;
        Some (None, p\<lparr>etag_len := of_nat n, etag := e\<rparr>, data) }
      else if number = COAP_OPTION_ACCEPT then
        if unat (accept_num p) < COAP_MAX_ACCEPT_NUM then do {
          v \<leftarrow> coap_parse_int_option data cur len;
          Some (None, p\<lparr>accept := (accept p)[unat (accept_num p) := ucast v],
                        accept_num := accept_num p + 1\<rparr>, data) }
        else Some (None, p, data)
      else if number = COAP_OPTION_IF_MATCH then do {
        let n = min COAP_ETAG_LEN len;
        bs \<leftarrow> slice data cur n;
        e \<leftarrow> put (if_match p) 0 bs;
        Some (None, p\<lparr>if_match_len := of_nat n, if_match := e\<rparr>, data) }
      else if number = COAP_OPTION_IF_NONE_MATCH then
        Some (None, p\<lparr>if_none_match := 1\<rparr>, data)
      else if number = COAP_OPTION_URI_HOST then
        Some (None, p\<lparr>uri_host := Some cur, uri_host_len := len\<rparr>, data)
      else if number = COAP_OPTION_URI_PORT then do {
        v \<leftarrow> coap_parse_int_option data cur len;
        Some (None, p\<lparr>uri_port := ucast v\<rparr>, data) }
      else if number = COAP_OPTION_URI_PATH then do {
        (data, d, n) \<leftarrow> coap_merge_multi_option data (uri_path p) (uri_path_len p) cur len 0x2F;
        Some (None, p\<lparr>uri_path := d, uri_path_len := n\<rparr>, data) }
      else if number = COAP_OPTION_URI_QUERY then do {
        (data, d, n) \<leftarrow> coap_merge_multi_option data (uri_query p) (uri_query_len p) cur len 0x26;
        Some (None, p\<lparr>uri_query := d, uri_query_len := n\<rparr>, data) }
      else if number = COAP_OPTION_LOCATION_PATH then do {
        (data, d, n) \<leftarrow> coap_merge_multi_option data (location_path p) (location_path_len p) cur len 0x2F;
        Some (None, p\<lparr>location_path := d, location_path_len := n\<rparr>, data) }
      else if number = COAP_OPTION_LOCATION_QUERY then do {
        (data, d, n) \<leftarrow> coap_merge_multi_option data (location_query p) (location_query_len p) cur len 0x26;
        Some (None, p\<lparr>location_query := d, location_query_len := n\<rparr>, data) }
      else if number = COAP_OPTION_PROXY_URI then
        Some (Some PROXYING_NOT_SUPPORTED_5_05,
              p\<lparr>proxy_uri := Some cur, proxy_uri_len := len\<rparr>, data)
      else if number = COAP_OPTION_OBSERVE then do {
        v \<leftarrow> coap_parse_int_option data cur len;
        Some (None, p\<lparr>observe := ucast v\<rparr>, data) }
      else if number = COAP_OPTION_BLOCK2 then do {
        v \<leftarrow> coap_parse_int_option data cur len;
        let (num, mor, sz, offset) = parse_block v;
        Some (None, p\<lparr>block2_num := num, block2_more := mor, block2_size := sz,
                      block2_offset := offset\<rparr>, data) }
      else if number = COAP_OPTION_BLOCK1 then do {
        v \<leftarrow> coap_parse_int_option data cur len;
        let (num, mor, sz, offset) = parse_block v;
        Some (None, p\<lparr>block1_num := num, block1_more := mor, block1_size := sz,
                      block1_offset := offset\<rparr>, data) }
      else if number = COAP_OPTION_SIZE then do {
        v \<leftarrow> coap_parse_int_option data cur len;
        Some (None, p\<lparr>psize := v\<rparr>, data) }
      else if odd number then Some (Some BAD_OPTION_4_02, p, data)
      else Some (None, p, data))"

lemma read_extension_forward:
  assumes "read_extension data i x = Some (y, k)"
  shows "i \<le> k"
  using assms by (auto simp: read_extension_def split: if_splits bind_splits)

lemma read_option_header_forward:
  assumes "read_option_header data i = Some (delta, len, k)"
  shows "i < k"
  using assms
  by (fastforce simp: read_option_header_def Let_def split: bind_splits prod.splits
      dest: read_extension_forward)

text \<open>
  The loop over the options.  \<open>SET_OPTION\<close> outside the bitmap of the packet is a write outside the
  array; inside it the option number is below 40 and a delta is at most 65804, so that the sum
  does not wrap.
\<close>

function parse_options ::
  "u8 list \<Rightarrow> nat \<Rightarrow> nat \<Rightarrow> nat \<Rightarrow> nat coap_packet \<Rightarrow>
     (coap_status \<times> nat coap_packet \<times> u8 list) option" where
  "parse_options data data_len cur number p =
     (if cur < data_len then
        case rd data cur of
          None \<Rightarrow> None
        | Some b \<Rightarrow>
            if b AND 0xF0 = 0xF0 then
              Some (NO_ERROR, p\<lparr>payload := Some (cur + 1),
                               payload_len := of_nat data_len - of_nat (cur + 1)\<rparr>, data)
            else
              case read_option_header data cur of
                None \<Rightarrow> None
              | Some (delta, len, cur') \<Rightarrow>
                  let number' = number + delta in
                  if number' div OPTION_MAP_SIZE < length (options p) then
                    case parse_option (SET_OPTION p number') data number' cur' len of
                      None \<Rightarrow> None
                    | Some (Some st, p', data') \<Rightarrow> Some (st, p', data')
                    | Some (None, p', data') \<Rightarrow> parse_options data' data_len (cur' + len) number' p'
                  else None
      else Some (NO_ERROR, p, data))"
  by pat_completeness auto
termination
  by (relation "measure (\<lambda>(data, data_len, cur, number, p). data_len - cur)")
    (auto dest: read_option_header_forward)

declare parse_options.simps [simp del]

fun bits_type :: "u8 \<Rightarrow> coap_message_type" where
  "bits_type b = (if b = 0 then COAP_TYPE_CON else if b = 1 then COAP_TYPE_NON
                  else if b = 2 then COAP_TYPE_ACK else COAP_TYPE_RST)"

definition coap_parse_message ::
  "nat coap_packet \<Rightarrow> u8 list \<Rightarrow> u16 \<Rightarrow> (coap_status \<times> nat coap_packet \<times> u8 list) option" where
  "coap_parse_message p data data_len = do {
     b0 \<leftarrow> rd data 0;
     b1 \<leftarrow> rd data 1;
     b2 \<leftarrow> rd data 2;
     b3 \<leftarrow> rd data 3;
     let p = (memset_packet p)\<lparr>buffer := Some 0,
           version := drop_bit 6 (0xC0 AND b0),
           mtype := bits_type (drop_bit 4 (0x30 AND b0)),
           token_len := of_nat (min COAP_TOKEN_LEN (unat (drop_bit 0 (0x0F AND b0)))),
           code := b1,
           mid := push_bit 8 (ucast b2) OR ucast b3\<rparr>;
     if version p \<noteq> 1 then Some (BAD_REQUEST_4_00, p, data)
     else do {
       p \<leftarrow> (if token_len p \<noteq> 0 then do {
              tok \<leftarrow> slice data COAP_HEADER_LEN (unat (token_len p));
              t \<leftarrow> put (token p) 0 tok;
              Some (SET_OPTION (p\<lparr>token := t\<rparr>) COAP_OPTION_TOKEN) }
            else Some p);
       parse_options data (unat data_len) (COAP_HEADER_LEN + unat (token_len p)) 0 p } }"

section \<open>Getters and setters\<close>

text \<open>
  A setter returns the value the C function returns and the packet.  A getter of a value returns
  the return value and the value stored through the output pointer, \<open>None\<close> when none is stored.
\<close>

definition coap_get_query_variable :: "'p coap_packet \<Rightarrow> u8 list \<Rightarrow> nat" where
  "coap_get_query_variable p name = 0"

text \<open>
  The output of \<open>coap_get_variable\<close> is a position in the payload, or \<open>None\<close> for \<open>NULL\<close>; \<open>output\<close> is what the
  output pointer refers to before the call, which stays when the payload is empty.
\<close>

definition coap_get_post_variable ::
  "u8 list coap_packet \<Rightarrow> u8 list \<Rightarrow> nat option \<Rightarrow> (nat option \<times> nat) option" where
  "coap_get_post_variable p name output =
     (if payload_len p \<noteq> 0 then do {
        bs \<leftarrow> payload p;
        coap_get_variable bs (unat (payload_len p)) name }
      else Some (output, 0))"

definition coap_set_status_code :: "'p coap_packet \<Rightarrow> u32 \<Rightarrow> nat \<times> 'p coap_packet" where
  "coap_set_status_code p c = (if c \<le> 0xFF then (1, p\<lparr>code := ucast c\<rparr>) else (0, p))"

definition coap_get_header_content_type :: "'p coap_packet \<Rightarrow> u32" where
  "coap_get_header_content_type p =
     (if \<not> IS_OPTION p COAP_OPTION_CONTENT_TYPE then - 1 else content_type p)"

definition coap_set_header_content_type :: "'p coap_packet \<Rightarrow> u32 \<Rightarrow> nat \<times> 'p coap_packet" where
  "coap_set_header_content_type p v =
     (1, SET_OPTION (p\<lparr>content_type := v\<rparr>) COAP_OPTION_CONTENT_TYPE)"

definition coap_get_header_accept :: "'p coap_packet \<Rightarrow> nat \<times> u16 list option" where
  "coap_get_header_accept p =
     (if \<not> IS_OPTION p COAP_OPTION_ACCEPT then (0, None)
      else (unat (accept_num p), Some (accept p)))"

definition coap_set_header_accept :: "'p coap_packet \<Rightarrow> u16 \<Rightarrow> nat \<times> 'p coap_packet" where
  "coap_set_header_accept p a =
     (let p = (if unat (accept_num p) < COAP_MAX_ACCEPT_NUM
               then SET_OPTION (p\<lparr>accept := (accept p)[unat (accept_num p) := a],
                                  accept_num := accept_num p + 1\<rparr>) COAP_OPTION_ACCEPT
               else p)
      in (unat (accept_num p), p))"

definition coap_get_header_max_age :: "'p coap_packet \<Rightarrow> nat \<times> u32" where
  "coap_get_header_max_age p =
     (1, if \<not> IS_OPTION p COAP_OPTION_MAX_AGE then COAP_DEFAULT_MAX_AGE else max_age p)"

definition coap_set_header_max_age :: "'p coap_packet \<Rightarrow> u32 \<Rightarrow> nat \<times> 'p coap_packet" where
  "coap_set_header_max_age p age = (1, SET_OPTION (p\<lparr>max_age := age\<rparr>) COAP_OPTION_MAX_AGE)"

definition coap_get_header_etag :: "'p coap_packet \<Rightarrow> nat \<times> u8 list option" where
  "coap_get_header_etag p =
     (if \<not> IS_OPTION p COAP_OPTION_ETAG then (0, None) else (unat (etag_len p), Some (etag p)))"

text \<open>\<open>memcpy\<close> of the first bytes of \<open>src\<close> into an array of the packet.\<close>

definition copy_bytes :: "u8 list \<Rightarrow> u8 list \<Rightarrow> nat \<Rightarrow> u8 list option" where
  "copy_bytes array src n = do { bs \<leftarrow> slice src 0 n; put array 0 bs }"

definition coap_set_header_etag ::
  "'p coap_packet \<Rightarrow> u8 list \<Rightarrow> nat \<Rightarrow> (nat \<times> 'p coap_packet) option" where
  "coap_set_header_etag p e len = do {
     let n = min COAP_ETAG_LEN len;
     bs \<leftarrow> copy_bytes (etag p) e n;
     Some (n, SET_OPTION (p\<lparr>etag_len := of_nat n, etag := bs\<rparr>) COAP_OPTION_ETAG) }"

definition coap_get_header_if_match :: "'p coap_packet \<Rightarrow> nat \<times> u8 list option" where
  "coap_get_header_if_match p =
     (if \<not> IS_OPTION p COAP_OPTION_IF_MATCH then (0, None)
      else (unat (if_match_len p), Some (if_match p)))"

definition coap_set_header_if_match ::
  "'p coap_packet \<Rightarrow> u8 list \<Rightarrow> nat \<Rightarrow> (nat \<times> 'p coap_packet) option" where
  "coap_set_header_if_match p e len = do {
     let n = min COAP_ETAG_LEN len;
     bs \<leftarrow> copy_bytes (if_match p) e n;
     Some (n, SET_OPTION (p\<lparr>if_match_len := of_nat n, if_match := bs\<rparr>) COAP_OPTION_IF_MATCH) }"

definition coap_get_header_if_none_match :: "'p coap_packet \<Rightarrow> nat" where
  "coap_get_header_if_none_match p = (if IS_OPTION p COAP_OPTION_IF_NONE_MATCH then 1 else 0)"

definition coap_set_header_if_none_match :: "'p coap_packet \<Rightarrow> nat \<times> 'p coap_packet" where
  "coap_set_header_if_none_match p = (1, SET_OPTION p COAP_OPTION_IF_NONE_MATCH)"

definition coap_get_header_token :: "'p coap_packet \<Rightarrow> nat \<times> u8 list option" where
  "coap_get_header_token p =
     (if \<not> IS_OPTION p COAP_OPTION_TOKEN then (0, None) else (unat (token_len p), Some (token p)))"

definition coap_set_header_token ::
  "'p coap_packet \<Rightarrow> u8 list \<Rightarrow> nat \<Rightarrow> (nat \<times> 'p coap_packet) option" where
  "coap_set_header_token p t len = do {
     let n = min COAP_TOKEN_LEN len;
     bs \<leftarrow> copy_bytes (token p) t n;
     Some (n, SET_OPTION (p\<lparr>token_len := of_nat n, token := bs\<rparr>) COAP_OPTION_TOKEN) }"

definition coap_get_header_proxy_uri :: "'p coap_packet \<Rightarrow> nat \<times> 'p option" where
  "coap_get_header_proxy_uri p =
     (if \<not> IS_OPTION p COAP_OPTION_PROXY_URI then (0, None) else (proxy_uri_len p, proxy_uri p))"

definition coap_set_header_proxy_uri ::
  "u8 list coap_packet \<Rightarrow> u8 list \<Rightarrow> (nat \<times> u8 list coap_packet) option" where
  "coap_set_header_proxy_uri p uri = do {
     n \<leftarrow> strlen uri;
     Some (n, SET_OPTION (p\<lparr>proxy_uri := Some uri, proxy_uri_len := n\<rparr>) COAP_OPTION_PROXY_URI) }"

definition coap_get_header_uri_host :: "'p coap_packet \<Rightarrow> nat \<times> 'p option" where
  "coap_get_header_uri_host p =
     (if \<not> IS_OPTION p COAP_OPTION_URI_HOST then (0, None) else (uri_host_len p, uri_host p))"

definition coap_set_header_uri_host ::
  "u8 list coap_packet \<Rightarrow> u8 list \<Rightarrow> (nat \<times> u8 list coap_packet) option" where
  "coap_set_header_uri_host p host = do {
     n \<leftarrow> strlen host;
     Some (n, SET_OPTION (p\<lparr>uri_host := Some host, uri_host_len := n\<rparr>) COAP_OPTION_URI_HOST) }"

definition coap_get_header_uri_path :: "'p coap_packet \<Rightarrow> nat \<times> 'p option" where
  "coap_get_header_uri_path p =
     (if \<not> IS_OPTION p COAP_OPTION_URI_PATH then (0, None) else (uri_path_len p, uri_path p))"

definition coap_set_header_uri_path ::
  "u8 list coap_packet \<Rightarrow> u8 list \<Rightarrow> (nat \<times> u8 list coap_packet) option" where
  "coap_set_header_uri_path p path = do {
     let path = dropWhile (\<lambda>c. c = 0x2F) path;
     n \<leftarrow> strlen path;
     Some (n, SET_OPTION (p\<lparr>uri_path := Some path, uri_path_len := n\<rparr>) COAP_OPTION_URI_PATH) }"

definition coap_get_header_uri_query :: "'p coap_packet \<Rightarrow> nat \<times> 'p option" where
  "coap_get_header_uri_query p =
     (if \<not> IS_OPTION p COAP_OPTION_URI_QUERY then (0, None) else (0, None))"

text \<open>
  The loop of the Uri-Query and Location-Path setters over the segments of a C string: without
  \<open>OMA_LWM2M\<close> it only counts the characters.
\<close>

function segment_loop :: "u8 \<Rightarrow> u8 list \<Rightarrow> nat \<Rightarrow> nat option" where
  "segment_loop sep str len =
     (let i = length (takeWhile (\<lambda>c. c \<noteq> 0 \<and> c \<noteq> sep) str) in
      if i < length str then
        let i' = (if str ! i = sep then i + 1 else i);
            str' = drop i' str
        in case str' of
             [] \<Rightarrow> None
           | c # _ \<Rightarrow> if c \<noteq> 0 then segment_loop sep str' (len + i') else Some (len + i')
      else None)"
  by pat_completeness auto
termination
proof (relation "measure (\<lambda>(sep, str, len). length str)", goal_cases)
  case (2 sep str len x xa xb c xs)
  have "xa \<noteq> 0"
  proof
    assume "xa = 0"
    then have "x = 0" "str ! x \<noteq> sep" using 2 by (auto split: if_splits)
    then show False using 2 \<open>xa = 0\<close> by (cases str) (auto split: if_splits)
  qed
  then show ?case using 2 by simp
qed simp

declare segment_loop.simps [simp del]

definition coap_set_header_uri_query ::
  "'p coap_packet \<Rightarrow> u8 list \<Rightarrow> (nat \<times> 'p coap_packet) option" where
  "coap_set_header_uri_query p query = do {
     c \<leftarrow> rd query 0;
     n \<leftarrow> segment_loop 0x26 (if c = 0x3F then drop 1 query else query) 0;
     Some (n, SET_OPTION p COAP_OPTION_URI_QUERY) }"

definition coap_get_header_location_path :: "'p coap_packet \<Rightarrow> nat \<times> 'p option" where
  "coap_get_header_location_path p =
     (if \<not> IS_OPTION p COAP_OPTION_LOCATION_PATH then (0, None) else (0, None))"

definition coap_set_header_location_path ::
  "'p coap_packet \<Rightarrow> u8 list \<Rightarrow> (nat \<times> 'p coap_packet) option" where
  "coap_set_header_location_path p path = do {
     c \<leftarrow> rd path 0;
     n \<leftarrow> segment_loop 0x2F (if c = 0x2F then drop 1 path else path) 0;
     Some (n, SET_OPTION p COAP_OPTION_LOCATION_PATH) }"

definition coap_get_header_location_query :: "'p coap_packet \<Rightarrow> nat \<times> 'p option" where
  "coap_get_header_location_query p =
     (if \<not> IS_OPTION p COAP_OPTION_LOCATION_QUERY then (0, None)
      else (location_query_len p, location_query p))"

definition coap_set_header_location_query ::
  "u8 list coap_packet \<Rightarrow> u8 list \<Rightarrow> (nat \<times> u8 list coap_packet) option" where
  "coap_set_header_location_query p query = do {
     let query = dropWhile (\<lambda>c. c = 0x3F) query;
     n \<leftarrow> strlen query;
     Some (n, SET_OPTION (p\<lparr>location_query := Some query, location_query_len := n\<rparr>)
                COAP_OPTION_LOCATION_QUERY) }"

definition coap_get_header_observe :: "'p coap_packet \<Rightarrow> nat \<times> u32 option" where
  "coap_get_header_observe p =
     (if \<not> IS_OPTION p COAP_OPTION_OBSERVE then (0, None) else (1, Some (ucast (observe p))))"

definition coap_set_header_observe :: "'p coap_packet \<Rightarrow> u32 \<Rightarrow> nat \<times> 'p coap_packet" where
  "coap_set_header_observe p v =
     (1, SET_OPTION (p\<lparr>observe := ucast (0x00FFFFFF AND v)\<rparr>) COAP_OPTION_OBSERVE)"

definition coap_get_header_block2 ::
  "'p coap_packet \<Rightarrow> nat \<times> (u32 \<times> u8 \<times> u16 \<times> u32) option" where
  "coap_get_header_block2 p =
     (if \<not> IS_OPTION p COAP_OPTION_BLOCK2 then (0, None)
      else (1, Some (block2_num p, block2_more p, block2_size p, block2_offset p)))"

definition coap_set_header_block2 ::
  "'p coap_packet \<Rightarrow> u32 \<Rightarrow> u8 \<Rightarrow> u16 \<Rightarrow> nat \<times> 'p coap_packet" where
  "coap_set_header_block2 p num mor sz =
     (if sz < 16 then (0, p) else if sz > 2048 then (0, p) else if num > 0x0FFFFF then (0, p)
      else (1, SET_OPTION (p\<lparr>block2_num := num, block2_more := (if mor \<noteq> 0 then 1 else 0),
                             block2_size := sz\<rparr>) COAP_OPTION_BLOCK2))"

definition coap_get_header_block1 ::
  "'p coap_packet \<Rightarrow> nat \<times> (u32 \<times> u8 \<times> u16 \<times> u32) option" where
  "coap_get_header_block1 p =
     (if \<not> IS_OPTION p COAP_OPTION_BLOCK1 then (0, None)
      else (1, Some (block1_num p, block1_more p, block1_size p, block1_offset p)))"

definition coap_set_header_block1 ::
  "'p coap_packet \<Rightarrow> u32 \<Rightarrow> u8 \<Rightarrow> u16 \<Rightarrow> nat \<times> 'p coap_packet" where
  "coap_set_header_block1 p num mor sz =
     (if sz < 16 then (0, p) else if sz > 2048 then (0, p) else if num > 0x0FFFFF then (0, p)
      else (1, SET_OPTION (p\<lparr>block1_num := num, block1_more := mor, block1_size := sz\<rparr>)
             COAP_OPTION_BLOCK1))"

definition coap_get_header_size :: "'p coap_packet \<Rightarrow> nat \<times> u32 option" where
  "coap_get_header_size p =
     (if \<not> IS_OPTION p COAP_OPTION_SIZE then (0, None) else (1, Some (psize p)))"

definition coap_set_header_size :: "'p coap_packet \<Rightarrow> u32 \<Rightarrow> nat \<times> 'p coap_packet" where
  "coap_set_header_size p v = (1, SET_OPTION (p\<lparr>psize := v\<rparr>) COAP_OPTION_SIZE)"

definition coap_get_payload :: "'p coap_packet \<Rightarrow> u16 \<times> 'p option" where
  "coap_get_payload p =
     (case payload p of Some bs \<Rightarrow> (payload_len p, Some bs) | None \<Rightarrow> (0, None))"

definition coap_set_payload :: "'p coap_packet \<Rightarrow> 'p option \<Rightarrow> nat \<Rightarrow> u16 \<times> 'p coap_packet" where
  "coap_set_payload p bs len =
     (let p = p\<lparr>payload := bs, payload_len := of_nat len\<rparr> in (payload_len p, p))"

end
