(* ===== verification/Coap_Codec.thy ===== *)
theory Coap_Codec
  imports Coap_Message
begin

text \<open>
  Lemmas on the encodings of coap/er-coap-13.c: bytes read at an offset, option values, option
  headers, and the option bitmap of a packet.
\<close>

section \<open>Bytes at an offset\<close>

lemma rd_append [simp]: "rd (xs @ ys) (length xs + i) = rd ys i" "rd (xs @ ys) (length xs) = rd ys 0"
  by (simp_all add: rd_def nth_append)

lemma rd_Cons [simp]: "rd (x # xs) 0 = Some x" "rd (x # xs) (Suc i) = rd xs i"
  by (simp_all add: rd_def)

lemma slice_append [simp]:
  "slice (xs @ ys) (length xs + i) n = slice ys i n"
  "slice (xs @ ys) (length xs) n = slice ys 0 n"
  by (simp_all add: slice_def)

lemma slice_prefix [simp]: "slice (xs @ ys) 0 (length xs) = Some xs"
  by (simp add: slice_def)

lemma slice_0_take: "n \<le> length xs \<Longrightarrow> slice xs 0 n = Some (take n xs)"
  by (simp add: slice_def)

lemma slice_SomeD: "slice xs i n = Some ys \<Longrightarrow> i + n \<le> length xs \<and> ys = take n (drop i xs) \<and> length ys = n"
  by (auto simp: slice_def split: if_splits)

lemma put_SomeD:
  "put xs i src = Some ys \<Longrightarrow> i + length src \<le> length xs \<and> ys = take i xs @ src @ drop (i + length src) xs \<and>
     length ys = length xs"
  by (auto simp: put_def split: if_splits)

section \<open>Option values\<close>

lemma parse_int_loop_bytes:
  "parse_int_loop (pre @ bs @ post) (length pre) (length bs) var =
     Some (foldl (\<lambda>v b. push_bit 8 v OR ucast b) var bs)"
proof (induction bs arbitrary: pre var)
  case Nil
  then show ?case by simp
next
  case (Cons b bs)
  show ?case using Cons [of "pre @ [b]" "push_bit 8 var OR ucast b"] by simp
qed

lemma coap_parse_int_option_bytes:
  "coap_parse_int_option (pre @ bs @ post) (length pre) (length bs) =
     Some (foldl (\<lambda>v b. push_bit 8 v OR ucast b) 0 bs)"
  by (simp add: coap_parse_int_option_def parse_int_loop_bytes)

lemma mask_bits:
  "(0xFF000000::u32) = push_bit 24 (mask 8)" "(0xFFFF0000::u32) = push_bit 16 (mask 16)"
  "(0xFFFFFF00::u32) = push_bit 8 (mask 24)" "(0xFFFFFFFF::u32) = mask 32"
  by (simp_all add: mask_eq_exp_minus_1)

lemma masked_zero:
  fixes v :: u32
  shows "0xFF000000 AND v = 0 \<longleftrightarrow> drop_bit 24 v = 0"
    and "0xFFFF0000 AND v = 0 \<longleftrightarrow> drop_bit 16 v = 0"
    and "0xFFFFFF00 AND v = 0 \<longleftrightarrow> drop_bit 8 v = 0"
    and "0xFFFFFFFF AND v = 0 \<longleftrightarrow> v = 0"
proof -
  have "push_bit n (mask (32 - n)) AND v = 0 \<longleftrightarrow> drop_bit n v = 0" if "n < 32" for n
  proof -
    have "push_bit n (mask (32 - n)) AND v = push_bit n (drop_bit n v)"
      by (rule bit_word_eqI) (use that in \<open>auto simp: bit_simps\<close>)
    moreover have "drop_bit n (push_bit n (drop_bit n v)) = drop_bit n v"
      by (rule bit_word_eqI) (auto simp: bit_simps dest: bit_imp_le_length)
    ultimately show ?thesis by (metis drop_bit_of_0 push_bit_of_0)
  qed
  from this [of 24] this [of 16] this [of 8] this [of 0] show
    "0xFF000000 AND v = 0 \<longleftrightarrow> drop_bit 24 v = 0"
    "0xFFFF0000 AND v = 0 \<longleftrightarrow> drop_bit 16 v = 0"
    "0xFFFFFF00 AND v = 0 \<longleftrightarrow> drop_bit 8 v = 0"
    "0xFFFFFFFF AND v = 0 \<longleftrightarrow> v = 0"
    by (simp_all add: mask_bits)
qed

lemma int_option_length: "int_option_length v = length (int_option_bytes v)"
  by (simp add: int_option_length_def int_option_bytes_def)

lemma drop_bit_zero_mono:
  fixes v :: u32
  assumes "drop_bit m v = 0" "m \<le> n"
  shows "drop_bit n v = 0"
proof -
  have "drop_bit n v = drop_bit (n - m) (drop_bit m v)" using assms(2) by simp
  then show ?thesis using assms(1) by simp
qed

lemma bits_above_zero:
  fixes v :: u32
  assumes "drop_bit m v = 0" "m \<le> n"
  shows "\<not> bit v n"
proof -
  have "bit v n \<longleftrightarrow> bit (drop_bit m v) (n - m)" using assms(2) by (simp add: bit_drop_bit_eq)
  then show ?thesis using assms(1) by simp
qed

lemma byte_lanes:
  fixes n :: nat
  shows "n < 8 \<or> (8 \<le> n \<and> n - 8 < 8) \<or> (8 \<le> n \<and> 16 \<le> n \<and> n - 16 < 8 \<and> n - 8 - 8 = n - 16) \<or> 24 \<le> n"
  by auto

lemma int_option_value:
  "foldl (\<lambda>v b. push_bit 8 v OR ucast b) 0 (int_option_bytes v) = v"
proof -
  let ?z = "\<lambda>n. drop_bit n v = 0"
  consider "\<not> ?z 24" "\<not> ?z 16" "\<not> ?z 8" "v \<noteq> 0" | "?z 24" "\<not> ?z 16" "\<not> ?z 8" "v \<noteq> 0"
    | "?z 24" "?z 16" "\<not> ?z 8" "v \<noteq> 0" | "?z 24" "?z 16" "?z 8" "v \<noteq> 0" | "v = 0"
    using drop_bit_zero_mono [of 16 v 24] drop_bit_zero_mono [of 8 v 16] by auto
  then show ?thesis
  proof cases
    case 1
    then show ?thesis
      by (simp add: int_option_bytes_def masked_zero)
        (rule bit_word_eqI, use byte_lanes in \<open>fastforce simp: bit_simps\<close>)
  next
    case 2
    then show ?thesis
      by (simp add: int_option_bytes_def masked_zero)
        (rule bit_word_eqI, use byte_lanes in \<open>fastforce simp: bit_simps dest: bits_above_zero\<close>)
  next
    case 3
    then show ?thesis
      by (simp add: int_option_bytes_def masked_zero)
        (rule bit_word_eqI, use byte_lanes in \<open>fastforce simp: bit_simps dest: bits_above_zero\<close>)
  next
    case 4
    then show ?thesis
      by (simp add: int_option_bytes_def masked_zero)
        (rule bit_word_eqI, use byte_lanes in \<open>fastforce simp: bit_simps dest: bits_above_zero\<close>)
  next
    case 5
    then show ?thesis by (simp add: int_option_bytes_def)
  qed
qed

section \<open>Option headers\<close>

lemma unat_of_nat_u8: "n < 256 \<Longrightarrow> unat (of_nat n :: u8) = n"
  by (simp add: unat_of_nat take_bit_nat_eq_self)

lemma small_bits:
  fixes a :: u8
  assumes "a < 16" "4 \<le> n"
  shows "\<not> bit a n"
proof -
  have "unat a < 2 ^ 4" using assms(1) by (simp add: word_less_nat_alt)
  then have "take_bit 4 (unat a) = unat a" by (simp add: take_bit_nat_eq_self)
  then have "\<not> bit (unat a) n" using assms(2) by (metis bit_take_bit_iff not_le)
  then show ?thesis by (simp add: bit_simps)
qed

lemma nibble_fields:
  fixes a b :: u8
  assumes "a < 16" "b < 16"
  shows "drop_bit 4 (push_bit 4 a OR b) = a" and "(push_bit 4 a OR b) AND 0x0F = b"
    and "(push_bit 4 a OR b) AND 0xF0 = push_bit 4 a"
proof -
  have m: "(0x0F::u8) = mask 4" "(0xF0::u8) = push_bit 4 (mask 4)"
    by (simp_all add: mask_eq_exp_minus_1)
  show "drop_bit 4 (push_bit 4 a OR b) = a"
    by (rule bit_word_eqI) (use assms small_bits [of a] small_bits [of b] in \<open>auto simp: bit_simps not_le [symmetric]\<close>)
  show "(push_bit 4 a OR b) AND 0x0F = b"
    unfolding m
    by (rule bit_word_eqI) (use assms small_bits [of a] small_bits [of b] in \<open>auto simp: bit_simps not_le [symmetric]\<close>)
  show "(push_bit 4 a OR b) AND 0xF0 = push_bit 4 a"
    unfolding m
    by (rule bit_word_eqI) (use assms small_bits [of a] small_bits [of b] in \<open>auto simp: bit_simps not_le [symmetric]\<close>)
qed

lemma option_nibble:
  "unat (coap_option_nibble v) = (if v < 13 then v else if v \<le> 268 then 13 else 14)"
  "coap_option_nibble v < 15" "coap_option_nibble v < 16"
proof -
  show *: "unat (coap_option_nibble v) = (if v < 13 then v else if v \<le> 268 then 13 else 14)"
    by (simp add: coap_option_nibble_def unat_of_nat take_bit_nat_eq_self)
  then show "coap_option_nibble v < 15" "coap_option_nibble v < 16"
    by (simp_all add: word_less_nat_alt)
qed

lemma read_extension_encoded:
  assumes "x \<le> 65804"
  shows "read_extension (pre @ option_extension x @ post) (length pre) (unat (coap_option_nibble x)) =
     Some (x, length pre + length (option_extension x))"
proof -
  consider "x < 13" | "12 < x" "x \<le> 268" | "268 < x" by linarith
  then show ?thesis
  proof cases
    case 1
    then show ?thesis by (simp add: read_extension_def option_nibble option_extension_def)
  next
    case 2
    then have "unat (of_nat (x - 13) :: u8) = x - 13"
      by (intro unat_of_nat_u8) simp
    then show ?thesis using 2
      by (simp add: read_extension_def option_nibble option_extension_def)
  next
    case 3
    have "unat (of_nat ((x - 269) div 256) :: u8) = (x - 269) div 256"
      using assms 3 by (intro unat_of_nat_u8) (simp add: less_mult_imp_div_less)
    moreover have "unat (of_nat (x - 269) :: u8) = (x - 269) mod 256"
      by (simp add: unat_of_nat take_bit_eq_mod)
    moreover have "269 + ((x - 269) div 256 * 256 + (x - 269) mod 256) = x"
      using 3 by simp
    moreover have "rd (pre @ a # b # post) (Suc (length pre)) = Some b" for a b
      using rd_append(1) [of pre "a # b # post" 1] by simp
    ultimately show ?thesis using 3
      by (simp add: read_extension_def option_nibble option_extension_def)
  qed
qed

lemma read_option_header_encoded:
  assumes "d \<le> 65804" "l \<le> 65804"
  shows "read_option_header (pre @ coap_set_option_header d l @ post) (length pre) =
     Some (d, l, length pre + length (coap_set_option_header d l))"
proof -
  let ?b = "push_bit 4 (coap_option_nibble d) OR coap_option_nibble l"
  have d: "read_extension (pre @ ?b # option_extension d @ option_extension l @ post) (Suc (length pre))
      (unat (coap_option_nibble d)) = Some (d, Suc (length pre) + length (option_extension d))"
    using read_extension_encoded [OF assms(1), of "pre @ [?b]" "option_extension l @ post"] by simp
  have l: "read_extension (pre @ ?b # option_extension d @ option_extension l @ post)
      (Suc (length pre + length (option_extension d))) (unat (coap_option_nibble l)) =
      Some (l, Suc (length pre) + length (option_extension d) + length (option_extension l))"
    using read_extension_encoded [OF assms(2), of "pre @ [?b] @ option_extension d" post] by simp
  show ?thesis
    using d l by (simp add: read_option_header_def coap_set_option_header_def
        nibble_fields [OF option_nibble(3) option_nibble(3)] del: drop_bit_or)
qed

lemma option_header_not_payload:
  "\<exists>b. rd (pre @ coap_set_option_header d l @ post) (length pre) = Some b \<and> b AND 0xF0 \<noteq> 0xF0"
proof -
  have "push_bit 4 a \<noteq> 0xF0" if "a < 15" for a :: u8
  proof
    assume "push_bit 4 a = 0xF0"
    moreover have "a < 16" using that by (simp add: word_less_nat_alt)
    ultimately have "a = 15" using nibble_fields(1) [of a 0] by simp
    then show False using that by simp
  qed
  then show ?thesis
    by (simp add: coap_set_option_header_def nibble_fields [OF option_nibble(3) option_nibble(3)]
        option_nibble(2))
qed

lemma option_header_length: "1 \<le> length (coap_set_option_header d l)"
  by (simp add: coap_set_option_header_def)

section \<open>The option bitmap\<close>

lemma bit_single: "(w AND push_bit n 1 \<noteq> 0) = bit (w::u8) n" if "n < 8"
  using that by (simp add: bit_iff_and_push_bit_not_eq_0)

lemma IS_OPTION_bit: "IS_OPTION p n \<longleftrightarrow> bit (options p ! (n div 8)) (n mod 8)"
  unfolding IS_OPTION_def OPTION_MAP_SIZE_def by (rule bit_single) simp

lemma IS_OPTION_SET_OPTION:
  assumes "length (options p) = 5" "n < 40" "m < 40"
  shows "IS_OPTION (SET_OPTION p n) m \<longleftrightarrow> m = n \<or> IS_OPTION p m"
proof -
  have *: "m div 8 = n div 8 \<and> m mod 8 = n mod 8 \<longleftrightarrow> m = n"
    by (metis mult_div_mod_eq)
  have "n div 8 < 5" using assms by (simp add: less_mult_imp_div_less)
  then show ?thesis
    using assms * by (auto simp: IS_OPTION_bit SET_OPTION_def OPTION_MAP_SIZE_def nth_list_update bit_simps)
qed

lemma SET_OPTION_frame [simp]:
  "length (options (SET_OPTION p n)) = length (options p)"
  by (simp add: SET_OPTION_def)

end
