(* ===== verification/Coap_Parse.thy ===== *)
theory Coap_Parse
  imports Coap_Codec
begin

text \<open>
  The parser against an abstract reading of a message.  \<open>option_value\<close> is what a packet says about
  an option number, whatever its pointers are; \<open>received\<close> is what one more option does to it.  The
  parser, which merges repeated string options in place inside the received data, is shown to
  compute the same values.
\<close>

section \<open>The abstract value of an option\<close>

datatype option_data =
    Num u32
  | Bytes "u8 list"
  | Accepts "u16 list"
  | Block u32 u8 u16
  | Unknown

definition string_value :: "('p \<Rightarrow> nat \<Rightarrow> u8 list) \<Rightarrow> 'p option \<Rightarrow> nat \<Rightarrow> u8 list" where
  "string_value get ptr len = (case ptr of None \<Rightarrow> [] | Some a \<Rightarrow> get a len)"

definition field_value :: "('p \<Rightarrow> nat \<Rightarrow> u8 list) \<Rightarrow> 'p coap_packet \<Rightarrow> nat \<Rightarrow> option_data" where
  "field_value get p n =
     (if n = COAP_OPTION_IF_MATCH then Bytes (take (unat (if_match_len p)) (if_match p))
      else if n = COAP_OPTION_URI_HOST then Bytes (string_value get (uri_host p) (uri_host_len p))
      else if n = COAP_OPTION_ETAG then Bytes (take (unat (etag_len p)) (etag p))
      else if n = COAP_OPTION_IF_NONE_MATCH then Bytes []
      else if n = COAP_OPTION_OBSERVE then Num (ucast (observe p))
      else if n = COAP_OPTION_URI_PORT then Num (ucast (uri_port p))
      else if n = COAP_OPTION_LOCATION_PATH then Bytes (string_value get (location_path p) (location_path_len p))
      else if n = COAP_OPTION_URI_PATH then Bytes (string_value get (uri_path p) (uri_path_len p))
      else if n = COAP_OPTION_CONTENT_TYPE then Num (content_type p)
      else if n = COAP_OPTION_MAX_AGE then Num (max_age p)
      else if n = COAP_OPTION_URI_QUERY then Bytes (string_value get (uri_query p) (uri_query_len p))
      else if n = COAP_OPTION_ACCEPT then Accepts (take (unat (accept_num p)) (accept p))
      else if n = COAP_OPTION_TOKEN then Bytes (take (unat (token_len p)) (token p))
      else if n = COAP_OPTION_LOCATION_QUERY then Bytes (string_value get (location_query p) (location_query_len p))
      else if n = COAP_OPTION_BLOCK2 then Block (block2_num p) (block2_more p) (block2_size p)
      else if n = COAP_OPTION_BLOCK1 then Block (block1_num p) (block1_more p) (block1_size p)
      else if n = COAP_OPTION_SIZE then Num (psize p)
      else if n = COAP_OPTION_PROXY_URI then Bytes (string_value get (proxy_uri p) (proxy_uri_len p))
      else Unknown)"

definition option_value :: "('p \<Rightarrow> nat \<Rightarrow> u8 list) \<Rightarrow> 'p coap_packet \<Rightarrow> nat \<Rightarrow> option_data option" where
  "option_value get p n = (if n < 40 \<and> IS_OPTION p n then Some (field_value get p n) else None)"

text \<open>The readings of pointers: into the received data, and as the bytes themselves.\<close>

definition in_data :: "u8 list \<Rightarrow> nat \<Rightarrow> nat \<Rightarrow> u8 list" where
  "in_data data a len = take len (drop a data)"

definition in_bytes :: "u8 list \<Rightarrow> nat \<Rightarrow> u8 list" where
  "in_bytes bs len = take len bs"

text \<open>What one more received option means.\<close>

definition int_of_bytes :: "u8 list \<Rightarrow> u32" where
  "int_of_bytes bs = foldl (\<lambda>v b. push_bit 8 v OR ucast b) 0 bs"

fun joined :: "u8 \<Rightarrow> option_data option \<Rightarrow> u8 list \<Rightarrow> u8 list" where
  "joined sep (Some (Bytes old)) v = (if old = [] then v else old @ sep # v)"
| "joined sep _ v = v"

fun accepted :: "option_data option \<Rightarrow> u16 \<Rightarrow> u16 list" where
  "accepted (Some (Accepts old)) a = (if length old < 2 then old @ [a] else old)"
| "accepted _ a = [a]"

definition block_data :: "u32 \<Rightarrow> option_data" where
  "block_data v = (case parse_block v of (num, mor, sz, offset) \<Rightarrow> Block num mor sz)"

definition received :: "nat \<Rightarrow> u8 list \<Rightarrow> option_data option \<Rightarrow> option_data" where
  "received n v old =
     (if n \<in> {COAP_OPTION_IF_MATCH, COAP_OPTION_ETAG} then Bytes (take 8 v)
      else if n = COAP_OPTION_URI_HOST then Bytes v
      else if n = COAP_OPTION_IF_NONE_MATCH then Bytes []
      else if n \<in> {COAP_OPTION_OBSERVE, COAP_OPTION_URI_PORT} then Num (ucast (ucast (int_of_bytes v) :: u16))
      else if n \<in> {COAP_OPTION_LOCATION_PATH, COAP_OPTION_URI_PATH} then Bytes (joined 0x2F old v)
      else if n \<in> {COAP_OPTION_URI_QUERY, COAP_OPTION_LOCATION_QUERY} then Bytes (joined 0x26 old v)
      else if n \<in> {COAP_OPTION_CONTENT_TYPE, COAP_OPTION_MAX_AGE, COAP_OPTION_SIZE} then Num (int_of_bytes v)
      else if n = COAP_OPTION_ACCEPT then Accepts (accepted old (ucast (int_of_bytes v)))
      else if n \<in> {COAP_OPTION_BLOCK2, COAP_OPTION_BLOCK1} then block_data (int_of_bytes v)
      else Unknown)"

text \<open>Option numbers the parser does not answer with an error.\<close>

definition acceptable :: "nat \<Rightarrow> bool" where
  "acceptable n \<longleftrightarrow> n < 40 \<and>
     (even n \<or> n \<in> {COAP_OPTION_IF_MATCH, COAP_OPTION_URI_HOST, COAP_OPTION_IF_NONE_MATCH,
        COAP_OPTION_URI_PORT, COAP_OPTION_URI_PATH, COAP_OPTION_URI_QUERY, COAP_OPTION_BLOCK2,
        COAP_OPTION_BLOCK1})"

section \<open>The strings of a packet\<close>

definition sptr :: "nat coap_packet \<Rightarrow> nat \<Rightarrow> nat option" where
  "sptr p n =
     (if n = COAP_OPTION_URI_HOST then uri_host p
      else if n = COAP_OPTION_LOCATION_PATH then location_path p
      else if n = COAP_OPTION_URI_PATH then uri_path p
      else if n = COAP_OPTION_URI_QUERY then uri_query p
      else if n = COAP_OPTION_LOCATION_QUERY then location_query p else None)"

definition slen :: "nat coap_packet \<Rightarrow> nat \<Rightarrow> nat" where
  "slen p n =
     (if n = COAP_OPTION_URI_HOST then uri_host_len p
      else if n = COAP_OPTION_LOCATION_PATH then location_path_len p
      else if n = COAP_OPTION_URI_PATH then uri_path_len p
      else if n = COAP_OPTION_URI_QUERY then uri_query_len p
      else if n = COAP_OPTION_LOCATION_QUERY then location_query_len p else 0)"

text \<open>
  The invariant of the option loop: arrays have their sizes, the strings lie one behind the other
  in the order of their option numbers before the current option, and no option beyond the
  current number has been seen.
\<close>

definition arrays_ok :: "'p coap_packet \<Rightarrow> bool" where
  "arrays_ok p \<longleftrightarrow> length (options p) = 5 \<and> length (etag p) = 8 \<and> length (if_match p) = 8 \<and>
     length (accept p) = 2 \<and> unat (accept_num p) \<le> 2 \<and>
     (IS_OPTION p COAP_OPTION_ACCEPT \<or> accept_num p = 0) \<and> \<not> IS_OPTION p COAP_OPTION_PROXY_URI"

definition span_ok :: "nat \<Rightarrow> nat coap_packet \<Rightarrow> nat \<Rightarrow> bool" where
  "span_ok start p k \<longleftrightarrow> (slen p k = 0 \<or> (IS_OPTION p k \<and> (\<exists>a. sptr p k = Some a \<and> a + slen p k \<le> start)))"

definition spans_ok :: "nat \<Rightarrow> nat \<Rightarrow> nat coap_packet \<Rightarrow> bool" where
  "spans_ok number start p \<longleftrightarrow>
     (\<forall>k. span_ok start p k) \<and> (\<forall>k>number. slen p k = 0) \<and>
     (\<forall>j k. j < k \<longrightarrow> slen p j = 0 \<or> slen p k = 0 \<or> the (sptr p j) + slen p j \<le> the (sptr p k))"

lemma spans_okD:
  assumes "spans_ok number start p"
  shows "slen p k \<noteq> 0 \<Longrightarrow> \<exists>a. sptr p k = Some a \<and> a + slen p k \<le> start \<and> IS_OPTION p k \<and> k \<le> number"
    and "slen p k \<noteq> 0 \<Longrightarrow> slen p j \<noteq> 0 \<Longrightarrow> j < k \<Longrightarrow> the (sptr p j) + slen p j \<le> the (sptr p k)"
proof -
  have spans: "span_ok start p k" and above: "number < k \<Longrightarrow> slen p k = 0"
    and order: "j < k \<Longrightarrow> slen p j = 0 \<or> slen p k = 0 \<or> the (sptr p j) + slen p j \<le> the (sptr p k)"
    using assms by (simp_all only: spans_ok_def)
  show "\<exists>a. sptr p k = Some a \<and> a + slen p k \<le> start \<and> IS_OPTION p k \<and> k \<le> number" if "slen p k \<noteq> 0"
  proof -
    have "k \<le> number" using above that by (cases "number < k") simp_all
    then show ?thesis using spans that by (simp add: span_ok_def)
  qed
  show "the (sptr p j) + slen p j \<le> the (sptr p k)" if "slen p k \<noteq> 0" "slen p j \<noteq> 0" "j < k"
    using order that by simp
qed

text \<open>Setting the string of the current number to a span behind all others keeps the order.\<close>

lemma spans_ok_update:
  assumes ok: "spans_ok number start p" and "number \<le> n" and "start \<le> stop" and "n < 40"
    and others: "\<And>k. k \<noteq> n \<Longrightarrow> sptr p' k = sptr p k \<and> slen p' k = slen p k"
    and set: "\<And>k. k < 40 \<Longrightarrow> IS_OPTION p' k \<longleftrightarrow> k = n \<or> IS_OPTION p k"
    and new: "slen p' n = 0 \<or> (\<exists>a. sptr p' n = Some a \<and> a + slen p' n \<le> stop \<and>
      (start \<le> a \<or> (slen p n \<noteq> 0 \<and> sptr p n = Some a)))"
  shows "spans_ok n stop p'"
proof -
  have lt40: "k < 40" if "slen q k \<noteq> 0" for q k
    using that by (simp add: slen_def coap_option_defs split: if_splits)
  have beyond: "slen p k = 0" if "number < k" for k using ok that by (simp add: spans_ok_def)
  have "span_ok stop p' k" for k
  proof (cases "k = n")
    case True
    then show ?thesis using new set [OF assms(4)] by (auto simp: span_ok_def)
  next
    case False
    show ?thesis
    proof (cases "slen p k = 0")
      case True
      then show ?thesis using others [OF False] by (simp add: span_ok_def)
    next
      case f: False
      then obtain a where "sptr p k = Some a" "a + slen p k \<le> start" "IS_OPTION p k"
        using spans_okD(1) [OF ok f] by blast
      then show ?thesis using others [OF False] set [OF lt40 [OF f]] assms(3) by (simp add: span_ok_def)
    qed
  qed
  moreover have "slen p' k = 0" if "n < k" for k
    using others [of k] beyond [of k] that assms(2) by simp
  moreover have "slen p' j = 0 \<or> slen p' k = 0 \<or> the (sptr p' j) + slen p' j \<le> the (sptr p' k)"
    if "j < k" for j k
  proof (cases "slen p' j = 0 \<or> slen p' k = 0")
    case False
    have kn: "k \<le> n"
      using others [of k] beyond [of k] assms(2) False by (cases "n < k") simp_all
    then have j: "slen p j \<noteq> 0" "sptr p' j = sptr p j" "slen p' j = slen p j"
      using others [of j] that False by auto
    show ?thesis
    proof (cases "k = n")
      case True
      then obtain a where a: "sptr p' n = Some a" "start \<le> a \<or> (slen p n \<noteq> 0 \<and> sptr p n = Some a)"
        using new False by auto
      have "the (sptr p j) + slen p j \<le> start" using spans_okD(1) [OF ok j(1)] by auto
      moreover have "the (sptr p j) + slen p j \<le> the (sptr p n)" if "slen p n \<noteq> 0"
        using spans_okD(2) [OF ok that j(1)] \<open>j < k\<close> True by simp
      ultimately show ?thesis using a j True by auto
    next
      case False
      then show ?thesis using others [of k] spans_okD(2) [OF ok, of k j] j that \<open>\<not> (slen p' j = 0 \<or> slen p' k = 0)\<close>
        by simp
    qed
  qed blast
  ultimately show ?thesis by (simp add: spans_ok_def)
qed

section \<open>Merging in place\<close>

lemma coap_merge_fresh:
  "coap_merge_multi_option data dst 0 opt n sep = Some (data, Some opt, n)"
  by (simp add: coap_merge_multi_option_def)

lemma coap_merge_joined:
  fixes pre v post :: "u8 list" and sep :: u8 and d dst_len a l :: nat
  assumes "dst_len \<noteq> 0" and "d + dst_len < length pre"
  defines "pre' \<equiv> take (d + dst_len) pre @ sep # v @ drop (d + dst_len + 1 + length v) (pre @ v)"
  shows "coap_merge_multi_option (pre @ v @ post) (Some d) dst_len (length pre) (length v) sep =
     Some (pre' @ post, Some d, dst_len + 1 + length v)" (is ?merge)
    and "length pre' = length pre + length v"
    and "take (dst_len + 1 + length v) (drop d (pre' @ post)) =
      take dst_len (drop d (pre @ v @ post)) @ sep # v"
    and "a + l \<le> d + dst_len \<Longrightarrow> take l (drop a (pre' @ post)) = take l (drop a (pre @ v @ post))"
proof -
  let ?w = "d + dst_len"
  obtain x xs where x: "drop ?w pre = x # xs"
    using assms(2) by (metis Cons_nth_drop_Suc)
  have pre: "pre = take ?w pre @ x # xs" by (metis append_take_drop_id x)
  have put1: "put (pre @ v @ post) ?w [sep] = Some (take ?w pre @ sep # xs @ v @ post)"
    using assms(2) x by (simp add: put_def) (metis drop_Suc drop_drop plus_1_eq_Suc tl_drop list.sel(3))
  have len: "length (take ?w pre @ sep # xs) = length pre"
    by (metis length_append list.size(4) pre)
  have sl: "slice (take ?w pre @ sep # xs @ v @ post) (length pre) (length v) = Some v"
    using slice_append(2) [of "take ?w pre @ sep # xs" "v @ post" "length v", unfolded len] by simp
  have lw: "length (take ?w pre) = ?w" using assms(2) by simp
  have fit: "length v \<le> length (xs @ v @ post)" by simp
  have dr: "drop (length v) (xs @ v) = drop (?w + 1 + length v) (pre @ v)"
  proof -
    have "drop (?w + 1 + length v) (pre @ v) = drop (length v) (drop (?w + 1) (pre @ v))"
      by (metis add.commute drop_drop)
    also have "drop (?w + 1) (pre @ v) = xs @ v"
      using assms(2) x by (metis One_nat_def Suc_leI add.right_neutral add_Suc_right drop_Suc drop_all drop_append diff_is_0_eq drop0 list.sel(3) tl_drop)
    finally show ?thesis by simp
  qed
  have put2: "put (take ?w pre @ sep # xs @ v @ post) (d + (dst_len + 1)) v = Some (pre' @ post)"
    unfolding pre'_def dr [symmetric] using lw fit by (simp add: put_def)
  show ?merge
    using put1 sl put2 assms(1) by (simp add: coap_merge_multi_option_def)
  show "length pre' = length pre + length v"
    using assms(2) by (simp add: pre'_def)
  show "take (dst_len + 1 + length v) (drop d (pre' @ post)) = take dst_len (drop d (pre @ v @ post)) @ sep # v"
    using assms(2) by (simp add: pre'_def take_drop add.commute)
  show "take l (drop a (pre' @ post)) = take l (drop a (pre @ v @ post))" if "a + l \<le> ?w"
    using that assms(2) by (simp add: pre'_def take_drop)
qed

section \<open>One option\<close>

text \<open>
  The effect of one option with value \<open>v\<close> on a packet: only the value of its number changes, to
  what was received, and the rest of the data stays.
\<close>

definition same_message :: "'p coap_packet \<Rightarrow> 'p coap_packet \<Rightarrow> bool" where
  "same_message p q \<longleftrightarrow> version p = version q \<and> mtype p = mtype q \<and> code p = code q \<and> mid p = mid q \<and>
     token_len p = token_len q \<and> token p = token q \<and> payload p = payload q \<and> payload_len p = payload_len q"

definition option_effect ::
  "nat \<Rightarrow> u8 list \<Rightarrow> nat \<Rightarrow> nat coap_packet \<Rightarrow> u8 list \<Rightarrow> nat coap_packet \<Rightarrow> u8 list \<Rightarrow> bool" where
  "option_effect n v stop p data p' data' \<longleftrightarrow>
     arrays_ok p' \<and> spans_ok n stop p' \<and> same_message p' p \<and>
     (\<forall>m. option_value (in_data data') p' m =
        (if m = n then Some (received n v (option_value (in_data data) p n))
         else option_value (in_data data) p m))"

text \<open>A value read through pointers depends only on the bytes of the strings.\<close>

lemma field_value_cong:
  assumes "\<And>k. slen p k \<noteq> 0 \<Longrightarrow> in_data data' (the (sptr p k)) (slen p k) = in_data data (the (sptr p k)) (slen p k)"
    and "n \<noteq> COAP_OPTION_PROXY_URI"
  shows "field_value (in_data data') p n = field_value (in_data data) p n"
proof -
  have "string_value (in_data data') (sptr p k) (slen p k) = string_value (in_data data) (sptr p k) (slen p k)" for k
  proof (cases "sptr p k")
    case (Some a)
    then show ?thesis using assms(1) [of k] by (cases "slen p k = 0") (auto simp: string_value_def in_data_def)
  qed (simp add: string_value_def)
  from this [of COAP_OPTION_URI_HOST] this [of COAP_OPTION_LOCATION_PATH] this [of COAP_OPTION_URI_PATH]
    this [of COAP_OPTION_URI_QUERY] this [of COAP_OPTION_LOCATION_QUERY]
  show ?thesis using assms(2) by (simp add: field_value_def sptr_def slen_def coap_option_defs)
qed

lemma set_option_simps:
  "field_value get (SET_OPTION p n) k = field_value get p k"
  "sptr (SET_OPTION q n) k = sptr q k" "slen (SET_OPTION q n) k = slen q k"
  "same_message (SET_OPTION p n) p"
  by (simp_all add: SET_OPTION_def field_value_def sptr_def slen_def same_message_def)

text \<open>
  The common part of all cases: a packet \<open>p'\<close> that differs from \<open>p\<close> only in the fields of the
  option \<open>n\<close>.
\<close>

lemma option_effectI:
  assumes ok: "arrays_ok p" "spans_ok number start p" and n: "number \<le> n" "n < 40" "start \<le> stop"
    and arr: "arrays_ok p'" and same: "same_message p' p" and opts: "options p' = options (SET_OPTION p n)"
    and others: "\<And>k. k \<noteq> n \<Longrightarrow> sptr p' k = sptr p k \<and> slen p' k = slen p k"
    and new: "slen p' n = 0 \<or> (\<exists>a. sptr p' n = Some a \<and> a + slen p' n \<le> stop \<and>
      (start \<le> a \<or> (slen p n \<noteq> 0 \<and> sptr p n = Some a)))"
    and keep: "\<And>k. k \<noteq> n \<Longrightarrow> k \<noteq> COAP_OPTION_PROXY_URI \<Longrightarrow> field_value (in_data data') p' k = field_value (in_data data) p k"
    and val: "field_value (in_data data') p' n = received n v (option_value (in_data data) p n)"
  shows "option_effect n v stop p data p' data'"
proof -
  have len: "length (options p) = 5" and noproxy: "\<not> IS_OPTION p COAP_OPTION_PROXY_URI"
    using ok by (simp_all add: arrays_ok_def)
  have "IS_OPTION p' k \<longleftrightarrow> IS_OPTION (SET_OPTION p n) k" for k
    by (simp add: IS_OPTION_def opts)
  then have iso: "IS_OPTION p' k \<longleftrightarrow> k = n \<or> IS_OPTION p k" if "k < 40" for k
    using IS_OPTION_SET_OPTION [OF len n(2) that] by simp
  have "spans_ok n stop p'"
    by (rule spans_ok_update [OF ok(2) n(1) n(3) n(2) others iso new])
  moreover have "option_value (in_data data') p' m =
      (if m = n then Some (received n v (option_value (in_data data) p n)) else option_value (in_data data) p m)" for m
  proof (cases "m = n")
    case True
    then show ?thesis using iso [OF n(2)] n(2) val by (simp add: option_value_def)
  next
    case False
    then show ?thesis using iso [of m] keep [OF False] noproxy by (auto simp: option_value_def)
  qed
  ultimately show ?thesis using arr same by (simp add: option_effect_def)
qed

lemma string_spans_scalar:
  assumes "n \<notin> {COAP_OPTION_URI_HOST, COAP_OPTION_LOCATION_PATH, COAP_OPTION_URI_PATH,
    COAP_OPTION_URI_QUERY, COAP_OPTION_LOCATION_QUERY}"
  shows "slen p n = 0"
  using assms by (simp add: slen_def)

lemma arrays_ok_set_option:
  assumes "arrays_ok p" "n < 40" "n \<noteq> COAP_OPTION_PROXY_URI"
  shows "arrays_ok (SET_OPTION p n)"
proof -
  have len: "length (options p) = 5" using assms by (simp add: arrays_ok_def)
  have "IS_OPTION (SET_OPTION p n) COAP_OPTION_ACCEPT \<longleftrightarrow> COAP_OPTION_ACCEPT = n \<or> IS_OPTION p COAP_OPTION_ACCEPT"
    "IS_OPTION (SET_OPTION p n) COAP_OPTION_PROXY_URI \<longleftrightarrow> COAP_OPTION_PROXY_URI = n \<or> IS_OPTION p COAP_OPTION_PROXY_URI"
    by (rule IS_OPTION_SET_OPTION [OF len assms(2)], simp add: coap_option_defs)+
  then show ?thesis
    using assms by (auto simp: arrays_ok_def) (auto simp: SET_OPTION_def)
qed

text \<open>Options that are not strings leave the received data alone.\<close>

lemma effect_scalar:
  assumes ok: "arrays_ok p" "spans_ok number start p" and n: "number \<le> n" "n < 40" "start \<le> stop"
    and scalar: "n \<notin> {COAP_OPTION_URI_HOST, COAP_OPTION_LOCATION_PATH, COAP_OPTION_URI_PATH,
      COAP_OPTION_URI_QUERY, COAP_OPTION_LOCATION_QUERY}"
    and arr: "arrays_ok p'" and same: "same_message p' (SET_OPTION p n)" and opts: "options p' = options (SET_OPTION p n)"
    and spans: "\<And>k. sptr p' k = sptr (SET_OPTION p n) k \<and> slen p' k = slen (SET_OPTION p n) k"
    and keep: "\<And>k. k \<noteq> n \<Longrightarrow> field_value (in_data data) p' k = field_value (in_data data) (SET_OPTION p n) k"
    and val: "field_value (in_data data) p' n = received n v (option_value (in_data data) p n)"
  shows "option_effect n v stop p data p' data"
proof (rule option_effectI [OF ok n arr _ opts])
  show "same_message p' p" using same set_option_simps(4) [of p n] by (simp add: same_message_def)
  show "sptr p' k = sptr p k \<and> slen p' k = slen p k" if "k \<noteq> n" for k
    using spans [of k] by (simp add: set_option_simps)
  show "slen p' n = 0 \<or> (\<exists>a. sptr p' n = Some a \<and> a + slen p' n \<le> stop \<and>
      (start \<le> a \<or> (slen p n \<noteq> 0 \<and> sptr p n = Some a)))"
    using string_spans_scalar [OF scalar] by simp
  show "field_value (in_data data) p' k = field_value (in_data data) p k" if "k \<noteq> n" for k
    using keep [OF that] by (simp add: set_option_simps)
  show "field_value (in_data data) p' n = received n v (option_value (in_data data) p n)" by (rule val)
qed

lemma put_prefix: "length src \<le> length xs \<Longrightarrow> put xs 0 src = Some (src @ drop (length src) xs)"
  by (simp add: put_def)

lemma slice_bytes: "k \<le> length v \<Longrightarrow> slice (pre @ v @ post) (length pre) k = Some (take k v)"
  by (simp add: slice_def)

lemma take_min: "take (min k (length v)) v = take k v"
  by (simp add: min_def)

lemma of_nat_min8: "unat (of_nat (min 8 k) :: u8) = min 8 k"
  by (rule unat_of_nat_u8) simp

lemma IS_OPTION_options: "options p = options q \<Longrightarrow> IS_OPTION p n = IS_OPTION q n"
  by (simp add: IS_OPTION_def)

lemma accept_effect:
  fixes p :: "nat coap_packet"
  assumes "length (accept p) = 2" "unat (accept_num p) < 2" "IS_OPTION p COAP_OPTION_ACCEPT \<or> accept_num p = 0"
  shows "take (unat (accept_num p + 1)) ((accept p)[unat (accept_num p) := a]) =
      accepted (option_value get p COAP_OPTION_ACCEPT) a"
proof -
  have u: "unat (accept_num p + 1) = Suc (unat (accept_num p))"
    using assms(2) by (simp add: unat_word_ariths)
  have "take (Suc k) (xs[k := a]) = take k xs @ [a]" if "k < length xs" for k and xs :: "u16 list"
    using that by (simp add: take_Suc_conv_app_nth)
  then have t: "take (unat (accept_num p + 1)) ((accept p)[unat (accept_num p) := a]) =
      take (unat (accept_num p)) (accept p) @ [a]"
    using assms(1,2) u by simp
  show ?thesis
  proof (cases "IS_OPTION p COAP_OPTION_ACCEPT")
    case True
    then have "option_value get p COAP_OPTION_ACCEPT = Some (Accepts (take (unat (accept_num p)) (accept p)))"
      by (simp add: option_value_def field_value_def coap_option_defs)
    then show ?thesis using t assms by simp
  next
    case False
    then have "option_value get p COAP_OPTION_ACCEPT = None" "accept_num p = 0"
      using assms(3) by (simp_all add: option_value_def)
    then show ?thesis using t by simp
  qed
qed

lemma parse_accept_effect:
  assumes ok: "arrays_ok p" "spans_ok number start p" and n: "number \<le> 16" "unat (accept_num p) < 2"
    and start: "start < length pre" and data: "data = pre @ v @ post"
  shows "\<exists>p'. parse_option (SET_OPTION p 16) data 16 (length pre) (length v) = Some (None, p', data) \<and>
     option_effect 16 v (length pre + length v) p data p' data"
proof -
  let ?q = "SET_OPTION p 16"
  let ?acc = "(accept p)[unat (accept_num p) := ucast (int_of_bytes v)]"
  let ?p = "?q\<lparr>accept := ?acc, accept_num := accept_num p + 1\<rparr>"
  have q: "accept ?q = accept p" "accept_num ?q = accept_num p" by (simp_all add: SET_OPTION_def)
  have acc: "length (accept p) = 2" "IS_OPTION p COAP_OPTION_ACCEPT \<or> accept_num p = 0"
    using ok(1) by (simp_all add: arrays_ok_def)
  have u: "unat (accept_num p + 1) \<le> 2" using n(2) by (simp add: unat_word_ariths)
  have "IS_OPTION ?q 16"
    using IS_OPTION_SET_OPTION [of p 16 16] ok(1) by (simp add: arrays_ok_def)
  then have is16: "IS_OPTION ?p COAP_OPTION_ACCEPT"
    by (simp add: IS_OPTION_def coap_option_defs)
  have "coap_parse_int_option data (length pre) (length v) = Some (int_of_bytes v)"
    by (simp add: data coap_parse_int_option_bytes int_of_bytes_def)
  then have parse: "parse_option ?q data 16 (length pre) (length v) = Some (None, ?p, data)"
    using n(2) q by (simp add: parse_option_def coap_option_defs COAP_MAX_ACCEPT_NUM_def)
  have "arrays_ok ?q"
    by (rule arrays_ok_set_option [OF ok(1)]) (simp_all add: coap_option_defs)
  moreover have "\<not> IS_OPTION ?p COAP_OPTION_PROXY_URI" if "\<not> IS_OPTION ?q COAP_OPTION_PROXY_URI"
    using that by (simp add: IS_OPTION_def)
  ultimately have arr: "arrays_ok ?p"
    using is16 u acc(1) by (simp add: arrays_ok_def)
  have "option_effect 16 v (length pre + length v) p data ?p data"
  proof (rule effect_scalar [OF ok n(1) _ _ _ arr])
    show "field_value (in_data data) ?p 16 = received 16 v (option_value (in_data data) p 16)"
      using accept_effect [OF acc(1) n(2) acc(2), of "ucast (int_of_bytes v)" "in_data data"]
      by (simp add: field_value_def received_def coap_option_defs)
  qed (use start in \<open>simp_all add: coap_option_defs same_message_def sptr_def slen_def field_value_def\<close>)
  then show ?thesis using parse by blast
qed

lemma parse_accept_full:
  assumes ok: "arrays_ok p" "spans_ok number start p" and n: "number \<le> 16" "\<not> unat (accept_num p) < 2"
    and start: "start < length pre" and data: "data = pre @ v @ post"
  shows "\<exists>p'. parse_option (SET_OPTION p 16) data 16 (length pre) (length v) = Some (None, p', data) \<and>
     option_effect 16 v (length pre + length v) p data p' data"
proof -
  let ?q = "SET_OPTION p 16"
  have u: "unat (accept_num p) = 2" and acc: "length (accept p) = 2" "IS_OPTION p COAP_OPTION_ACCEPT"
    using ok(1) n(2) by (auto simp: arrays_ok_def)
  have val: "option_value (in_data data) p 16 = Some (Accepts (accept p))"
    using acc u by (simp add: option_value_def field_value_def coap_option_defs)
  have q: "accept ?q = accept p" "accept_num ?q = accept_num p" by (simp_all add: SET_OPTION_def)
  have arr: "arrays_ok ?q"
    by (rule arrays_ok_set_option [OF ok(1)]) (simp_all add: coap_option_defs)
  have "option_effect 16 v (length pre + length v) p data ?q data"
    by (rule effect_scalar [OF ok n(1) _ _ _ arr])
      (use start val q u acc in \<open>simp_all add: coap_option_defs same_message_def field_value_def received_def\<close>)
  moreover have "parse_option ?q data 16 (length pre) (length v) = Some (None, ?q, data)"
    using n(2) q by (simp add: parse_option_def coap_option_defs COAP_MAX_ACCEPT_NUM_def)
  ultimately show ?thesis by blast
qed

lemma parse_unknown_effect:
  assumes ok: "arrays_ok p" "spans_ok number start p" and n: "number \<le> n" "n < 40"
    "even n" "n \<notin> {12, 14, 4, 16, 6, 28, 8, 20}"
    and start: "start < length pre" and data: "data = pre @ v @ post"
  shows "\<exists>p'. parse_option (SET_OPTION p n) data n (length pre) (length v) = Some (None, p', data) \<and>
     option_effect n v (length pre + length v) p data p' data"
proof -
  let ?q = "SET_OPTION p n"
  have odd: "n \<noteq> k" if "odd k" for k using n(3) that by auto
  have ne: "n \<noteq> 12" "n \<noteq> 14" "n \<noteq> 4" "n \<noteq> 16" "n \<noteq> 6" "n \<noteq> 28" "n \<noteq> 8" "n \<noteq> 20"
    "n \<noteq> 1" "n \<noteq> 3" "n \<noteq> 5" "n \<noteq> 7" "n \<noteq> 11" "n \<noteq> 15" "n \<noteq> 19" "n \<noteq> 23" "n \<noteq> 27" "n \<noteq> 35"
    using n(4) odd by simp_all
  have "n \<noteq> COAP_OPTION_PROXY_URI" using ne by (simp add: coap_option_defs)
  then have arr: "arrays_ok ?q" by (rule arrays_ok_set_option [OF ok(1) n(2)])
  have val: "field_value get ?q n = Unknown" "received n v old = Unknown" for get old
    using ne by (simp_all add: field_value_def received_def coap_option_defs)
  have "option_effect n v (length pre + length v) p data ?q data"
    by (rule effect_scalar [OF ok n(1,2) _ _ arr])
      (use start ne val in \<open>simp_all add: coap_option_defs same_message_def\<close>)
  moreover have "parse_option ?q data n (length pre) (length v) = Some (None, ?q, data)"
    using ne n(3) by (simp add: parse_option_def coap_option_defs)
  ultimately show ?thesis by blast
qed

lemma parse_scalar_effect:
  assumes ok: "arrays_ok p" "spans_ok number start p" and n: "number \<le> n" "acceptable n"
    and start: "start < length pre"
    and scalar: "n \<notin> {COAP_OPTION_URI_HOST, COAP_OPTION_LOCATION_PATH, COAP_OPTION_URI_PATH,
      COAP_OPTION_URI_QUERY, COAP_OPTION_LOCATION_QUERY}"
    and data: "data = pre @ v @ post"
  shows "\<exists>p'. parse_option (SET_OPTION p n) data n (length pre) (length v) = Some (None, p', data) \<and>
     option_effect n v (length pre + length v) p data p' data"
proof -
  let ?q = "SET_OPTION p n"
  have n40: "n < 40" using n by (simp add: acceptable_def)
  have le: "start \<le> length pre + length v" using start by simp
  have arr: "arrays_ok ?q"
    by (rule arrays_ok_set_option [OF ok(1) n40]) (use n in \<open>auto simp: acceptable_def coap_option_defs\<close>)
  have int: "coap_parse_int_option data (length pre) (length v) = Some (int_of_bytes v)"
    by (simp add: data coap_parse_int_option_bytes int_of_bytes_def)
  have sl: "slice data (length pre) (min 8 (length v)) = Some (take 8 v)"
    by (simp add: data slice_def min_def)
  note eff = effect_scalar [OF ok n(1) n40 le scalar, of _ data v]
  note defs = parse_option_def coap_option_defs int COAP_ETAG_LEN_def COAP_MAX_ACCEPT_NUM_def
  note props = arrays_ok_def same_message_def sptr_def slen_def field_value_def received_def coap_option_defs
  consider "n = 12" | "n = 14" | "n = 4" | "n = 16" "unat (accept_num p) < 2" | "n = 16" "\<not> unat (accept_num p) < 2"
    | "n = 1" | "n = 5" | "n = 7" | "n = 6" | "n = 23" | "n = 27" | "n = 28"
    | "even n" "n \<notin> {12, 14, 4, 16, 6, 28, 8, 20}"
    using n(2) scalar by (auto simp: acceptable_def coap_option_defs)
  then show ?thesis
  proof cases
    case 1
    show ?thesis
      by (intro exI [of _ "?q\<lparr>content_type := int_of_bytes v\<rparr>"] conjI eff)
        (use 1 arr in \<open>simp_all add: defs props IS_OPTION_def \<close>)
  next
    case 2
    show ?thesis
      by (intro exI [of _ "?q\<lparr>max_age := int_of_bytes v\<rparr>"] conjI eff)
        (use 2 arr in \<open>simp_all add: defs props IS_OPTION_def \<close>)
  next
    case 3
    show ?thesis
      by (intro exI [of _ "?q\<lparr>etag_len := of_nat (min 8 (length v)), etag := take 8 v @ drop (min (length v) 8) (etag ?q)\<rparr>"] conjI eff)
        (use 3 arr in \<open>simp_all add: defs props IS_OPTION_def sl put_prefix of_nat_min8 take_min\<close>)
  next
    case 4
    then show ?thesis using parse_accept_effect [OF ok _ _ start data] n(1) by simp
  next
    case 5
    then show ?thesis using parse_accept_full [OF ok _ _ start data] n(1) by simp
  next
    case 6
    show ?thesis
      by (intro exI [of _ "?q\<lparr>if_match_len := of_nat (min 8 (length v)), if_match := take 8 v @ drop (min (length v) 8) (if_match ?q)\<rparr>"] conjI eff)
        (use 6 arr in \<open>simp_all add: defs props IS_OPTION_def sl put_prefix of_nat_min8 take_min\<close>)
  next
    case 7
    show ?thesis
      by (intro exI [of _ "?q\<lparr>if_none_match := 1\<rparr>"] conjI eff)
        (use 7 arr in \<open>simp_all add: defs props IS_OPTION_def \<close>)
  next
    case 8
    show ?thesis
      by (intro exI [of _ "?q\<lparr>uri_port := ucast (int_of_bytes v)\<rparr>"] conjI eff)
        (use 8 arr in \<open>simp_all add: defs props IS_OPTION_def \<close>)
  next
    case 9
    show ?thesis
      by (intro exI [of _ "?q\<lparr>observe := ucast (int_of_bytes v)\<rparr>"] conjI eff)
        (use 9 arr in \<open>simp_all add: defs props IS_OPTION_def \<close>)
  next
    case 10
    show ?thesis
      by (intro exI [of _ "?q\<lparr>block2_num := fst (parse_block (int_of_bytes v)), block2_more := fst (snd (parse_block (int_of_bytes v))), block2_size := fst (snd (snd (parse_block (int_of_bytes v)))), block2_offset := snd (snd (snd (parse_block (int_of_bytes v))))\<rparr>"] conjI eff)
        (use 10 arr in \<open>simp_all add: defs props IS_OPTION_def block_data_def split_def Let_def\<close>)
  next
    case 11
    show ?thesis
      by (intro exI [of _ "?q\<lparr>block1_num := fst (parse_block (int_of_bytes v)), block1_more := fst (snd (parse_block (int_of_bytes v))), block1_size := fst (snd (snd (parse_block (int_of_bytes v)))), block1_offset := snd (snd (snd (parse_block (int_of_bytes v))))\<rparr>"] conjI eff)
        (use 11 arr in \<open>simp_all add: defs props IS_OPTION_def block_data_def split_def Let_def\<close>)
  next
    case 12
    show ?thesis
      by (intro exI [of _ "?q\<lparr>psize := int_of_bytes v\<rparr>"] conjI eff)
        (use 12 arr in \<open>simp_all add: defs props IS_OPTION_def \<close>)
  next
    case 13
    then show ?thesis using parse_unknown_effect [OF ok n(1) n40 _ _ start data] by simp
  qed
qed

section \<open>String options\<close>

lemma acceptable_set_option:
  assumes "arrays_ok p" "acceptable n"
  shows "arrays_ok (SET_OPTION p n)"
  by (rule arrays_ok_set_option [OF assms(1)]) (use assms(2) in \<open>auto simp: acceptable_def coap_option_defs\<close>)

lemma parse_host_effect:
  assumes ok: "arrays_ok p" "spans_ok number start p" and n: "number \<le> 3"
    and start: "start < length pre" and data: "data = pre @ v @ post"
  shows "\<exists>p'. parse_option (SET_OPTION p 3) data 3 (length pre) (length v) = Some (None, p', data) \<and>
     option_effect 3 v (length pre + length v) p data p' data"
proof -
  let ?p = "(SET_OPTION p 3)\<lparr>uri_host := Some (length pre), uri_host_len := length v\<rparr>"
  have "arrays_ok (SET_OPTION p 3)"
    by (rule acceptable_set_option [OF ok(1)]) (simp add: acceptable_def coap_option_defs)
  then have arr: "arrays_ok ?p" by (simp add: arrays_ok_def IS_OPTION_def)
  have "option_effect 3 v (length pre + length v) p data ?p data"
    by (rule option_effectI [OF ok n _ _ arr])
      (use start data in \<open>simp_all add: same_message_def sptr_def slen_def SET_OPTION_def field_value_def
         received_def string_value_def in_data_def coap_option_defs\<close>)
  moreover have "parse_option (SET_OPTION p 3) data 3 (length pre) (length v) = Some (None, ?p, data)"
    by (simp add: parse_option_def coap_option_defs)
  ultimately show ?thesis by blast
qed

text \<open>The four merged options share one argument; \<open>upd\<close> stores the pointer and the length.\<close>

lemma merge_effect:
  assumes ok: "arrays_ok p" "spans_ok number start p" and n: "number \<le> n" "n < 40"
    and start: "start < length pre" and data: "data = pre @ v @ post"
    and arr: "\<And>a l. arrays_ok (upd a l)" and same: "\<And>a l. same_message (upd a l) p"
    and opts: "\<And>a l. options (upd a l) = options (SET_OPTION p n)"
    and string: "\<And>a l. sptr (upd a l) n = a \<and> slen (upd a l) n = l"
      "\<And>q get. field_value get q n = Bytes (string_value get (sptr q n) (slen q n))"
      "\<And>old. received n v old = Bytes (joined sep old v)"
    and others: "\<And>k a l. k \<noteq> n \<Longrightarrow> sptr (upd a l) k = sptr p k \<and> slen (upd a l) k = slen p k"
      "\<And>k a l get. k \<noteq> n \<Longrightarrow> field_value get (upd a l) k = field_value get p k"
  shows "\<exists>data' a l pre'. coap_merge_multi_option data (sptr p n) (slen p n) (length pre) (length v) sep =
       Some (data', a, l) \<and> data' = pre' @ post \<and> length pre' = length pre + length v \<and>
     option_effect n v (length pre + length v) p data (upd a l) data'"
proof (cases "slen p n = 0")
  case True
  have old: "joined sep (option_value (in_data data) p n) v = v"
    using True by (auto simp: option_value_def string(2) string_value_def in_data_def split: option.splits)
  have "option_effect n v (length pre + length v) p data (upd (Some (length pre)) (length v)) data"
    by (rule option_effectI [OF ok n _ arr same opts])
      (use start others data in \<open>simp_all add: string old [unfolded data] string_value_def in_data_def\<close>)
  then show ?thesis using True data coap_merge_fresh
    by (intro exI [of _ data] exI [of _ "Some (length pre)"] exI [of _ "length v"] exI [of _ "pre @ v"]) simp
next
  case False
  then obtain d where d: "sptr p n = Some d" "d + slen p n \<le> start" "IS_OPTION p n"
    using spans_okD(1) [OF ok(2) False] by blast
  let ?l = "slen p n"
  let ?pre = "take (d + ?l) pre @ sep # v @ drop (d + ?l + 1 + length v) (pre @ v)"
  have lt: "d + ?l < length pre" using d start by simp
  note merged = coap_merge_joined(1) [OF False lt, where v = v and sep = sep and post = post]
    coap_merge_joined(2) [OF False lt, where v = v and sep = sep]
    coap_merge_joined(3) [OF False lt, where v = v and sep = sep and post = post]
    coap_merge_joined(4) [OF False lt, where v = v and sep = sep and post = post]
  have old: "option_value (in_data data) p n = Some (Bytes (take ?l (drop d data)))"
    using d n(2) by (simp add: option_value_def string(2) string_value_def in_data_def)
  have "take ?l (drop d data) \<noteq> []" using False lt data by simp
  then have new: "joined sep (option_value (in_data data) p n) v = take ?l (drop d data) @ sep # v"
    using old by simp
  have "option_effect n v (length pre + length v) p data (upd (Some d) (?l + 1 + length v)) (?pre @ post)"
  proof (rule option_effectI [OF ok n _ arr same opts])
    fix k assume k: "k \<noteq> n" "k \<noteq> COAP_OPTION_PROXY_URI"
    have below: "in_data (?pre @ post) (the (sptr p j)) (slen p j) = in_data data (the (sptr p j)) (slen p j)"
      if j: "slen p j \<noteq> 0" for j
    proof -
      have "j \<le> n" using spans_okD(1) [OF ok(2) j] n(1) by auto
      then have "the (sptr p j) + slen p j \<le> d + ?l"
        using spans_okD(2) [OF ok(2) False j] d by (cases "j = n") auto
      then show ?thesis using merged(4) data by (simp add: in_data_def)
    qed
    show "field_value (in_data (?pre @ post)) (upd (Some d) (?l + 1 + length v)) k = field_value (in_data data) p k"
      using others(2) [OF k(1)] field_value_cong [OF below k(2)] by simp
  next
    show "slen (upd (Some d) (?l + 1 + length v)) n = 0 \<or> (\<exists>a. sptr (upd (Some d) (?l + 1 + length v)) n = Some a \<and>
        a + slen (upd (Some d) (?l + 1 + length v)) n \<le> length pre + length v \<and>
        (start \<le> a \<or> (slen p n \<noteq> 0 \<and> sptr p n = Some a)))"
      using lt d False by (simp add: string(1))
  next
    have "take (?l + 1 + length v) (drop d (?pre @ post)) = take ?l (drop d data) @ sep # v"
      using merged(3) data by simp
    then show "field_value (in_data (?pre @ post)) (upd (Some d) (?l + 1 + length v)) n =
        received n v (option_value (in_data data) p n)"
      unfolding string(2) string(3) new by (simp only: string(1) string_value_def option.case in_data_def)
  qed (use others start in simp_all)
  then show ?thesis using merged(1,2) data d
    by (intro exI [of _ "?pre @ post"] exI [of _ "Some d"] exI [of _ "?l + 1 + length v"] exI [of _ ?pre]) simp
qed

lemma parse_merge_effect:
  assumes ok: "arrays_ok p" "spans_ok number start p" and n: "number \<le> n"
    "n \<in> {COAP_OPTION_LOCATION_PATH, COAP_OPTION_URI_PATH, COAP_OPTION_URI_QUERY, COAP_OPTION_LOCATION_QUERY}"
    and start: "start < length pre" and data: "data = pre @ v @ post"
  shows "\<exists>p' pre'. parse_option (SET_OPTION p n) data n (length pre) (length v) = Some (None, p', pre' @ post) \<and>
     length pre' = length pre + length v \<and>
     option_effect n v (length pre + length v) p data p' (pre' @ post)"
proof -
  let ?q = "SET_OPTION p n"
  have n40: "n < 40" using n(2) by (auto simp: coap_option_defs)
  have arr: "arrays_ok ?q"
    by (rule acceptable_set_option [OF ok(1)]) (use n(2) in \<open>auto simp: acceptable_def coap_option_defs\<close>)
  note merge = merge_effect [OF ok n(1) n40 start data]
  note defs = same_message_def sptr_def slen_def field_value_def received_def coap_option_defs
    arrays_ok_def IS_OPTION_def
  have q: "uri_path (SET_OPTION p k) = uri_path p" "uri_path_len (SET_OPTION p k) = uri_path_len p"
    "uri_query (SET_OPTION p k) = uri_query p" "uri_query_len (SET_OPTION p k) = uri_query_len p"
    "location_path (SET_OPTION p k) = location_path p" "location_path_len (SET_OPTION p k) = location_path_len p"
    "location_query (SET_OPTION p k) = location_query p"
    "location_query_len (SET_OPTION p k) = location_query_len p" for k
    by (simp_all add: SET_OPTION_def)
  consider "n = 8" | "n = 11" | "n = 15" | "n = 20" using n(2) by (auto simp: coap_option_defs)
  then show ?thesis
  proof cases
    case 1
    let ?u = "\<lambda>a l. ?q\<lparr>location_path := a, location_path_len := l\<rparr>"
    have "\<exists>data' a l pre'. coap_merge_multi_option data (sptr p n) (slen p n) (length pre) (length v) 0x2F =
        Some (data', a, l) \<and> data' = pre' @ post \<and> length pre' = length pre + length v \<and>
        option_effect n v (length pre + length v) p data (?u a l) data'"
      by (rule merge) (use arr 1 in \<open>simp_all add: defs SET_OPTION_def\<close>)
    then show ?thesis using 1 by (auto simp: parse_option_def coap_option_defs sptr_def slen_def q)
  next
    case 2
    let ?u = "\<lambda>a l. ?q\<lparr>uri_path := a, uri_path_len := l\<rparr>"
    have "\<exists>data' a l pre'. coap_merge_multi_option data (sptr p n) (slen p n) (length pre) (length v) 0x2F =
        Some (data', a, l) \<and> data' = pre' @ post \<and> length pre' = length pre + length v \<and>
        option_effect n v (length pre + length v) p data (?u a l) data'"
      by (rule merge) (use arr 2 in \<open>simp_all add: defs SET_OPTION_def\<close>)
    then show ?thesis using 2 by (auto simp: parse_option_def coap_option_defs sptr_def slen_def q)
  next
    case 3
    let ?u = "\<lambda>a l. ?q\<lparr>uri_query := a, uri_query_len := l\<rparr>"
    have "\<exists>data' a l pre'. coap_merge_multi_option data (sptr p n) (slen p n) (length pre) (length v) 0x26 =
        Some (data', a, l) \<and> data' = pre' @ post \<and> length pre' = length pre + length v \<and>
        option_effect n v (length pre + length v) p data (?u a l) data'"
      by (rule merge) (use arr 3 in \<open>simp_all add: defs SET_OPTION_def\<close>)
    then show ?thesis using 3 by (auto simp: parse_option_def coap_option_defs sptr_def slen_def q)
  next
    case 4
    let ?u = "\<lambda>a l. ?q\<lparr>location_query := a, location_query_len := l\<rparr>"
    have "\<exists>data' a l pre'. coap_merge_multi_option data (sptr p n) (slen p n) (length pre) (length v) 0x26 =
        Some (data', a, l) \<and> data' = pre' @ post \<and> length pre' = length pre + length v \<and>
        option_effect n v (length pre + length v) p data (?u a l) data'"
      by (rule merge) (use arr 4 in \<open>simp_all add: defs SET_OPTION_def\<close>)
    then show ?thesis using 4 by (auto simp: parse_option_def coap_option_defs sptr_def slen_def q)
  qed
qed

text \<open>One option of any acceptable number.\<close>

lemma parse_option_effect:
  assumes ok: "arrays_ok p" "spans_ok number start p" and n: "number \<le> n" "acceptable n"
    and start: "start < length pre" and data: "data = pre @ v @ post"
  shows "\<exists>p' pre'. parse_option (SET_OPTION p n) data n (length pre) (length v) = Some (None, p', pre' @ post) \<and>
     length pre' = length pre + length v \<and>
     option_effect n v (length pre + length v) p data p' (pre' @ post)"
proof -
  consider (scalar) "n \<notin> {COAP_OPTION_URI_HOST, COAP_OPTION_LOCATION_PATH, COAP_OPTION_URI_PATH,
      COAP_OPTION_URI_QUERY, COAP_OPTION_LOCATION_QUERY}"
    | (host) "n = 3" | (merge) "n \<in> {COAP_OPTION_LOCATION_PATH, COAP_OPTION_URI_PATH, COAP_OPTION_URI_QUERY, COAP_OPTION_LOCATION_QUERY}"
    by (auto simp: coap_option_defs)
  then show ?thesis
  proof cases
    case scalar
    then obtain p' where "parse_option (SET_OPTION p n) data n (length pre) (length v) = Some (None, p', data)"
      "option_effect n v (length pre + length v) p data p' data"
      using parse_scalar_effect [OF ok n start scalar data] by blast
    then show ?thesis using data by (intro exI [of _ p'] exI [of _ "pre @ v"]) simp
  next
    case host
    obtain p' where "parse_option (SET_OPTION p 3) data 3 (length pre) (length v) = Some (None, p', data)"
      "option_effect 3 v (length pre + length v) p data p' data"
      using parse_host_effect [OF ok _ start data] n(1) host by blast
    then show ?thesis using data host by (intro exI [of _ p'] exI [of _ "pre @ v"]) simp
  next
    case merge
    show ?thesis by (rule parse_merge_effect [OF ok n(1) merge start data])
  qed
qed

section \<open>A sequence of options\<close>

text \<open>The encoding of a sequence of options, and what it means.\<close>

fun encode_options :: "nat \<Rightarrow> (nat \<times> u8 list) list \<Rightarrow> u8 list" where
  "encode_options cur [] = []"
| "encode_options cur ((n, v) # os) =
     coap_set_option_header (n - cur) (length v) @ v @ encode_options n os"

fun receive_all :: "(nat \<times> u8 list) list \<Rightarrow> (nat \<Rightarrow> option_data option) \<Rightarrow> nat \<Rightarrow> option_data option" where
  "receive_all [] f = f"
| "receive_all ((n, v) # os) f = receive_all os (f(n \<mapsto> received n v (f n)))"

fun option_sequence :: "nat \<Rightarrow> (nat \<times> u8 list) list \<Rightarrow> bool" where
  "option_sequence cur [] \<longleftrightarrow> True"
| "option_sequence cur ((n, v) # os) \<longleftrightarrow>
     cur \<le> n \<and> acceptable n \<and> length v \<le> 65804 \<and> option_sequence n os"

lemma parse_options_step:
  assumes ok: "arrays_ok p" "spans_ok number start p" and n: "number \<le> n" "acceptable n"
    and start: "start \<le> length pre" and len: "length v \<le> 65804"
    and data: "data = pre @ coap_set_option_header (n - number) (length v) @ v @ post"
    and dlen: "dlen = length data"
  shows "\<exists>p' pre'. parse_options data dlen (length pre) number p = parse_options (pre' @ post) dlen (length pre') n p' \<and>
     length (pre' @ post) = length data \<and>
     option_effect n v (length pre') p data p' (pre' @ post)"
proof -
  let ?h = "coap_set_option_header (n - number) (length v)"
  have n40: "n < 40" using n by (simp add: acceptable_def)
  have h: "1 \<le> length ?h" by (rule option_header_length)
  obtain b where b: "rd data (length pre) = Some b" "b AND 0xF0 \<noteq> 0xF0"
    using option_header_not_payload [of pre "n - number" "length v" "v @ post"] data by auto
  have hdr: "read_option_header data (length pre) = Some (n - number, length v, length pre + length ?h)"
    using read_option_header_encoded [of "n - number" "length v" pre "v @ post"] n40 len data by simp
  obtain p' pre' where p': "parse_option (SET_OPTION p n) data n (length (pre @ ?h)) (length v) = Some (None, p', pre' @ post)"
      "length pre' = length (pre @ ?h) + length v"
      "option_effect n v (length (pre @ ?h) + length v) p data p' (pre' @ post)"
    using parse_option_effect [OF ok n, of "pre @ ?h" data v post] start h data by auto
  have bm: "n div OPTION_MAP_SIZE < length (options p)"
    using ok(1) n40 by (simp add: arrays_ok_def OPTION_MAP_SIZE_def less_mult_imp_div_less)
  have lt: "length pre < dlen" unfolding dlen data length_append using h by linarith
  have number: "number + (n - number) = n" using n(1) by simp
  have "parse_options data dlen (length pre) number p = parse_options (pre' @ post) dlen (length pre') n p'"
    using b hdr p' bm lt number by (subst parse_options.simps) simp
  then show ?thesis using p' data by (intro exI [of _ p'] exI [of _ pre']) simp
qed

definition payload_section :: "u8 list \<Rightarrow> u8 list" where
  "payload_section bs = (if bs = [] then [] else 0xFF # bs)"

definition payload_parsed :: "u8 list \<Rightarrow> u8 list \<Rightarrow> nat coap_packet \<Rightarrow> nat coap_packet \<Rightarrow> bool" where
  "payload_parsed bs data p p' \<longleftrightarrow>
     (if bs = [] then payload p' = payload p \<and> payload_len p' = payload_len p
      else \<exists>a. payload p' = Some a \<and> payload_len p' = of_nat (length bs) \<and> in_data data a (length bs) = bs)"

lemma parse_options_payload:
  assumes "dlen = length pre + length (payload_section bs)"
  shows "\<exists>p'. parse_options (pre @ payload_section bs) dlen (length pre) number p =
       Some (NO_ERROR, p', pre @ payload_section bs) \<and>
     p' = p\<lparr>payload := payload p', payload_len := payload_len p'\<rparr> \<and>
     payload_parsed bs (pre @ payload_section bs) p p'"
proof (cases "bs = []")
  case True
  then show ?thesis using assms
    by (subst parse_options.simps) (simp add: payload_section_def payload_parsed_def)
next
  case False
  let ?p = "p\<lparr>payload := Some (length pre + 1), payload_len := of_nat (length bs)\<rparr>"
  have "(of_nat dlen :: u16) - of_nat (length pre + 1) = of_nat (length bs)"
    using assms False by (simp add: payload_section_def)
  then have "parse_options (pre @ payload_section bs) dlen (length pre) number p =
      Some (NO_ERROR, ?p, pre @ payload_section bs)"
    using False assms by (subst parse_options.simps) (simp add: payload_section_def)
  then show ?thesis using False
    by (intro exI [of _ ?p]) (simp add: payload_parsed_def payload_section_def in_data_def)
qed

lemma parse_options_encoded:
  assumes "arrays_ok p" "spans_ok number start p" "start \<le> length pre" "option_sequence number os"
    and "data = pre @ encode_options number os @ payload_section bs" "dlen = length data"
  shows "\<exists>p' data'. parse_options data dlen (length pre) number p = Some (NO_ERROR, p', data') \<and>
     length data' = length data \<and>
     option_value (in_data data') p' = receive_all os (option_value (in_data data) p) \<and>
     version p' = version p \<and> mtype p' = mtype p \<and> code p' = code p \<and> mid p' = mid p \<and>
     token_len p' = token_len p \<and> token p' = token p \<and> payload_parsed bs data' p p'"
  using assms
proof (induction os arbitrary: p number start pre data)
  case Nil
  then obtain p' where p': "parse_options (pre @ payload_section bs) dlen (length pre) number p =
       Some (NO_ERROR, p', pre @ payload_section bs)" "p' = p\<lparr>payload := payload p', payload_len := payload_len p'\<rparr>"
     "payload_parsed bs (pre @ payload_section bs) p p'"
    using parse_options_payload [of dlen pre bs number p] by auto
  have "field_value get p' m = field_value get p m" "IS_OPTION p' m = IS_OPTION p m" for get m
    by (subst p'(2), simp add: field_value_def IS_OPTION_def)+
  then have "option_value get p' = option_value get p" for get
    by (rule_tac ext) (simp add: option_value_def)
  moreover have "version p' = version p \<and> mtype p' = mtype p \<and> code p' = code p \<and> mid p' = mid p \<and>
     token_len p' = token_len p \<and> token p' = token p"
    by (subst p'(2), simp)+
  ultimately show ?case using p' Nil by (intro exI [of _ p'] exI [of _ data]) simp
next
  case (Cons nv os)
  obtain n v where nv: "nv = (n, v)" by (cases nv)
  have c: "number \<le> n" "acceptable n" "length v \<le> 65804" "option_sequence n os"
    using Cons.prems(4) nv by simp_all
  have d: "data = pre @ coap_set_option_header (n - number) (length v) @ v @ encode_options n os @ payload_section bs"
    using Cons.prems(5) nv by simp
  obtain q pre' where q: "parse_options data dlen (length pre) number p =
      parse_options (pre' @ encode_options n os @ payload_section bs) dlen (length pre') n q"
    "length (pre' @ encode_options n os @ payload_section bs) = length data"
    "option_effect n v (length pre') p data q (pre' @ encode_options n os @ payload_section bs)"
    using parse_options_step [OF Cons.prems(1,2) c(1,2) Cons.prems(3) c(3) d Cons.prems(6)] by auto
  let ?d = "pre' @ encode_options n os @ payload_section bs"
  have e: "arrays_ok q" "spans_ok n (length pre') q" "same_message q p"
    "option_value (in_data ?d) q = (option_value (in_data data) p)(n \<mapsto> received n v (option_value (in_data data) p n))"
    using q(3) by (auto simp: option_effect_def)
  obtain p' data' where r: "parse_options ?d dlen (length pre') n q = Some (NO_ERROR, p', data')"
     "length data' = length ?d" "option_value (in_data data') p' = receive_all os (option_value (in_data ?d) q)"
     "version p' = version q \<and> mtype p' = mtype q \<and> code p' = code q \<and> mid p' = mid q \<and>
     token_len p' = token_len q \<and> token p' = token q" "payload_parsed bs data' q p'"
    using Cons.IH [OF e(1,2) order_refl c(4) refl] q(2) Cons.prems(6) by auto
  have "option_value (in_data data') p' = receive_all (nv # os) (option_value (in_data data) p)"
    using r(3) e(4) nv by simp
  moreover have "payload_parsed bs data' p p'"
    using r(5) e(3) by (simp add: payload_parsed_def same_message_def)
  ultimately show ?case using q(1,2) r e(3)
    by (intro exI [of _ p'] exI [of _ data']) (simp add: same_message_def)
qed

end
