(* ===== verification/Coap_Serialize.thy ===== *)
theory Coap_Serialize
  imports Coap_Parse
begin

text \<open>
  The serialiser against the encoding of a sequence of options: what a packet sends is the header,
  the token, the encoding of \<open>options_of\<close> the packet, and the payload.
\<close>

section \<open>Splitting strings\<close>

text \<open>
  The parts of a string as the loop of \<open>coap_serialize_array_option\<close> finds them: the character
  after a splitter always starts a part, and nothing follows a splitter at the end.
\<close>

fun scan_parts :: "u8 \<Rightarrow> u8 list \<Rightarrow> u8 list \<Rightarrow> u8 list list" where
  "scan_parts sep w [] = [w]"
| "scan_parts sep w [c] = (if c = sep then [w] else [w @ [c]])"
| "scan_parts sep w (c # d # r) =
     (if c = sep then w # scan_parts sep [d] r else scan_parts sep (w @ [c]) (d # r))"

definition string_parts :: "u8 \<Rightarrow> u8 list \<Rightarrow> u8 list list" where
  "string_parts sep s = scan_parts sep [] s"

lemma option_delta_le: "cur \<le> n \<Longrightarrow> option_delta n cur = n - cur"
  by (simp add: option_delta_def)

lemma array_loop_done: "len < j \<Longrightarrow> array_loop n array len sep cur ps j = Some []"
  by (subst array_loop.simps) simp

lemma take_part_snoc:
  "ps \<le> j \<Longrightarrow> j < length s \<Longrightarrow> take (Suc j - ps) (drop ps s) = take (j - ps) (drop ps s) @ [s ! j]"
  by (simp add: Suc_diff_le take_Suc_conv_app_nth)

lemma array_loop_scan:
  assumes "array = s @ rest" "rest \<noteq> []" "ps \<le> j" "j \<le> length s" "drop j s = r"
    "w = take (j - ps) (drop ps s)" "cur \<le> n"
  shows "array_loop n array (length s) sep cur ps j = Some (encode_options cur (map (Pair n) (scan_parts sep w r)))"
  using assms
proof (induction sep w r arbitrary: cur ps j rule: scan_parts.induct)
  case (1 sep w)
  then have j: "j = length s" by simp
  have "rd array j = Some (hd rest)" "slice array ps (j - ps) = Some w" "length w = j - ps"
    using 1 j by (auto simp: rd_def slice_def nth_append hd_conv_nth)
  then show ?case using j 1(7)
    by (subst array_loop.simps) (simp add: array_loop_done option_delta_le)
next
  case (2 sep w c)
  then have j: "Suc j = length s" "s ! j = c" by (auto dest: arg_cong [of _ _ length]) (metis nth_via_drop)
  have rd: "rd array j = Some c" "slice array ps (j - ps) = Some w" "length w = j - ps"
    using 2 j by (auto simp: rd_def slice_def nth_append)
  have wc: "take (Suc j - ps) (drop ps s) = w @ [c]"
    using take_part_snoc [of ps j s] 2(3,6) j(2) by (simp add: j(1) [symmetric])
  have "take (Suc j - ps) (drop ps array) = take (Suc j - ps) (drop ps s)"
    using 2(1,3) j by simp
  then have "take (Suc j - ps) (drop ps array) = w @ [c]" using wc by (rule trans)
  moreover have "ps + (Suc j - ps) \<le> length array" using 2(1,3) j by simp
  ultimately have sl: "slice array ps (Suc j - ps) = Some (w @ [c])" by (simp only: slice_def if_True)
  have rd': "rd array (Suc j) = Some (hd rest)" "length (w @ [c]) = Suc j - ps"
    using 2(1,2,3) j rd(3) by (auto simp: rd_def nth_append hd_conv_nth)
  show ?case
  proof (cases "c = sep")
    case True
    then show ?thesis using rd j 2(7)
      by (subst array_loop.simps) (simp add: array_loop_done option_delta_le)
  next
    case False
    then have "array_loop n array (length s) sep cur ps j = array_loop n array (length s) sep cur ps (Suc j)"
      using rd j by (subst array_loop.simps) simp
    also have "\<dots> = Some (encode_options cur (map (Pair n) [w @ [c]]))"
      using rd' sl j 2(7)
      by (subst array_loop.simps) (simp add: array_loop_done option_delta_le)
    finally show ?thesis using False by simp
  qed
next
  case (3 sep w c d r)
  have j: "Suc j < length s" "s ! j = c" "drop (Suc j) s = d # r" "drop (Suc (Suc j)) s = r" "s ! Suc j = d"
    using 3(7) by (auto dest: arg_cong [of _ _ length] nth_via_drop)
      (metis drop_Suc list.sel(3) tl_drop, metis drop_Suc list.sel(3) tl_drop, metis nth_via_drop drop_Suc list.sel(3) tl_drop)
  have rd: "rd array j = Some c" "slice array ps (j - ps) = Some w" "length w = j - ps"
    using 3(3-8) j by (auto simp: rd_def slice_def nth_append)
  show ?case
  proof (cases "c = sep")
    case True
    have "[d] = take (Suc (Suc j) - Suc j) (drop (Suc j) s)" using j by simp
    then have "array_loop n array (length s) sep n (Suc j) (Suc (Suc j)) =
        Some (encode_options n (map (Pair n) (scan_parts sep [d] r)))"
      using 3(1) [OF True 3(3,4), of "Suc j" "Suc (Suc j)" n] j by simp
    then show ?thesis using rd j True 3(9)
      by (subst array_loop.simps) (simp add: option_delta_le)
  next
    case False
    have "w @ [c] = take (Suc j - ps) (drop ps s)"
      using 3(5,8) j by (simp add: Suc_diff_le take_Suc_conv_app_nth)
    then have "array_loop n array (length s) sep cur ps (Suc j) =
        Some (encode_options cur (map (Pair n) (scan_parts sep (w @ [c]) (d # r))))"
      using 3(2) [OF False 3(3,4), of ps "Suc j" cur] 3(5,9) j by simp
    then show ?thesis using rd j False
      by (subst array_loop.simps) simp
  qed
qed

lemma serialize_array_split:
  assumes "sep \<noteq> 0" "cur \<le> n" "len < length array"
  shows "coap_serialize_array_option n cur array len sep =
     Some (encode_options cur (map (Pair n) (string_parts sep (take len array))))"
proof -
  have "array = take len array @ drop len array" "drop len array \<noteq> []" "length (take len array) = len"
    using assms(3) by simp_all
  then show ?thesis
    using array_loop_scan [of array "take len array" "drop len array" 0 0 "take len array" "[]" cur n sep] assms
    by (simp add: coap_serialize_array_option_def string_parts_def)
qed

lemma serialize_array_whole:
  assumes "cur \<le> n" "len \<le> length array"
  shows "coap_serialize_array_option n cur array len 0 = Some (encode_options cur [(n, take len array)])"
  using assms by (simp add: coap_serialize_array_option_def slice_0_take option_delta_le)

lemma serialize_int:
  "cur \<le> n \<Longrightarrow> coap_serialize_int_option n cur v = encode_options cur [(n, int_option_bytes v)]"
  by (simp add: coap_serialize_int_option_def int_option_length option_delta_le)

text \<open>Receiving the parts of a string joins them again.\<close>

lemma receive_all_other: "m \<noteq> n \<Longrightarrow> receive_all (map (Pair n) vs) f m = f m"
  by (induction vs arbitrary: f) auto

lemma receive_scan:
  assumes "\<And>old v. received n v old = Bytes (joined sep old v)" "r = [] \<or> last r \<noteq> sep"
  shows "f n = Some (Bytes old) \<Longrightarrow> old \<noteq> [] \<Longrightarrow>
      receive_all (map (Pair n) (scan_parts sep w r)) f n = Some (Bytes (old @ sep # w @ r))"
    and "f n = None \<Longrightarrow> w \<noteq> [] \<or> r = [] \<or> hd r \<noteq> sep \<Longrightarrow>
      receive_all (map (Pair n) (scan_parts sep w r)) f n = Some (Bytes (w @ r))"
  using assms
proof (induction sep w r arbitrary: f old rule: scan_parts.induct)
  case (3 sep w c d r)
  {
    case 1
    show ?case
    proof (cases "c = sep")
      case True
      have "receive_all (map (Pair n) (scan_parts sep [d] r)) (f(n \<mapsto> Bytes (old @ sep # w))) n =
          Some (Bytes ((old @ sep # w) @ sep # [d] @ r))"
        by (rule 3(1) [OF True]) (use 1 in \<open>auto split: if_splits\<close>)
      then show ?thesis using True 1 by simp
    next
      case False
      then show ?thesis using 3(3) [OF False] 1 by simp
    qed
  next
    case 2
    show ?case
    proof (cases "c = sep")
      case True
      then have w: "w \<noteq> []" using 2 by auto
      have "receive_all (map (Pair n) (scan_parts sep [d] r)) (f(n \<mapsto> Bytes w)) n =
          Some (Bytes (w @ sep # [d] @ r))"
        by (rule 3(1) [OF True]) (use 2 w in \<open>auto split: if_splits\<close>)
      then show ?thesis using True 2 by simp
    next
      case False
      then show ?thesis using 3(4) [OF False] 2 by simp
    qed
  }
qed (auto split: if_splits)

lemma receive_parts:
  assumes "\<And>old v. received n v old = Bytes (joined sep old v)" "s = [] \<or> (hd s \<noteq> sep \<and> last s \<noteq> sep)" "f n = None"
  shows "receive_all (map (Pair n) (string_parts sep s)) f n = Some (Bytes s)"
  using receive_scan(2) [of n sep s f "[]"] assms by (auto simp: string_parts_def)

section \<open>The options of a packet\<close>

definition pointee :: "u8 list option \<Rightarrow> u8 list" where
  "pointee ptr = (case ptr of None \<Rightarrow> [] | Some bs \<Rightarrow> bs)"

text \<open>The values a packet sends under an option number.\<close>

definition sent_values :: "u8 list coap_packet \<Rightarrow> nat \<Rightarrow> u8 list list" where
  "sent_values p n =
     (if n = COAP_OPTION_IF_MATCH then [take (unat (if_match_len p)) (if_match p)]
      else if n = COAP_OPTION_URI_HOST then [take (uri_host_len p) (pointee (uri_host p))]
      else if n = COAP_OPTION_ETAG then [take (unat (etag_len p)) (etag p)]
      else if n = COAP_OPTION_IF_NONE_MATCH then [[]]
      else if n = COAP_OPTION_OBSERVE then [int_option_bytes (ucast (observe p))]
      else if n = COAP_OPTION_URI_PORT then [int_option_bytes (ucast (uri_port p))]
      else if n = COAP_OPTION_LOCATION_PATH then string_parts 0x2F (take (location_path_len p) (pointee (location_path p)))
      else if n = COAP_OPTION_URI_PATH then string_parts 0x2F (take (uri_path_len p) (pointee (uri_path p)))
      else if n = COAP_OPTION_CONTENT_TYPE then [int_option_bytes (content_type p)]
      else if n = COAP_OPTION_MAX_AGE then [int_option_bytes (max_age p)]
      else if n = COAP_OPTION_URI_QUERY then string_parts 0x26 (take (uri_query_len p) (pointee (uri_query p)))
      else if n = COAP_OPTION_ACCEPT then map (\<lambda>a. int_option_bytes (ucast a)) (take (unat (accept_num p)) (accept p))
      else if n = COAP_OPTION_LOCATION_QUERY then string_parts 0x26 (take (location_query_len p) (pointee (location_query p)))
      else if n = COAP_OPTION_BLOCK2 then [int_option_bytes (block_value (block2_num p) (block2_more p) (block2_size p))]
      else if n = COAP_OPTION_BLOCK1 then [int_option_bytes (block_value (block1_num p) (block1_more p) (block1_size p))]
      else if n = COAP_OPTION_SIZE then [int_option_bytes (psize p)]
      else if n = COAP_OPTION_PROXY_URI then [take (proxy_uri_len p) (pointee (proxy_uri p))]
      else [])"

definition option_piece :: "u8 list coap_packet \<Rightarrow> nat \<Rightarrow> (nat \<times> u8 list) list" where
  "option_piece p n = (if IS_OPTION p n then map (Pair n) (sent_values p n) else [])"

definition sent_numbers :: "nat list" where
  "sent_numbers = [1, 3, 4, 5, 6, 7, 8, 11, 12, 14, 15, 16, 20, 23, 27, 28, 35]"

definition options_of :: "u8 list coap_packet \<Rightarrow> (nat \<times> u8 list) list" where
  "options_of p = concat (map (option_piece p) sent_numbers)"

text \<open>
  A packet whose arrays have their sizes and whose strings can be read: C strings have at least
  one byte behind their length, their terminator.
\<close>

definition readable :: "u8 list coap_packet \<Rightarrow> nat \<Rightarrow> u8 list option \<Rightarrow> nat \<Rightarrow> bool" where
  "readable p n ptr len \<longleftrightarrow> IS_OPTION p n \<longrightarrow> len < length (pointee ptr)"

definition packet_ok :: "u8 list coap_packet \<Rightarrow> bool" where
  "packet_ok p \<longleftrightarrow>
     length (options p) = 5 \<and> length (etag p) = 8 \<and> length (if_match p) = 8 \<and> length (token p) = 8 \<and>
     length (accept p) = 2 \<and> unat (etag_len p) \<le> 8 \<and> unat (if_match_len p) \<le> 8 \<and>
     unat (token_len p) \<le> 8 \<and> unat (accept_num p) \<le> 2 \<and>
     readable p COAP_OPTION_URI_HOST (uri_host p) (uri_host_len p) \<and>
     readable p COAP_OPTION_LOCATION_PATH (location_path p) (location_path_len p) \<and>
     readable p COAP_OPTION_URI_PATH (uri_path p) (uri_path_len p) \<and>
     readable p COAP_OPTION_URI_QUERY (uri_query p) (uri_query_len p) \<and>
     readable p COAP_OPTION_LOCATION_QUERY (location_query p) (location_query_len p) \<and>
     readable p COAP_OPTION_PROXY_URI (proxy_uri p) (proxy_uri_len p) \<and>
     unat (payload_len p) \<le> length (pointee (payload p))"

section \<open>Writing\<close>

definition last_number :: "nat \<Rightarrow> (nat \<times> u8 list) list \<Rightarrow> nat" where
  "last_number cur os = (if os = [] then cur else fst (last os))"

lemma encode_options_append:
  "encode_options cur (xs @ ys) = encode_options cur xs @ encode_options (last_number cur xs) ys"
  by (induction cur xs rule: encode_options.induct) (auto simp: last_number_def)

lemma last_number_append: "last_number cur (xs @ ys) = last_number (last_number cur xs) ys"
  by (simp add: last_number_def)

lemma last_number_piece:
  "last_number cur (option_piece p n) = (if option_piece p n = [] then cur else n)"
  by (auto simp: last_number_def option_piece_def last_map)

definition writes :: "u8 list coap_packet \<Rightarrow> nat list \<Rightarrow> (writer \<Rightarrow> writer option) \<Rightarrow> nat \<Rightarrow> bool" where
  "writes p ns f lo \<longleftrightarrow> (\<forall>cur out. cur \<le> lo \<longrightarrow>
     f (cur, out) = Some (last_number cur (concat (map (option_piece p) ns)),
                          out @ encode_options cur (concat (map (option_piece p) ns))))"

lemma writes_one:
  assumes "\<And>cur out. cur \<le> n \<Longrightarrow> f (cur, out) = Some (if option_piece p n = [] then cur else n,
    out @ encode_options cur (option_piece p n))"
  shows "writes p [n] f n"
  using assms by (simp add: writes_def last_number_piece)

lemma writes_bind:
  assumes "writes p [n] f n" "writes p (m # ns) g m" "n \<le> m"
  shows "writes p (n # m # ns) (\<lambda>w. f w \<bind> g) n"
  using assms
  by (auto simp: writes_def encode_options_append last_number_append last_number_piece)

lemma writes_int:
  assumes "IS_OPTION p n \<Longrightarrow> sent_values p n = [int_option_bytes v]"
  shows "writes p [n] (COAP_SERIALIZE_INT_OPTION p n v) n"
  by (rule writes_one)
    (use assms in \<open>auto simp: COAP_SERIALIZE_INT_OPTION_def serialize_int option_piece_def\<close>)

lemma writes_block:
  assumes "IS_OPTION p n \<Longrightarrow> sent_values p n = [int_option_bytes (block_value num mor sz)]"
  shows "writes p [n] (COAP_SERIALIZE_BLOCK_OPTION p n num mor sz) n"
  by (rule writes_one)
    (use assms in \<open>auto simp: COAP_SERIALIZE_BLOCK_OPTION_def serialize_int option_piece_def\<close>)

lemma writes_bytes:
  assumes "IS_OPTION p n \<Longrightarrow> sent_values p n = [take (unat len) field]" "unat len \<le> length field"
  shows "writes p [n] (COAP_SERIALIZE_BYTE_OPTION p n field len) n"
  by (rule writes_one)
    (use assms in \<open>auto simp: COAP_SERIALIZE_BYTE_OPTION_def serialize_array_whole option_piece_def\<close>)

lemma writes_string:
  assumes "IS_OPTION p n \<Longrightarrow> sent_values p n = [take len (pointee field)]" "readable p n field len"
  shows "writes p [n] (COAP_SERIALIZE_STRING_OPTION p n field len 0) n"
  by (rule writes_one)
    (use assms in \<open>auto simp: COAP_SERIALIZE_STRING_OPTION_def serialize_array_whole option_piece_def
       readable_def pointee_def [symmetric]\<close>)

lemma string_parts_nonempty: "string_parts sep s \<noteq> []"
proof -
  have "scan_parts sep w r \<noteq> []" for w r
    by (induction sep w r rule: scan_parts.induct) auto
  then show ?thesis by (simp add: string_parts_def)
qed

lemma writes_split_string:
  assumes "IS_OPTION p n \<Longrightarrow> sent_values p n = string_parts sep (take len (pointee field))"
    "readable p n field len" "sep \<noteq> 0"
  shows "writes p [n] (COAP_SERIALIZE_STRING_OPTION p n field len sep) n"
  by (rule writes_one)
    (use assms string_parts_nonempty in \<open>auto simp: COAP_SERIALIZE_STRING_OPTION_def serialize_array_split
       option_piece_def readable_def pointee_def [symmetric]\<close>)

lemma accept_loop_writes:
  assumes "i + k \<le> length acc" "cur \<le> n"
  shows "accept_loop n acc i k (cur, out) =
     Some (last_number cur (map (\<lambda>a. (n, int_option_bytes (ucast a))) (take k (drop i acc))),
       out @ encode_options cur (map (\<lambda>a. (n, int_option_bytes (ucast a))) (take k (drop i acc))))"
  using assms
proof (induction k arbitrary: i cur out)
  case 0
  then show ?case by (simp add: last_number_def)
next
  case (Suc k)
  then have d: "drop i acc = acc ! i # drop (Suc i) acc" "i < length acc"
    by (simp_all add: Cons_nth_drop_Suc)
  have "last_number cur ((n, x) # xs) = last_number n xs" for x xs
    by (simp add: last_number_def)
  then show ?case
    using Suc.IH [of "Suc i" n] Suc.prems d by (simp add: rd_def serialize_int)
qed

lemma writes_accept:
  assumes "packet_ok p"
  shows "writes p [COAP_OPTION_ACCEPT] (COAP_SERIALIZE_ACCEPT_OPTION p COAP_OPTION_ACCEPT) COAP_OPTION_ACCEPT"
proof -
  let ?vs = "map (\<lambda>a. (16::nat, int_option_bytes (ucast a))) (take (unat (accept_num p)) (accept p))"
  have "option_piece p 16 = (if IS_OPTION p 16 then ?vs else [])"
    by (simp add: option_piece_def sent_values_def coap_option_defs comp_def)
  then show ?thesis
    using assms accept_loop_writes [of 0 "unat (accept_num p)" "accept p" _ 16]
    by (auto simp: writes_def COAP_SERIALIZE_ACCEPT_OPTION_def packet_ok_def coap_option_defs last_number_def)
qed

lemma serialize_options_writes:
  assumes "packet_ok p"
  shows "writes p sent_numbers (serialize_options p) 1"
proof -
  note ok = assms [unfolded packet_ok_def]
  note vals = sent_values_def coap_option_defs
  have numbers: "sent_numbers = [COAP_OPTION_IF_MATCH, COAP_OPTION_URI_HOST, COAP_OPTION_ETAG, COAP_OPTION_IF_NONE_MATCH,
      COAP_OPTION_OBSERVE, COAP_OPTION_URI_PORT, COAP_OPTION_LOCATION_PATH, COAP_OPTION_URI_PATH,
      COAP_OPTION_CONTENT_TYPE, COAP_OPTION_MAX_AGE, COAP_OPTION_URI_QUERY, COAP_OPTION_ACCEPT,
      COAP_OPTION_LOCATION_QUERY, COAP_OPTION_BLOCK2, COAP_OPTION_BLOCK1, COAP_OPTION_SIZE, COAP_OPTION_PROXY_URI]"
    "1 = COAP_OPTION_IF_MATCH"
    by (simp_all add: sent_numbers_def coap_option_defs)
  have bytes: "writes p [COAP_OPTION_IF_MATCH] (COAP_SERIALIZE_BYTE_OPTION p COAP_OPTION_IF_MATCH (if_match p) (if_match_len p)) COAP_OPTION_IF_MATCH"
    "writes p [COAP_OPTION_ETAG] (COAP_SERIALIZE_BYTE_OPTION p COAP_OPTION_ETAG (etag p) (etag_len p)) COAP_OPTION_ETAG"
    by (rule writes_bytes; use ok in \<open>simp add: vals\<close>)+
  have strings: "writes p [COAP_OPTION_URI_HOST] (COAP_SERIALIZE_STRING_OPTION p COAP_OPTION_URI_HOST (uri_host p) (uri_host_len p) 0) COAP_OPTION_URI_HOST"
    "writes p [COAP_OPTION_PROXY_URI] (COAP_SERIALIZE_STRING_OPTION p COAP_OPTION_PROXY_URI (proxy_uri p) (proxy_uri_len p) 0) COAP_OPTION_PROXY_URI"
    by (rule writes_string; use ok in \<open>simp add: vals\<close>)+
  have splits: "writes p [COAP_OPTION_LOCATION_PATH] (COAP_SERIALIZE_STRING_OPTION p COAP_OPTION_LOCATION_PATH (location_path p) (location_path_len p) 0x2F) COAP_OPTION_LOCATION_PATH"
    "writes p [COAP_OPTION_URI_PATH] (COAP_SERIALIZE_STRING_OPTION p COAP_OPTION_URI_PATH (uri_path p) (uri_path_len p) 0x2F) COAP_OPTION_URI_PATH"
    "writes p [COAP_OPTION_URI_QUERY] (COAP_SERIALIZE_STRING_OPTION p COAP_OPTION_URI_QUERY (uri_query p) (uri_query_len p) 0x26) COAP_OPTION_URI_QUERY"
    "writes p [COAP_OPTION_LOCATION_QUERY] (COAP_SERIALIZE_STRING_OPTION p COAP_OPTION_LOCATION_QUERY (location_query p) (location_query_len p) 0x26) COAP_OPTION_LOCATION_QUERY"
    by (rule writes_split_string; use ok in \<open>simp add: vals\<close>)+
  have ints: "writes p [COAP_OPTION_IF_NONE_MATCH] (COAP_SERIALIZE_INT_OPTION p COAP_OPTION_IF_NONE_MATCH (content_type p - content_type p)) COAP_OPTION_IF_NONE_MATCH"
    "writes p [COAP_OPTION_OBSERVE] (COAP_SERIALIZE_INT_OPTION p COAP_OPTION_OBSERVE (ucast (observe p))) COAP_OPTION_OBSERVE"
    "writes p [COAP_OPTION_URI_PORT] (COAP_SERIALIZE_INT_OPTION p COAP_OPTION_URI_PORT (ucast (uri_port p))) COAP_OPTION_URI_PORT"
    "writes p [COAP_OPTION_CONTENT_TYPE] (COAP_SERIALIZE_INT_OPTION p COAP_OPTION_CONTENT_TYPE (content_type p)) COAP_OPTION_CONTENT_TYPE"
    "writes p [COAP_OPTION_MAX_AGE] (COAP_SERIALIZE_INT_OPTION p COAP_OPTION_MAX_AGE (max_age p)) COAP_OPTION_MAX_AGE"
    "writes p [COAP_OPTION_SIZE] (COAP_SERIALIZE_INT_OPTION p COAP_OPTION_SIZE (psize p)) COAP_OPTION_SIZE"
    by (rule writes_int; simp add: vals int_option_bytes_def)+
  have blocks: "writes p [COAP_OPTION_BLOCK2] (COAP_SERIALIZE_BLOCK_OPTION p COAP_OPTION_BLOCK2 (block2_num p) (block2_more p) (block2_size p)) COAP_OPTION_BLOCK2"
    "writes p [COAP_OPTION_BLOCK1] (COAP_SERIALIZE_BLOCK_OPTION p COAP_OPTION_BLOCK1 (block1_num p) (block1_more p) (block1_size p)) COAP_OPTION_BLOCK1"
    by (rule writes_block; simp add: vals)+
  show ?thesis
    unfolding serialize_options_def numbers
    by (intro writes_bind bytes strings splits ints blocks writes_accept [OF assms])
      (simp_all add: coap_option_defs)
qed

section \<open>The whole message\<close>

lemma serialize_message_encoded:
  assumes "packet_ok p"
  defines "out \<equiv> header_bytes (p\<lparr>version := 1\<rparr>) @ take (unat (token_len p)) (token p) @ encode_options 0 (options_of p)"
    and "bs \<equiv> take (unat (payload_len p)) (pointee (payload p))"
  shows "coap_serialize_message p =
     (if length out \<le> COAP_MAX_HEADER_SIZE
      then Some (length (out @ payload_section bs), out @ payload_section bs,
                 p\<lparr>version := 1, buffer := Some (out @ payload_section bs)\<rparr>)
      else Some (0, out, p\<lparr>version := 1, buffer := None\<rparr>))"
proof -
  let ?p = "p\<lparr>version := 1\<rparr>"
  have ok: "packet_ok ?p"
    using assms(1) by (simp add: packet_ok_def readable_def IS_OPTION_def)
  have piece: "option_piece ?p = option_piece p"
    by (rule ext) (simp add: option_piece_def sent_values_def IS_OPTION_def)
  have tok: "slice (token ?p) 0 (unat (token_len ?p)) = Some (take (unat (token_len p)) (token p))"
    using assms(1) by (simp add: packet_ok_def slice_0_take)
  have ser: "serialize_options ?p (0, header_bytes ?p @ take (unat (token_len p)) (token p)) =
      Some (last_number 0 (options_of p), out)"
    using serialize_options_writes [OF ok] by (simp add: writes_def piece options_of_def out_def)
  have pay: "slice (pointee (payload p)) 0 (unat (payload_len p)) = Some bs"
    using assms(1) by (simp add: packet_ok_def slice_0_take bs_def)
  have empty: "payload_section bs = (if payload_len p \<noteq> 0 then [0xFF] else []) @ bs"
    using assms(1) by (auto simp: payload_section_def bs_def packet_ok_def unat_eq_0)
  show ?thesis
    using tok ser pay
    by (simp add: coap_serialize_message_def Let_def empty pointee_def [symmetric])
qed

end
