(* ===== verification/Coap_Roundtrip.thy ===== *)
theory Coap_Roundtrip
  imports Coap_Serialize
begin

text \<open>
  The composition of serialiser and parser: header, block options, and the options of a packet as
  the parser receives them.
\<close>

section \<open>The header\<close>

lemma mid_bytes:
  fixes m :: u16
  shows "push_bit 8 (ucast (ucast (drop_bit 8 m) :: u8)) OR ucast (ucast m :: u8) = m"
  by (rule bit_word_eqI) (auto simp: bit_simps)

lemma unat_word_of: "unat w = k \<Longrightarrow> w = of_nat k"
  by (drule sym) simp

lemma u8_le_8:
  fixes w :: u8
  assumes "unat w \<le> 8"
  shows "w \<in> {0, 1, 2, 3, 4, 5, 6, 7, 8}"
proof -
  have "unat w = 0 \<or> unat w = 1 \<or> unat w = 2 \<or> unat w = 3 \<or> unat w = 4 \<or> unat w = 5 \<or> unat w = 6 \<or>
      unat w = 7 \<or> unat w = 8" using assms by linarith
  then show ?thesis by (elim disjE) (drule unat_word_of, simp)+
qed

lemma first_byte:
  fixes w :: u8 and t :: coap_message_type
  assumes "unat w \<le> 8"
  defines "b \<equiv> (0xC0 AND push_bit 6 1) OR (0x30 AND push_bit 4 (type_bits t)) OR (0x0F AND push_bit 0 w)"
  shows "drop_bit 6 (0xC0 AND b) = 1" "bits_type (drop_bit 4 (0x30 AND b)) = t" "0x0F AND b = w"
proof -
  have "drop_bit 6 (0xC0 AND b) = 1 \<and> bits_type (drop_bit 4 (0x30 AND b)) = t \<and> 0x0F AND b = w"
    using u8_le_8 [OF assms(1)] unfolding b_def
    by (cases t) (auto simp: )
  then show "drop_bit 6 (0xC0 AND b) = 1" "bits_type (drop_bit 4 (0x30 AND b)) = t" "0x0F AND b = w"
    by simp_all
qed

section \<open>Block options\<close>

text \<open>The loop of \<open>coap_log_2\<close> counts the binary digits.\<close>

lemma log_2_loop_digits:
  assumes "unat v < 2 ^ n" "v \<noteq> 0" "unat r + n < 2 ^ 16"
  shows "\<exists>k<n. unat (log_2_loop n v r) = unat r + Suc k \<and> 2 ^ k \<le> unat v \<and> unat v < 2 ^ Suc k"
  using assms
proof (induction n v r rule: log_2_loop.induct)
  case (2 n v r)
  have r: "unat (r + 1) = Suc (unat r)" using 2(4) by (simp add: unat_word_ariths)
  have h: "unat (drop_bit 1 v) = unat v div 2"
    by (simp only: unat_drop_bit_eq) (simp add: drop_bit_Suc)
  show ?case
  proof (cases "drop_bit 1 v = 0")
    case True
    then have "unat v div 2 = 0" using h by simp
    moreover have "unat v \<noteq> 0" using 2(3) by (simp add: unat_eq_0)
    ultimately have "unat v = 1" by linarith
    then show ?thesis using True r by (intro exI [of _ 0]) simp
  next
    case False
    have "unat v div 2 < 2 ^ n" using 2(2) by simp
    then obtain k where k: "k < n" "unat (log_2_loop n (drop_bit 1 v) (r + 1)) = unat (r + 1) + Suc k"
      "2 ^ k \<le> unat v div 2" "unat v div 2 < 2 ^ Suc k"
      using 2(1) [OF refl refl False] 2(4) h r False by auto
    then show ?thesis using False r by (intro exI [of _ "Suc k"]) auto
  qed
qed (simp add: unat_eq_0)

lemma coap_log_2_digits:
  assumes "v \<noteq> 0"
  shows "2 ^ unat (coap_log_2 v) \<le> unat v \<and> unat v < 2 ^ Suc (unat (coap_log_2 v))"
proof -
  have "unat v < 2 ^ LENGTH(16)" by (rule unsigned_less)
  then have "unat v < 2 ^ 16" by simp
  then obtain k where k: "k < 16" "unat (log_2_loop 16 v 0) = Suc k" "2 ^ k \<le> unat v" "unat v < 2 ^ Suc k"
    using log_2_loop_digits [of v 16 0] assms by auto
  then have "unat (coap_log_2 v) = k"
    by (auto simp: coap_log_2_def Let_def unat_minus_one)
  then show ?thesis using k by simp
qed

text \<open>The block sizes 16, 32, ..., 2048.\<close>

definition block_sizes :: "u16 list" where
  "block_sizes = map (\<lambda>k. push_bit k 16) [0..<8]"

definition block_ok :: "u32 \<Rightarrow> u8 \<Rightarrow> u16 \<Rightarrow> bool" where
  "block_ok num mor sz \<longleftrightarrow> num \<le> 0xFFFFF \<and> mor \<le> 1 \<and> sz \<in> set block_sizes"

lemma block_size_log:
  assumes "sz \<in> set block_sizes"
  shows "\<exists>k<8. coap_log_2 (sz div 16) = of_nat k \<and> sz = push_bit k 16"
proof -
  have "\<forall>k\<in>set [0..<8]. coap_log_2 (push_bit k 16 div 16) = of_nat k"
    by code_simp
  then show ?thesis using assms by (auto simp: block_sizes_def)
qed

lemma small_bits_u32:
  fixes a :: u32
  assumes "unat a < 2 ^ m" "m \<le> n"
  shows "\<not> bit a n"
proof -
  have "take_bit m (unat a) = unat a" using assms(1) by (simp add: take_bit_nat_eq_self)
  then have "\<not> bit (unat a) n" using assms(2) by (metis bit_take_bit_iff not_le)
  then show ?thesis by (simp add: bit_simps)
qed

lemma block_fields:
  fixes num kw :: u32 and mo :: bool
  assumes "unat num < 2 ^ 20" "unat kw < 2 ^ 3"
  defines "v \<equiv> push_bit 4 num OR (if mo then 8 else 0) OR kw"
  shows "drop_bit 4 v = num" "v AND 0x07 = kw" "drop_bit 3 (v AND 0x08) = (if mo then 1 else 0)"
    "v AND NOT 0xF = push_bit 4 num"
proof -
  have m: "(0x07::u32) = mask 3" "(0xF::u32) = mask 4"
    by (simp_all add: mask_eq_exp_minus_1)
  note bits = small_bits_u32 [OF assms(1)] small_bits_u32 [OF assms(2)]
  have b8: "bit (8::nat) n \<longleftrightarrow> n = 3" "bit (8::u32) n \<longleftrightarrow> n = 3" "bit (8::int) n \<longleftrightarrow> n = 3" for n
    using bit_exp_iff [where 'a = int, of 3 n] bit_exp_iff [where 'a = nat, of 3 n] bit_exp_iff [where 'a = u32, of 3 n] by auto
  show "drop_bit 4 v = num" unfolding v_def
    by (rule bit_word_eqI) (use bits in \<open>auto simp: bit_simps b8 not_le [symmetric]\<close>)
  show "v AND 0x07 = kw"
  proof (rule bit_word_eqI)
    fix n
    show "bit (v AND 0x07) n = bit kw n" unfolding v_def m(1)
      by (cases "n < 3") (use bits(2) [of n] in \<open>simp_all add: bit_simps b8\<close>)
  qed
  show "drop_bit 3 (v AND 0x08) = (if mo then 1 else 0)"
  proof (rule bit_word_eqI)
    fix n
    show "bit (drop_bit 3 (v AND 0x08)) n = bit (if mo then 1 else 0 :: u32) n" unfolding v_def
      by (cases "n = 0") (use bits(2) [of 3] in \<open>simp_all add: bit_simps b8\<close>)
  qed
  show "v AND NOT 0xF = push_bit 4 num"
  proof (rule bit_word_eqI)
    fix n
    show "bit (v AND NOT 0xF) n = bit (push_bit 4 num) n" unfolding v_def m(2)
      by (cases "n < 4") (use bits(2) [of n] in \<open>auto simp: bit_simps b8\<close>)
  qed
qed

lemma block_round_trip_log:
  assumes "num \<le> 0xFFFFF" "k < 8" "coap_log_2 (sz div 16) = of_nat k"
  shows "parse_block (block_value num mor sz) =
     (num, if mor \<noteq> 0 then 1 else 0, push_bit k 16, num * ucast (push_bit k 16 :: u16))"
proof -
  let ?kw = "of_nat k :: u32"
  have "unat num \<le> unat (0xFFFFF :: u32)" using assms(1) by (simp only: word_le_nat_alt)
  then have num: "unat num < 2 ^ 20" by simp
  have kw: "unat ?kw = k" using assms(2) by (simp add: unat_of_nat take_bit_nat_eq_self)
  have "\<forall>k\<in>set [0..<8]. 0xF AND (ucast (of_nat k :: u16) :: u32) = of_nat k"
    by code_simp
  then have "0xF AND (ucast (of_nat k :: u16) :: u32) = ?kw" using assms(2) by auto
  then have v: "block_value num mor sz = push_bit 4 num OR (if mor \<noteq> 0 then 8 else 0) OR ?kw"
    using assms(3) by (simp add: block_value_def Let_def or.assoc)
  have f: "drop_bit 4 (block_value num mor sz) = num" "block_value num mor sz AND 7 = ?kw"
    "drop_bit 3 (block_value num mor sz AND 8) = (if mor \<noteq> 0 then 1 else 0)"
    "block_value num mor sz AND NOT 0xF = push_bit 4 num"
    unfolding v by (rule block_fields [OF num]; use kw assms(2) in simp)+
  have "\<forall>k\<in>set [0..<8]. ucast (push_bit k 16 :: u16) = (16 :: u32) * 2 ^ k"
    by code_simp
  then have "ucast (push_bit k 16 :: u16) = (16 :: u32) * 2 ^ k" using assms(2) by auto
  then have off: "push_bit k (push_bit 4 num) = num * ucast (push_bit k 16 :: u16)"
    by (simp add: push_bit_eq_mult)
  have "parse_block (block_value num mor sz) =
      (num, ucast (if mor \<noteq> 0 then 1 else 0 :: u32), push_bit (unat ?kw) 16, push_bit (unat ?kw) (push_bit 4 num))"
    by (simp only: parse_block_def f)
  then show ?thesis using off by (simp add: kw)
qed

lemma block_round_trip:
  assumes "block_ok num mor sz"
  shows "parse_block (block_value num mor sz) = (num, mor, sz, num * ucast sz)"
proof -
  obtain k where k: "k < 8" "coap_log_2 (sz div 16) = of_nat k" "sz = push_bit k 16"
    using assms block_size_log by (auto simp: block_ok_def)
  have "unat mor \<le> 1" using assms by (simp add: block_ok_def word_le_nat_alt)
  then have "unat mor = 0 \<or> unat mor = 1" by linarith
  then have "mor = 0 \<or> mor = 1" by (auto dest: unat_word_of)
  then show ?thesis
    using block_round_trip_log [OF _ k(1,2), of num mor] assms k(3) by (auto simp: block_ok_def)
qed

section \<open>Receiving the options of a packet\<close>

text \<open>
  Packets whose options survive the wire: a token bit exactly with a token, no empty accept list,
  strings that neither start nor end with their separator, block sizes that are powers of two, no
  Proxy-Uri, which the parser refuses, and no option number that is not serialised.
\<close>

definition splittable :: "u8 list coap_packet \<Rightarrow> nat \<Rightarrow> u8 \<Rightarrow> u8 list option \<Rightarrow> nat \<Rightarrow> bool" where
  "splittable p n sep ptr len \<longleftrightarrow> \<not> IS_OPTION p n \<or> take len (pointee ptr) = [] \<or>
     (hd (take len (pointee ptr)) \<noteq> sep \<and> last (take len (pointee ptr)) \<noteq> sep)"

definition sendable :: "u8 list coap_packet \<Rightarrow> bool" where
  "sendable p \<longleftrightarrow> packet_ok p \<and>
     (\<forall>n\<in>set [0..<40]. IS_OPTION p n \<longrightarrow> n \<in> set sent_numbers \<or> n = COAP_OPTION_TOKEN) \<and>
     \<not> IS_OPTION p COAP_OPTION_PROXY_URI \<and>
     (IS_OPTION p COAP_OPTION_TOKEN \<longleftrightarrow> token_len p \<noteq> 0) \<and>
     (\<not> IS_OPTION p COAP_OPTION_ACCEPT \<or> accept_num p \<noteq> 0) \<and>
     splittable p COAP_OPTION_LOCATION_PATH 0x2F (location_path p) (location_path_len p) \<and>
     splittable p COAP_OPTION_URI_PATH 0x2F (uri_path p) (uri_path_len p) \<and>
     splittable p COAP_OPTION_URI_QUERY 0x26 (uri_query p) (uri_query_len p) \<and>
     splittable p COAP_OPTION_LOCATION_QUERY 0x26 (location_query p) (location_query_len p) \<and>
     (\<not> IS_OPTION p COAP_OPTION_BLOCK2 \<or> block_ok (block2_num p) (block2_more p) (block2_size p)) \<and>
     (\<not> IS_OPTION p COAP_OPTION_BLOCK1 \<or> block_ok (block1_num p) (block1_more p) (block1_size p))"

lemma receive_all_append: "receive_all (xs @ ys) f = receive_all ys (receive_all xs f)"
proof (induction xs arbitrary: f)
  case (Cons x xs)
  then show ?case by (cases x) (simp add: fun_upd_def)
qed simp

lemma receive_pieces:
  assumes "distinct ns" "\<And>n. n \<in> set ns \<Longrightarrow> f n = None"
    and "\<And>n g. n \<in> set ns \<Longrightarrow> g n = None \<Longrightarrow> receive_all (option_piece p n) g n = option_value in_bytes p n"
  shows "receive_all (concat (map (option_piece p) ns)) f m =
     (if m \<in> set ns then option_value in_bytes p m else f m)"
  using assms
proof (induction ns arbitrary: f)
  case (Cons n ns)
  have other: "k \<noteq> n \<Longrightarrow> receive_all (option_piece p n) g k = g k" for k g
    by (simp add: option_piece_def receive_all_other)
  have "receive_all (concat (map (option_piece p) ns)) (receive_all (option_piece p n) f) m =
      (if m \<in> set ns then option_value in_bytes p m else receive_all (option_piece p n) f m)"
  proof (rule Cons.IH)
    show "receive_all (option_piece p n) f k = None" if "k \<in> set ns" for k
      using Cons.prems(1) Cons.prems(2) [of k] other [of k f] that by auto
  qed (use Cons.prems in auto)
  then show ?case using Cons.prems other by (auto simp: receive_all_append)
qed simp

lemma int_of_option_bytes: "int_of_bytes (int_option_bytes v) = v"
  by (simp add: int_of_bytes_def int_option_value)

lemma receive_single:
  assumes "option_piece p n = (if IS_OPTION p n then [(n, v)] else [])" "n < 40" "g n = None"
    "IS_OPTION p n \<Longrightarrow> received n v None = field_value in_bytes p n"
  shows "receive_all (option_piece p n) g n = option_value in_bytes p n"
  using assms by (simp add: option_value_def)

lemma receive_string:
  assumes "IS_OPTION p n \<Longrightarrow> sent_values p n = string_parts sep (take len (pointee ptr))"
    "splittable p n sep ptr len" "n < 40" "g n = None"
    "\<And>old v. received n v old = Bytes (joined sep old v)"
    "field_value in_bytes p n = Bytes (string_value in_bytes ptr len)"
  shows "receive_all (option_piece p n) g n = option_value in_bytes p n"
proof -
  have "string_value in_bytes ptr len = take len (pointee ptr)"
    by (simp add: string_value_def in_bytes_def pointee_def split: option.splits)
  then show ?thesis
    using assms receive_parts [of n sep "take len (pointee ptr)" g]
    by (auto simp: option_piece_def option_value_def splittable_def)
qed

lemma receive_accept:
  assumes "packet_ok p" "\<not> IS_OPTION p COAP_OPTION_ACCEPT \<or> accept_num p \<noteq> 0" "g COAP_OPTION_ACCEPT = None"
  shows "receive_all (option_piece p COAP_OPTION_ACCEPT) g COAP_OPTION_ACCEPT = option_value in_bytes p COAP_OPTION_ACCEPT"
proof (cases "IS_OPTION p COAP_OPTION_ACCEPT")
  case False
  then show ?thesis using assms(3) by (simp add: option_piece_def option_value_def)
next
  case True
  obtain a b where ab: "accept p = [a, b]" using assms(1)
    by (auto simp: packet_ok_def length_Suc_conv numeral_eq_Suc)
  have n: "unat (accept_num p) = 1 \<or> unat (accept_num p) = 2"
    using assms(1,2) True by (auto simp: packet_ok_def unat_eq_0 le_Suc_eq numeral_eq_Suc)
  have rt: "ucast (ucast x :: u32) = x" for x :: u16 by (rule bit_word_eqI) (auto simp: bit_simps)
  show ?thesis
    using n True assms(3)
    by (auto simp: option_piece_def option_value_def field_value_def sent_values_def received_def
        coap_option_defs ab int_of_option_bytes rt)
qed

lemma ucast_u16_u32: "ucast (ucast (x :: u16) :: u32) = x"
  by (rule bit_word_eqI) (auto simp: bit_simps)

lemma receive_sent_number:
  assumes "sendable p" "n \<in> set sent_numbers" "g n = None"
  shows "receive_all (option_piece p n) g n = option_value in_bytes p n"
proof -
  note ok = assms(1) [unfolded sendable_def]
  note lens = ok [THEN conjunct1, unfolded packet_ok_def]
  note single = receive_single [where p = p and n = n and g = g, OF _ _ assms(3)]
  note string = receive_string [where p = p and n = n and g = g, OF _ _ _ assms(3)]
  note defs = option_piece_def sent_values_def field_value_def received_def string_value_def in_bytes_def
    pointee_def coap_option_defs int_of_option_bytes ucast_u16_u32
  have block: "block_ok a b c \<Longrightarrow> block_data (block_value a b c) = Block a b c" for a b c
    by (simp add: block_data_def block_round_trip)
  consider "n = 1" | "n = 3" | "n = 4" | "n = 5" | "n = 6" | "n = 7" | "n = 8" | "n = 11" | "n = 12" | "n = 14"
    | "n = 15" | "n = 16" | "n = 20" | "n = 23" | "n = 27" | "n = 28" | "n = 35"
    using assms(2) by (auto simp: sent_numbers_def)
  then show ?thesis
  proof cases
    case 1 then show ?thesis by (intro single [where v = "take (unat (if_match_len p)) (if_match p)"])
        (use lens in \<open>simp_all add: defs\<close>)
  next
    case 2 then show ?thesis by (intro single [where v = "take (uri_host_len p) (pointee (uri_host p))"])
        (simp_all add: defs split: option.splits)
  next
    case 3 then show ?thesis by (intro single [where v = "take (unat (etag_len p)) (etag p)"])
        (use lens in \<open>simp_all add: defs\<close>)
  next
    case 4 then show ?thesis by (intro single [where v = "[]"]) (simp_all add: defs)
  next
    case 5 then show ?thesis by (intro single [where v = "int_option_bytes (ucast (observe p))"]) (simp_all add: defs)
  next
    case 6 then show ?thesis by (intro single [where v = "int_option_bytes (ucast (uri_port p))"]) (simp_all add: defs)
  next
    case 7 then show ?thesis by (intro string [where ptr = "location_path p" and len = "location_path_len p" and sep = "0x2F"])
        (use ok in \<open>simp_all add: defs\<close>)
  next
    case 8 then show ?thesis by (intro string [where ptr = "uri_path p" and len = "uri_path_len p" and sep = "0x2F"])
        (use ok in \<open>simp_all add: defs\<close>)
  next
    case 9 then show ?thesis by (intro single [where v = "int_option_bytes (content_type p)"]) (simp_all add: defs)
  next
    case 10 then show ?thesis by (intro single [where v = "int_option_bytes (max_age p)"]) (simp_all add: defs)
  next
    case 11 then show ?thesis by (intro string [where ptr = "uri_query p" and len = "uri_query_len p" and sep = "0x26"])
        (use ok in \<open>simp_all add: defs\<close>)
  next
    case 12 then show ?thesis using receive_accept [of p g] ok assms(3) by (simp add: coap_option_defs)
  next
    case 13 then show ?thesis by (intro string [where ptr = "location_query p" and len = "location_query_len p" and sep = "0x26"])
        (use ok in \<open>simp_all add: defs\<close>)
  next
    case 14 then show ?thesis
      by (intro single [where v = "int_option_bytes (block_value (block2_num p) (block2_more p) (block2_size p))"])
        (use ok in \<open>auto simp: defs block\<close>)
  next
    case 15 then show ?thesis
      by (intro single [where v = "int_option_bytes (block_value (block1_num p) (block1_more p) (block1_size p))"])
        (use ok in \<open>auto simp: defs block\<close>)
  next
    case 16 then show ?thesis by (intro single [where v = "int_option_bytes (psize p)"]) (simp_all add: defs)
  next
    case 17 then show ?thesis using ok assms(3) by (simp add: option_piece_def option_value_def coap_option_defs)
  qed
qed

lemma receive_options_of:
  assumes "sendable p" "\<And>n. n \<in> set sent_numbers \<Longrightarrow> f n = None"
  shows "receive_all (options_of p) f m = (if m \<in> set sent_numbers then option_value in_bytes p m else f m)"
  unfolding options_of_def
  by (rule receive_pieces) (use assms receive_sent_number in \<open>simp_all add: sent_numbers_def\<close>)

text \<open>The options of a packet come in the order of their numbers.\<close>

lemma option_sequence_append:
  "option_sequence cur (xs @ ys) \<longleftrightarrow> option_sequence cur xs \<and> option_sequence (last_number cur xs) ys"
proof (induction xs arbitrary: cur)
  case (Cons x xs)
  have "last_number cur (x # xs) = last_number (fst x) xs" by (simp add: last_number_def)
  then show ?case using Cons by (cases x) auto
qed (simp add: last_number_def)

lemma option_sequence_piece:
  assumes "cur \<le> n" "IS_OPTION p n \<Longrightarrow> acceptable n" "\<And>v. (n, v) \<in> set (option_piece p n) \<Longrightarrow> length v \<le> 65804"
  shows "option_sequence cur (option_piece p n)"
proof (cases "IS_OPTION p n")
  case True
  have "option_sequence cur (map (Pair n) vs)" if "\<And>v. v \<in> set vs \<Longrightarrow> length v \<le> 65804" "cur \<le> n" for vs cur
    using that
  proof (induction vs arbitrary: cur)
    case (Cons v vs)
    then show ?case using assms(2) [OF True] by simp
  qed simp
  then show ?thesis using assms True by (simp add: option_piece_def)
qed (simp add: option_piece_def)

lemma option_sequence_pieces:
  assumes "sorted ns" "\<And>n. n \<in> set ns \<Longrightarrow> cur \<le> n" "\<And>n. n \<in> set ns \<Longrightarrow> IS_OPTION p n \<Longrightarrow> acceptable n"
    "\<And>n v. (n, v) \<in> set (concat (map (option_piece p) ns)) \<Longrightarrow> length v \<le> 65804"
  shows "option_sequence cur (concat (map (option_piece p) ns))"
  using assms
proof (induction ns arbitrary: cur)
  case (Cons n ns)
  have "option_sequence cur (option_piece p n)"
    by (rule option_sequence_piece) (use Cons.prems in auto)
  moreover have "option_sequence (last_number cur (option_piece p n)) (concat (map (option_piece p) ns))"
  proof (rule Cons.IH)
    show "length v \<le> 65804" if "(k, v) \<in> set (concat (map (option_piece p) ns))" for k v
      using Cons.prems(4) [of k v] that by simp
  qed (use Cons.prems in \<open>auto simp: last_number_piece\<close>)
  ultimately show ?case by (simp add: option_sequence_append)
qed simp

lemma encoded_value_length:
  "(n, v) \<in> set os \<Longrightarrow> length v \<le> length (encode_options cur os)"
  by (induction cur os rule: encode_options.induct) auto

lemma options_of_sequence:
  assumes "sendable p" "length (encode_options 0 (options_of p)) \<le> 65804"
  shows "option_sequence 0 (options_of p)"
  unfolding options_of_def
proof (rule option_sequence_pieces)
  show "length v \<le> 65804" if "(n, v) \<in> set (concat (map (option_piece p) sent_numbers))" for n v
    using encoded_value_length [of n v "options_of p" 0] that assms(2) by (simp add: options_of_def)
  show "acceptable n" if "n \<in> set sent_numbers" "IS_OPTION p n" for n
    using that assms(1) by (auto simp: sent_numbers_def acceptable_def sendable_def coap_option_defs)
qed (simp_all add: sent_numbers_def)

section \<open>The whole message\<close>

lemma memset_options:
  "options (memset_packet p) = replicate 5 0" "n < 40 \<Longrightarrow> \<not> IS_OPTION (memset_packet p) n"
proof -
  show o: "options (memset_packet p) = replicate 5 0"
    by (simp only: memset_packet_def coap_packet.simps coap_option_defs OPTION_MAP_SIZE_def) simp
  show "\<not> IS_OPTION (memset_packet p) n" if "n < 40"
  proof -
    have "n div 8 < 5" using that by (simp add: less_mult_imp_div_less)
    then show ?thesis unfolding IS_OPTION_bit o by simp
  qed
qed

text \<open>The packet the option loop starts with.\<close>

definition token_value :: "u8 list \<Rightarrow> nat \<Rightarrow> option_data option" where
  "token_value tok n = (if n = COAP_OPTION_TOKEN \<and> tok \<noteq> [] then Some (Bytes tok) else None)"

definition start_packet :: "nat coap_packet \<Rightarrow> coap_message_type \<Rightarrow> u8 \<Rightarrow> u16 \<Rightarrow> u8 list \<Rightarrow> nat coap_packet" where
  "start_packet q t c m tok =
     (let p = (memset_packet q)\<lparr>buffer := Some 0, version := 1, mtype := t, token_len := of_nat (length tok),
                                code := c, mid := m\<rparr>
      in if tok = [] then p
         else SET_OPTION (p\<lparr>token := tok @ replicate (8 - length tok) 0\<rparr>) COAP_OPTION_TOKEN)"

lemma start_packet_header:
  "version (start_packet q t c m tok) = 1" "mtype (start_packet q t c m tok) = t"
  "code (start_packet q t c m tok) = c" "mid (start_packet q t c m tok) = m"
  "token_len (start_packet q t c m tok) = of_nat (length tok)"
  "payload (start_packet q t c m tok) = None" "payload_len (start_packet q t c m tok) = 0"
  "tok \<noteq> [] \<Longrightarrow> token (start_packet q t c m tok) = tok @ replicate (8 - length tok) 0"
  by (simp_all add: start_packet_def Let_def SET_OPTION_def memset_packet_def)

lemma start_packet_is_option:
  assumes "n < 40"
  shows "IS_OPTION (start_packet q t c m tok) n \<longleftrightarrow> n = COAP_OPTION_TOKEN \<and> tok \<noteq> []"
proof -
  let ?p = "(memset_packet q)\<lparr>buffer := Some 0, version := 1, mtype := t, token_len := of_nat (length tok),
      code := c, mid := m\<rparr>"
  have clear: "\<not> IS_OPTION ?p n" "\<not> IS_OPTION (?p\<lparr>token := y\<rparr>) n" for y
    using memset_options(2) [OF assms, of q] by (simp_all add: IS_OPTION_def)
  have "length (options (?p\<lparr>token := y\<rparr>)) = 5" "COAP_OPTION_TOKEN < 40" for y
    by (simp_all add: memset_options coap_option_defs)
  then have "IS_OPTION (SET_OPTION (?p\<lparr>token := y\<rparr>) COAP_OPTION_TOKEN) n \<longleftrightarrow> n = COAP_OPTION_TOKEN" for y
    using IS_OPTION_SET_OPTION [OF _ _ assms] clear(2) by blast
  then show ?thesis using clear(1)
    by (cases "tok = []") (simp_all add: start_packet_def Let_def)
qed

lemma start_packet_ok:
  "arrays_ok (start_packet q t c m tok)" "spans_ok 0 k (start_packet q t c m tok)"
proof -
  have "length (options (start_packet q t c m tok)) = 5"
    by (simp add: start_packet_def Let_def memset_options)
  moreover have "\<not> IS_OPTION (start_packet q t c m tok) COAP_OPTION_PROXY_URI"
    by (simp add: start_packet_is_option coap_option_defs)
  ultimately show "arrays_ok (start_packet q t c m tok)"
    by (simp add: arrays_ok_def) (simp add: start_packet_def Let_def SET_OPTION_def memset_packet_def
      COAP_ETAG_LEN_def COAP_MAX_ACCEPT_NUM_def)
  have "slen (start_packet q t c m tok) j = 0" for j
    by (simp add: slen_def start_packet_def Let_def SET_OPTION_def memset_packet_def)
  then show "spans_ok 0 k (start_packet q t c m tok)"
    by (simp add: spans_ok_def span_ok_def)
qed

lemma start_packet_value:
  assumes "length tok \<le> 8"
  shows "option_value get (start_packet q t c m tok) = token_value tok"
proof
  fix n
  have "unat (of_nat (length tok) :: u8) = length tok" using assms by (intro unat_of_nat_u8) simp
  then show "option_value get (start_packet q t c m tok) n = token_value tok n"
    using start_packet_is_option [of n q t c m tok] start_packet_header(5) [of q t c m tok] start_packet_header(8) [of tok q t c m]
    by (auto simp: option_value_def token_value_def field_value_def coap_option_defs)
qed

lemma parse_message_encoded:
  assumes tok: "length tok \<le> 8" and os: "option_sequence 0 os"
    and data: "data = header_bytes h @ tok @ encode_options 0 os @ payload_section bs"
    and h: "version h = 1" "token_len h = of_nat (length tok)" and len: "length data < 2 ^ 16"
  shows "\<exists>q' data'. coap_parse_message q data (of_nat (length data)) = Some (NO_ERROR, q', data') \<and>
     length data' = length data \<and> version q' = 1 \<and> mtype q' = mtype h \<and> code q' = code h \<and> mid q' = mid h \<and>
     option_value (in_data data') q' = receive_all os (token_value tok) \<and>
     (if bs = [] then payload q' = None \<and> payload_len q' = 0
      else \<exists>a. payload q' = Some a \<and> payload_len q' = of_nat (length bs) \<and> in_data data' a (length bs) = bs)"
proof -
  let ?p = "start_packet q (mtype h) (code h) (mid h) tok"
  obtain b0 b1 b2 b3 where hb: "header_bytes h = [b0, b1, b2, b3]" by (simp add: header_bytes_def)
  have w: "unat (token_len h) = length tok" using h(2) tok by (simp add: unat_of_nat_u8)
  have b0: "b0 = (0xC0 AND push_bit 6 1) OR (0x30 AND push_bit 4 (type_bits (mtype h))) OR (0x0F AND push_bit 0 (token_len h))"
    and b123: "b1 = code h" "push_bit 8 (ucast b2) OR ucast b3 = mid h"
    using hb h(1) mid_bytes [of "mid h"] by (auto simp: header_bytes_def)
  have f: "drop_bit 6 (0xC0 AND b0) = 1" "bits_type (drop_bit 4 (0x30 AND b0)) = mtype h" "0x0F AND b0 = token_len h"
    unfolding b0 by (rule first_byte, use w tok in simp)+
  have rds: "rd data 0 = Some b0" "rd data 1 = Some b1" "rd data 2 = Some b2" "rd data 3 = Some b3"
    unfolding data hb by (simp_all add: rd_def numeral_eq_Suc)
  have sl: "slice data COAP_HEADER_LEN (length tok) = Some tok"
    unfolding data hb by (simp add: slice_def COAP_HEADER_LEN_def)
  have put: "put (replicate 8 0) 0 tok = Some (tok @ replicate (8 - length tok) 0)"
    using tok by (simp add: put_def)
  have n: "unat (of_nat (length data) :: u16) = length data"
    using len by (simp add: unat_of_nat take_bit_nat_eq_self)
  have tl: "unat (of_nat (length tok) :: u8) = length tok" using tok by (simp add: unat_of_nat_u8)
  have zero: "token (memset_packet q) = replicate 8 0" by (simp add: memset_packet_def COAP_TOKEN_LEN_def)
  have set: "token_len (SET_OPTION x n) = token_len x" for x :: "nat coap_packet" and n by (simp add: SET_OPTION_def)
  have l: "length (header_bytes h @ tok) = 4 + length tok" by (simp add: hb)
  have start: "coap_parse_message q data (of_nat (length data)) =
      parse_options data (length data) (length (header_bytes h @ tok)) 0 ?p"
  proof (cases "tok = []")
    case True
    then show ?thesis unfolding l using rds f b123 w n h(2)
      by (simp add: coap_parse_message_def Let_def start_packet_def COAP_TOKEN_LEN_def COAP_HEADER_LEN_def
          del: bits_type.simps push_bit_and drop_bit_and)
  next
    case False
    then have "of_nat (length tok) \<noteq> (0 :: u8)" using tl by (metis length_0_conv unat_0)
    then show ?thesis unfolding l using False rds f b123 sl put w n tok h(2) tl zero
      by (simp add: coap_parse_message_def Let_def start_packet_def COAP_TOKEN_LEN_def COAP_HEADER_LEN_def set
          del: bits_type.simps push_bit_and drop_bit_and)
  qed
  have "data = (header_bytes h @ tok) @ encode_options 0 os @ payload_section bs" using data by simp
  then obtain p' data' where r: "parse_options data (length data) (length (header_bytes h @ tok)) 0 ?p = Some (NO_ERROR, p', data')"
    "length data' = length data" "option_value (in_data data') p' = receive_all os (option_value (in_data data) ?p)"
    "version p' = version ?p" "mtype p' = mtype ?p" "code p' = code ?p" "mid p' = mid ?p" "payload_parsed bs data' ?p p'"
    using parse_options_encoded [OF start_packet_ok(1) start_packet_ok(2) order_refl os _ refl] by blast
  show ?thesis
    using start r start_packet_value [OF tok] start_packet_header
    by (intro exI [of _ p'] exI [of _ data']) (auto simp: payload_parsed_def)
qed

text \<open>What a sendable packet sends is what it says.\<close>

lemma receive_message:
  assumes "sendable p"
  shows "receive_all (options_of p) (token_value (take (unat (token_len p)) (token p))) = option_value in_bytes p"
proof
  fix m
  let ?tok = "take (unat (token_len p)) (token p)"
  have none: "token_value ?tok n = None" if "n \<in> set sent_numbers" for n
    using that by (auto simp: token_value_def sent_numbers_def coap_option_defs)
  have tok: "?tok \<noteq> [] \<longleftrightarrow> IS_OPTION p COAP_OPTION_TOKEN"
    using assms by (auto simp: sendable_def packet_ok_def unat_eq_0)
  have only: "m = COAP_OPTION_TOKEN" if "m \<notin> set sent_numbers" "m < 40" "IS_OPTION p m"
    using assms that by (auto simp: sendable_def)
  have val: "field_value in_bytes p COAP_OPTION_TOKEN = Bytes ?tok" "COAP_OPTION_TOKEN < 40"
    by (simp_all add: field_value_def coap_option_defs)
  have "token_value ?tok m = option_value in_bytes p m" if "m \<notin> set sent_numbers"
  proof (cases "m = COAP_OPTION_TOKEN")
    case True
    then show ?thesis using tok val by (simp only: token_value_def option_value_def simp_thms)
  next
    case False
    then show ?thesis using only [OF that] by (auto simp: token_value_def option_value_def)
  qed
  then show "receive_all (options_of p) (token_value ?tok) m = option_value in_bytes p m"
    by (simp add: receive_options_of [OF assms none])
qed

end
