(* ===== verification/Coap_Build.thy ===== *)
theory Coap_Build
  imports Coap_Roundtrip
begin

text \<open>
  The packets the setters of er-coap-13.c build, and the variables of a form in a payload.
\<close>

section \<open>Packets built by the setters\<close>

text \<open>
  The packets an application can build from \<open>coap_init_message\<close>.  The setters of Uri-Query and
  Location-Path are left out: without \<open>OMA_LWM2M\<close> they set the option without storing the string.
\<close>

inductive built :: "u8 list coap_packet \<Rightarrow> bool" where
  init: "built (coap_init_message q t c m)"
| status: "built p \<Longrightarrow> coap_set_status_code p c = (r, p') \<Longrightarrow> built p'"
| content_type: "built p \<Longrightarrow> coap_set_header_content_type p v = (r, p') \<Longrightarrow> built p'"
| accept: "built p \<Longrightarrow> coap_set_header_accept p a = (r, p') \<Longrightarrow> built p'"
| max_age: "built p \<Longrightarrow> coap_set_header_max_age p v = (r, p') \<Longrightarrow> built p'"
| etag: "built p \<Longrightarrow> coap_set_header_etag p bs n = Some (r, p') \<Longrightarrow> built p'"
| if_match: "built p \<Longrightarrow> coap_set_header_if_match p bs n = Some (r, p') \<Longrightarrow> built p'"
| if_none_match: "built p \<Longrightarrow> coap_set_header_if_none_match p = (r, p') \<Longrightarrow> built p'"
| token: "built p \<Longrightarrow> coap_set_header_token p bs n = Some (r, p') \<Longrightarrow> built p'"
| proxy_uri: "built p \<Longrightarrow> coap_set_header_proxy_uri p s = Some (r, p') \<Longrightarrow> built p'"
| uri_host: "built p \<Longrightarrow> coap_set_header_uri_host p s = Some (r, p') \<Longrightarrow> built p'"
| uri_path: "built p \<Longrightarrow> coap_set_header_uri_path p s = Some (r, p') \<Longrightarrow> built p'"
| location_query: "built p \<Longrightarrow> coap_set_header_location_query p s = Some (r, p') \<Longrightarrow> built p'"
| observe: "built p \<Longrightarrow> coap_set_header_observe p v = (r, p') \<Longrightarrow> built p'"
| block2: "built p \<Longrightarrow> coap_set_header_block2 p num mor sz = (r, p') \<Longrightarrow> built p'"
| block1: "built p \<Longrightarrow> coap_set_header_block1 p num mor sz = (r, p') \<Longrightarrow> built p'"
| psize: "built p \<Longrightarrow> coap_set_header_size p v = (r, p') \<Longrightarrow> built p'"
| payload: "built p \<Longrightarrow> n \<le> length bs \<Longrightarrow> n < 2 ^ 16 \<Longrightarrow> coap_set_payload p (Some bs) n = (r, p') \<Longrightarrow> built p'"

lemma strlen_less: "strlen s = Some n \<Longrightarrow> n < length s"
proof -
  have "0 \<in> set s \<Longrightarrow> length (takeWhile (\<lambda>c. c \<noteq> 0) s) < length s" by (induction s) auto
  then show "strlen s = Some n \<Longrightarrow> n < length s" by (auto simp: strlen_def split: if_splits)
qed

text \<open>Setting a bit keeps a packet readable when the string of that option is.\<close>

lemma packet_ok_set_option:
  assumes "packet_ok p" "n < 40"
    and "n = COAP_OPTION_URI_HOST \<Longrightarrow> uri_host_len p < length (pointee (uri_host p))"
    and "n = COAP_OPTION_URI_PATH \<Longrightarrow> uri_path_len p < length (pointee (uri_path p))"
    and "n = COAP_OPTION_LOCATION_QUERY \<Longrightarrow> location_query_len p < length (pointee (location_query p))"
    and "n = COAP_OPTION_PROXY_URI \<Longrightarrow> proxy_uri_len p < length (pointee (proxy_uri p))"
    and "n \<noteq> COAP_OPTION_URI_QUERY" "n \<noteq> COAP_OPTION_LOCATION_PATH"
  shows "packet_ok (SET_OPTION p n)"
proof -
  let ?q = "SET_OPTION p n"
  have len: "length (options p) = 5" using assms(1) by (simp add: packet_ok_def)
  have new: "readable ?q k ptr l" if "readable p k ptr l" "n = k \<Longrightarrow> l < length (pointee ptr)" "k < 40" for k ptr l
    using that IS_OPTION_SET_OPTION [OF len assms(2), of k] by (auto simp: readable_def)
  have old: "readable p COAP_OPTION_URI_HOST (uri_host p) (uri_host_len p)"
    "readable p COAP_OPTION_URI_PATH (uri_path p) (uri_path_len p)"
    "readable p COAP_OPTION_LOCATION_QUERY (location_query p) (location_query_len p)"
    "readable p COAP_OPTION_PROXY_URI (proxy_uri p) (proxy_uri_len p)"
    "readable p COAP_OPTION_URI_QUERY (uri_query p) (uri_query_len p)"
    "readable p COAP_OPTION_LOCATION_PATH (location_path p) (location_path_len p)"
    using assms(1) by (simp_all add: packet_ok_def)
  have lt: "COAP_OPTION_URI_HOST < 40" "COAP_OPTION_URI_PATH < 40" "COAP_OPTION_LOCATION_QUERY < 40"
    "COAP_OPTION_PROXY_URI < 40" "COAP_OPTION_URI_QUERY < 40" "COAP_OPTION_LOCATION_PATH < 40"
    by (simp_all add: coap_option_defs)
  have r: "readable ?q COAP_OPTION_URI_HOST (uri_host p) (uri_host_len p)"
    "readable ?q COAP_OPTION_URI_PATH (uri_path p) (uri_path_len p)"
    "readable ?q COAP_OPTION_LOCATION_QUERY (location_query p) (location_query_len p)"
    "readable ?q COAP_OPTION_PROXY_URI (proxy_uri p) (proxy_uri_len p)"
    "readable ?q COAP_OPTION_URI_QUERY (uri_query p) (uri_query_len p)"
    "readable ?q COAP_OPTION_LOCATION_PATH (location_path p) (location_path_len p)"
    using new [OF old(1) assms(3) lt(1)] new [OF old(2) assms(4) lt(2)] new [OF old(3) assms(5) lt(3)]
      new [OF old(4) assms(6) lt(4)] new [OF old(5) _ lt(5)] new [OF old(6) _ lt(6)] assms(7,8) by simp_all
  have fields: "etag ?q = etag p" "if_match ?q = if_match p" "token ?q = token p" "accept ?q = accept p"
    "etag_len ?q = etag_len p" "if_match_len ?q = if_match_len p" "token_len ?q = token_len p"
    "accept_num ?q = accept_num p" "payload ?q = payload p" "payload_len ?q = payload_len p"
    "uri_host ?q = uri_host p" "uri_host_len ?q = uri_host_len p" "uri_path ?q = uri_path p"
    "uri_path_len ?q = uri_path_len p" "uri_query ?q = uri_query p" "uri_query_len ?q = uri_query_len p"
    "location_path ?q = location_path p" "location_path_len ?q = location_path_len p"
    "location_query ?q = location_query p" "location_query_len ?q = location_query_len p"
    "proxy_uri ?q = proxy_uri p" "proxy_uri_len ?q = proxy_uri_len p"
    by (simp_all add: SET_OPTION_def)
  show ?thesis
    using assms(1) r by (simp add: packet_ok_def fields)
qed

lemma packet_ok_init: "packet_ok (coap_init_message q t c m)"
proof -
  have "\<not> IS_OPTION (coap_init_message q t c m) n" if "n < 40" for n
    using memset_options(2) [OF that, of q] by (simp add: coap_init_message_def IS_OPTION_def)
  then show ?thesis
    by (simp add: packet_ok_def readable_def coap_option_defs)
      (simp add: coap_init_message_def memset_packet_def COAP_ETAG_LEN_def COAP_TOKEN_LEN_def COAP_MAX_ACCEPT_NUM_def
        OPTION_MAP_SIZE_def coap_option_defs)
qed

lemma copy_bytes_length: "copy_bytes array src n = Some bs \<Longrightarrow> length bs = length array"
  by (auto simp: copy_bytes_def bind_eq_Some_conv dest: put_SomeD)

lemma packet_ok_frame:
  "packet_ok (p\<lparr>code := a\<rparr>) = packet_ok p" "packet_ok (p\<lparr>content_type := v\<rparr>) = packet_ok p"
  "packet_ok (p\<lparr>max_age := v\<rparr>) = packet_ok p" "packet_ok (p\<lparr>observe := x\<rparr>) = packet_ok p"
  "packet_ok (p\<lparr>psize := v\<rparr>) = packet_ok p"
  "packet_ok (p\<lparr>block2_num := v, block2_more := a, block2_size := x\<rparr>) = packet_ok p"
  "packet_ok (p\<lparr>block1_num := v, block1_more := a, block1_size := x\<rparr>) = packet_ok p"
  by (simp_all add: packet_ok_def readable_def IS_OPTION_def)

lemma packet_ok_arrays:
  assumes "packet_ok p" "n \<le> 8" "length bs = 8"
  shows "packet_ok (p\<lparr>etag_len := of_nat n, etag := bs\<rparr>)" "packet_ok (p\<lparr>if_match_len := of_nat n, if_match := bs\<rparr>)"
    "packet_ok (p\<lparr>token_len := of_nat n, token := bs\<rparr>)"
  using assms by (simp_all add: packet_ok_def readable_def IS_OPTION_def unat_of_nat_u8)

lemma packet_ok_strings:
  assumes "packet_ok p" "n < length s"
  shows "packet_ok (p\<lparr>uri_host := Some s, uri_host_len := n\<rparr>)" "packet_ok (p\<lparr>uri_path := Some s, uri_path_len := n\<rparr>)"
    "packet_ok (p\<lparr>location_query := Some s, location_query_len := n\<rparr>)" "packet_ok (p\<lparr>proxy_uri := Some s, proxy_uri_len := n\<rparr>)"
  using assms by (simp_all add: packet_ok_def readable_def IS_OPTION_def pointee_def)

lemma packet_ok_lengths:
  assumes "packet_ok p"
  shows "length (etag p) = 8" "length (if_match p) = 8" "length (token p) = 8"
  using assms by (simp_all add: packet_ok_def)

lemma packet_ok_setters:
  assumes "packet_ok p"
  shows "packet_ok (snd (coap_set_status_code p st))" "packet_ok (snd (coap_set_header_content_type p v))"
    "packet_ok (snd (coap_set_header_accept p a))" "packet_ok (snd (coap_set_header_max_age p v))"
    "packet_ok (snd (coap_set_header_if_none_match p))" "packet_ok (snd (coap_set_header_observe p v))"
    "packet_ok (snd (coap_set_header_block2 p num mor sz))" "packet_ok (snd (coap_set_header_block1 p num mor sz))"
    "packet_ok (snd (coap_set_header_size p v))"
proof -
  have set: "packet_ok (SET_OPTION q n)" if "packet_ok q" "n \<in> {5, 6, 12, 14, 16, 23, 27, 28}" for q n
    by (rule packet_ok_set_option [OF that(1)]) (use that(2) in \<open>auto simp: coap_option_defs\<close>)
  show "packet_ok (snd (coap_set_status_code p st))"
    using assms by (simp add: coap_set_status_code_def packet_ok_frame)
  show "packet_ok (snd (coap_set_header_content_type p v))" "packet_ok (snd (coap_set_header_max_age p v))"
    "packet_ok (snd (coap_set_header_if_none_match p))" "packet_ok (snd (coap_set_header_observe p v))"
    "packet_ok (snd (coap_set_header_block2 p num mor sz))" "packet_ok (snd (coap_set_header_block1 p num mor sz))"
    "packet_ok (snd (coap_set_header_size p v))"
    using assms by (simp_all add: coap_set_header_content_type_def coap_set_header_max_age_def
        coap_set_header_if_none_match_def coap_set_header_observe_def coap_set_header_block2_def
        coap_set_header_block1_def coap_set_header_size_def set packet_ok_frame coap_option_defs)
  show "packet_ok (snd (coap_set_header_accept p a))"
  proof (cases "unat (accept_num p) < 2")
    case True
    then have "unat (accept_num p + 1) \<le> 2" by (simp add: unat_word_ariths)
    then have "packet_ok (p\<lparr>accept := (accept p)[unat (accept_num p) := a], accept_num := accept_num p + 1\<rparr>)"
      using assms by (simp add: packet_ok_def readable_def IS_OPTION_def)
    then show ?thesis using True by (simp add: coap_set_header_accept_def Let_def COAP_MAX_ACCEPT_NUM_def set coap_option_defs)
  next
    case False
    then show ?thesis using assms by (simp add: coap_set_header_accept_def Let_def COAP_MAX_ACCEPT_NUM_def)
  qed
qed

lemma packet_ok_byte_setters:
  assumes "packet_ok p"
  shows "coap_set_header_etag p bs n = Some (r, p') \<Longrightarrow> packet_ok p'"
    "coap_set_header_if_match p bs n = Some (r, p') \<Longrightarrow> packet_ok p'"
    "coap_set_header_token p bs n = Some (r, p') \<Longrightarrow> packet_ok p'"
proof -
  have set: "packet_ok (SET_OPTION q k)" if "packet_ok q" "k \<in> {1, 4, 19}" for q k
    by (rule packet_ok_set_option [OF that(1)]) (use that(2) in \<open>auto simp: coap_option_defs\<close>)
  have arr: "packet_ok (p\<lparr>etag_len := of_nat (min 8 n), etag := b\<rparr>)" "packet_ok (p\<lparr>if_match_len := of_nat (min 8 n), if_match := b\<rparr>)"
    "packet_ok (p\<lparr>token_len := of_nat (min 8 n), token := b\<rparr>)" if "length b = 8" for b
    by (rule packet_ok_arrays [OF assms _ that], simp)+
  show "packet_ok p'" if "coap_set_header_etag p bs n = Some (r, p')"
    using that packet_ok_lengths [OF assms] arr(1) set
    by (auto simp: coap_set_header_etag_def Let_def bind_eq_Some_conv COAP_ETAG_LEN_def coap_option_defs dest!: copy_bytes_length)
  show "packet_ok p'" if "coap_set_header_if_match p bs n = Some (r, p')"
    using that packet_ok_lengths [OF assms] arr(2) set
    by (auto simp: coap_set_header_if_match_def Let_def bind_eq_Some_conv COAP_ETAG_LEN_def coap_option_defs dest!: copy_bytes_length)
  show "packet_ok p'" if "coap_set_header_token p bs n = Some (r, p')"
    using that packet_ok_lengths [OF assms] arr(3) set
    by (auto simp: coap_set_header_token_def Let_def bind_eq_Some_conv COAP_TOKEN_LEN_def coap_option_defs dest!: copy_bytes_length)
qed

lemma packet_ok_string_setters:
  assumes "packet_ok p"
  shows "coap_set_header_proxy_uri p s = Some (r, p') \<Longrightarrow> packet_ok p'"
    "coap_set_header_uri_host p s = Some (r, p') \<Longrightarrow> packet_ok p'"
    "coap_set_header_uri_path p s = Some (r, p') \<Longrightarrow> packet_ok p'"
    "coap_set_header_location_query p s = Some (r, p') \<Longrightarrow> packet_ok p'"
proof -
  note str = packet_ok_strings [OF assms strlen_less]
  have set: "packet_ok (SET_OPTION (p\<lparr>proxy_uri := Some x, proxy_uri_len := n\<rparr>) COAP_OPTION_PROXY_URI)"
    "packet_ok (SET_OPTION (p\<lparr>uri_host := Some x, uri_host_len := n\<rparr>) COAP_OPTION_URI_HOST)"
    "packet_ok (SET_OPTION (p\<lparr>uri_path := Some x, uri_path_len := n\<rparr>) COAP_OPTION_URI_PATH)"
    "packet_ok (SET_OPTION (p\<lparr>location_query := Some x, location_query_len := n\<rparr>) COAP_OPTION_LOCATION_QUERY)"
    if "strlen x = Some n" for x n
    by (rule packet_ok_set_option, rule str [OF that],
        use strlen_less [OF that] in \<open>simp_all add: pointee_def coap_option_defs\<close>)+
  show "packet_ok p'" if "coap_set_header_proxy_uri p s = Some (r, p')"
    using that set(1) by (auto simp: coap_set_header_proxy_uri_def bind_eq_Some_conv)
  show "packet_ok p'" if "coap_set_header_uri_host p s = Some (r, p')"
    using that set(2) by (auto simp: coap_set_header_uri_host_def bind_eq_Some_conv)
  show "packet_ok p'" if "coap_set_header_uri_path p s = Some (r, p')"
    using that set(3) by (auto simp: coap_set_header_uri_path_def Let_def bind_eq_Some_conv)
  show "packet_ok p'" if "coap_set_header_location_query p s = Some (r, p')"
    using that set(4) by (auto simp: coap_set_header_location_query_def Let_def bind_eq_Some_conv)
qed

lemma built_packet_ok: "built p \<Longrightarrow> packet_ok p"
proof (induction p rule: built.induct)
  case (init q t c m)
  show ?case by (rule packet_ok_init)
next
  case (status p c r p')
  then show ?case using packet_ok_setters(1) [of p c] by simp
next
  case (content_type p v r p')
  then show ?case using packet_ok_setters(2) [of p v] by simp
next
  case (accept p a r p')
  then show ?case using packet_ok_setters(3) [of p a] by simp
next
  case (max_age p v r p')
  then show ?case using packet_ok_setters(4) [of p v] by simp
next
  case (if_none_match p r p')
  then show ?case using packet_ok_setters(5) [of p] by simp
next
  case (observe p v r p')
  then show ?case using packet_ok_setters(6) [of p v] by simp
next
  case (block2 p num mor sz r p')
  then show ?case using packet_ok_setters(7) [of p num mor sz] by simp
next
  case (block1 p num mor sz r p')
  then show ?case using packet_ok_setters(8) [of p num mor sz] by simp
next
  case (psize p v r p')
  then show ?case using packet_ok_setters(9) [of p v] by simp
next
  case (payload p n bs r p')
  have "unat (of_nat n :: u16) = n" using payload(3) by (simp add: unat_of_nat take_bit_nat_eq_self)
  moreover have "p' = p\<lparr>payload := Some bs, payload_len := of_nat n\<rparr>"
    using payload(4) by (auto simp: coap_set_payload_def Let_def)
  ultimately show ?case
    using payload(2,5) by (simp add: packet_ok_def readable_def IS_OPTION_def pointee_def)
qed (blast intro: packet_ok_byte_setters packet_ok_string_setters)+

section \<open>Variables of a form\<close>

text \<open>The loop passes over positions where no variable of the name starts.\<close>

lemma get_variable_skip:
  assumes "s \<le> s'" "\<And>i. s \<le> i \<Longrightarrow> i < s' \<Longrightarrow> i + length name < len \<Longrightarrow> \<not> is_variable_at buf name i"
  shows "get_variable_loop buf len name s = get_variable_loop buf len name s'"
  using assms
proof (induction "s' - s" arbitrary: s)
  case (Suc d)
  then have "s < s'" by simp
  show ?case
  proof (cases "s + length name < len")
    case True
    then have "get_variable_loop buf len name s = get_variable_loop buf len name (Suc s)"
      using Suc.prems(2) [of s] \<open>s < s'\<close> by (subst get_variable_loop.simps) simp
    then show ?thesis using Suc(1) [of "Suc s"] Suc(2,4) \<open>s < s'\<close> by simp
  next
    case False
    then show ?thesis
      using \<open>s < s'\<close> by (subst (1 2) get_variable_loop.simps) simp
  qed
qed simp

text \<open>A form as it is sent: \<open>name=value\<close> pairs joined with ampersands.\<close>

fun form_bytes :: "(u8 list \<times> u8 list) list \<Rightarrow> u8 list" where
  "form_bytes [] = []"
| "form_bytes [(k, v)] = k @ 0x3D # v"
| "form_bytes ((k, v) # kv # kvs) = k @ 0x3D # v @ 0x26 # form_bytes (kv # kvs)"

definition form_ok :: "(u8 list \<times> u8 list) list \<Rightarrow> bool" where
  "form_ok kvs \<longleftrightarrow> (\<forall>(k, v)\<in>set kvs. 0x3D \<notin> set k \<and> 0x26 \<notin> set k \<and> 0x26 \<notin> set v)"

lemma variable_at_pair:
  assumes "pre = [] \<or> last pre = 0x26" "0x3D \<notin> set k" "0x3D \<notin> set name"
  shows "is_variable_at (pre @ k @ 0x3D # rest) name (length pre) \<longleftrightarrow> k = name"
proof
  let ?buf = "pre @ k @ 0x3D # rest"
  assume v: "is_variable_at ?buf name (length pre)"
  then have eq: "?buf ! (length pre + length name) = 0x3D" "take (length name) (k @ 0x3D # rest) = name"
    by (simp_all add: is_variable_at_def)
  have "length name \<le> length k"
  proof (rule ccontr)
    assume "\<not> ?thesis"
    then have "0x3D \<in> set (take (length name) (k @ 0x3D # rest))"
      by (auto simp: take_Cons')
    then show False unfolding eq(2) using assms(3) by simp
  qed
  moreover have "\<not> length name < length k"
  proof
    assume "length name < length k"
    then have "k ! length name = 0x3D" using eq(1) by (simp add: nth_append)
    then show False using assms(2) \<open>length name < length k\<close> by (metis nth_mem)
  qed
  ultimately show "k = name" using eq(2) by simp
next
  assume "k = name"
  then show "is_variable_at (pre @ k @ 0x3D # rest) name (length pre)"
    using assms(1) by (cases "pre = []") (simp_all add: is_variable_at_def nth_append last_conv_nth)
qed

lemma no_variable_inside:
  assumes "0x26 \<notin> set inner" "length pre < i" "i \<le> length pre + length inner"
  shows "\<not> is_variable_at (pre @ inner @ rest) name i"
proof -
  have "(pre @ inner @ rest) ! (i - 1) = inner ! (i - 1 - length pre)" "i - 1 - length pre < length inner"
    using assms(2,3) by (auto simp: nth_append)
  then have "(pre @ inner @ rest) ! (i - 1) \<noteq> 0x26" using assms(1) by (metis nth_mem)
  then show ?thesis using assms(2) by (simp add: is_variable_at_def)
qed

lemma get_variable_form:
  assumes "form_ok kvs" "0x3D \<notin> set name" "pre = [] \<or> last pre = 0x26" "buf = pre @ form_bytes kvs"
  shows "case get_variable_loop buf (length buf) name (length pre) of
      (Some a, n) \<Rightarrow> map_of kvs name = Some (take n (drop a buf)) \<and> a + n \<le> length buf
    | (None, n) \<Rightarrow> map_of kvs name = None \<and> n = 0"
  using assms
proof (induction kvs arbitrary: pre rule: form_bytes.induct)
  case 1
  then show ?case by (subst get_variable_loop.simps) simp
next
  case (2 k v)
  then have kv: "0x3D \<notin> set k" "0x26 \<notin> set k" "0x26 \<notin> set v" by (simp_all add: form_ok_def)
  note here = variable_at_pair [OF 2(3) kv(1) 2(2), of v]
  show ?case
  proof (cases "k = name")
    case True
    moreover have tw: "takeWhile (\<lambda>c. c \<noteq> 0x26) v = v" using kv(3) by (simp add: takeWhile_eq_all_conv) blast
    ultimately show ?thesis using here 2(4) by (subst get_variable_loop.simps) (simp add: Let_def tw)
  next
    case False
    have "get_variable_loop buf (length buf) name (length pre) = get_variable_loop buf (length buf) name (length buf)"
    proof (rule get_variable_skip)
      fix i assume i: "length pre \<le> i" "i < length buf"
      show "\<not> is_variable_at buf name i"
        using here False i no_variable_inside [of "k @ 0x3D # v" pre i "[]" name] kv 2(4)
        by (cases "i = length pre") auto
    qed (use 2(4) in simp)
    then show ?thesis using False by (subst (asm) (2) get_variable_loop.simps) simp
  qed
next
  case (3 k v kv kvs)
  have kv: "0x3D \<notin> set k" "0x26 \<notin> set k" "0x26 \<notin> set v" "form_ok (kv # kvs)" using 3(2) by (auto simp: form_ok_def)
  let ?rest = "v @ 0x26 # form_bytes (kv # kvs)"
  note here = variable_at_pair [OF 3(4) kv(1) 3(3), of ?rest]
  show ?case
  proof (cases "k = name")
    case True
    have tw: "takeWhile (\<lambda>c. c \<noteq> 0x26) ?rest = v" using kv(3) by (rule takeWhile_split)
    then show ?thesis using here True 3(5) by (subst get_variable_loop.simps) (simp add: Let_def tw)
  next
    case False
    let ?pre = "pre @ k @ 0x3D # v @ [0x26]"
    have skip: "get_variable_loop buf (length buf) name (length pre) = get_variable_loop buf (length buf) name (length ?pre)"
    proof (rule get_variable_skip)
      fix i assume i: "length pre \<le> i" "i < length ?pre"
      show "\<not> is_variable_at buf name i"
        using here False i no_variable_inside [of "k @ 0x3D # v" pre i "0x26 # form_bytes (kv # kvs)" name] kv 3(5)
        by (cases "i = length pre") auto
    qed simp
    have m: "map_of ((k, v) # kv # kvs) name = map_of (kv # kvs) name" using False by (simp only: map_of.simps fun_upd_apply fst_conv if_False simp_thms) auto
    show ?thesis unfolding skip m by (rule 3(1) [OF kv(4) 3(3)]) (use 3(5) in simp_all)
  qed
qed

end
