(* ===== verification/Coap_Properties.thy ===== *)
theory Coap_Properties
  imports Coap_Build
begin

text \<open>
  The properties of the CoAP codec: the round trip of a message through serialiser and parser, the
  parser as the inverse of the encoding of any option sequence, the bounds of the serialiser, the
  packets the setters build, and the inputs on which the parser leaves its memory.
\<close>

section \<open>A sample packet\<close>

text \<open>A packet with any content, as a stack variable has before \<open>coap_init_message\<close>.\<close>

definition blank_packet :: "'p \<Rightarrow> 'p coap_packet" where
  "blank_packet a = \<lparr> buffer = Some a, version = 0, mtype = COAP_TYPE_CON, code = 0, mid = 0,
     options = [], url = None, url_len = 0, content_type = 0, max_age = 0, proxy_uri_len = 0,
     proxy_uri = None, etag_len = 0, etag = [], uri_host_len = 0, uri_host = None,
     location_path_len = 0, location_path = None, uri_port = 0, location_query_len = 0,
     location_query = None, uri_path_len = 0, uri_path = None, observe = 0, token_len = 0,
     token = [], accept_num = 0, accept = [], if_match_len = 0, if_match = [], block2_num = 0,
     block2_more = 0, block2_size = 0, block2_offset = 0, block1_num = 0, block1_more = 0,
     block1_size = 0, block1_offset = 0, psize = 0, uri_query_len = 0, uri_query = None,
     if_none_match = 0, payload_len = 0, payload = None \<rparr>"

text \<open>A PUT of \<open>hi\<close> to \<open>/a/bc\<close> with a token, a content format and a Block2 option.\<close>

definition sample_packet :: "u8 list coap_packet" where
  "sample_packet =
     (let p = coap_init_message (blank_packet []) COAP_TYPE_CON 3 0x1234;
          p = snd (the (coap_set_header_token p [7, 9] 2));
          p = snd (the (coap_set_header_uri_path p [0x2F, 0x61, 0x2F, 0x62, 0x63, 0]));
          p = snd (coap_set_header_content_type p 40);
          p = snd (coap_set_header_block2 p 5 1 64)
      in snd (coap_set_payload p (Some [0x68, 0x69]) 2))"

definition sample_bytes :: "u8 list" where
  "sample_bytes = [0x42, 3, 0x12, 0x34, 7, 9, 0xB1, 0x61, 0x02, 0x62, 0x63, 0x11, 40, 0xB1, 0x5A,
     0xFF, 0x68, 0x69]"

lemma sample_sendable: "sendable sample_packet"
  by code_simp

lemma sample_serialized:
  "map_option (\<lambda>(n, bs, p). (n, bs)) (coap_serialize_message sample_packet) = Some (18, sample_bytes)"
  by code_simp

section \<open>Messages\<close>

text \<open>
  C28: a message survives serialiser and parser.  When \<open>coap_serialize_message\<close> reports a length for
  a packet with sendable options, \<open>coap_parse_message\<close> accepts the bytes without error, and the
  parsed packet has the same type, code and message id, the same value for every option number
  (strings read through its pointers into the received data, in which they were merged in place),
  and the same payload.
\<close>

theorem coap_message_round_trip:
  assumes "sendable p" and "coap_serialize_message p = Some (n, bs, p')" and "n \<noteq> 0" and "n < 2 ^ 16"
  shows "\<exists>q data. coap_parse_message q0 bs (of_nat n) = Some (NO_ERROR, q, data) \<and>
     mtype q = mtype p \<and> code q = code p \<and> mid q = mid p \<and>
     (\<forall>m. option_value (in_data data) q m = option_value in_bytes p m) \<and>
     payload_len q = payload_len p \<and>
     string_value (in_data data) (payload q) (unat (payload_len q)) =
       string_value in_bytes (payload p) (unat (payload_len p))"
proof -
  let ?tok = "take (unat (token_len p)) (token p)"
  let ?pl = "take (unat (payload_len p)) (pointee (payload p))"
  let ?h = "p\<lparr>version := 1\<rparr>"
  let ?out = "header_bytes ?h @ ?tok @ encode_options 0 (options_of p)"
  have ok: "packet_ok p" using assms(1) by (simp add: sendable_def)
  have fits: "length ?out \<le> COAP_MAX_HEADER_SIZE" and bs: "bs = ?out @ payload_section ?pl" and n: "n = length bs"
    using assms(2,3) serialize_message_encoded [OF ok] by (auto split: if_splits)
  have tok: "length ?tok = unat (token_len p)" "unat (token_len p) \<le> 8"
    using ok by (auto simp: packet_ok_def)
  have seq: "option_sequence 0 (options_of p)"
    using fits by (intro options_of_sequence [OF assms(1)])
      (simp add: COAP_MAX_HEADER_SIZE_def COAP_ETAG_LEN_def COAP_TOKEN_LEN_def)
  obtain q data where q: "coap_parse_message q0 bs (of_nat (length bs)) = Some (NO_ERROR, q, data)"
    "mtype q = mtype p" "code q = code p" "mid q = mid p"
    "option_value (in_data data) q = receive_all (options_of p) (token_value ?tok)"
    and pl: "if ?pl = [] then payload q = None \<and> payload_len q = 0
      else \<exists>a. payload q = Some a \<and> payload_len q = of_nat (length ?pl) \<and> in_data data a (length ?pl) = ?pl"
    using parse_message_encoded [of ?tok "options_of p" bs ?h ?pl q0] tok seq bs n assms(4) by auto
  have "option_value (in_data data) q m = option_value in_bytes p m" for m
    using q(5) receive_message [OF assms(1)] by simp
  moreover have "payload_len q = payload_len p \<and> string_value (in_data data) (payload q) (unat (payload_len q)) =
      string_value in_bytes (payload p) (unat (payload_len p))"
    using pl ok by (auto simp: packet_ok_def string_value_def in_bytes_def in_data_def pointee_def unat_eq_0
        split: if_splits option.splits)
  ultimately show ?thesis using q n by auto
qed

theorem coap_message_round_trip_witness:
  "\<exists>q data. coap_parse_message (blank_packet 0) sample_bytes 18 = Some (NO_ERROR, q, data) \<and>
     option_value (in_data data) q COAP_OPTION_URI_PATH = Some (Bytes [0x61, 0x2F, 0x62, 0x63]) \<and>
     payload_len q = 2"
proof -
  obtain p' where p': "coap_serialize_message sample_packet = Some (18, sample_bytes, p')"
    using sample_serialized by auto
  have v: "option_value in_bytes sample_packet COAP_OPTION_URI_PATH = Some (Bytes [0x61, 0x2F, 0x62, 0x63])"
    "payload_len sample_packet = 2" by code_simp+
  show ?thesis
    using coap_message_round_trip [OF sample_sendable p', of "blank_packet 0"] v by auto
qed

text \<open>
  C29: the parser is the inverse of the encoding.  A message made of a header, a token of at most 8
  bytes, the encoding of any sequence of options with ascending acceptable numbers below 40, and a
  payload is parsed without error, inside the received data, and every option has the value
  obtained by taking the options one after the other: repeated path and query options joined with
  their separator, the first two accept values, the last value of the others.
\<close>

theorem coap_parse_message_decodes:
  assumes "length tok \<le> 8" and "option_sequence 0 os" and "version h = 1"
    and "token_len h = of_nat (length tok)"
    and "data = header_bytes h @ tok @ encode_options 0 os @ payload_section bs"
    and "length data < 2 ^ 16"
  shows "\<exists>q data'. coap_parse_message q0 data (of_nat (length data)) = Some (NO_ERROR, q, data') \<and>
     length data' = length data \<and> mtype q = mtype h \<and> code q = code h \<and> mid q = mid h \<and>
     option_value (in_data data') q = receive_all os (token_value tok) \<and>
     string_value (in_data data') (payload q) (unat (payload_len q)) = bs"
proof -
  obtain q data' where q: "coap_parse_message q0 data (of_nat (length data)) = Some (NO_ERROR, q, data')"
    "length data' = length data" "mtype q = mtype h" "code q = code h" "mid q = mid h"
    "option_value (in_data data') q = receive_all os (token_value tok)"
    and pl: "if bs = [] then payload q = None \<and> payload_len q = 0
      else \<exists>a. payload q = Some a \<and> payload_len q = of_nat (length bs) \<and> in_data data' a (length bs) = bs"
    using parse_message_encoded [OF assms(1,2,5,3,4,6), of q0] by auto
  have "length bs < 2 ^ 16" using assms(5,6) by (auto simp: payload_section_def split: if_splits)
  then have "unat (of_nat (length bs) :: u16) = length bs"
    by (simp add: unat_of_nat take_bit_nat_eq_self)
  then have "string_value (in_data data') (payload q) (unat (payload_len q)) = bs"
    using pl by (auto simp: string_value_def split: if_splits)
  then show ?thesis using q by blast
qed

theorem coap_parse_message_decodes_witness:
  "\<exists>q data'. coap_parse_message (blank_packet 0) [0x41, 1, 0, 5, 9, 0xB1, 0x61, 0x01, 0x62, 0x41, 0x63, 0x01, 0x64, 0xFF, 1]
       15 = Some (NO_ERROR, q, data') \<and>
     option_value (in_data data') q COAP_OPTION_URI_PATH = Some (Bytes [0x61, 0x2F, 0x62]) \<and>
     option_value (in_data data') q COAP_OPTION_URI_QUERY = Some (Bytes [0x63, 0x26, 0x64]) \<and>
     option_value (in_data data') q COAP_OPTION_TOKEN = Some (Bytes [9])"
proof -
  let ?os = "[(11, [0x61]), (11, [0x62]), (15, [0x63]), (15, [0x64])] :: (nat \<times> u8 list) list"
  let ?h = "(coap_init_message (blank_packet []) COAP_TYPE_CON 1 5)\<lparr>version := 1, token_len := 1\<rparr>"
  let ?data = "[0x41, 1, 0, 5, 9, 0xB1, 0x61, 0x01, 0x62, 0x41, 0x63, 0x01, 0x64, 0xFF, 1] :: u8 list"
  have 1: "option_sequence 0 ?os" "version ?h = 1" "token_len ?h = of_nat (length [9 :: u8])"
    "?data = header_bytes ?h @ [9] @ encode_options 0 ?os @ payload_section [1]" "length ?data < 2 ^ 16"
    by (simp add: acceptable_def coap_option_defs, code_simp, code_simp, code_simp, simp)
  have v: "receive_all ?os (token_value [9]) COAP_OPTION_URI_PATH = Some (Bytes [0x61, 0x2F, 0x62])"
    "receive_all ?os (token_value [9]) COAP_OPTION_URI_QUERY = Some (Bytes [0x63, 0x26, 0x64])"
    "receive_all ?os (token_value [9]) COAP_OPTION_TOKEN = Some (Bytes [9])"
    by code_simp+
  show ?thesis
    using coap_parse_message_decodes [OF _ 1, of "blank_packet 0"] v by auto
qed

section \<open>Bounds and errors\<close>

text \<open>
  C31: the serialiser reads only what a packet has and keeps its bound.  For every packet whose
  arrays have their sizes and whose strings are terminated it returns: either the header, token and
  options fit \<open>COAP_MAX_HEADER_SIZE\<close>, and it reports the length of the header, the token, the encoded
  options in the order of their numbers, and the payload behind the marker, at most
  \<open>COAP_MAX_HEADER_SIZE + 1 + payload_len\<close>, where the 1 is the payload marker; or it reports 0 and clears the
  buffer pointer, and then it has written more than \<open>COAP_MAX_HEADER_SIZE\<close> bytes.
\<close>

theorem coap_serialize_message_bounds:
  assumes "packet_ok p"
  shows "\<exists>n bs p'. coap_serialize_message p = Some (n, bs, p') \<and>
     (let out = header_bytes (p\<lparr>version := 1\<rparr>) @ take (unat (token_len p)) (token p) @ encode_options 0 (options_of p)
      in if length out \<le> COAP_MAX_HEADER_SIZE
         then bs = out @ payload_section (take (unat (payload_len p)) (pointee (payload p))) \<and> n = length bs \<and>
           n \<le> COAP_MAX_HEADER_SIZE + 1 + unat (payload_len p) \<and> buffer p' = Some bs
         else n = 0 \<and> bs = out \<and> buffer p' = None)"
  using serialize_message_encoded [OF assms] by (auto simp: Let_def payload_section_def)

theorem coap_serialize_message_bounds_witness:
  "packet_ok sample_packet \<and> (\<exists>n bs p'. coap_serialize_message sample_packet = Some (n, bs, p') \<and> n \<le> 70)"
proof -
  have "packet_ok sample_packet" using sample_sendable by (simp add: sendable_def)
  moreover have "unat (payload_len sample_packet) = 2" by code_simp
  ultimately show ?thesis
    using coap_serialize_message_bounds [of sample_packet]
    by (auto simp: Let_def COAP_MAX_HEADER_SIZE_def COAP_ETAG_LEN_def COAP_TOKEN_LEN_def split: if_splits)
qed

text \<open>
  C38: a header that is too long is noticed only after it was written.  A Uri-Host of any length
  above \<open>COAP_MAX_HEADER_SIZE\<close> makes \<open>coap_serialize_message\<close> report 0, and by then it has written
  more bytes than the host is long, whatever the size of the buffer it was given.
\<close>

theorem coap_serialize_message_overruns:
  assumes "p = snd (the (coap_set_header_uri_host (coap_init_message q t c m) (replicate k 0x61 @ [0])))"
    and "COAP_MAX_HEADER_SIZE < k"
  shows "\<exists>bs p'. coap_serialize_message p = Some (0, bs, p') \<and> k < length bs"
proof -
  have len: "strlen (replicate k 0x61 @ [0]) = Some k"
  proof -
    have "takeWhile (\<lambda>c. c \<noteq> 0) (replicate k (0x61 :: u8) @ [0]) = replicate k 0x61" by (induction k) simp_all
    then show ?thesis by (simp add: strlen_def)
  qed
  let ?i = "coap_init_message q t c m"
  have p: "p = SET_OPTION (?i\<lparr>uri_host := Some (replicate k 0x61 @ [0]), uri_host_len := k\<rparr>) COAP_OPTION_URI_HOST"
    using assms(1) len by (simp add: coap_set_header_uri_host_def)
  have l5: "length (options (?i\<lparr>uri_host := a, uri_host_len := b\<rparr>)) = 5" for a b
    by (simp add: coap_init_message_def memset_options)
  have clear: "\<not> IS_OPTION (?i\<lparr>uri_host := a, uri_host_len := b\<rparr>) n" if "n < 40" for a b n
    using memset_options(2) [OF that, of q] by (simp add: coap_init_message_def IS_OPTION_def)
  have opt: "IS_OPTION p n \<longleftrightarrow> n = COAP_OPTION_URI_HOST" if "n < 40" for n
    unfolding p using IS_OPTION_SET_OPTION [OF l5 _ that, of COAP_OPTION_URI_HOST] clear [OF that]
    by (simp add: coap_option_defs)
  have f: "uri_host p = Some (replicate k 0x61 @ [0])" "uri_host_len p = k" "etag p = replicate 8 0"
    "if_match p = replicate 8 0" "token p = replicate 8 0" "accept p = replicate 2 0" "etag_len p = 0"
    "if_match_len p = 0" "token_len p = 0" "accept_num p = 0" "payload_len p = 0" "length (options p) = 5"
    unfolding p using l5 by (simp_all add: SET_OPTION_def coap_init_message_def memset_packet_def COAP_ETAG_LEN_def
      COAP_TOKEN_LEN_def COAP_MAX_ACCEPT_NUM_def)
  have "COAP_OPTION_LOCATION_PATH < 40" "COAP_OPTION_URI_PATH < 40" "COAP_OPTION_URI_QUERY < 40"
    "COAP_OPTION_LOCATION_QUERY < 40" "COAP_OPTION_PROXY_URI < 40" "COAP_OPTION_URI_HOST < 40"
    by (simp_all add: coap_option_defs)
  note opts = this [THEN opt]
  have ok: "packet_ok p"
    using f opts by (simp add: packet_ok_def readable_def pointee_def coap_option_defs)
  have "(3, replicate k 0x61) \<in> set (option_piece p 3)"
    using f opt [of 3] by (simp add: option_piece_def sent_values_def pointee_def coap_option_defs)
  then have "(3, replicate k 0x61) \<in> set (options_of p)"
    by (simp add: options_of_def sent_numbers_def)
  then have big: "k \<le> length (encode_options 0 (options_of p))"
    using encoded_value_length [of 3 "replicate k 0x61" "options_of p" 0] by simp
  show ?thesis
    using serialize_message_encoded [OF ok] big assms(2) by (simp add: header_bytes_def)
qed

theorem coap_serialize_message_overruns_witness:
  "\<exists>bs p'. coap_serialize_message (snd (the (coap_set_header_uri_host
       (coap_init_message (blank_packet []) COAP_TYPE_CON 1 1) (replicate 1000 0x61 @ [0])))) = Some (0, bs, p') \<and>
     1000 < length bs"
  by (rule coap_serialize_message_overruns [OF refl])
    (simp add: COAP_MAX_HEADER_SIZE_def COAP_ETAG_LEN_def COAP_TOKEN_LEN_def)

text \<open>
  C37: an option number of 40 or more makes the parser write outside the option bitmap of the
  packet, whatever follows in the message; such numbers are valid on the wire.
\<close>

theorem coap_parse_message_option_map_overflow:
  assumes "40 \<le> n" and "n \<le> 65804" and "l \<le> 65804" and "version h = 1" and "token_len h = 0"
    and "data = header_bytes h @ coap_set_option_header n l @ rest" and "length data < 2 ^ 16"
  shows "coap_parse_message q data (of_nat (length data)) = None"
proof -
  obtain b0 b1 b2 b3 where hb: "header_bytes h = [b0, b1, b2, b3]" by (simp add: header_bytes_def)
  have b0: "b0 = (0xC0 AND push_bit 6 1) OR (0x30 AND push_bit 4 (type_bits (mtype h))) OR (0x0F AND push_bit 0 (token_len h))"
    using hb assms(4) by (simp add: header_bytes_def)
  have f: "drop_bit 6 (0xC0 AND b0) = 1" "0x0F AND b0 = 0"
    unfolding b0 using first_byte(1,3) [of "token_len h" "mtype h"] assms(5) by simp_all
  have rds: "rd data 0 = Some b0" "rd data 1 = Some b1" "rd data 2 = Some b2" "rd data 3 = Some b3"
    unfolding assms(6) hb by (simp_all add: rd_def numeral_eq_Suc)
  have n: "unat (of_nat (length data) :: u16) = length data"
    using assms(7) by (simp add: unat_of_nat take_bit_nat_eq_self)
  have d: "data = [b0, b1, b2, b3] @ coap_set_option_header n l @ rest" using assms(6) hb by simp
  obtain b where b: "rd data 4 = Some b" "b AND 0xF0 \<noteq> 0xF0"
    using option_header_not_payload [of "[b0, b1, b2, b3]" n l rest] d by (auto simp: numeral_eq_Suc)
  have hdr: "read_option_header data 4 = Some (n, l, 4 + length (coap_set_option_header n l))"
    using read_option_header_encoded [OF assms(2,3), of "[b0, b1, b2, b3]" rest] d by (simp add: numeral_eq_Suc)
  have lt: "4 < length data" unfolding d using option_header_length [of n l]
    by (cases "coap_set_option_header n l") simp_all
  have "\<not> n div OPTION_MAP_SIZE < 5" using assms(1) by (simp add: OPTION_MAP_SIZE_def)
  then have "parse_options data (length data) 4 0 p = None" if "length (options p) = 5" for p
    using lt b hdr that by (subst parse_options.simps) simp
  then show ?thesis
    using rds f n by (simp add: coap_parse_message_def Let_def COAP_HEADER_LEN_def COAP_TOKEN_LEN_def memset_options
        del: drop_bit_and)
qed

theorem coap_parse_message_option_map_overflow_witness:
  "coap_parse_message (blank_packet 0) [0x40, 1, 0, 5, 0xD1, 47, 7] 7 = None"
proof -
  let ?h = "(coap_init_message (blank_packet []) COAP_TYPE_CON 1 5)\<lparr>version := 1\<rparr>"
  let ?data = "[0x40, 1, 0, 5, 0xD1, 47, 7] :: u8 list"
  have "version ?h = 1" "token_len ?h = 0" "?data = header_bytes ?h @ coap_set_option_header 60 1 @ [7]"
    by code_simp+
  from coap_parse_message_option_map_overflow [OF _ _ _ this, of "blank_packet 0"] show ?thesis by simp
qed

section \<open>Setters\<close>

text \<open>
  C30: whatever sequence of setters other than \<open>coap_set_header_uri_query\<close> and
  \<open>coap_set_header_location_path\<close>, which store no string, an application calls on a packet from
  \<open>coap_init_message\<close>, with terminated strings and payloads of the given length below 2^16, the
  arrays of the packet keep their sizes and its lengths stay within the arrays and strings they
  belong to, so that \<open>coap_serialize_message\<close> returns without reading outside them.  The size of the
  buffer it writes to is not part of this: the bytes written may be more than the buffer holds.
\<close>

theorem setters_build_serializable:
  assumes "built p"
  shows "packet_ok p \<and> (\<exists>n bs p'. coap_serialize_message p = Some (n, bs, p'))"
  using built_packet_ok [OF assms] serialize_message_encoded [OF built_packet_ok [OF assms]]
  by (simp split: if_splits)

theorem setters_build_serializable_witness:
  "packet_ok (snd (coap_set_header_observe (snd (coap_set_header_accept
     (coap_init_message (blank_packet []) COAP_TYPE_NON 1 7) 40)) 3))"
proof -
  let ?a = "coap_set_header_accept (coap_init_message (blank_packet []) COAP_TYPE_NON 1 7) 40"
  let ?b = "coap_set_header_observe (snd ?a) 3"
  have "built (snd ?a)" by (rule built.accept [OF built.init prod.collapse [symmetric]])
  then have "built (snd ?b)" by (rule built.observe [OF _ prod.collapse [symmetric]])
  then show ?thesis using setters_build_serializable by blast
qed

text \<open>
  Without \<open>OMA_LWM2M\<close> the Uri-Query setter only counts: it returns the length of the query, sets
  the option, and stores no string, so that serialising the packet reads through the NULL pointer
  of the query.
\<close>

theorem coap_set_header_uri_query_null:
  assumes "coap_set_header_uri_query (coap_init_message q t c m) query = Some (n, p)"
  shows "IS_OPTION p COAP_OPTION_URI_QUERY \<and> uri_query p = None \<and> coap_serialize_message p = None"
proof -
  have p: "p = SET_OPTION (coap_init_message q t c m) COAP_OPTION_URI_QUERY"
    using assms by (auto simp: coap_set_header_uri_query_def bind_eq_Some_conv)
  have opt: "IS_OPTION p k \<longleftrightarrow> k = COAP_OPTION_URI_QUERY" if "k < 40" for k
  proof -
    have "\<not> IS_OPTION (coap_init_message q t c m) k" "length (options (coap_init_message q t c m)) = 5"
      using memset_options(2) [OF that, of q] by (simp_all add: coap_init_message_def IS_OPTION_def memset_options)
    then show ?thesis unfolding p using IS_OPTION_SET_OPTION [of "coap_init_message q t c m" COAP_OPTION_URI_QUERY k] that
      by (simp add: coap_option_defs)
  qed
  let ?p = "p\<lparr>version := 1\<rparr>"
  have opt': "IS_OPTION ?p k \<longleftrightarrow> k = COAP_OPTION_URI_QUERY" if "k < 40" for k
    using opt [OF that] by (simp add: IS_OPTION_def)
  have f: "uri_query p = None" "token p = replicate 8 0" "token_len p = 0"
    unfolding p by (simp_all add: SET_OPTION_def coap_init_message_def memset_packet_def COAP_TOKEN_LEN_def)
  have query: "COAP_SERIALIZE_STRING_OPTION ?p 15 (uri_query ?p) k 0x26 w = None" for k w
    using opt' [of 15] f(1)
    by (simp add: COAP_SERIALIZE_STRING_OPTION_def coap_option_defs coap_serialize_array_option_def
        array_loop.simps [of _ _ _ _ _ 0 0] rd_def)
  have "serialize_options ?p w = None" for w
    unfolding serialize_options_def coap_option_defs query
    by (simp add: COAP_SERIALIZE_BYTE_OPTION_def COAP_SERIALIZE_INT_OPTION_def COAP_SERIALIZE_STRING_OPTION_def
        opt' coap_option_defs)
  then show ?thesis
    using f opt [of COAP_OPTION_URI_QUERY] by (simp add: coap_serialize_message_def slice_def coap_option_defs)
qed
text \<open>
  C35: block options keep their meaning.  For every block number, more flag and size the setter of
  Block2 accepts, the parser reads from the encoded option the same number, the more flag as 0 or
  1, the largest power of two block size that is not larger than the given one, computed with
  \<open>coap_log_2\<close>, and the offset of the block in bytes.
\<close>

theorem coap_block_option_value:
  assumes "fst (coap_set_header_block2 p num mor sz) = 1"
  shows "\<exists>sz'. parse_block (block_value num mor sz) = (num, if mor \<noteq> 0 then 1 else 0, sz', num * ucast sz') \<and>
     (\<exists>k<8. sz' = push_bit k 16) \<and> unat sz' \<le> unat sz \<and> unat sz < 2 * unat sz'"
proof -
  let ?k = "unat (coap_log_2 (sz div 16))"
  have sz: "16 \<le> unat sz" "unat sz \<le> 2048" "num \<le> 0xFFFFF"
    using assms by (auto simp: coap_set_header_block2_def word_less_nat_alt word_le_nat_alt not_less split: if_splits)
  have d: "unat (sz div 16) = unat sz div 16" by (simp add: unat_div)
  have "unat sz div 16 \<noteq> 0" using sz(1) by simp
  then have "sz div 16 \<noteq> 0" using d by (metis unat_0)
  then have k: "2 ^ ?k \<le> unat sz div 16" "unat sz div 16 < 2 ^ Suc ?k"
    using coap_log_2_digits [of "sz div 16"] d by simp_all
  have "2 ^ ?k \<le> (128 :: nat)" using k(1) sz(2) by linarith
  then have k8: "?k < 8"
  proof (rule contrapos_pp)
    assume "\<not> ?k < 8"
    then have "(2 :: nat) ^ 8 \<le> 2 ^ ?k" by (intro power_increasing) simp_all
    then show "\<not> 2 ^ ?k \<le> (128 :: nat)" by simp
  qed
  have "coap_log_2 (sz div 16) = of_nat ?k" by simp
  note parsed = block_round_trip_log [OF sz(3) k8 this, of mor]
  have "\<forall>k\<in>set [0..<8]. unat (push_bit k 16 :: u16) = 16 * 2 ^ k" by code_simp
  then have "unat (push_bit ?k 16 :: u16) = 16 * 2 ^ ?k" using k8 by auto
  moreover have "16 * 2 ^ ?k \<le> unat sz" "unat sz < 2 * (16 * 2 ^ ?k)" using k by auto
  ultimately show ?thesis using parsed k8 by auto
qed

theorem coap_block_option_value_witness:
  "\<exists>sz'. parse_block (block_value 5 1 100) = (5, 1, sz', 5 * ucast sz') \<and> unat sz' \<le> 100 \<and> 100 < 2 * unat sz'"
proof -
  have "fst (coap_set_header_block2 (blank_packet 0) 5 1 100) = 1" by code_simp
  from coap_block_option_value [OF this] show ?thesis by auto
qed

section \<open>Form variables\<close>

text \<open>
  C36: looking a variable up in a payload of \<open>name=value\<close> pairs joined with ampersands is looking it
  up in the list of pairs: \<open>coap_get_post_variable\<close> returns the position and length of the value of
  the first pair with the name, inside the payload, and no position and length 0 when there is none;
  for an empty payload it returns length 0 and leaves the output as it was.
\<close>

theorem coap_get_post_variable_lookup:
  assumes "form_ok kvs" and "0x3D \<notin> set name" and "payload p = Some (form_bytes kvs)"
    and "payload_len p = of_nat (length (form_bytes kvs))" and "length (form_bytes kvs) < 2 ^ 16"
  shows "\<exists>a n. coap_get_post_variable p name output = Some (a, n) \<and>
     (if kvs = [] then a = output \<and> n = 0
      else map_of kvs name = map_option (\<lambda>a. take n (drop a (form_bytes kvs))) a \<and>
        (case a of None \<Rightarrow> n = 0 | Some a \<Rightarrow> a + n \<le> length (form_bytes kvs)))"
proof -
  let ?b = "form_bytes kvs"
  have len: "unat (payload_len p) = length ?b"
    using assms(4,5) by (simp add: unat_of_nat take_bit_nat_eq_self)
  have empty: "payload_len p = 0 \<longleftrightarrow> kvs = []"
    using len by (cases kvs rule: form_bytes.cases) (auto simp: unat_eq_0)
  show ?thesis
  proof (cases "kvs = []")
    case True
    then show ?thesis using empty by (simp add: coap_get_post_variable_def)
  next
    case False
    obtain a n where an: "get_variable_loop ?b (length ?b) name 0 = (a, n)" by fastforce
    have "coap_get_post_variable p name output = Some (a, n)"
      using False empty assms(3) len an by (simp add: coap_get_post_variable_def coap_get_variable_def)
    then show ?thesis
      using False get_variable_form [OF assms(1,2), of "[]" ?b] an by (auto split: option.splits)
  qed
qed

theorem coap_get_post_variable_lookup_witness:
  "\<exists>a n. coap_get_post_variable ((blank_packet [])\<lparr>payload := Some [0x61, 0x3D, 0x31, 0x26, 0x62, 0x3D, 0x32, 0x33],
     payload_len := 8\<rparr>) [0x62] None = Some (Some a, n) \<and>
     take n (drop a [0x61, 0x3D, 0x31, 0x26, 0x62, 0x3D, 0x32, 0x33 :: u8]) = [0x32, 0x33]"
proof -
  let ?kvs = "[([0x61], [0x31]), ([0x62], [0x32, 0x33])] :: (u8 list \<times> u8 list) list"
  let ?p = "(blank_packet [])\<lparr>payload := Some [0x61, 0x3D, 0x31, 0x26, 0x62, 0x3D, 0x32, 0x33 :: u8], payload_len := 8\<rparr>"
  have "\<exists>a n. coap_get_post_variable ?p [0x62] None = Some (a, n) \<and> map_of ?kvs [0x62] = map_option (\<lambda>a. take n (drop a (form_bytes ?kvs))) a"
    using coap_get_post_variable_lookup [of ?kvs "[0x62]" ?p None] by (auto simp: form_ok_def)
  then show ?thesis by (auto simp: eq_commute [of "Some _" "map_option _ _"])
qed

end
