(* ===== verification/Coap_List.thy ===== *)
theory Coap_List
  imports Prelude
begin

text \<open>
  The singly linked lists of coap/list.c, on an explicit store: \<open>head l\<close> is the cell \<open>*list\<close> of the list \<open>l\<close>, \<open>link p\<close> the member
  \<open>next\<close> of the item at address \<open>p\<close>; 0 is \<open>NULL\<close>. The loops of the code are \<open>partial_function\<close>s: on a list that runs into a circle
  they do not end. \<open>chain\<close> relates a cell to the list of its items, and each operation is characterised by its effect on it.
  The locale \<open>item_list\<close> is the interface the transactions use.
\<close>

section \<open>The store and the operations\<close>

type_synonym addr = u32

record 'l links =
  head :: "'l \<Rightarrow> addr"
  link :: "addr \<Rightarrow> addr"

definition list_init :: "'l \<Rightarrow> 'l links \<Rightarrow> 'l links" where
  "list_init l s = s\<lparr>head := (head s)(l := 0)\<rparr>"

definition list_head :: "'l \<Rightarrow> 'l links \<Rightarrow> addr" where
  "list_head l s = head s l"

definition list_copy :: "'l \<Rightarrow> 'l \<Rightarrow> 'l links \<Rightarrow> 'l links" where
  "list_copy dest src s = s\<lparr>head := (head s)(dest := head s src)\<rparr>"

partial_function (option) tail_loop :: "'l links \<Rightarrow> addr \<Rightarrow> addr option" where
  "tail_loop s p = (if link s p \<noteq> 0 then tail_loop s (link s p) else Some p)"

definition list_tail :: "'l \<Rightarrow> 'l links \<Rightarrow> addr option" where
  "list_tail l s = (if head s l = 0 then Some 0 else tail_loop s (head s l))"

text \<open>The loop of \<open>list_remove\<close>; \<open>r\<close> is the item before \<open>p\<close>, or \<open>NULL\<close>.\<close>

partial_function (option) remove_loop :: "'l \<Rightarrow> addr \<Rightarrow> addr \<Rightarrow> addr \<Rightarrow> 'l links \<Rightarrow> 'l links option" where
  "remove_loop l item r p s =
     (if p = 0 then Some s
      else if p = item
      then (let s = (if r = 0 then s\<lparr>head := (head s)(l := link s p)\<rparr> else s\<lparr>link := (link s)(r := link s p)\<rparr>)
            in Some (s\<lparr>link := (link s)(p := 0)\<rparr>))
      else remove_loop l item p (link s p) s)"

definition list_remove :: "'l \<Rightarrow> addr \<Rightarrow> 'l links \<Rightarrow> 'l links option" where
  "list_remove l item s = (if head s l = 0 then Some s else remove_loop l item 0 (head s l) s)"

definition list_add :: "'l \<Rightarrow> addr \<Rightarrow> 'l links \<Rightarrow> 'l links option" where
  "list_add l item s = do {
     s \<leftarrow> list_remove l item s;
     let s = s\<lparr>link := (link s)(item := 0)\<rparr>;
     t \<leftarrow> list_tail l s;
     Some (if t = 0 then s\<lparr>head := (head s)(l := item)\<rparr> else s\<lparr>link := (link s)(t := item)\<rparr>)
   }"

definition list_push :: "'l \<Rightarrow> addr \<Rightarrow> 'l links \<Rightarrow> 'l links option" where
  "list_push l item s = do {
     s \<leftarrow> list_remove l item s;
     let s = s\<lparr>link := (link s)(item := head s l)\<rparr>;
     Some (s\<lparr>head := (head s)(l := item)\<rparr>)
   }"

partial_function (option) chop_loop :: "'l links \<Rightarrow> addr \<Rightarrow> addr option" where
  "chop_loop s p = (if link s (link s p) \<noteq> 0 then chop_loop s (link s p) else Some p)"

definition list_chop :: "'l \<Rightarrow> 'l links \<Rightarrow> (addr \<times> 'l links) option" where
  "list_chop l s =
     (if head s l = 0 then Some (0, s)
      else if link s (head s l) = 0 then Some (head s l, s\<lparr>head := (head s)(l := 0)\<rparr>)
      else do {
        p \<leftarrow> chop_loop s (head s l);
        Some (link s p, s\<lparr>link := (link s)(p := 0)\<rparr>)
      })"

definition list_pop :: "'l \<Rightarrow> 'l links \<Rightarrow> addr \<times> 'l links" where
  "list_pop l s = (head s l, if head s l \<noteq> 0 then s\<lparr>head := (head s)(l := link s (head s l))\<rparr> else s)"

partial_function (option) length_loop :: "'l links \<Rightarrow> addr \<Rightarrow> int \<Rightarrow> int option" where
  "length_loop s p n = (if p \<noteq> 0 then length_loop s (link s p) (n + 1) else Some n)"

definition list_length :: "'l \<Rightarrow> 'l links \<Rightarrow> int option" where
  "list_length l s = length_loop s (head s l) 0"

definition list_insert :: "'l \<Rightarrow> addr \<Rightarrow> addr \<Rightarrow> 'l links \<Rightarrow> 'l links option" where
  "list_insert l previtem newitem s =
     (if previtem = 0 then list_push l newitem s
      else (let s = s\<lparr>link := (link s)(newitem := link s previtem)\<rparr>
            in Some (s\<lparr>link := (link s)(previtem := newitem)\<rparr>)))"

definition list_item_next :: "addr \<Rightarrow> 'l links \<Rightarrow> addr" where
  "list_item_next item s = (if item = 0 then 0 else link s item)"

section \<open>The abstract view\<close>

text \<open>Following \<open>next\<close> from \<open>p\<close> meets the items \<open>xs\<close> and ends in \<open>NULL\<close>.\<close>

fun chain :: "(addr \<Rightarrow> addr) \<Rightarrow> addr \<Rightarrow> addr list \<Rightarrow> bool" where
  "chain nx p [] \<longleftrightarrow> p = 0"
| "chain nx p (x # xs) \<longleftrightarrow> p = x \<and> x \<noteq> 0 \<and> chain nx (nx x) xs"

definition has_items :: "'l \<Rightarrow> 'l links \<Rightarrow> addr list \<Rightarrow> bool" where
  "has_items l s xs \<longleftrightarrow> chain (link s) (head s l) xs \<and> distinct xs"

lemma chain_unique: "chain nx p xs \<Longrightarrow> chain nx p ys \<Longrightarrow> xs = ys"
proof (induction xs arbitrary: p ys)
  case Nil
  then show ?case by (cases ys) auto
next
  case (Cons x xs)
  then show ?case by (cases ys) auto
qed

lemma chain_nonzero: "chain nx p xs \<Longrightarrow> 0 \<notin> set xs"
  by (induction xs arbitrary: p) auto

lemma chain_frame: "chain nx p xs \<Longrightarrow> (\<And>x. x \<in> set xs \<Longrightarrow> nx' x = nx x) \<Longrightarrow> chain nx' p xs"
  by (induction xs arbitrary: p) auto

text \<open>A chain up to an item, and from it.\<close>

fun part :: "(addr \<Rightarrow> addr) \<Rightarrow> addr \<Rightarrow> addr list \<Rightarrow> addr \<Rightarrow> bool" where
  "part nx p [] q \<longleftrightarrow> p = q"
| "part nx p (x # xs) q \<longleftrightarrow> p = x \<and> x \<noteq> 0 \<and> part nx (nx x) xs q"

lemma chain_append: "chain nx p (xs @ ys) \<longleftrightarrow> (\<exists>q. part nx p xs q \<and> chain nx q ys)"
  by (induction xs arbitrary: p) auto

lemma part_append: "part nx p (xs @ ys) q \<longleftrightarrow> (\<exists>m. part nx p xs m \<and> part nx m ys q)"
  by (induction xs arbitrary: p) auto

lemma part_frame: "part nx p xs q \<Longrightarrow> (\<And>x. x \<in> set xs \<Longrightarrow> nx' x = nx x) \<Longrightarrow> part nx' p xs q"
  by (induction xs arbitrary: p) auto

lemma part_last: "part nx p (xs @ [x]) q \<Longrightarrow> nx x = q"
  by (induction xs arbitrary: p) auto

lemma part_retarget: "part nx p (xs @ [x]) q \<Longrightarrow> x \<notin> set xs \<Longrightarrow> part (nx(x := q')) p (xs @ [x]) q'"
  by (induction xs arbitrary: p) auto

lemma chain_two: "chain nx p (xs @ [y, z]) \<Longrightarrow> p \<noteq> 0 \<and> nx p \<noteq> 0"
  by (cases xs; cases "tl xs") auto

section \<open>The loops end\<close>

lemma tail_loop_chain: "chain (link s) p xs \<Longrightarrow> xs \<noteq> [] \<Longrightarrow> tail_loop s p = Some (last xs)"
proof (induction xs arbitrary: p)
  case (Cons x xs)
  show ?case
  proof (cases xs)
    case Nil
    then show ?thesis using Cons.prems by (subst tail_loop.simps) simp
  next
    case (Cons y ys)
    then have "link s p = y" "y \<noteq> 0" "chain (link s) y xs" using Cons.prems by auto
    then show ?thesis using Cons Cons.IH [of y] Cons.prems by (subst tail_loop.simps) simp
  qed
qed simp

lemma list_tail_items: "has_items l s xs \<Longrightarrow> list_tail l s = Some (if xs = [] then 0 else last xs)"
  using tail_loop_chain [of s "head s l" xs] by (cases xs) (auto simp: has_items_def list_tail_def)

lemma length_loop_chain: "chain (link s) p xs \<Longrightarrow> length_loop s p n = Some (n + int (length xs))"
  by (induction xs arbitrary: p n; subst length_loop.simps) auto

lemma list_length_items: "has_items l s xs \<Longrightarrow> list_length l s = Some (int (length xs))"
  using length_loop_chain [of s "head s l" xs 0] by (simp add: has_items_def list_length_def)

lemma chop_loop_chain: "chain (link s) p (xs @ [y, z]) \<Longrightarrow> chop_loop s p = Some y"
proof (induction xs arbitrary: p)
  case Nil
  then show ?case by (subst chop_loop.simps) simp
next
  case (Cons x xs)
  have p: "p = x" "chain (link s) (link s x) (xs @ [y, z])" using Cons.prems by simp_all
  have "link s (link s x) \<noteq> 0" using chain_two [OF p(2)] by simp
  then show ?case using Cons.IH [OF p(2)] p(1) by (subst chop_loop.simps) simp
qed

lemma remove_loop_absent: "chain (link s) p xs \<Longrightarrow> item \<notin> set xs \<Longrightarrow> remove_loop l item r p s = Some s"
  by (induction xs arbitrary: p r; subst remove_loop.simps) auto

lemma remove_loop_found:
  "part (link s) p xs item \<Longrightarrow> item \<notin> set xs \<Longrightarrow> item \<noteq> 0 \<Longrightarrow>
    remove_loop l item r p s = (let b = (if xs = [] then r else last xs);
      s1 = (if b = 0 then s\<lparr>head := (head s)(l := link s item)\<rparr> else s\<lparr>link := (link s)(b := link s item)\<rparr>)
      in Some (s1\<lparr>link := (link s1)(item := 0)\<rparr>))"
proof (induction xs arbitrary: p r)
  case Nil
  then show ?case by (subst remove_loop.simps) (simp add: Let_def)
next
  case (Cons x xs)
  have p: "p = x" "x \<noteq> 0" "x \<noteq> item" and c: "part (link s) (link s x) xs item" "item \<notin> set xs"
    using Cons.prems(1,2) by auto
  have "remove_loop l item r p s = remove_loop l item x (link s x) s"
    using p by (subst remove_loop.simps) simp
  also note Cons.IH [OF c Cons.prems(3), of x]
  finally show ?case by (cases "xs = []") simp_all
qed

section \<open>The effect of the operations\<close>

lemma remove_items:
  assumes "has_items l s xs"
  obtains s' where "list_remove l item s = Some s'" "has_items l s' (remove1 item xs)"
    "\<And>p. p \<notin> set xs \<Longrightarrow> link s' p = link s p" "\<And>m. m \<noteq> l \<Longrightarrow> head s' m = head s m"
proof (cases "item \<in> set xs")
  case False
  have "list_remove l item s = Some s"
    using assms remove_loop_absent [of s "head s l" xs item l 0] False by (auto simp: list_remove_def has_items_def)
  then show thesis using that [of s] assms False by (simp add: remove1_idem)
next
  case True
  then obtain as bs where xs: "xs = as @ item # bs" "item \<notin> set as" by (meson split_list_first)
  have c: "chain (link s) (head s l) (as @ item # bs)" "distinct (as @ item # bs)" using assms xs by (simp_all add: has_items_def)
  then have pt: "part (link s) (head s l) as item" "chain (link s) (link s item) bs" "item \<noteq> 0" by (auto simp: chain_append)
  have h0: "head s l \<noteq> 0" using c(1) by (cases as) auto
  note run = remove_loop_found [OF pt(1) xs(2) pt(3), of l 0]
  have cb: "chain ((link s)(item := 0)) (link s item) bs" by (rule chain_frame [OF pt(2)]) (use c(2) in auto)
  show thesis
  proof (cases as rule: rev_cases)
    case Nil
    let ?s = "s\<lparr>head := (head s)(l := link s item), link := (link s)(item := 0)\<rparr>"
    have "list_remove l item s = Some ?s" using run h0 Nil by (simp add: list_remove_def Let_def)
    moreover have "has_items l ?s (remove1 item xs)" using cb c(2) Nil xs by (simp add: has_items_def)
    ultimately show thesis using that [of ?s] xs Nil by simp
  next
    case (snoc cs b)
    let ?nx = "(link s)(b := link s item, item := 0)"
    let ?s = "s\<lparr>link := ?nx\<rparr>"
    have b0: "b \<noteq> 0" using chain_nonzero [OF c(1)] snoc by auto
    have "list_remove l item s = Some ?s" using run h0 snoc b0 by (simp add: list_remove_def Let_def)
    moreover have "part ((link s)(b := link s item)) (head s l) (cs @ [b]) (link s item)"
      by (rule part_retarget) (use pt(1) c(2) snoc in auto)
    then have "part ?nx (head s l) (cs @ [b]) (link s item)" by (rule part_frame) (use c(2) snoc in auto)
    moreover have "chain ?nx (link s item) bs" by (rule chain_frame [OF cb]) (use c(2) snoc in auto)
    ultimately have "has_items l ?s (remove1 item xs)"
      using c(2) xs snoc by (auto simp: has_items_def remove1_append chain_append simp del: append_assoc)
    then show thesis using that [of ?s] \<open>list_remove l item s = Some ?s\<close> xs snoc by simp
  qed
qed

lemma add_items:
  assumes h: "has_items l s xs" and i: "item \<noteq> 0"
  obtains s' where "list_add l item s = Some s'" "has_items l s' (remove1 item xs @ [item])"
    "\<And>p. p \<notin> insert item (set xs) \<Longrightarrow> link s' p = link s p" "\<And>m. m \<noteq> l \<Longrightarrow> head s' m = head s m"
proof -
  let ?ys = "remove1 item xs"
  obtain s1 where s1: "list_remove l item s = Some s1" "has_items l s1 ?ys"
    "\<And>p. p \<notin> set xs \<Longrightarrow> link s1 p = link s p" "\<And>m. m \<noteq> l \<Longrightarrow> head s1 m = head s m"
    using remove_items [OF h] by blast
  have ni: "item \<notin> set ?ys" using h by (simp add: has_items_def)
  define s2 where "s2 = s1\<lparr>link := (link s1)(item := 0)\<rparr>"
  have h2: "has_items l s2 ?ys"
  proof -
    have "chain ((link s1)(item := 0)) (head s1 l) ?ys"
      by (rule chain_frame [of "link s1"]) (use s1(2) ni in \<open>auto simp: has_items_def\<close>)
    then show ?thesis using s1(2) by (simp add: has_items_def s2_def)
  qed
  note t = list_tail_items [OF h2]
  have d: "distinct (?ys @ [item])" using h2 ni by (simp add: has_items_def)
  show thesis
  proof (cases ?ys rule: rev_cases)
    case Nil
    let ?s = "s2\<lparr>head := (head s2)(l := item)\<rparr>"
    have "list_add l item s = Some ?s" using s1(1) t Nil by (simp add: list_add_def s2_def Let_def)
    moreover have "has_items l ?s (?ys @ [item])" using Nil i by (simp add: has_items_def s2_def)
    ultimately show thesis using that [of ?s] s1(3,4) by (simp add: s2_def)
  next
    case (snoc zs z)
    let ?s = "s2\<lparr>link := (link s2)(z := item)\<rparr>"
    have c2: "chain (link s2) (head s2 l) (zs @ [z])" and d2: "distinct (zs @ [z])" using h2 snoc by (simp_all add: has_items_def)
    have z0: "z \<noteq> 0" "z \<noteq> item" "z \<in> set xs" using chain_nonzero [OF c2] ni snoc set_remove1_subset [of item xs] by auto
    have "list_add l item s = Some ?s" using s1(1) t snoc z0(1) by (simp add: list_add_def s2_def Let_def)
    moreover have "part (link s2) (head s2 l) (zs @ [z]) 0" using c2 by (auto simp: chain_append part_append)
    then have "part ((link s2)(z := item)) (head s2 l) (zs @ [z]) item" by (rule part_retarget) (use d2 in simp)
    then have "has_items l ?s (?ys @ [item])"
      using snoc d i z0(2) by (auto simp: has_items_def s2_def chain_append simp del: append_assoc)
    moreover have "link ?s p = link s p" if "p \<notin> insert item (set xs)" for p
      using that z0(3) s1(3) [of p] by (cases "p = z") (simp_all add: s2_def)
    ultimately show thesis using that [of ?s] s1(4) by (simp add: s2_def)
  qed
qed

lemma push_items:
  assumes h: "has_items l s xs" and i: "item \<noteq> 0"
  obtains s' where "list_push l item s = Some s'" "has_items l s' (item # remove1 item xs)"
    "\<And>p. p \<notin> insert item (set xs) \<Longrightarrow> link s' p = link s p" "\<And>m. m \<noteq> l \<Longrightarrow> head s' m = head s m"
proof -
  let ?ys = "remove1 item xs"
  obtain s1 where s1: "list_remove l item s = Some s1" "has_items l s1 ?ys"
    "\<And>p. p \<notin> set xs \<Longrightarrow> link s1 p = link s p" "\<And>m. m \<noteq> l \<Longrightarrow> head s1 m = head s m"
    using remove_items [OF h] by blast
  have ni: "item \<notin> set ?ys" using h by (simp add: has_items_def)
  have "chain ((link s1)(item := head s1 l)) (head s1 l) ?ys"
    by (rule chain_frame [of "link s1"]) (use s1(2) ni in \<open>auto simp: has_items_def\<close>)
  then have "has_items l (s1\<lparr>link := (link s1)(item := head s1 l), head := (head s1)(l := item)\<rparr>) (item # ?ys)"
    (is "has_items l ?s _")
    using s1(2) ni i by (simp add: has_items_def)
  moreover have "list_push l item s = Some ?s" using s1(1) by (simp add: list_push_def Let_def)
  ultimately show thesis using that [of ?s] s1(3,4) by simp
qed

lemma pop_items:
  assumes "has_items l s xs"
  obtains s' where "list_pop l s = ((case xs of [] \<Rightarrow> 0 | x # _ \<Rightarrow> x), s')" "has_items l s' (tl xs)" "link s' = link s"
    "\<And>m. m \<noteq> l \<Longrightarrow> head s' m = head s m"
  using that [of "snd (list_pop l s)"] assms by (cases xs) (simp_all add: list_pop_def has_items_def)

lemma chop_items:
  assumes h: "has_items l s xs"
  obtains s' where "list_chop l s = Some (if xs = [] then 0 else last xs, s')" "has_items l s' (butlast xs)"
    "\<And>p. p \<notin> set xs \<Longrightarrow> link s' p = link s p" "\<And>m. m \<noteq> l \<Longrightarrow> head s' m = head s m"
proof -
  have c: "chain (link s) (head s l) xs" "distinct xs" using h by (simp_all add: has_items_def)
  show thesis
  proof (cases xs rule: rev_cases)
    case Nil
    then show thesis using that [of s] c by (simp add: list_chop_def has_items_def)
  next
    case (snoc ys z)
    show thesis
    proof (cases ys rule: rev_cases)
      case Nil
      then show thesis using that [of "s\<lparr>head := (head s)(l := 0)\<rparr>"] c snoc by (simp add: list_chop_def has_items_def)
    next
      case (snoc ws y)
      let ?s = "s\<lparr>link := (link s)(y := 0)\<rparr>"
      have xs: "xs = ws @ [y, z]" using snoc \<open>xs = ys @ [z]\<close> by simp
      have cc: "chain (link s) (head s l) (ws @ [y, z])" using c(1) xs by simp
      have yz: "link s y = z" "z \<noteq> 0" using cc by (auto simp: chain_append)
      have h0: "head s l \<noteq> 0 \<and> link s (head s l) \<noteq> 0"
        by (rule chain_two [OF cc])
      have "part (link s) (head s l) (ws @ [y]) z" using cc by (auto simp: chain_append part_append)
      then have "part ((link s)(y := 0)) (head s l) (ws @ [y]) 0" by (rule part_retarget) (use c(2) xs in auto)
      then have "chain ((link s)(y := 0)) (head s l) (ws @ [y])" using chain_append [of _ _ "ws @ [y]" "[]"] by simp
      then have "has_items l ?s (butlast xs)" using c(2) xs by (simp add: has_items_def butlast_append)
      moreover have "list_chop l s = Some (z, ?s)"
        using chop_loop_chain [OF cc] h0 yz by (simp add: list_chop_def)
      ultimately show thesis using that [of ?s] xs by simp
    qed
  qed
qed

lemma insert_items:
  assumes h: "has_items l s (xs @ p # ys)" and i: "item \<noteq> 0" "item \<notin> set (xs @ p # ys)"
  obtains s' where "list_insert l p item s = Some s'" "has_items l s' (xs @ p # item # ys)"
    "\<And>q. q \<notin> {p, item} \<Longrightarrow> link s' q = link s q" "head s' = head s"
proof -
  let ?nx = "(link s)(item := link s p, p := item)"
  have c: "part (link s) (head s l) (xs @ [p]) (link s p)" "chain (link s) (link s p) ys" "p \<noteq> 0"
    "distinct (xs @ p # ys)" using h by (auto simp: has_items_def chain_append part_append)
  have "part ((link s)(p := item)) (head s l) (xs @ [p]) item" by (rule part_retarget [OF c(1)]) (use c(4) in auto)
  then have "part ?nx (head s l) (xs @ [p]) item" by (rule part_frame) (use i in auto)
  moreover have "chain ?nx (link s p) ys" by (rule chain_frame [OF c(2)]) (use c(4) i in auto)
  then have "chain ?nx item (item # ys)" using i by auto
  ultimately have "chain ?nx (head s l) ((xs @ [p]) @ item # ys)" unfolding chain_append by blast
  then have "has_items l (s\<lparr>link := ?nx\<rparr>) (xs @ p # item # ys)" using c(4) i by (auto simp: has_items_def)
  then show thesis using that [of "s\<lparr>link := ?nx\<rparr>"] c(3) by (simp add: list_insert_def Let_def fun_upd_twist)
qed

section \<open>The interface of a list\<close>

text \<open>
  What a client of one list relies on: \<open>items s xs\<close> says that the list holds \<open>xs\<close> in this order, adding and removing keep such a
  view, and following the links from the head meets exactly the items.
\<close>

locale item_list =
  fixes items :: "'s \<Rightarrow> addr list \<Rightarrow> bool"
    and add :: "addr \<Rightarrow> 's \<Rightarrow> 's option"
    and remove :: "addr \<Rightarrow> 's \<Rightarrow> 's option"
    and first :: "'s \<Rightarrow> addr"
    and succ :: "'s \<Rightarrow> addr \<Rightarrow> addr"
  assumes add_law: "items s xs \<Longrightarrow> i \<noteq> 0 \<Longrightarrow> \<exists>s'. add i s = Some s' \<and> items s' (remove1 i xs @ [i])"
    and remove_law: "items s xs \<Longrightarrow> \<exists>s'. remove i s = Some s' \<and> items s' (remove1 i xs)"
    and walk_law: "items s xs \<Longrightarrow> chain (succ s) (first s) xs"
    and distinct_law: "items s xs \<Longrightarrow> distinct xs"
begin

lemma view_unique: "items s xs \<Longrightarrow> items s ys \<Longrightarrow> xs = ys"
  using walk_law chain_unique by blast

lemma view_nonzero: "items s xs \<Longrightarrow> 0 \<notin> set xs"
  using walk_law chain_nonzero by blast

lemma add_fresh:
  assumes "items s xs" "i \<noteq> 0" "i \<notin> set xs"
  obtains s' where "add i s = Some s'" "items s' (xs @ [i])"
  using add_law [OF assms(1,2)] assms(3) by (auto simp: remove1_idem)

lemma remove_present:
  assumes "items s xs"
  obtains s' where "remove i s = Some s'" "items s' (filter (\<lambda>x. x \<noteq> i) xs)"
proof -
  have "remove1 i xs = filter (\<lambda>x. x \<noteq> i) xs"
    using distinct_law [OF assms] by (induction xs) (auto simp: remove1_idem)
  then show thesis using remove_law [OF assms, of i] that by auto
qed

end

interpretation links: item_list "has_items l" "list_add l" "list_remove l" "list_head l" link for l :: 'l
proof
  fix s :: "'l links" and xs i
  assume h: "has_items l s xs"
  show "\<exists>s'. list_remove l i s = Some s' \<and> has_items l s' (remove1 i xs)"
    by (rule remove_items [OF h, of i]) (intro exI conjI)
  show "\<exists>s'. list_add l i s = Some s' \<and> has_items l s' (remove1 i xs @ [i])" if "i \<noteq> 0"
    by (rule add_items [OF h that]) (intro exI conjI)
qed (simp_all add: has_items_def list_head_def)

end
