(* ===== verification/Coap_Transactions.thy ===== *)
theory Coap_Transactions
  imports Coap_List
begin

text \<open>
  The open transactions of coap/er-coap-13-transactions.c. The state is the list \<open>transactions_list\<close> (with the links of its items) and the
  transaction objects that are allocated; the member \<open>next\<close> of an object is its link in the list. The result of \<open>malloc\<close> is an argument of
  \<open>coap_new_transaction\<close>: 0, or the address of an object that is not allocated, with what its memory holds. \<open>None\<close> stands for an access to memory that is not allocated, or a loop that does not end.
  The file shows that the operations implement a table of transactions in the order of their creation.
\<close>

section \<open>The operations\<close>

record coap_transaction_t =
  mid :: u16
  retrans_counter :: u8
  addr :: u32
  port :: u16
  callback :: u32
  callback_data :: u32
  packet_len :: u16
  packet :: "u8 list"

record transactions =
  transactions_list :: "unit links"
  objects :: "addr \<rightharpoonup> coap_transaction_t"

definition transactions_init :: transactions where
  "transactions_init = \<lparr>transactions_list = \<lparr>head = (\<lambda>_. 0), link = (\<lambda>_. 0)\<rparr>, objects = Map.empty\<rparr>"

definition coap_new_transaction :: "addr \<Rightarrow> coap_transaction_t \<Rightarrow> u16 \<Rightarrow> u32 \<Rightarrow> u16 \<Rightarrow> transactions \<Rightarrow> (addr \<times> transactions) option" where
  "coap_new_transaction t block m ipaddr p s =
     (if t \<noteq> 0
      then (let s = s\<lparr>objects := (objects s)(t \<mapsto> block\<lparr>mid := m, addr := ipaddr, port := p\<rparr>)\<rparr>
            in do {
              ls \<leftarrow> list_add () t (transactions_list s);
              Some (t, s\<lparr>transactions_list := ls\<rparr>)
            })
      else Some (t, s))"

definition coap_clear_transaction :: "addr \<Rightarrow> transactions \<Rightarrow> transactions option" where
  "coap_clear_transaction t s =
     (if t \<noteq> 0
      then do {
        ls \<leftarrow> list_remove () t (transactions_list s);
        let s = s\<lparr>transactions_list := ls\<rparr>;
        (if objects s t = None then None else Some (s\<lparr>objects := (objects s)(t := None)\<rparr>))
      }
      else Some s)"

partial_function (option) by_mid_loop :: "u16 \<Rightarrow> addr \<Rightarrow> transactions \<Rightarrow> addr option" where
  "by_mid_loop m t s =
     (if t = 0 then Some 0
      else case objects s t of
        None \<Rightarrow> None
      | Some ob \<Rightarrow> if mid ob = m then Some t else by_mid_loop m (link (transactions_list s) t) s)"

definition coap_get_transaction_by_mid :: "u16 \<Rightarrow> transactions \<Rightarrow> addr option" where
  "coap_get_transaction_by_mid m s = by_mid_loop m (list_head () (transactions_list s)) s"

section \<open>The table they implement\<close>

text \<open>The abstract table: the open transactions in the order of their creation, each with its handle.\<close>

type_synonym table = "(addr \<times> coap_transaction_t) list"

definition table_of :: "transactions \<Rightarrow> table \<Rightarrow> bool" where
  "table_of s tb \<longleftrightarrow> has_items () (transactions_list s) (map fst tb) \<and> objects s = map_of tb"

definition table_find :: "u16 \<Rightarrow> table \<Rightarrow> addr" where
  "table_find m tb = (case filter (\<lambda>e. mid (snd e) = m) tb of [] \<Rightarrow> 0 | e # _ \<Rightarrow> fst e)"

lemma table_distinct: "table_of s tb \<Longrightarrow> distinct (map fst tb)"
  by (simp add: table_of_def has_items_def)

lemma table_init: "table_of transactions_init []"
  by (simp add: table_of_def transactions_init_def has_items_def)

lemma map_of_snoc: "k \<notin> fst ` set xs \<Longrightarrow> map_of (xs @ [(k, v)]) = (map_of xs)(k \<mapsto> v)"
  by (induction xs) (auto simp: fun_upd_twist)

lemma map_of_without: "(map_of xs)(k := None) = map_of (filter (\<lambda>e. fst e \<noteq> k) xs)"
proof
  show "((map_of xs)(k := None)) x = map_of (filter (\<lambda>e. fst e \<noteq> k) xs) x" for x
    by (induction xs) auto
qed

lemma new_table:
  assumes "table_of s tb" "t \<noteq> 0" "t \<notin> fst ` set tb"
  obtains s' where "coap_new_transaction t b m a p s = Some (t, s')"
    "table_of s' (tb @ [(t, b\<lparr>mid := m, addr := a, port := p\<rparr>)])"
proof -
  obtain ls where ls: "list_add () t (transactions_list s) = Some ls" "has_items () ls (map fst tb @ [t])"
    using links.add_fresh [of "()" "transactions_list s" "map fst tb" t] assms by (auto simp: table_of_def)
  have "map_of (tb @ [(t, ob)]) = (map_of tb)(t \<mapsto> ob)" for ob
    using assms(3) by (rule map_of_snoc)
  then show thesis using that assms(1,2) ls by (simp add: coap_new_transaction_def Let_def table_of_def)
qed

lemma clear_table:
  assumes "table_of s tb" "t \<in> fst ` set tb"
  obtains s' where "coap_clear_transaction t s = Some s'" "table_of s' (filter (\<lambda>e. fst e \<noteq> t) tb)"
proof -
  have h: "has_items () (transactions_list s) (map fst tb)" "objects s = map_of tb" using assms(1) by (simp_all add: table_of_def)
  have t: "t \<noteq> 0" "objects s t \<noteq> None"
    using assms(2) links.view_nonzero [OF h(1)] h(2) by (auto simp: map_of_eq_None_iff)
  obtain ls where ls: "list_remove () t (transactions_list s) = Some ls"
    "has_items () ls (filter (\<lambda>x. x \<noteq> t) (map fst tb))"
    using links.remove_present [OF h(1)] by blast
  show thesis using that t ls h(2) map_of_without [of tb t] by (simp add: coap_clear_transaction_def Let_def table_of_def filter_map comp_def)
qed

lemma by_mid_loop_table:
  assumes "chain (link (transactions_list s)) t (map fst tb)" "\<And>e. e \<in> set tb \<Longrightarrow> objects s (fst e) = Some (snd e)"
  shows "by_mid_loop m t s = Some (table_find m tb)"
  using assms
proof (induction tb arbitrary: t)
  case Nil
  then show ?case by (subst by_mid_loop.simps) (simp add: table_find_def)
next
  case (Cons e tb)
  then have "objects s t = Some (snd e)" "t = fst e" "t \<noteq> 0" by auto
  then show ?case using Cons by (subst by_mid_loop.simps) (simp add: table_find_def)
qed

lemma get_table: "table_of s tb \<Longrightarrow> coap_get_transaction_by_mid m s = Some (table_find m tb)"
  unfolding coap_get_transaction_by_mid_def
  by (rule by_mid_loop_table)
    (auto simp: table_of_def list_head_def has_items_def)

section \<open>Sequences of operations\<close>

datatype operation = New addr coap_transaction_t u16 u32 u16 | Clear addr | Get u16

fun perform :: "operation list \<Rightarrow> transactions \<Rightarrow> (addr list \<times> transactions) option" where
  "perform [] s = Some ([], s)"
| "perform (New t b m a p # ops) s = do { (r, s) \<leftarrow> coap_new_transaction t b m a p s; (rs, s) \<leftarrow> perform ops s; Some (r # rs, s) }"
| "perform (Clear t # ops) s = do { s \<leftarrow> coap_clear_transaction t s; perform ops s }"
| "perform (Get m # ops) s = do { r \<leftarrow> coap_get_transaction_by_mid m s; (rs, s) \<leftarrow> perform ops s; Some (r # rs, s) }"

text \<open>
  What the callers have to keep, on the table alone: an address that \<open>malloc\<close> returns is 0 or not in use, and a transaction that is
  cleared is \<open>NULL\<close> or open.
\<close>

fun table_run :: "operation list \<Rightarrow> table \<Rightarrow> addr list \<times> table" where
  "table_run [] tb = ([], tb)"
| "table_run (New t b m a p # ops) tb =
     (let (rs, tb') = table_run ops (if t = 0 then tb else tb @ [(t, b\<lparr>mid := m, addr := a, port := p\<rparr>)]) in (t # rs, tb'))"
| "table_run (Clear t # ops) tb = table_run ops (filter (\<lambda>e. fst e \<noteq> t) tb)"
| "table_run (Get m # ops) tb = (let (rs, tb') = table_run ops tb in (table_find m tb # rs, tb'))"

fun proper :: "operation list \<Rightarrow> addr set \<Rightarrow> bool" where
  "proper [] live \<longleftrightarrow> True"
| "proper (New t b m a p # ops) live \<longleftrightarrow> t \<notin> live \<and> proper ops (if t = 0 then live else insert t live)"
| "proper (Clear t # ops) live \<longleftrightarrow> (t = 0 \<or> t \<in> live) \<and> proper ops (live - {t})"
| "proper (Get m # ops) live \<longleftrightarrow> proper ops live"

lemma perform_table:
  assumes "table_of s tb" "proper ops (fst ` set tb)"
  shows "\<exists>s'. perform ops s = Some (fst (table_run ops tb), s') \<and> table_of s' (snd (table_run ops tb))"
  using assms
proof (induction ops arbitrary: s tb)
  case (Cons op ops)
  show ?case
  proof (cases op)
    case (New t b m a p)
    show ?thesis
    proof (cases "t = 0")
      case True
      then have "proper ops (fst ` set tb)" using Cons.prems(2) New by simp
      from Cons.IH [OF Cons.prems(1) this] show ?thesis
        using New True by (auto simp: coap_new_transaction_def split: prod.splits)
    next
      case False
      let ?tb = "tb @ [(t, b\<lparr>mid := m, addr := a, port := p\<rparr>)]"
      obtain s1 where s1: "coap_new_transaction t b m a p s = Some (t, s1)" "table_of s1 ?tb"
        using new_table [OF Cons.prems(1) False] Cons.prems(2) New by (metis proper.simps(2))
      have "proper ops (fst ` set ?tb)" using Cons.prems(2) New False by simp
      from Cons.IH [OF s1(2) this] show ?thesis using s1(1) New False by (auto split: prod.splits)
    qed
  next
    case (Clear t)
    show ?thesis
    proof (cases "t = 0")
      case True
      have "0 \<notin> fst ` set tb" using Cons.prems(1) links.view_nonzero by (force simp: table_of_def)
      then have "filter (\<lambda>e. fst e \<noteq> t) tb = tb" "fst ` set tb - {0} = fst ` set tb" using True by (auto simp: filter_id_conv)
      then show ?thesis using Cons True Clear by (simp add: coap_clear_transaction_def)
    next
      case False
      then have "t \<in> fst ` set tb" using Cons.prems(2) Clear by simp
      then obtain s1 where s1: "coap_clear_transaction t s = Some s1" "table_of s1 (filter (\<lambda>e. fst e \<noteq> t) tb)"
        using clear_table [OF Cons.prems(1)] by blast
      have "fst ` set tb - {t} = fst ` set (filter (\<lambda>e. fst e \<noteq> t) tb)" by auto
      then have "proper ops (fst ` set (filter (\<lambda>e. fst e \<noteq> t) tb))" using Cons.prems(2) Clear by simp
      from Cons.IH [OF s1(2) this] show ?thesis using s1(1) Clear by simp
    qed
  next
    case (Get m)
    then have "proper ops (fst ` set tb)" using Cons.prems(2) by simp
    from Cons.IH [OF Cons.prems(1) this] show ?thesis
      using Get get_table [OF Cons.prems(1), of m] by (auto split: prod.splits)
  qed
qed simp

definition fresh_block :: coap_transaction_t where
  "fresh_block = \<lparr>mid = 0, retrans_counter = 7, addr = 0, port = 0, callback = 0, callback_data = 0, packet_len = 0, packet = []\<rparr>"

text \<open>
  C34: The transactions implement a table: for any sequence of creations, removals and searches in which \<open>malloc\<close> returns 0 or an address that
  is not in use and only open transactions (or \<open>NULL\<close>) are cleared, every call returns what the table gives. A search finds the oldest
  open transaction with the message id, or \<open>NULL\<close>; a failed allocation leaves the table as it is; no loop runs forever and no
  released transaction is read.
\<close>

lemma transactions_implement_table:
  assumes "proper ops {}"
  shows "\<exists>s. perform ops transactions_init = Some (fst (table_run ops []), s) \<and> table_of s (snd (table_run ops []))"
  using perform_table [OF table_init] assms by simp

lemma transactions_implement_table_witness:
  "proper [New 16 fresh_block 1 9 5683, New 32 fresh_block 2 9 5683, Get 2, Clear 16, Get 1, New 0 fresh_block 3 9 5683] {} \<and>
    (\<exists>s. perform [New 16 fresh_block 1 9 5683, New 32 fresh_block 2 9 5683, Get 2, Clear 16, Get 1, New 0 fresh_block 3 9 5683]
        transactions_init = Some ([16, 32, 32, 0, 0], s) \<and>
      table_of s [(32, fresh_block\<lparr>mid := 2, addr := 9, port := 5683\<rparr>)])"
  using transactions_implement_table
    [of "[New 16 fresh_block 1 9 5683, New 32 fresh_block 2 9 5683, Get 2, Clear 16, Get 1, New 0 fresh_block 3 9 5683]"]
  by (simp add: table_find_def fresh_block_def)

end
