(* ===== verification/Coap_Uri.thy ===== *)
theory Coap_Uri
  imports Prelude
begin

text \<open>
  The URI splitter of coap/uri.c and the strings of coap/str.c. The bytes at \<open>str_var\<close> are a list, a pointer into them is an offset, a pointer
  that is kept in a \<open>str\<close> is \<open>None\<close> for \<open>NULL\<close>. The result \<open>None\<close> of an operation stands for an access outside the
  bytes. The return value of the splitter is \<open>None\<close> where the \<open>int\<close> that collects the port overflows, which the language leaves
  undefined; the model stops there, with the URI and the bytes as they are then. The second half characterises the phases of the splitter, on a URI
  that is given by its parts and on arbitrary bytes.
\<close>

section \<open>Strings and characters\<close>

record str =
  str_length :: nat
  str_s :: "nat option"

definition COAP_SET_STR :: "nat \<Rightarrow> nat \<Rightarrow> str" where
  "COAP_SET_STR l v = \<lparr>str_length = l, str_s = Some v\<rparr>"

definition null_str :: str where
  "null_str = \<lparr>str_length = 0, str_s = None\<rparr>"

text \<open>
  A string object is the header \<open>str\<close> followed by its bytes, in a heap of such objects; the pointer of the header is the offset of the first byte behind
  it. What \<open>malloc\<close> returns is an argument: the address \<open>s\<close>, 0 for \<open>NULL\<close>, and what the memory behind the header holds.
\<close>

type_synonym str_heap = "u32 \<rightharpoonup> str \<times> u8 list"

definition coap_new_string :: "nat \<Rightarrow> u32 \<Rightarrow> u8 list \<Rightarrow> str_heap \<Rightarrow> u32 \<times> str_heap" where
  "coap_new_string n s block h =
     (if s = 0 then (0, h) else (s, h(s \<mapsto> (\<lparr>str_length = 0, str_s = Some 0\<rparr>, take (n + 1) block))))"

definition coap_delete_string :: "u32 \<Rightarrow> str_heap \<Rightarrow> str_heap option" where
  "coap_delete_string s h = (if s = 0 then Some h else if h s = None then None else Some (h(s := None)))"

text \<open>Creating a string at an address that is not in use and deleting it leaves the heap as it was, also when \<open>malloc\<close> fails.\<close>

lemma new_delete_string:
  "h s = None \<Longrightarrow> coap_delete_string (fst (coap_new_string n s block h)) (snd (coap_new_string n s block h)) = Some h"
  by (auto simp: coap_new_string_def coap_delete_string_def fun_upd_idem)

definition tolower :: "u8 \<Rightarrow> u8" where
  "tolower c = (if 65 \<le> c \<and> c \<le> 90 then c + 32 else c)"

definition isdigit :: "u8 \<Rightarrow> bool" where
  "isdigit c \<longleftrightarrow> 48 \<le> c \<and> c \<le> 57"

definition byte_at :: "u8 list \<Rightarrow> nat \<Rightarrow> u8 option" where
  "byte_at m i = (if i < length m then Some (m ! i) else None)"

definition set_byte :: "u8 list \<Rightarrow> nat \<Rightarrow> u8 \<Rightarrow> u8 list option" where
  "set_byte m i c = (if i < length m then Some (m[i := c]) else None)"

text \<open>\<open>strnchr\<close>: the outer \<open>None\<close> is a read outside the bytes, the inner one the result \<open>NULL\<close>.\<close>

fun strnchr :: "u8 list \<Rightarrow> nat \<Rightarrow> nat \<Rightarrow> u8 \<Rightarrow> nat option option" where
  "strnchr m s 0 c = Some None"
| "strnchr m s (Suc len) c = do {
     b \<leftarrow> byte_at m s;
     (if b \<noteq> c then strnchr m (s + 1) len c else Some (Some (s + 1)))
   }"

section \<open>The splitter\<close>

record coap_uri_t =
  host :: str
  uport :: u16
  path :: str
  query :: str

abbreviation "COAP_DEFAULT_PORT \<equiv> (5683 :: u16)"

definition COAP_DEFAULT_SCHEME :: "u8 list" where
  "COAP_DEFAULT_SCHEME = [99, 111, 97, 112]"

text \<open>\<open>while (len && *q && tolower(*p) == *q)\<close>; \<open>q\<close> is what is left of the literal.\<close>

fun match_loop :: "u8 list \<Rightarrow> u8 list \<Rightarrow> nat \<Rightarrow> nat \<Rightarrow> (u8 list \<times> nat \<times> nat) option" where
  "match_loop m [] p len = Some ([], p, len)"
| "match_loop m (c # q) p 0 = Some (c # q, p, 0)"
| "match_loop m (c # q) p (Suc len) = do {
     b \<leftarrow> byte_at m p;
     (if tolower b = c then match_loop m q (p + 1) len else Some (c # q, p, Suc len))
   }"

text \<open>The loops that only move \<open>q\<close>, up to a byte on which they stop.\<close>

fun skip_loop :: "(u8 \<Rightarrow> bool) \<Rightarrow> u8 list \<Rightarrow> nat \<Rightarrow> nat \<Rightarrow> (nat \<times> nat) option" where
  "skip_loop stop m q 0 = Some (q, 0)"
| "skip_loop stop m q (Suc len) = do {
     b \<leftarrow> byte_at m q;
     (if stop b then Some (q, Suc len) else skip_loop stop m (q + 1) len)
   }"

definition host_ends :: "u8 \<Rightarrow> bool" where
  "host_ends c \<longleftrightarrow> c = 58 \<or> c = 47 \<or> c = 63"

fun host_loop :: "u8 list \<Rightarrow> nat \<Rightarrow> nat \<Rightarrow> (u8 list \<times> nat \<times> nat) option" where
  "host_loop m q 0 = Some (m, q, 0)"
| "host_loop m q (Suc len) = do {
     b \<leftarrow> byte_at m q;
     (if host_ends b then Some (m, q, Suc len)
      else do {
        m \<leftarrow> set_byte m q (tolower b);
        host_loop m (q + 1) len
      })
   }"

text \<open>
  \<open>while (p < q) uri_port = uri_port * 10 + (*p++ - '0')\<close>; \<open>n\<close> is \<open>q - p\<close>. The outer \<open>None\<close> is a read outside the bytes, the inner one an
  overflow of the \<open>int\<close>.
\<close>

fun port_loop :: "u8 list \<Rightarrow> nat \<Rightarrow> nat \<Rightarrow> int \<Rightarrow> int option option" where
  "port_loop m p 0 uri_port = Some (Some uri_port)"
| "port_loop m p (Suc n) uri_port = do {
     b \<leftarrow> byte_at m p;
     (let v = uri_port * 10 + (uint b - 48)
      in if uri_port * 10 < 2147483648 \<and> v < 2147483648 then port_loop m (p + 1) n v else Some None)
   }"

text \<open>The query and the end: what is left over makes the result -1.\<close>

definition query_part :: "u8 list \<Rightarrow> nat \<Rightarrow> nat \<Rightarrow> coap_uri_t \<Rightarrow> (int option \<times> coap_uri_t \<times> u8 list) option" where
  "query_part m p len uri =
     (if len = 0 then Some (Some 0, uri, m)
      else do {
        b \<leftarrow> byte_at m p;
        Some (if b = 63 then (Some 0, uri\<lparr>query := COAP_SET_STR (len - 1) (p + 1)\<rparr>, m) else (Some (-1), uri, m))
      })"

text \<open>From the label \<open>path\<close> on.\<close>

definition path_part :: "u8 list \<Rightarrow> nat \<Rightarrow> nat \<Rightarrow> nat \<Rightarrow> coap_uri_t \<Rightarrow> (int option \<times> coap_uri_t \<times> u8 list) option" where
  "path_part m p q len uri =
     (if len = 0 then Some (Some 0, uri, m)
      else do {
        b \<leftarrow> byte_at m q;
        (p, len, uri) \<leftarrow>
          (if b = 47
           then do {
             let p = q + 1;
             (q, len) \<leftarrow> skip_loop (\<lambda>c. c = 63) m (q + 1) (len - 1);
             Some (if p < q then (q, len, uri\<lparr>path := COAP_SET_STR (q - p) p\<rparr>) else (p, len, uri))
           }
           else Some (p, len, uri));
        query_part m p len uri
      })"

definition port_part :: "u8 list \<Rightarrow> nat \<Rightarrow> nat \<Rightarrow> nat \<Rightarrow> coap_uri_t \<Rightarrow> (int option \<times> coap_uri_t \<times> u8 list) option" where
  "port_part m p q len uri =
     (if len = 0 then path_part m p q len uri
      else do {
        b \<leftarrow> byte_at m q;
        (if b = 58
         then do {
           let p = q + 1;
           (q, len) \<leftarrow> skip_loop (\<lambda>c. \<not> isdigit c) m (q + 1) (len - 1);
           (if p < q
            then do {
              v \<leftarrow> port_loop m p (q - p) 0;
              (case v of
                 None \<Rightarrow> Some (None, uri, m)
               | Some uri_port \<Rightarrow> path_part m q q len (uri\<lparr>uport := word_of_int uri_port\<rparr>))
            }
            else path_part m p q len uri)
         }
         else path_part m p q len uri)
      })"

definition host_part :: "u8 list \<Rightarrow> nat \<Rightarrow> nat \<Rightarrow> coap_uri_t \<Rightarrow> (int option \<times> coap_uri_t \<times> u8 list) option" where
  "host_part m p len uri = do {
     bracket \<leftarrow> (if len = 0 then Some False else map_option (\<lambda>b. b = 91) (byte_at m p));
     (if bracket
      then do {
        (q, len) \<leftarrow> skip_loop (\<lambda>c. c = 93) m p len;
        (if len = 0 \<or> p + 1 = q then Some (Some (-3), uri, m)
         else port_part m (p + 1) (q + 1) (len - 1) (uri\<lparr>host := COAP_SET_STR (q - (p + 1)) (p + 1)\<rparr>))
      }
      else do {
        (m, q, len) \<leftarrow> host_loop m p len;
        (if p = q then Some (Some (-3), uri, m)
         else port_part m p q len (uri\<lparr>host := COAP_SET_STR (q - p) p\<rparr>))
      })
   }"

text \<open>
  \<open>str_var\<close> and \<open>uri\<close> are \<open>None\<close> for \<open>NULL\<close>. The local \<open>secure\<close> is set and not read again: the scheme coaps is accepted with the
  default port of coap.
\<close>

definition coap_split_uri ::
    "u8 list option \<Rightarrow> nat \<Rightarrow> coap_uri_t option \<Rightarrow> (int option \<times> coap_uri_t option \<times> u8 list option) option" where
  "coap_split_uri str_var len uri =
     (case (str_var, uri) of
        (Some m, Some _) \<Rightarrow> do {
          let uri = \<lparr>host = null_str, uport = COAP_DEFAULT_PORT, path = null_str, query = null_str\<rparr>;
          b \<leftarrow> byte_at m 0;
          (r, uri, m) \<leftarrow>
            (if b = 47 then path_part m 0 0 len uri
             else do {
               (q, p, len) \<leftarrow> match_loop m COAP_DEFAULT_SCHEME 0 len;
               (if q \<noteq> [] then Some (Some (-1), uri, m)
                else do {
                  secure \<leftarrow> (if len = 0 then Some False else map_option (\<lambda>b. tolower b = 115) (byte_at m p));
                  let (p, len) = (if secure then (p + 1, len - 1) else (p, len));
                  (q, p, len) \<leftarrow> match_loop m [58, 47, 47] p len;
                  (if q \<noteq> [] then Some (Some (-2), uri, m) else host_part m p len uri)
                })
             });
          Some (r, Some uri, Some m)
        }
      | _ \<Rightarrow> Some (Some (-1), uri, str_var))"

text \<open>
  \<open>coap_new_uri\<close>: \<open>ok\<close> says whether \<open>malloc\<close> returned a block. The result holds the split URI with the bytes behind it, or \<open>None\<close>
  for \<open>NULL\<close>; the outer \<open>None\<close> is an access outside the bytes or an overflow in the splitter.
\<close>

definition coap_new_uri :: "bool \<Rightarrow> u8 list \<Rightarrow> nat \<Rightarrow> (coap_uri_t \<times> u8 list) option option" where
  "coap_new_uri ok uri len =
     (if \<not> ok then Some None
      else if length uri < len then None
      else do {
        (r, u, m) \<leftarrow> coap_split_uri (Some (take len uri @ [0])) len
          (Some \<lparr>host = null_str, uport = 0, path = null_str, query = null_str\<rparr>);
        r \<leftarrow> r;
        Some (if r < 0 then None else case (u, m) of (Some u, Some m) \<Rightarrow> Some (u, m) | _ \<Rightarrow> None)
      })"

section \<open>The phases on a URI given by its parts\<close>

lemma byte_at_append [simp]: "byte_at (pre @ c # post) (length pre) = Some c"
  by (simp add: byte_at_def)

text \<open>\<open>strnchr\<close> returns the address behind the first occurrence, not that of the occurrence.\<close>

lemma strnchr_behind:
  "c \<notin> set xs \<Longrightarrow> strnchr (pre @ xs @ c # post) (length pre) (length xs + 1 + n) c = Some (Some (length pre + length xs + 1))"
proof (induction xs arbitrary: pre)
  case (Cons x xs)
  have "strnchr ((pre @ [x]) @ xs @ c # post) (length (pre @ [x])) (length xs + 1 + n) c =
      Some (Some (length (pre @ [x]) + length xs + 1))" by (rule Cons.IH) (use Cons.prems in simp)
  then show ?case using Cons.prems by auto
qed simp

lemma match_loop_hit:
  "map tolower xs = q \<Longrightarrow> match_loop (pre @ xs @ post) q (length pre) (length xs + n) = Some ([], length pre + length xs, n)"
proof (induction xs arbitrary: pre q)
  case (Cons x xs)
  have "match_loop ((pre @ [x]) @ xs @ post) (map tolower xs) (length (pre @ [x])) (length xs + n) =
      Some ([], length (pre @ [x]) + length xs, n)" by (rule Cons.IH) simp
  then show ?case using Cons.prems by auto
qed simp

lemma skip_loop_hit:
  assumes "\<forall>c\<in>set xs. \<not> stop c" "n = 0 \<or> post \<noteq> [] \<and> stop (hd post)"
  shows "skip_loop stop (pre @ xs @ post) (length pre) (length xs + n) = Some (length pre + length xs, n)"
  using assms(1)
proof (induction xs arbitrary: pre)
  case Nil
  then show ?case using assms(2) by (cases n; cases post) auto
next
  case (Cons x xs)
  have "skip_loop stop ((pre @ [x]) @ xs @ post) (length (pre @ [x])) (length xs + n) =
      Some (length (pre @ [x]) + length xs, n)" by (rule Cons.IH) (use Cons.prems in simp)
  then show ?case using Cons.prems by auto
qed

lemma host_loop_hit:
  assumes "\<forall>c\<in>set xs. \<not> host_ends c" "n = 0 \<or> post \<noteq> [] \<and> host_ends (hd post)"
  shows "host_loop (pre @ xs @ post) (length pre) (length xs + n) = Some (pre @ map tolower xs @ post, length pre + length xs, n)"
  using assms(1)
proof (induction xs arbitrary: pre)
  case Nil
  then show ?case using assms(2) by (cases n; cases post) auto
next
  case (Cons x xs)
  have "host_loop ((pre @ [tolower x]) @ xs @ post) (length (pre @ [tolower x])) (length xs + n) =
      Some ((pre @ [tolower x]) @ map tolower xs @ post, length (pre @ [tolower x]) + length xs, n)"
    by (rule Cons.IH) (use Cons.prems in simp)
  then show ?case using Cons.prems by (auto simp: set_byte_def)
qed

definition decimal :: "u8 list \<Rightarrow> int \<Rightarrow> int" where
  "decimal ds a = foldl (\<lambda>a d. a * 10 + (uint d - 48)) a ds"

lemma isdigit_value: "isdigit c \<Longrightarrow> 0 \<le> uint c - 48 \<and> uint c - 48 \<le> 9"
  by (simp add: isdigit_def word_le_def)

lemma decimal_mono: "\<forall>c\<in>set ds. isdigit c \<Longrightarrow> 0 \<le> a \<Longrightarrow> a \<le> decimal ds a"
proof (induction ds arbitrary: a)
  case (Cons d ds)
  have "a \<le> a * 10 + (uint d - 48)" using isdigit_value [of d] Cons.prems by simp
  also have "\<dots> \<le> decimal ds (a * 10 + (uint d - 48))" using Cons isdigit_value [of d] by simp
  finally show ?case by (simp add: decimal_def)
qed (simp add: decimal_def)

lemma port_loop_hit:
  assumes "\<forall>c\<in>set ds. isdigit c" "0 \<le> a" "decimal ds a < 2147483648"
  shows "port_loop (pre @ ds @ post) (length pre) (length ds) a = Some (Some (decimal ds a))"
  using assms
proof (induction ds arbitrary: pre a)
  case (Cons d ds)
  let ?v = "a * 10 + (uint d - 48)"
  have v: "0 \<le> ?v" "a * 10 \<le> ?v" using isdigit_value [of d] Cons.prems by auto
  have dec: "decimal (d # ds) a = decimal ds ?v" by (simp add: decimal_def)
  have le: "?v \<le> decimal ds ?v" by (rule decimal_mono) (use Cons.prems v in auto)
  have "port_loop ((pre @ [d]) @ ds @ post) (length (pre @ [d])) (length ds) ?v = Some (Some (decimal ds ?v))"
    by (rule Cons.IH) (use Cons.prems v dec in auto)
  then show ?case using le v Cons.prems(3) dec by (simp add: Let_def)
qed (simp add: decimal_def)

text \<open>The text of a string of the result.\<close>

definition text_of :: "u8 list \<Rightarrow> str \<Rightarrow> u8 list" where
  "text_of m s = (case str_s s of None \<Rightarrow> [] | Some p \<Rightarrow> take (str_length s) (drop p m))"

lemma text_of_hit [simp]: "text_of (pre @ xs @ post) (COAP_SET_STR (length xs) (length pre)) = xs"
  by (simp add: text_of_def COAP_SET_STR_def)

text \<open>An optional part with the character that introduces it.\<close>

fun part_text :: "u8 \<Rightarrow> u8 list option \<Rightarrow> u8 list" where
  "part_text c None = []"
| "part_text c (Some xs) = c # xs"

fun part_str :: "nat \<Rightarrow> u8 list option \<Rightarrow> str" where
  "part_str k None = null_str"
| "part_str k (Some xs) = COAP_SET_STR (length xs) (k + 1)"

definition path_str :: "nat \<Rightarrow> u8 list option \<Rightarrow> str" where
  "path_str k pa = part_str k (if pa = Some [] then None else pa)"

lemma query_part_hit:
  "query uri = null_str \<Longrightarrow> query_part (pre @ part_text 63 qu @ rest) (length pre) (length (part_text 63 qu)) uri =
    Some (Some 0, uri\<lparr>query := part_str (length pre) qu\<rparr>, pre @ part_text 63 qu @ rest)"
  by (cases qu) (simp_all add: query_part_def)

lemma path_part_hit:
  assumes u: "query uri = null_str" "path uri = null_str"
    and q: "pa = None \<Longrightarrow> qu = None \<or> p = length pre"
    and pa: "\<forall>xs. pa = Some xs \<longrightarrow> 63 \<notin> set xs"
  shows "path_part (pre @ part_text 47 pa @ part_text 63 qu @ rest) p (length pre) (length (part_text 47 pa @ part_text 63 qu)) uri =
    Some (Some 0, uri\<lparr>path := path_str (length pre) pa, query := part_str (length pre + length (part_text 47 pa)) qu\<rparr>,
      pre @ part_text 47 pa @ part_text 63 qu @ rest)"
proof (cases pa)
  case None
  then show ?thesis using q u by (cases qu) (auto simp: path_part_def path_str_def query_part_def)
next
  case (Some xs)
  let ?n = "length (part_text 63 qu)" and ?m = "pre @ 47 # xs @ part_text 63 qu @ rest"
  have "skip_loop (\<lambda>c. c = 63) ((pre @ [47]) @ xs @ part_text 63 qu @ rest) (length (pre @ [47])) (length xs + ?n) =
      Some (length (pre @ [47]) + length xs, ?n)"
    by (rule skip_loop_hit) (use pa Some in \<open>auto\<close>, cases qu, auto)
  then have s: "skip_loop (\<lambda>c. c = 63) ?m (length pre + 1) (length xs + ?n) = Some (length pre + 1 + length xs, ?n)" by simp
  have e: "query_part ?m (length pre + 1 + length xs) ?n v =
      Some (Some 0, v\<lparr>query := part_str (length pre + 1 + length xs) qu\<rparr>, ?m)" if "query v = null_str" for v
    using query_part_hit [OF that, of "pre @ 47 # xs" qu rest] by simp
  have "path_part ?m p (length pre) (1 + length xs + ?n) uri =
      query_part ?m (length pre + 1 + length xs) ?n (uri\<lparr>path := path_str (length pre) pa\<rparr>)"
  proof (cases "xs = []")
    case True
    then show ?thesis using s Some u by (cases uri) (simp add: path_part_def path_str_def)
  next
    case False
    then show ?thesis using s Some by (simp add: path_part_def path_str_def)
  qed
  then show ?thesis using e [of "uri\<lparr>path := path_str (length pre) pa\<rparr>"] u Some by simp
qed

lemma port_part_hit:
  assumes u: "query uri = null_str" "path uri = null_str"
    and q: "po = None \<and> pa = None \<longrightarrow> qu = None"
    and pa: "\<forall>xs. pa = Some xs \<longrightarrow> 63 \<notin> set xs"
    and po: "\<forall>ds. po = Some ds \<longrightarrow> (\<forall>c\<in>set ds. isdigit c) \<and> decimal ds 0 < 2147483648"
  shows "port_part (pre @ part_text 58 po @ part_text 47 pa @ part_text 63 qu @ rest) p (length pre)
      (length (part_text 58 po @ part_text 47 pa @ part_text 63 qu)) uri =
    Some (Some 0, uri\<lparr>uport := (case po of Some (d # ds) \<Rightarrow> word_of_int (decimal (d # ds) 0) | _ \<Rightarrow> uport uri),
        path := path_str (length pre + length (part_text 58 po)) pa,
        query := part_str (length pre + length (part_text 58 po) + length (part_text 47 pa)) qu\<rparr>,
      pre @ part_text 58 po @ part_text 47 pa @ part_text 63 qu @ rest)"
proof (cases po)
  case None
  let ?m = "pre @ part_text 47 pa @ part_text 63 qu @ rest"
  have "port_part ?m p (length pre) (length (part_text 47 pa @ part_text 63 qu)) uri =
      path_part ?m p (length pre) (length (part_text 47 pa @ part_text 63 qu)) uri"
    using q None by (cases pa; cases qu) (simp_all add: port_part_def)
  then show ?thesis using path_part_hit [OF u, of pa qu p pre rest] q pa None by simp
next
  case (Some ds)
  let ?n = "length (part_text 47 pa @ part_text 63 qu)"
  let ?post = "part_text 47 pa @ part_text 63 qu @ rest"
  let ?m = "(pre @ [58]) @ ds @ ?post"
  have s: "skip_loop (\<lambda>c. \<not> isdigit c) ?m (length (pre @ [58])) (length ds + ?n) = Some (length (pre @ [58]) + length ds, ?n)"
  proof (rule skip_loop_hit)
    show "\<forall>c\<in>set ds. \<not> \<not> isdigit c" using po Some by simp
    show "?n = 0 \<or> ?post \<noteq> [] \<and> \<not> isdigit (hd ?post)" by (cases pa; cases qu) (simp_all add: isdigit_def)
  qed
  then have s': "skip_loop (\<lambda>c. \<not> isdigit c) (pre @ 58 # ds @ ?post) (length pre + 1) (length ds + ?n) = Some (length pre + 1 + length ds, ?n)"
    by simp
  have l: "port_loop ?m (length (pre @ [58])) (length ds) 0 = Some (Some (decimal ds 0))"
    by (rule port_loop_hit) (use po Some in simp_all)
  have e: "path_part ((pre @ 58 # ds) @ ?post) (length (pre @ 58 # ds)) (length (pre @ 58 # ds)) ?n v =
      Some (Some 0, v\<lparr>path := path_str (length (pre @ 58 # ds)) pa,
        query := part_str (length (pre @ 58 # ds) + length (part_text 47 pa)) qu\<rparr>, (pre @ 58 # ds) @ ?post)"
    if "query v = null_str" "path v = null_str" for v by (rule path_part_hit) (use that pa in simp_all)
  show ?thesis
  proof (cases "ds = []")
    case True
    then show ?thesis using Some s' e [of uri] u by (simp add: port_part_def)
  next
    case False
    then obtain d ds' where ds: "ds = d # ds'" by (cases ds) auto
    have "port_part (pre @ 58 # ds @ ?post) p (length pre) (1 + length ds + ?n) uri =
        path_part (pre @ 58 # ds @ ?post) (length pre + 1 + length ds) (length pre + 1 + length ds) ?n
          (uri\<lparr>uport := word_of_int (decimal ds 0)\<rparr>)"
      using s' l False by (simp add: port_part_def)
    then show ?thesis using e [of "uri\<lparr>uport := word_of_int (decimal ds 0)\<rparr>"] u Some ds by simp
  qed
qed

text \<open>A host is a name or address, or an IPv6 address in brackets.\<close>

datatype host_text = Name "u8 list" | Bracketed "u8 list"

fun host_bytes :: "host_text \<Rightarrow> u8 list" where
  "host_bytes (Name h) = h"
| "host_bytes (Bracketed h) = 91 # h @ [93]"

fun host_lower :: "host_text \<Rightarrow> host_text" where
  "host_lower (Name h) = Name (map tolower h)"
| "host_lower (Bracketed h) = Bracketed h"

fun host_inner :: "host_text \<Rightarrow> u8 list" where
  "host_inner (Name h) = h"
| "host_inner (Bracketed h) = h"

fun host_ok :: "host_text \<Rightarrow> bool" where
  "host_ok (Name h) \<longleftrightarrow> h \<noteq> [] \<and> hd h \<noteq> 91 \<and> (\<forall>c\<in>set h. \<not> host_ends c)"
| "host_ok (Bracketed h) \<longleftrightarrow> h \<noteq> [] \<and> 93 \<notin> set h"

definition host_str :: "nat \<Rightarrow> host_text \<Rightarrow> str" where
  "host_str k ho = COAP_SET_STR (length (host_inner ho)) (case ho of Name _ \<Rightarrow> k | Bracketed _ \<Rightarrow> k + 1)"

definition tail_bytes :: "u8 list option \<Rightarrow> u8 list option \<Rightarrow> u8 list option \<Rightarrow> u8 list" where
  "tail_bytes po pa qu = part_text 58 po @ part_text 47 pa @ part_text 63 qu"

lemma tail_ends: "length (tail_bytes po pa qu) = 0 \<or> tail_bytes po pa qu @ rest \<noteq> [] \<and> host_ends (hd (tail_bytes po pa qu @ rest))"
  by (cases po; cases pa; cases qu) (simp_all add: tail_bytes_def host_ends_def)

lemma host_part_port:
  assumes ho: "host_ok ho"
  shows "host_part (pre @ host_bytes ho @ tail_bytes po pa qu @ rest) (length pre) (length (host_bytes ho @ tail_bytes po pa qu)) uri =
    port_part (pre @ host_bytes (host_lower ho) @ tail_bytes po pa qu @ rest)
      (case ho of Name _ \<Rightarrow> length pre | Bracketed _ \<Rightarrow> length pre + 1)
      (length pre + length (host_bytes ho)) (length (tail_bytes po pa qu)) (uri\<lparr>host := host_str (length pre) ho\<rparr>)"
proof (cases ho)
  case (Name h)
  let ?post = "tail_bytes po pa qu @ rest"
  obtain z where h: "h \<noteq> []" "byte_at (pre @ h @ ?post) (length pre) = Some z" "z \<noteq> 91" "\<forall>c\<in>set h. \<not> host_ends c"
    using ho Name by (cases h) auto
  have "host_loop (pre @ h @ ?post) (length pre) (length h + length (tail_bytes po pa qu)) =
      Some (pre @ map tolower h @ ?post, length pre + length h, length (tail_bytes po pa qu))"
    by (rule host_loop_hit [OF h(4) tail_ends])
  then show ?thesis using Name h(1-3) by (simp add: host_part_def host_str_def)
next
  case (Bracketed h)
  let ?post = "tail_bytes po pa qu @ rest"
  have "skip_loop (\<lambda>c. c = 93) (pre @ (91 # h) @ 93 # ?post) (length pre) (length (91 # h) + (1 + length (tail_bytes po pa qu))) =
      Some (length pre + length (91 # h), 1 + length (tail_bytes po pa qu))"
    by (rule skip_loop_hit) (use ho Bracketed in auto)
  then show ?thesis using Bracketed ho by (simp add: host_part_def host_str_def)
qed

definition uri_bytes :: "u8 list \<Rightarrow> host_text \<Rightarrow> u8 list option \<Rightarrow> u8 list option \<Rightarrow> u8 list option \<Rightarrow> u8 list" where
  "uri_bytes sc ho po pa qu = sc @ [58, 47, 47] @ host_bytes ho @ tail_bytes po pa qu"

definition scheme_ok :: "u8 list \<Rightarrow> bool" where
  "scheme_ok sc \<longleftrightarrow> map tolower sc = COAP_DEFAULT_SCHEME \<or> map tolower sc = COAP_DEFAULT_SCHEME @ [115]"

definition default_uri :: coap_uri_t where
  "default_uri = \<lparr>host = null_str, uport = COAP_DEFAULT_PORT, path = null_str, query = null_str\<rparr>"

lemma tolower_57: "tolower 47 = 47" "tolower 58 = 58"
  by (simp_all add: tolower_def)

lemma map_option_bind_case: "x \<bind> (\<lambda>(r, u, m). Some (r, Some u, Some m)) = map_option (\<lambda>(r, u, m). (r, Some u, Some m)) x"
  by (cases x) auto

lemma split_host:
  assumes "scheme_ok sc"
  shows "coap_split_uri (Some (uri_bytes sc ho po pa qu @ rest)) (length (uri_bytes sc ho po pa qu)) (Some u0) =
    map_option (\<lambda>(r, u, m). (r, Some u, Some m))
      (host_part (uri_bytes sc ho po pa qu @ rest) (length sc + 3) (length (host_bytes ho @ tail_bytes po pa qu)) default_uri)"
proof -
  let ?body = "host_bytes ho @ tail_bytes po pa qu"
  let ?m = "uri_bytes sc ho po pa qu @ rest"
  obtain as bs where sc: "sc = as @ bs" "map tolower as = COAP_DEFAULT_SCHEME" "bs = [] \<or> map tolower bs = [115]"
  proof (cases "map tolower sc = COAP_DEFAULT_SCHEME")
    case True
    then show ?thesis using that [of sc "[]"] by simp
  next
    case False
    then obtain as bs where "sc = as @ bs" "COAP_DEFAULT_SCHEME = map tolower as" "[115] = map tolower bs"
      using assms by (auto simp: scheme_ok_def map_eq_append_conv)
    then show ?thesis using that [of as bs] by simp
  qed
  have n: "length as = 4" using arg_cong [OF sc(2), of length] by (simp add: COAP_DEFAULT_SCHEME_def)
  obtain a as' where a: "as = a # as'" "tolower a = 99" using sc(2) by (cases as) (auto simp: COAP_DEFAULT_SCHEME_def)
  have g0: "byte_at ?m 0 = Some a" "a \<noteq> 47" using a sc(1) tolower_57 by (auto simp: uri_bytes_def byte_at_def)
  have m1: "match_loop ?m COAP_DEFAULT_SCHEME 0 (4 + (length bs + 3 + length ?body)) = Some ([], 4, length bs + 3 + length ?body)"
    using match_loop_hit [OF sc(2), of "[]" "bs @ [58, 47, 47] @ ?body @ rest" "length bs + 3 + length ?body"] n sc(1)
    by (simp add: uri_bytes_def)
  have m2: "match_loop ?m [58, 47, 47] (4 + length bs) (3 + length ?body) = Some ([], length sc + 3, length ?body)"
    using match_loop_hit [of "[58, 47, 47]" "[58, 47, 47]" sc "?body @ rest" "length ?body"] n sc(1)
    by (simp add: uri_bytes_def tolower_57 eval_nat_numeral del: match_loop.simps)
  obtain c where sec: "byte_at ?m 4 = Some c" "tolower c = 115 \<longleftrightarrow> bs \<noteq> []"
    using sc(3) n sc(1) byte_at_append [of as] by (cases bs) (auto simp: uri_bytes_def tolower_57)
  have len: "length (uri_bytes sc ho po pa qu) = 4 + (length bs + 3 + length ?body)" using n sc(1) by (simp add: uri_bytes_def)
  have bs: "length bs = (if bs = [] then 0 else 1)" using sc(3) by (cases bs) auto
  show ?thesis
    unfolding len coap_split_uri_def using g0 m1 m2 sec bs
    by (cases "bs = []") (simp_all add: default_uri_def map_option_bind_case)
qed

section \<open>The phases on arbitrary bytes\<close>

text \<open>The strings of a result lie in the first \<open>n\<close> bytes.\<close>

definition inside :: "nat \<Rightarrow> str \<Rightarrow> bool" where
  "inside n s \<longleftrightarrow> (case str_s s of None \<Rightarrow> str_length s = 0 | Some p \<Rightarrow> p + str_length s \<le> n)"

definition uri_inside :: "nat \<Rightarrow> coap_uri_t \<Rightarrow> bool" where
  "uri_inside n u \<longleftrightarrow> inside n (host u) \<and> inside n (path u) \<and> inside n (query u)"

text \<open>Ten digits in a row in the first \<open>n\<close> bytes, without which a port fits into an \<open>int\<close>.\<close>

definition no_long_number :: "nat \<Rightarrow> u8 list \<Rightarrow> bool" where
  "no_long_number n m \<longleftrightarrow> (\<forall>i. i + 10 \<le> n \<longrightarrow> (\<exists>j<10. \<not> isdigit (m ! (i + j))))"

text \<open>A result inside the first \<open>n\<close> of \<open>k\<close> bytes, with an overflow only where \<open>ov\<close> allows it.\<close>

definition returns_inside :: "bool \<Rightarrow> nat \<Rightarrow> nat \<Rightarrow> (int option \<times> coap_uri_t \<times> u8 list) option \<Rightarrow> bool" where
  "returns_inside ov n k x \<longleftrightarrow> (\<exists>r u m. x = Some (r, u, m) \<and> (case r of None \<Rightarrow> ov | Some r \<Rightarrow> r \<in> {0, -1, -2, -3}) \<and>
     uri_inside n u \<and> length m = k)"

lemma inside_str [simp]: "inside n null_str" "inside n (COAP_SET_STR l p) \<longleftrightarrow> p + l \<le> n"
  by (simp_all add: inside_def null_str_def COAP_SET_STR_def)

lemma returns_now: "r \<in> {0, -1, -2, -3} \<Longrightarrow> uri_inside n u \<Longrightarrow> length m = k \<Longrightarrow> returns_inside ov n k (Some (Some r, u, m))"
  by (simp add: returns_inside_def)

lemma byte_at_some: "i < length m \<Longrightarrow> byte_at m i = Some (m ! i)"
  by (simp add: byte_at_def)

lemma skip_loop_safe:
  "q + len \<le> length m \<Longrightarrow> \<exists>q' n. skip_loop stop m q len = Some (q', n) \<and> q \<le> q' \<and> q' + n = q + len \<and>
    (\<forall>i. q \<le> i \<longrightarrow> i < q' \<longrightarrow> \<not> stop (m ! i))"
proof (induction len arbitrary: q)
  case (Suc len)
  show ?case
  proof (cases "stop (m ! q)")
    case True
    then show ?thesis using Suc.prems by (auto simp: byte_at_some)
  next
    case False
    obtain q' n where s: "skip_loop stop m (q + 1) len = Some (q', n)" "q + 1 \<le> q'" "q' + n = q + 1 + len"
      "\<forall>i. q + 1 \<le> i \<longrightarrow> i < q' \<longrightarrow> \<not> stop (m ! i)" using Suc.IH [of "q + 1"] Suc.prems by auto
    have "\<not> stop (m ! i)" if "q \<le> i" "i < q'" for i using s(4) False that by (cases "i = q") auto
    then show ?thesis using s(1-3) False Suc.prems by (auto simp: byte_at_some)
  qed
qed auto

lemma match_loop_safe:
  "p + len \<le> length m \<Longrightarrow> \<exists>q' p' n. match_loop m q p len = Some (q', p', n) \<and> p' + n = p + len"
proof (induction m q p len rule: match_loop.induct)
  case (3 m c q p len)
  then show ?case by (cases "tolower (m ! p) = c") (auto simp: byte_at_some)
qed auto

lemma host_loop_safe:
  "q + len \<le> length m \<Longrightarrow> \<exists>m' q' n. host_loop m q len = Some (m', q', n) \<and> length m' = length m \<and> q \<le> q' \<and> q' + n = q + len \<and>
    (\<forall>i. q' \<le> i \<longrightarrow> m' ! i = m ! i)"
proof (induction len arbitrary: m q)
  case (Suc len)
  show ?case
  proof (cases "host_ends (m ! q)")
    case True
    then show ?thesis using Suc.prems by (auto simp: byte_at_some)
  next
    case False
    let ?m = "m[q := tolower (m ! q)]"
    obtain m' q' n where s: "host_loop ?m (q + 1) len = Some (m', q', n)" "length m' = length m" "q + 1 \<le> q'" "q' + n = q + 1 + len"
      "\<forall>i. q' \<le> i \<longrightarrow> m' ! i = ?m ! i" using Suc.IH [of "q + 1" ?m] Suc.prems by auto
    have "m' ! i = m ! i" if "q' \<le> i" for i using s(3,5) that by simp
    then show ?thesis using s(1-4) False Suc.prems by (auto simp: byte_at_some set_byte_def)
  qed
qed auto

lemma port_loop_safe:
  "p + n \<le> length m \<Longrightarrow> \<forall>i. p \<le> i \<longrightarrow> i < p + n \<longrightarrow> isdigit (m ! i) \<Longrightarrow> 0 \<le> a \<Longrightarrow> a < 10 ^ k \<Longrightarrow> k + n \<le> 9 \<Longrightarrow>
    \<exists>v. port_loop m p n a = Some (Some v)"
proof (induction n arbitrary: p a k)
  case (Suc n)
  let ?v = "a * 10 + (uint (m ! p) - 48)"
  have d: "0 \<le> uint (m ! p) - 48" "uint (m ! p) - 48 \<le> 9" using isdigit_value [of "m ! p"] Suc.prems(2) by auto
  have v: "0 \<le> ?v" "?v < 10 ^ Suc k" using d Suc.prems(3,4) by simp_all
  have "(10 :: int) ^ Suc k \<le> 10 ^ 9" by (rule power_increasing) (use Suc.prems(5) in simp_all)
  then have "?v < 2147483648" "a * 10 < 2147483648" using v d by simp_all
  moreover have "\<exists>w. port_loop m (p + 1) n ?v = Some (Some w)" by (rule Suc.IH [of _ _ "Suc k"]) (use Suc.prems v in auto)
  ultimately show ?case using Suc.prems(1) by (simp add: byte_at_some Let_def)
qed simp

lemma port_loop_reads: "p + n \<le> length m \<Longrightarrow> \<exists>v. port_loop m p n a = Some v"
  by (induction n arbitrary: p a) (simp_all add: byte_at_some Let_def)

lemma query_part_safe:
  "p + len \<le> n \<Longrightarrow> n \<le> length m \<Longrightarrow> uri_inside n uri \<Longrightarrow> returns_inside ov n (length m) (query_part m p len uri)"
  by (auto simp: query_part_def returns_inside_def byte_at_some uri_inside_def)

lemma path_part_safe:
  assumes "p \<le> q" "q + len \<le> n" "n \<le> length m" "uri_inside n uri"
  shows "returns_inside ov n (length m) (path_part m p q len uri)"
proof (cases "len = 0 \<or> m ! q \<noteq> 47")
  case True
  then show ?thesis using assms query_part_safe [of p len n m uri] by (auto simp: path_part_def byte_at_some returns_now)
next
  case False
  obtain q' k where s: "skip_loop (\<lambda>c. c = 63) m (q + 1) (len - 1) = Some (q', k)" "q + 1 \<le> q'" "q' + k = q + 1 + (len - 1)"
    using skip_loop_safe [of "q + 1" "len - 1" m "\<lambda>c. c = 63"] assms False by auto
  let ?u = "if q + 1 < q' then uri\<lparr>path := COAP_SET_STR (q' - (q + 1)) (q + 1)\<rparr> else uri"
  have "uri_inside n ?u" using assms s(2,3) False by (auto simp: uri_inside_def)
  then have "returns_inside ov n (length m) (query_part m q' k ?u)"
    by (rule query_part_safe [rotated 2]) (use assms s(2,3) False in auto)
  moreover have "path_part m p q len uri = query_part m q' k ?u"
    using s(1,2) False assms by (auto simp: path_part_def byte_at_some)
  ultimately show ?thesis by simp
qed

lemma port_part_safe:
  assumes "p \<le> q" "q + len \<le> n" "n \<le> length m" "uri_inside n uri"
    and d: "\<not> ov \<Longrightarrow> \<forall>i. q \<le> i \<longrightarrow> i + 10 \<le> n \<longrightarrow> (\<exists>j<10. \<not> isdigit (m ! (i + j)))"
  shows "returns_inside ov n (length m) (port_part m p q len uri)"
proof (cases "len = 0 \<or> m ! q \<noteq> 58")
  case True
  then show ?thesis using assms path_part_safe [of p q len n m uri] by (auto simp: port_part_def byte_at_some)
next
  case False
  obtain q' k where s: "skip_loop (\<lambda>c. \<not> isdigit c) m (q + 1) (len - 1) = Some (q', k)" "q + 1 \<le> q'" "q' + k = q + 1 + (len - 1)"
    "\<forall>i. q + 1 \<le> i \<longrightarrow> i < q' \<longrightarrow> isdigit (m ! i)"
    using skip_loop_safe [of "q + 1" "len - 1" m "\<lambda>c. \<not> isdigit c"] assms False by auto
  have k: "q' + k \<le> n" using s(3) assms(2) False by simp
  show ?thesis
  proof (cases "q + 1 < q'")
    case True
    obtain v where v: "port_loop m (q + 1) (q' - (q + 1)) 0 = Some v"
      using port_loop_reads [of "q + 1" "q' - (q + 1)" m 0] k assms(3) True by auto
    have run: "port_part m p q len uri = (case v of None \<Rightarrow> Some (None, uri, m)
        | Some x \<Rightarrow> path_part m q' q' k (uri\<lparr>uport := word_of_int x\<rparr>))"
      using s(1) v True False assms by (simp add: port_part_def byte_at_some)
    show ?thesis
    proof (cases v)
      case None
      have ov
      proof (rule ccontr)
        assume o: "\<not> ov"
        have "10 \<le> q' - (q + 1)"
          using port_loop_safe [of "q + 1" "q' - (q + 1)" m 0 0] s(4) k assms(3) True v None by fastforce
        moreover have "\<exists>j<10. \<not> isdigit (m ! (q + 1 + j))"
          using d [OF o, THEN spec, of "q + 1"] k calculation by simp
        then obtain j where "j < 10" "\<not> isdigit (m ! (q + 1 + j))" by blast
        ultimately show False using s(4) by auto
      qed
      then show ?thesis using run None assms(4) by (simp add: returns_inside_def)
    next
      case (Some x)
      have "uri_inside n (uri\<lparr>uport := word_of_int x\<rparr>)" using assms(4) by (simp add: uri_inside_def)
      then have "returns_inside ov n (length m) (path_part m q' q' k (uri\<lparr>uport := word_of_int x\<rparr>))"
        by (rule path_part_safe [rotated 3]) (use k assms in simp_all)
      then show ?thesis using run Some by simp
    qed
  next
    case again: False
    have "returns_inside ov n (length m) (path_part m (q + 1) q' k uri)" by (rule path_part_safe) (use s(2) k assms in simp_all)
    then show ?thesis using s(1) again False assms by (simp add: port_part_def byte_at_some)
  qed
qed

lemma host_part_safe:
  assumes "p + len \<le> n" "n \<le> length m" "uri_inside n uri" "\<not> ov \<Longrightarrow> no_long_number n m"
  shows "returns_inside ov n (length m) (host_part m p len uri)"
proof (cases "len \<noteq> 0 \<and> m ! p = 91")
  case True
  then obtain l where l: "len = Suc l" by (cases len) auto
  obtain q k where q: "skip_loop (\<lambda>c. c = 93) m (p + 1) l = Some (q, k)" "p + 1 \<le> q" "q + k = p + len"
    using skip_loop_safe [of "p + 1" l m "\<lambda>c. c = 93"] assms l by auto
  then have s: "skip_loop (\<lambda>c. c = 93) m p len = Some (q, k)" using True l assms by (simp add: byte_at_some)
  let ?u = "uri\<lparr>host := COAP_SET_STR (q - (p + 1)) (p + 1)\<rparr>"
  have run: "host_part m p len uri =
      (if k = 0 \<or> p + 1 = q then Some (Some (-3), uri, m) else port_part m (p + 1) (q + 1) (k - 1) ?u)"
    using s True assms by (simp add: host_part_def byte_at_some)
  show ?thesis
  proof (cases "k = 0 \<or> p + 1 = q")
    case True
    then show ?thesis using run assms by (simp add: returns_now)
  next
    case go: False
    then have "uri_inside n ?u" using assms q(2,3) by (auto simp: uri_inside_def)
    then have "returns_inside ov n (length m) (port_part m (p + 1) (q + 1) (k - 1) ?u)"
      by (rule port_part_safe [rotated 3]) (use assms q(2,3) go in \<open>auto simp: no_long_number_def\<close>)
    then show ?thesis using run go by simp
  qed
next
  case False
  obtain m' q k where s: "host_loop m p len = Some (m', q, k)" "length m' = length m" "p \<le> q" "q + k = p + len"
    "\<forall>i. q \<le> i \<longrightarrow> m' ! i = m ! i" using host_loop_safe [of p len m] assms by auto
  let ?u = "uri\<lparr>host := COAP_SET_STR (q - p) p\<rparr>"
  have run: "host_part m p len uri = (if p = q then Some (Some (-3), uri, m') else port_part m' p q k ?u)"
    using s(1) False assms by (cases "len = 0") (simp_all add: host_part_def byte_at_some)
  have "uri_inside n ?u" using assms s(3,4) by (auto simp: uri_inside_def)
  then have "returns_inside ov n (length m') (port_part m' p q k ?u)"
    by (rule port_part_safe [rotated 3]) (use assms s(2-5) in \<open>auto simp: no_long_number_def\<close>)
  then show ?thesis using run s(2) assms by (auto simp: returns_now)
qed

end
