(* ===== verification/Coap_Uri_Properties.thy ===== *)
theory Coap_Uri_Properties
  imports Coap_Uri
begin

text \<open>
  The properties of \<open>coap_split_uri\<close>: it splits what is put together from its parts, but refuses a query right behind the host, and it
  stays inside the bytes it is given.
\<close>

lemma host_part_hit:
  fixes pre ho po pa
  defines "k1 \<equiv> pre @ host_bytes (host_lower ho)" and "k2 \<equiv> pre @ host_bytes (host_lower ho) @ part_text 58 po"
    and "k3 \<equiv> pre @ host_bytes (host_lower ho) @ part_text 58 po @ part_text 47 pa"
  assumes ho: "host_ok ho" and u: "query uri = null_str" "path uri = null_str"
    and q: "po = None \<and> pa = None \<longrightarrow> qu = None"
    and pa: "\<forall>xs. pa = Some xs \<longrightarrow> 63 \<notin> set xs"
    and po: "\<forall>ds. po = Some ds \<longrightarrow> (\<forall>c\<in>set ds. isdigit c) \<and> decimal ds 0 < 2147483648"
  shows "host_part (pre @ host_bytes ho @ tail_bytes po pa qu @ rest) (length pre) (length (host_bytes ho @ tail_bytes po pa qu)) uri =
    Some (Some 0, uri\<lparr>host := host_str (length pre) ho,
        uport := (case po of Some (d # ds) \<Rightarrow> word_of_int (decimal (d # ds) 0) | _ \<Rightarrow> uport uri),
        path := path_str (length k2) pa, query := part_str (length k3) qu\<rparr>,
      k1 @ tail_bytes po pa qu @ rest)"
proof -
  have l: "length k1 = length pre + length (host_bytes ho)" by (cases ho) (simp_all add: k1_def)
  have k: "length k2 = length k1 + length (part_text 58 po)" "length k3 = length k1 + length (part_text 58 po) + length (part_text 47 pa)"
    by (simp_all add: k1_def k2_def k3_def)
  have "port_part (k1 @ tail_bytes po pa qu @ rest) x (length k1) (length (tail_bytes po pa qu)) v =
      Some (Some 0, v\<lparr>uport := (case po of Some (d # ds) \<Rightarrow> word_of_int (decimal (d # ds) 0) | _ \<Rightarrow> uport uri),
        path := path_str (length k2) pa, query := part_str (length k3) qu\<rparr>, k1 @ tail_bytes po pa qu @ rest)"
    if "query v = null_str" "path v = null_str" "uport v = uport uri" for x v
    using port_part_hit [OF that(1,2) q pa po, of k1 rest x] unfolding tail_bytes_def append_assoc k that(3) .
  note e = this [of "uri\<lparr>host := host_str (length pre) ho\<rparr>", unfolded l]
  have "host_part (pre @ host_bytes ho @ tail_bytes po pa qu @ rest) (length pre) (length (host_bytes ho @ tail_bytes po pa qu)) uri =
      port_part (k1 @ tail_bytes po pa qu @ rest) (case ho of Name _ \<Rightarrow> length pre | Bracketed _ \<Rightarrow> length pre + 1)
        (length pre + length (host_bytes ho)) (length (tail_bytes po pa qu)) (uri\<lparr>host := host_str (length pre) ho\<rparr>)"
    unfolding host_part_port [OF ho] k1_def append_assoc ..
  then show ?thesis using e u by simp
qed

lemma text_of_path:
  "text_of (pre @ part_text c pa @ post) (path_str (length pre) pa) = (case pa of None \<Rightarrow> [] | Some xs \<Rightarrow> xs)"
  using text_of_hit [of "pre @ [c]" "the pa" post]
  by (cases pa) (auto simp: path_str_def text_of_def null_str_def COAP_SET_STR_def)

lemma text_of_part:
  "text_of (pre @ part_text c qu @ post) (part_str (length pre) qu) = (case qu of None \<Rightarrow> [] | Some xs \<Rightarrow> xs)"
  using text_of_hit [of "pre @ [c]" "the qu" post] by (cases qu) (auto simp: text_of_def null_str_def COAP_SET_STR_def)

lemma text_of_host:
  "text_of (pre @ host_bytes (host_lower ho) @ post) (host_str (length pre) ho) = host_inner (host_lower ho)"
proof (cases ho)
  case (Name h)
  then show ?thesis using text_of_hit [of pre "map tolower h" post] by (simp add: host_str_def)
next
  case (Bracketed h)
  then show ?thesis using text_of_hit [of "pre @ [91]" h "93 # post"] by (simp add: host_str_def)
qed

text \<open>A query right behind the host, which is refused: \<open>p\<close> still points into the host when the query is looked for.\<close>

definition query_refused :: "u8 list option \<Rightarrow> u8 list option \<Rightarrow> u8 list option \<Rightarrow> bool" where
  "query_refused po pa qu \<longleftrightarrow> po = None \<and> pa = None \<and> qu \<noteq> None"

lemma tolower_query: "tolower c = 63 \<Longrightarrow> c = 63"
proof -
  assume a: "tolower c = 63"
  show "c = 63"
  proof (rule ccontr)
    assume "c \<noteq> 63"
    then have c: "65 \<le> c \<and> c \<le> 90" "c + 32 = 63" using a by (auto simp: tolower_def split: if_splits)
    then have "c = 63 - 32" by (metis add_diff_cancel_right')
    then show False using c(1) by simp
  qed
qed

lemma host_part_query:
  assumes ho: "host_ok ho" and h: "hd (host_inner ho) \<noteq> 63"
  shows "host_part (pre @ host_bytes ho @ tail_bytes None None (Some xs) @ rest) (length pre)
      (length (host_bytes ho @ tail_bytes None None (Some xs))) uri =
    Some (Some (-1), uri\<lparr>host := host_str (length pre) ho\<rparr>, pre @ host_bytes (host_lower ho) @ tail_bytes None None (Some xs) @ rest)"
proof -
  let ?m = "pre @ host_bytes (host_lower ho) @ 63 # xs @ rest"
  let ?p = "case ho of Name _ \<Rightarrow> length pre | Bracketed _ \<Rightarrow> length pre + 1"
  obtain c where c: "byte_at ?m ?p = Some c" "c \<noteq> 63"
  proof (cases ho)
    case (Name k)
    then obtain d ds where "k = d # ds" "d \<noteq> 63" using ho h by (cases k) auto
    then show ?thesis using that [of "tolower d"] Name tolower_query [of d] byte_at_append [of pre] by auto
  next
    case (Bracketed k)
    then obtain d ds where "k = d # ds" "d \<noteq> 63" using ho h by (cases k) auto
    then show ?thesis using that [of d] Bracketed byte_at_append [of "pre @ [91]" d] by auto
  qed
  have l: "length (host_bytes (host_lower ho)) = length (host_bytes ho)" by (cases ho) simp_all
  have g: "byte_at ?m (length pre + length (host_bytes ho)) = Some 63"
    using byte_at_append [of "pre @ host_bytes (host_lower ho)" 63] l by simp
  have "port_part ?m ?p (length pre + length (host_bytes ho)) (Suc (length xs)) v = Some (Some (-1), v, ?m)" for v
    using g c by (simp add: port_part_def path_part_def query_part_def)
  then show ?thesis using host_part_port [OF ho, of pre None None "Some xs" rest uri] by (simp add: tail_bytes_def)
qed

text \<open>
  C32: A URI that is put together from a scheme coap or coaps in any case, a host (a name without : / ? or an address in brackets), and an
  optional port, path and query, is split into these parts again: \<open>coap_split_uri\<close> returns 0, the host is found, a name converted to lower
  case in place and an address in brackets as it was written, the port is the decimal number modulo 2^16, or 5683 without digits,
  and path and query read as they were written. A query that follows the host directly is refused: the result is -1, with the
  host and no query. The decimal number must fit into an \<open>int\<close>, and an address in brackets before such a query must not begin with ?.
\<close>

lemma coap_split_uri_roundtrip:
  assumes sc: "scheme_ok sc" and ho: "host_ok ho"
    and po: "\<forall>ds. po = Some ds \<longrightarrow> (\<forall>c\<in>set ds. isdigit c) \<and> decimal ds 0 < 2147483648"
    and pa: "\<forall>xs. pa = Some xs \<longrightarrow> 63 \<notin> set xs"
    and q: "query_refused po pa qu \<longrightarrow> hd (host_inner ho) \<noteq> 63"
  shows "\<exists>u m. coap_split_uri (Some (uri_bytes sc ho po pa qu @ rest)) (length (uri_bytes sc ho po pa qu)) (Some u0) =
      Some (Some (if query_refused po pa qu then -1 else 0), Some u, Some m) \<and>
    m = uri_bytes sc (host_lower ho) po pa qu @ rest \<and>
    text_of m (host u) = host_inner (host_lower ho) \<and>
    uport u = (case po of Some (d # ds) \<Rightarrow> word_of_int (decimal (d # ds) 0) | _ \<Rightarrow> 5683) \<and>
    text_of m (path u) = (case pa of None \<Rightarrow> [] | Some xs \<Rightarrow> xs) \<and>
    text_of m (query u) = (if query_refused po pa qu then [] else case qu of None \<Rightarrow> [] | Some xs \<Rightarrow> xs) \<and>
    (str_s (query u) = None \<longleftrightarrow> qu = None \<or> query_refused po pa qu)"
proof -
  let ?pre = "sc @ [58, 47, 47]" and ?hb = "host_bytes (host_lower ho)"
  let ?m = "?pre @ ?hb @ tail_bytes po pa qu @ rest"
  let ?qu = "if query_refused po pa qu then None else qu"
  let ?u = "\<lparr>host = host_str (length ?pre) ho,
      uport = (case po of Some (d # ds) \<Rightarrow> word_of_int (decimal (d # ds) 0) | _ \<Rightarrow> 5683),
      path = path_str (length (?pre @ ?hb @ part_text 58 po)) pa,
      query = part_str (length (?pre @ ?hb @ part_text 58 po @ part_text 47 pa)) ?qu\<rparr>"
  have d: "query default_uri = null_str" "path default_uri = null_str" "uport default_uri = 5683"
    by (simp_all add: default_uri_def)
  have "host_part (?pre @ host_bytes ho @ tail_bytes po pa qu @ rest) (length ?pre) (length (host_bytes ho @ tail_bytes po pa qu)) default_uri =
      Some (Some (if query_refused po pa qu then -1 else 0), ?u, ?m)"
  proof (cases "query_refused po pa qu")
    case True
    then obtain xs where "po = None" "pa = None" "qu = Some xs" unfolding query_refused_def by blast
    then show ?thesis using host_part_query [OF ho, of ?pre xs rest default_uri] q True
      by (simp add: default_uri_def path_str_def)
  next
    case False
    then have "po = None \<and> pa = None \<longrightarrow> qu = None" by (auto simp: query_refused_def)
    then show ?thesis
      using host_part_hit [OF ho d(1,2) _ pa po, of qu ?pre rest] False unfolding d(3) by (simp add: default_uri_def)
  qed
  then have run: "coap_split_uri (Some (uri_bytes sc ho po pa qu @ rest)) (length (uri_bytes sc ho po pa qu)) (Some u0) =
      Some (Some (if query_refused po pa qu then -1 else 0), Some ?u, Some ?m)"
    unfolding split_host [OF sc] by (simp add: uri_bytes_def numeral_3_eq_3)
  have "text_of ?m (host ?u) = host_inner (host_lower ho)" using text_of_host [of ?pre ho] by simp
  moreover have "text_of ?m (path ?u) = (case pa of None \<Rightarrow> [] | Some xs \<Rightarrow> xs)"
    using text_of_path [of "?pre @ ?hb @ part_text 58 po" 47 pa "part_text 63 qu @ rest"] by (simp add: tail_bytes_def)
  moreover have "text_of ?m (query ?u) = (if query_refused po pa qu then [] else case qu of None \<Rightarrow> [] | Some xs \<Rightarrow> xs)"
    using text_of_part [of "?pre @ ?hb @ part_text 58 po @ part_text 47 pa" 63 qu rest]
    by (simp add: tail_bytes_def) (simp add: text_of_def null_str_def)
  moreover have "str_s (query ?u) = None \<longleftrightarrow> qu = None \<or> query_refused po pa qu" by (cases qu) (simp_all add: null_str_def COAP_SET_STR_def)
  moreover have "?m = uri_bytes sc (host_lower ho) po pa qu @ rest" by (simp add: uri_bytes_def)
  ultimately show ?thesis using run by auto
qed

text \<open>The URI COAP://H:80/a?b.\<close>

lemma coap_split_uri_roundtrip_witness:
  "\<exists>u m. coap_split_uri (Some [67, 79, 65, 80, 58, 47, 47, 72, 58, 56, 48, 47, 97, 63, 98, 0]) 15 (Some default_uri) = Some (Some 0, Some u, Some m) \<and>
    text_of m (host u) = [104] \<and> uport u = 80 \<and> text_of m (path u) = [97] \<and> text_of m (query u) = [98]"
proof -
  let ?ho = "Name [72]" and ?po = "Some [56, 48]" and ?pa = "Some [97]" and ?qu = "Some [98]"
  have l: "length (uri_bytes [67, 79, 65, 80] ?ho ?po ?pa ?qu) = 15" by (simp add: uri_bytes_def tail_bytes_def)
  show ?thesis
    using coap_split_uri_roundtrip [of "[67, 79, 65, 80]" ?ho ?po ?pa ?qu "[0]" default_uri] unfolding l
    by (auto simp: query_refused_def scheme_ok_def COAP_DEFAULT_SCHEME_def tolower_def host_ends_def isdigit_def decimal_def uri_bytes_def tail_bytes_def)
qed

lemma split_inside:
  assumes "m \<noteq> []" "len \<le> length m"
  shows "\<exists>r u m'. coap_split_uri (Some m) len (Some u0) = Some (r, Some u, Some m') \<and>
    (case r of None \<Rightarrow> \<not> no_long_number len m | Some r \<Rightarrow> r \<in> {0, -1, -2, -3}) \<and> uri_inside len u \<and> length m' = length m"
proof -
  have d: "uri_inside len default_uri" by (simp add: uri_inside_def default_uri_def)
  have done_inside: ?thesis
    if "coap_split_uri (Some m) len (Some u0) = map_option (\<lambda>(r, u, m). (r, Some u, Some m)) x" "returns_inside (\<not> no_long_number len m) len (length m) x" for x
    using that by (auto simp: returns_inside_def)
  note run = coap_split_uri_def default_uri_def [symmetric] map_option_bind_case byte_at_some
  show ?thesis
  proof (cases "m ! 0 = 47")
    case True
    show ?thesis by (rule done_inside [OF _ path_part_safe [of 0 0 len len m default_uri]]) (use True assms d in \<open>simp_all add: run\<close>)
  next
    case False
    obtain q p n where s1: "match_loop m COAP_DEFAULT_SCHEME 0 len = Some (q, p, n)" "p + n = len"
      using match_loop_safe [of 0 len m] assms(2) by force
    show ?thesis
    proof (cases "q = []")
      case scheme: True
      define sec where "sec = (n \<noteq> 0 \<and> tolower (m ! p) = 115)"
      define p1 where "p1 = (if sec then p + 1 else p)"
      define n1 where "n1 = (if sec then n - 1 else n)"
      have pn: "p1 + n1 = len" using s1(2) by (auto simp: p1_def n1_def sec_def)
      obtain q2 p2 n2 where s2: "match_loop m [58, 47, 47] p1 n1 = Some (q2, p2, n2)" "p2 + n2 = len"
        using match_loop_safe [of p1 n1 m] pn assms(2) by force
      have step: "coap_split_uri (Some m) len (Some u0) = map_option (\<lambda>(r, u, m). (r, Some u, Some m))
          (if q2 \<noteq> [] then Some (Some (-2), default_uri, m) else host_part m p2 n2 default_uri)"
        using False assms s1 s2 scheme by (cases "n = 0") (auto simp: run p1_def n1_def sec_def)
      show ?thesis
        by (rule done_inside [OF step]) (use host_part_safe [of p2 n2 len m default_uri "\<not> no_long_number len m"] s2(2) assms d in \<open>simp add: returns_now\<close>)
    next
      case other: False
      show ?thesis
        by (rule done_inside [of "Some (Some (-1), default_uri, m)"]) (use False other assms s1 d in \<open>simp_all add: run returns_now\<close>)
    qed
  qed
qed

text \<open>The copy of \<open>coap_new_uri\<close> is zero-terminated, so that it can hold an empty URI too.\<close>

lemma new_uri_inside:
  assumes "len \<le> length uri" "no_long_number len uri"
  shows "coap_new_uri True uri len = Some None \<or>
    (\<exists>u m. coap_new_uri True uri len = Some (Some (u, m)) \<and> uri_inside len u \<and> length m = len + 1)"
proof -
  let ?m = "take len uri @ [0]"
  have "\<exists>j<10. \<not> isdigit (?m ! (i + j))" if i: "i + 10 \<le> len" for i
  proof -
    obtain j where "j < 10" "\<not> isdigit (uri ! (i + j))" using assms(2) i by (auto simp: no_long_number_def)
    then show ?thesis using i assms(1) by (intro exI [of _ j]) (simp add: nth_append)
  qed
  then have "no_long_number len ?m" by (simp add: no_long_number_def)
  then obtain r u m' where "coap_split_uri (Some ?m) len
      (Some \<lparr>host = null_str, uport = 0, path = null_str, query = null_str\<rparr>) = Some (Some r, Some u, Some m')"
    "uri_inside len u" "length m' = length ?m"
    using split_inside [of ?m len "\<lparr>host = null_str, uport = 0, path = null_str, query = null_str\<rparr>"] assms(1)
    by (auto split: option.splits)
  then show ?thesis using assms(1) by (simp add: coap_new_uri_def)
qed

text \<open>
  C33: On arbitrary bytes \<open>m\<close>, of which the caller passes the first \<open>len\<close>, \<open>coap_split_uri\<close> leaves the bytes only when there are none: the
  first byte is read without looking at \<open>len\<close>. Otherwise it reads and writes inside \<open>m\<close>, and unless the \<open>int\<close> for the port
  overflows, which needs ten digits in a row in the first \<open>len\<close> bytes, it returns with 0, -1, -2 or -3. The host, path and query that it
  has set by then lie in the first \<open>len\<close> bytes.
\<close>

lemma coap_split_uri_stays_inside:
  assumes "len \<le> length m"
  shows "if m = [] then coap_split_uri (Some m) len (Some u0) = None
    else \<exists>r u m'. coap_split_uri (Some m) len (Some u0) = Some (r, Some u, Some m') \<and>
      (case r of None \<Rightarrow> \<not> no_long_number len m | Some r \<Rightarrow> r \<in> {0, -1, -2, -3}) \<and> uri_inside len u \<and> length m' = length m"
  using split_inside [OF _ assms] by (simp add: coap_split_uri_def byte_at_def)

text \<open>The bytes coap://a:99999999999 with an overflow, and the nine bytes coap://a/ with a terminator.\<close>

lemma coap_split_uri_stays_inside_witness:
  "coap_split_uri (Some []) 0 (Some default_uri) = None \<and>
   (\<exists>u m'. coap_split_uri (Some [99, 111, 97, 112, 58, 47, 47, 97, 58, 57, 57, 57, 57, 57, 57, 57, 57, 57, 57, 57]) 20 (Some default_uri) =
      Some (None, Some u, Some m') \<and> uri_inside 20 u) \<and>
   (\<exists>r u m'. coap_split_uri (Some [99, 111, 97, 112, 58, 47, 47, 97, 47, 0]) 9 (Some default_uri) = Some (Some r, Some u, Some m') \<and>
      r \<in> {0, -1, -2, -3} \<and> uri_inside 9 u \<and> length m' = 10)"
proof (intro conjI)
  show "coap_split_uri (Some []) 0 (Some default_uri) = None" using coap_split_uri_stays_inside [of 0 "[]" default_uri] by simp
  let ?a = "[99, 111, 97, 112, 58, 47, 47, 97, 58, 57, 57, 57, 57, 57, 57, 57, 57, 57, 57, 57] :: u8 list"
  obtain r u m' where a: "coap_split_uri (Some ?a) 20 (Some default_uri) = Some (r, Some u, Some m')" "uri_inside 20 u"
    using coap_split_uri_stays_inside [of 20 ?a default_uri] by auto
  have "map_option fst (coap_split_uri (Some ?a) 20 (Some default_uri)) = Some None" by code_simp
  then show "\<exists>u m'. coap_split_uri (Some ?a) 20 (Some default_uri) = Some (None, Some u, Some m') \<and> uri_inside 20 u" using a by auto
  show "\<exists>r u m'. coap_split_uri (Some [99, 111, 97, 112, 58, 47, 47, 97, 47, 0]) 9 (Some default_uri) = Some (Some r, Some u, Some m') \<and>
      r \<in> {0, -1, -2, -3} \<and> uri_inside 9 u \<and> length m' = 10"
    using coap_split_uri_stays_inside [of 9 "[99, 111, 97, 112, 58, 47, 47, 97, 47, 0]" default_uri]
    by (auto simp: no_long_number_def split: option.splits)
qed

end
