(* ===== verification/Spec2Isabelle.thy ===== *)
theory Spec2Isabelle
  imports Prelude Kernel_List Task_State Tasks Task_Control Task_Frames Kernel_Properties Queue Queue_Fifo Queue_Ops Queue_Properties
    Timers Timer_View Timer_Switch Timer_Task Timer_Wait Timer_Commands Timer_Properties
    Sys_Arch Sys_Arch_Properties
    Coap_Message Coap_Codec Coap_Parse Coap_Serialize Coap_Roundtrip Coap_Build Coap_Properties
    Coap_List Coap_Transactions Coap_Uri Coap_Uri_Properties
begin

text \<open>
  A verification development for the firmware in this repository: the FreeRTOS kernel of the ESP8266
  (src/FreeRTOS/Source and src/FreeRTOS/Source/portable/esp8266), the system layer of the network stack
  (src/lwip/sys_arch.c) and the CoAP layer of the Web-of-Things application (src/coap).

  \<^bold>\<open>The program and its parts.\<close> The kernel is a priority scheduler with time slicing. Its state is a set of
  doubly linked lists (list.c) that hold task control blocks (tasks.c): one ready list per priority, two
  delayed lists that swap when the 32-bit tick counter wraps, and the pending, suspended and deleted
  lists. Queues (queue.c) hold items in a ring buffer, and in two more lists the tasks that wait to
  send or to receive; semaphores and mutexes are queues. Software timers (timers.c) are a task that
  receives commands through a queue and keeps its timers in two more lists. The port (port.c, portmacro.h)
  calls the tick handler and the context switch from interrupts. The network stack reaches the kernel through
  sys_arch.c: its mailboxes, semaphores and mutexes are queues, its threads tasks. The CoAP layer
  (er-coap-13.c) turns a packet record into the bytes of a datagram and back; the application sets and reads the fields of the
  record with its getters and setters. Open requests are kept as transactions in a singly linked list
  (er-coap-13-transactions.c, list.c), and a URI is split into host, port, path and query in place (uri.c).

  \<^bold>\<open>Theories.\<close>
  \<^item> Prelude: machine types, constants, rule collections, lemmas on lists and words.
  \<^item> Kernel_List: list.c and list.h on an explicit pointer store. \<open>list_items\<close> reads the abstract
    list off the store, \<open>heap_wf\<close> is its well-formedness; the locale \<open>kernel_lists\<close> is the interface the
    scheduler uses, interpreted on the store as \<open>heap_lists\<close>.
  \<^item> Task_State: the TCB and the static variables of tasks.c (record \<open>kernel\<close>), the ready lists, the
    selection loop, the switch of the delayed lists, and the invariant \<open>kinv\<close> of the scheduler.
  \<^item> Tasks: ticks, context switches, suspending and resuming the scheduler, delays, event lists,
    time-outs, and the system-tick handler of the port.
  \<^item> Task_Control: creating and deleting tasks, the idle task, suspension, priorities, priority
    inheritance, starting and ending the scheduler.
  \<^item> Task_Frames: what each of these operations leaves alone, for the queues.
  \<^item> Kernel_Properties: the properties of lists and scheduler, on a sample kernel for the witnesses.
  \<^item> Queue: queue.c. A queue is a record at an address, its storage a block of bytes.
  \<^item> Queue_Fifo: the ring buffer as a list of items. Queue_Ops: the invariant \<open>sys_ok\<close> of the kernel
    with its queues and the effect of every queue operation. Queue_Properties: the locale
    \<open>bounded_fifo\<close>, interpreted on the task calls (\<open>task_fifo\<close>) and on the interrupt calls (\<open>isr_fifo\<close>),
    and the properties of queues, semaphores and mutexes.
  \<^item> Timers: timers.c and timers.h. The record \<open>timer_service\<close> holds the system of kernel and queues, the timers,
    their two lists and the last sampled time; a callback is an argument. Timer_View: the lists as a map
    from timers to their true expiry times (\<open>timer_expiry\<close>, unbounded), the invariant \<open>service_ok\<close>, the
    command queue. Timer_Switch: the switch of the lists when the tick counter wraps. Timer_Task: sampling
    the time and the start command. Timer_Wait: the timer task blocking for its next expiry.
    Timer_Commands: every command keeps the invariant. Timer_Properties: the properties, on a sample service.
  \<^item> Sys_Arch: sys_arch.c on the queues and tasks, with the critical sections of port.c. A call that waits runs
    the passes of its queue call in a \<open>partial_function\<close>; the interrupts in a pass and the other tasks between two
    passes are arguments. Sys_Arch_Properties: its properties, which rest on \<open>task_fifo\<close> and \<open>isr_fifo\<close>.
  \<^item> Coap_Message: er-coap-13.c and er-coap-13.h, the packet record, the serialiser, the parser, the
    getters and setters. Coap_Codec: bytes, option headers and the option bitmap. Coap_Parse: the
    parser refines a reference decoder on option lists. Coap_Serialize: the serialiser writes the
    encoding of the options of the packet. Coap_Roundtrip: parsing what was serialised. Coap_Build:
    packets built with the setters. Coap_Properties: the properties, with a sample packet.
  \<^item> Coap_List: list.c on a store of links, the locale \<open>item_list\<close> with its interpretation \<open>links\<close>.
    Coap_Transactions: er-coap-13-transactions.c on these lists, the table it implements. Coap_Uri: uri.c and
    str.c, the phases of the splitter. Coap_Uri_Properties: the properties of the splitter.

  \<^bold>\<open>State and operations.\<close> A C function is a definition of its name. A pointer to a structure is a key of a
  map in the state record, a \<open>NULL\<close> dereference, an access outside a block or a loop that does not end is the
  result \<open>None\<close>, so a theorem that gives \<open>Some\<close> also says that the call is free of them. Counters and ticks
  are \<open>32 word\<close>, so they wrap as in C. The configuration of FreeRTOSConfig.h is fixed: 15 priorities,
  preemption, time slicing, mutexes, task deletion and suspension, software timers; no queue sets, no
  tick hook, no tickless idle, and \<open>configASSERT\<close> expands to nothing.

  \<^bold>\<open>Interrupts.\<close> One pass of the loop of \<open>xQueueGenericSend\<close> or \<open>xQueueGenericReceive\<close> is a definition with an argument \<open>irq n\<close>, the
  effect of the interrupts at the n-th point where they can run: after the critical section at the start of the
  pass (0), after \<open>vTaskSuspendAll\<close> (1), \<open>prvLockQueue\<close> (2), \<open>xTaskCheckForTimeOut\<close> (3), the test for a full or empty queue (4),
  \<open>vTaskPriorityInherit\<close> (5) and \<open>vTaskPlaceOnEventList\<close> (6), and after the first (7) and the second (8) critical section of
  \<open>prvUnlockQueue\<close>. So every critical section of the pass but the one of \<open>xTaskResumeAll\<close>, which ends the pass, is followed by such a
  point. The properties of these passes hold for every sequence of queue calls from interrupt handlers there, and of tick
  interrupts while the scheduler is suspended (\<open>isr_handler\<close>). A call of the kernel is one step: interrupts inside
  \<open>vTaskPlaceOnEventList\<close>, which runs with interrupts enabled, are not modelled. Other tasks that run between the start of a
  pass and \<open>vTaskSuspendAll\<close> are covered as far as they keep \<open>isr_step\<close>: they create and delete no tasks and queues, and the caller
  runs again. After a pass the task waits to be scheduled; the interrupts and tasks that run then are an argument of the
  calls of sys_arch.c, and the next pass starts from the state they leave. The calls of the timer task and
  \<open>vQueueWaitForMessageRestricted\<close> are modelled without interrupts.

  \<^bold>\<open>What the lemmas show.\<close>
  \<^item> Lists: every operation keeps \<open>heap_wf\<close> and has the effect of its counterpart on the abstract list;
    \<open>vListInsert\<close> keeps a list sorted, and \<open>listGET_OWNER_OF_NEXT_ENTRY\<close> visits the items in turn.
  \<^item> Scheduler: the invariant is kept by ticks, switches, delays, creation, deletion, suspension and
    priority changes; a task that delays for n ticks is woken by the n-th tick, also across a wrap of
    the counter and while the scheduler is suspended; the selected task is one of the highest ready
    priority, and tasks of one priority take turns; time-out arithmetic is exact.
  \<^item> Queues: the task and the interrupt calls refine a bounded list; a waiting task is woken when an
    item comes, no wake-up is lost to an interrupt; a waiting pass times out; a mutex has one holder and
    lends its priority and takes it back.
  \<^item> Timers: a timer is linked with its exact expiry time across the wrap of the counter, or processed at
    once exactly when that time has come; expired timers are called once per missed period, in the drain at
    a wrap and after a late command; the task blocks until exactly its next expiry; commands keep the service.
  \<^item> The lwIP port: mailboxes are bounded lists of pointers for tasks and interrupts; a thread that waits for a
    mailbox or a semaphore, or for room in a mailbox, returns once the other tasks have left something (or room): the run
    of its queue call (\<open>waits\<close>) reaches a pass that takes the oldest item there, or times out, and the time waited is
    reported; critical sections nest.
  \<^item> CoAP: parsing the bytes of a serialised packet gives back its options, token and payload, for packets without
    Proxy-Uri and without separators at the edges of their paths and queries; on the encoding of a sequence of options with
    ascending numbers below 40 that it accepts, the parser agrees with the reference decoder. Every setter except those of
    Uri-Query and Location-Path, which store no string, keeps a packet serialisable without a read outside its
    memory; the serialiser compares the length of the header with its limit only after writing it, so that the
    output buffer can be overrun. A successful result has at most \<open>COAP_MAX_HEADER_SIZE\<close> bytes, the payload marker and the payload.
    Transactions behave like a table in the order of creation. A URI put together from its parts is split into them, with
    a name as host in lower case, the port modulo 2^16, and a query right behind the host refused. The splitter leaves its bytes
    only if there are none, and overflows the \<open>int\<close> of the port only where ten digits follow each other.

  \<^bold>\<open>Fuel and bounds.\<close> The loops of the kernel are \<open>function\<close>s with a measure, or \<open>partial_function (option)\<close>
  with a theorem that they return under the invariant. \<open>walk_items\<close> follows as many links as the list
  counts, which by \<open>heap_wf\<close> is its length. The parser recurses on the bytes left, the loops of the URI
  splitter on their remaining length; the loops over the singly linked lists end on a chain without a circle,
  which every operation keeps. The properties bound the
  number of tasks by the 32-bit counters only.

  \<^bold>\<open>Not modelled.\<close> The context switch in assembly and the saving of registers (portasm), the heap allocator,
  whose results are arguments of the calls that allocate, the trace and statistics code that the
  configuration leaves out, co-routines, the peripheral drivers of src/core and src/extras and the start-up code, whose
  effects are on registers and in the closed SDK, and the third-party code in the tree: the stack of lwIP
  itself, mbed TLS, the C library and the binary libraries.
  The endless loop of the timer task is one definition for one turn; the callbacks of timers are arguments
  with the contract \<open>callback_ok\<close>. The sum of sizes passed to \<open>malloc\<close> in str.c and uri.c is taken not to
  wrap, as no such block fits the memory.\<close>

end
